(* ===== verification/Prelude.thy ===== *)
theory Prelude
  imports Main "HOL-Library.Word"
begin

unbundle bit_operations_syntax

text \<open>
  Shared vocabulary of the development: machine types of the 32-bit kernel, the faults a
  C function can end in, the flat byte memory with its little-endian accessors, and the
  separation lemmas that every component's proofs use.

  Memory is one function from 32-bit linear addresses to bytes, as the kernel sees it:
  structs, arrays, page tables, strings and the text screen all live in it at the offsets the
  compiler gives them. \<open>kernel/head.s\<close> maps linear 0xc0000000 and above, \<open>arch_init\<close> maps
  0x80000000 to 0xbfffffff, and nothing maps the lower half, so a dereference below
  0x80000000 is a page fault (\<open>deref\<close>).
\<close>

named_theorems fault_simps \<open>evaluation of the fault monad\<close>
named_theorems mem_simps \<open>loads over stores\<close>

section \<open>Machine types and faults\<close>

type_synonym u8 = "8 word"
type_synonym u16 = "16 word"
type_synonym u32 = "32 word"
type_synonym addr = "32 word"
type_synonym memory = "addr \<Rightarrow> u8"

text \<open>
  How a C function can fail to return: an access through an unmapped pointer, a division by
  zero, an array index outside its array, a call of \<open>panic\<close>, a behaviour C leaves undefined
  (signed overflow, a missing return value or variadic argument), or a loop that never ends.
\<close>

datatype fault =
    Page_Fault addr
  | Divide_Error
  | Out_Of_Bounds
  | Panic string
  | Undefined
  | Diverges

type_synonym 'a result = "fault + 'a"

definition bindE :: "'a result \<Rightarrow> ('a \<Rightarrow> 'b result) \<Rightarrow> 'b result" where
  "bindE r f = (case r of Inl e \<Rightarrow> Inl e | Inr x \<Rightarrow> f x)"

text \<open>A loop written with \<open>partial_function (option)\<close>: \<open>None\<close> is non-termination.\<close>

definition returns :: "'a result option \<Rightarrow> 'a result" where
  "returns r = (case r of None \<Rightarrow> Inl Diverges | Some x \<Rightarrow> x)"

definition mapped :: "addr \<Rightarrow> bool" where
  "mapped p \<longleftrightarrow> 0x80000000 \<le> p"

definition deref :: "addr \<Rightarrow> 'a result \<Rightarrow> 'a result" where
  "deref p r = (if mapped p then r else Inl (Page_Fault p))"

text \<open>The value of a signed \<open>int\<close> expression; C leaves an overflow undefined.\<close>

definition c_int :: "int \<Rightarrow> int result" where
  "c_int v = (if - (2 ^ 31) \<le> v \<and> v < 2 ^ 31 then Inr v else Inl Undefined)"

lemma c_int_ok [simp]: "- (2 ^ 31) \<le> v \<Longrightarrow> v < 2 ^ 31 \<Longrightarrow> c_int v = Inr v"
  by (simp add: c_int_def)

lemma bindE_simps [simp, fault_simps]:
  "bindE (Inl e) f = Inl e"
  "bindE (Inr x) f = f x"
  by (simp_all add: bindE_def)

lemma bindE_Inr_iff: "bindE r f = Inr y \<longleftrightarrow> (\<exists>x. r = Inr x \<and> f x = Inr y)"
  by (cases r) auto

lemma bindE_assoc: "bindE (bindE r f) g = bindE r (\<lambda>x. bindE (f x) g)"
  by (cases r) auto

lemma returns_simps [simp, fault_simps]:
  "returns None = Inl Diverges"
  "returns (Some r) = r"
  by (simp_all add: returns_def)

lemma deref_mapped [simp]: "mapped p \<Longrightarrow> deref p r = r"
  by (simp add: deref_def)

lemma deref_unmapped [simp]: "\<not> mapped p \<Longrightarrow> deref p r = Inl (Page_Fault p)"
  by (simp add: deref_def)

lemma deref_Inr_iff: "deref p r = Inr y \<longleftrightarrow> mapped p \<and> r = Inr y"
  by (simp add: deref_def)

lemma mapped_0 [simp]: "\<not> mapped 0"
  by (simp add: mapped_def)

lemma mapped_nonzero: "mapped p \<Longrightarrow> p \<noteq> 0"
  by auto

section \<open>Byte memory\<close>

definition load16 :: "memory \<Rightarrow> addr \<Rightarrow> u16" where
  "load16 m a = ucast (m a) OR push_bit 8 (ucast (m (a + 1)))"

definition load32 :: "memory \<Rightarrow> addr \<Rightarrow> u32" where
  "load32 m a = ucast (m a) OR push_bit 8 (ucast (m (a + 1)))
     OR push_bit 16 (ucast (m (a + 2))) OR push_bit 24 (ucast (m (a + 3)))"

definition store32 :: "memory \<Rightarrow> addr \<Rightarrow> u32 \<Rightarrow> memory" where
  "store32 m a v = m(a := ucast v, a + 1 := ucast (drop_bit 8 v),
     a + 2 := ucast (drop_bit 16 v), a + 3 := ucast (drop_bit 24 v))"

definition store16 :: "memory \<Rightarrow> addr \<Rightarrow> u16 \<Rightarrow> memory" where
  "store16 m a v = m(a := ucast v, a + 1 := ucast (drop_bit 8 v))"

text \<open>The bytes \<open>p, \<dots>, p + n - 1\<close> of an object that does not wrap around the address space.\<close>

definition block :: "addr \<Rightarrow> nat \<Rightarrow> addr set" where
  "block p n = {x. unat p \<le> unat x \<and> unat x < unat p + n}"

text \<open>Two memories that agree on a set of addresses, and a write confined to a set.\<close>

definition same_on :: "addr set \<Rightarrow> memory \<Rightarrow> memory \<Rightarrow> bool" where
  "same_on A m m' \<longleftrightarrow> (\<forall>a \<in> A. m' a = m a)"

definition same_off :: "addr set \<Rightarrow> memory \<Rightarrow> memory \<Rightarrow> bool" where
  "same_off A m m' \<longleftrightarrow> (\<forall>a. a \<notin> A \<longrightarrow> m' a = m a)"

text \<open>Distance in both directions at least four: the two 32-bit cells share no byte.\<close>

definition apart :: "addr \<Rightarrow> addr \<Rightarrow> bool" where
  "apart a b \<longleftrightarrow> 4 \<le> b - a \<and> 4 \<le> a - b"

text \<open>Two objects that do not wrap around and do not overlap.\<close>

definition sep :: "addr \<Rightarrow> nat \<Rightarrow> addr \<Rightarrow> nat \<Rightarrow> bool" where
  "sep p n q k \<longleftrightarrow> unat p + n \<le> 2 ^ 32 \<and> unat q + k \<le> 2 ^ 32
     \<and> (unat p + n \<le> unat q \<or> unat q + k \<le> unat p)"

definition aligned4 :: "addr \<Rightarrow> bool" where
  "aligned4 a \<longleftrightarrow> 4 dvd unat a"

definition page_aligned :: "addr \<Rightarrow> bool" where
  "page_aligned a \<longleftrightarrow> 4096 dvd unat a"

lemma load32_store32_same [simp, mem_simps]: "load32 (store32 m a v) a = v"
proof -
  have "a + 1 \<noteq> a" "a + 2 \<noteq> a" "a + 3 \<noteq> a"
    and "a + 2 \<noteq> a + 1" "a + 3 \<noteq> a + 1" "a + 3 \<noteq> a + 2"
    by simp_all
  then have "load32 (store32 m a v) a = (ucast (ucast v :: u8) OR push_bit 8 (ucast (ucast (drop_bit 8 v) :: u8))
     OR push_bit 16 (ucast (ucast (drop_bit 16 v) :: u8)) OR push_bit 24 (ucast (ucast (drop_bit 24 v) :: u8)) :: u32)"
    by (simp add: load32_def store32_def)
  also have "\<dots> = v"
  proof (rule bit_word_eqI)
    fix n assume "n < LENGTH(32)"
    then have "n < 8 \<or> (8 \<le> n \<and> n < 16) \<or> (16 \<le> n \<and> n < 24) \<or> (24 \<le> n \<and> n < 32)"
      by auto
    then show "bit (ucast (ucast v :: u8) OR push_bit 8 (ucast (ucast (drop_bit 8 v) :: u8))
      OR push_bit 16 (ucast (ucast (drop_bit 16 v) :: u8))
      OR push_bit 24 (ucast (ucast (drop_bit 24 v) :: u8)) :: u32) n = bit v n"
      by (elim disjE conjE) (simp_all add: bit_simps, auto)
  qed
  finally show ?thesis .
qed

lemma load16_store16_same [simp, mem_simps]: "load16 (store16 m a v) a = v"
proof -
  have "load16 (store16 m a v) a = (ucast (ucast v :: u8) OR push_bit 8 (ucast (ucast (drop_bit 8 v) :: u8)) :: u16)"
    by (simp add: load16_def store16_def)
  also have "\<dots> = v"
    by (rule bit_word_eqI) (auto simp: bit_simps not_less dest: bit_imp_le_length)
  finally show ?thesis .
qed

lemma store32_other:
  "x \<noteq> a \<Longrightarrow> x \<noteq> a + 1 \<Longrightarrow> x \<noteq> a + 2 \<Longrightarrow> x \<noteq> a + 3 \<Longrightarrow> store32 m a v x = m x"
  by (simp add: store32_def)

lemma load32_cong:
  "m' a = m a \<Longrightarrow> m' (a + 1) = m (a + 1) \<Longrightarrow> m' (a + 2) = m (a + 2) \<Longrightarrow> m' (a + 3) = m (a + 3)
     \<Longrightarrow> load32 m' a = load32 m a"
  by (simp add: load32_def)

lemma load32_bytes:
  "ucast (load32 m a) = m a" "ucast (drop_bit 8 (load32 m a)) = m (a + 1)"
  "ucast (drop_bit 16 (load32 m a)) = m (a + 2)" "ucast (drop_bit 24 (load32 m a)) = m (a + 3)"
  by (rule bit_word_eqI; auto simp: load32_def bit_simps dest: bit_imp_le_length)+

lemma store32_id: "store32 m a (load32 m a) = m"
  by (simp add: store32_def load32_bytes fun_upd_idem_iff)

lemma apart_neq:
  assumes "apart a b" and "i < 4" and "j < 4"
  shows "a + i \<noteq> b + j"
proof
  assume eq: "a + i = b + j"
  then have d: "b - a = i - j" "a - b = j - i"
    by (simp_all add: algebra_simps)
  show False
  proof (cases "j \<le> i")
    case True
    then have "unat (i - j) \<le> unat i" by (simp add: unat_sub_if' word_le_nat_alt)
    with d(1) assms show False by (simp add: apart_def word_le_nat_alt word_less_nat_alt)
  next
    case False
    then have "unat (j - i) \<le> unat j" by (simp add: unat_sub_if' word_le_nat_alt)
    with d(2) assms show False by (simp add: apart_def word_le_nat_alt word_less_nat_alt)
  qed
qed

lemma load32_store32_apart [mem_simps]:
  assumes "apart a b"
  shows "load32 (store32 m a v) b = load32 m b"
proof -
  have off: "store32 m a v (b + j) = m (b + j)" if "j < 4" for j
    by (rule store32_other)
      (use apart_neq [OF assms, of 0 j] apart_neq [OF assms, of 1 j] apart_neq [OF assms, of 2 j]
        apart_neq [OF assms, of 3 j] that in auto)
  show ?thesis
    using off [of 0] off [of 1] off [of 2] off [of 3] by (intro load32_cong) simp_all
qed

section \<open>Address arithmetic\<close>

lemma unat_lt [simp]: "unat (a :: addr) < 4294967296"
  using unsigned_less [of a, where 'a = nat] by simp

lemma unat_add_of_nat:
  "unat (a :: addr) + n < 2 ^ 32 \<Longrightarrow> unat (a + of_nat n) = unat a + n"
  by (simp add: unat_word_ariths unat_of_nat)

lemma unat_add_word:
  "unat (a :: addr) + unat b < 2 ^ 32 \<Longrightarrow> unat (a + b) = unat a + unat b"
  by (simp add: unat_word_ariths)

lemma eq_of_unat: "unat (a :: addr) = n \<Longrightarrow> a = of_nat n"
  by auto

lemma dvd_less_imp_add_le: "(d :: nat) dvd x \<Longrightarrow> x < d * n \<Longrightarrow> x + d \<le> d * n"
  by (metis add.commute dvd_add_triv_left_iff dvd_def mult_Suc_right mult_le_mono2 mult_less_cancel1 not_less_eq_eq not_le)

lemma mem_block_iff: "x \<in> block p n \<longleftrightarrow> unat p \<le> unat x \<and> unat x < unat p + n"
  by (simp add: block_def)

lemma block_add_of_nat:
  "unat p + n \<le> 2 ^ 32 \<Longrightarrow> i < n \<Longrightarrow> p + of_nat i \<in> block p n"
  by (simp add: mem_block_iff unat_add_of_nat)

lemma block_add_word:
  "unat p + n \<le> 2 ^ 32 \<Longrightarrow> unat i < n \<Longrightarrow> p + i \<in> block p n"
  by (simp add: mem_block_iff unat_add_word)

lemma block_cases:
  assumes "x \<in> block p n"
  obtains i where "i < n" and "x = p + of_nat i"
proof
  from assms show "unat x - unat p < n" by (auto simp: mem_block_iff)
  from assms have "unat p \<le> unat x" by (simp add: mem_block_iff)
  then show "x = p + of_nat (unat x - unat p)"
    by (simp add: of_nat_diff)
qed

lemma block_mono: "unat p \<le> unat q \<Longrightarrow> unat q + k \<le> unat p + n \<Longrightarrow> block q k \<subseteq> block p n"
  by (auto simp: mem_block_iff)

lemma sep_block: "sep p n q k \<Longrightarrow> block p n \<inter> block q k = {}"
  by (auto simp: sep_def mem_block_iff)

lemma sep_sym: "sep p n q k \<Longrightarrow> sep q k p n"
  by (auto simp: sep_def)

lemma sep_disjoint:
  assumes "unat p + n \<le> 2 ^ 32" and "unat q + k \<le> 2 ^ 32" and "0 < n" and "0 < k"
    and "block p n \<inter> block q k = {}"
  shows "sep p n q k"
proof (rule ccontr)
  assume "\<not> sep p n q k"
  then have "unat q < unat p + n" "unat p < unat q + k" using assms(1,2) by (simp_all add: sep_def)
  then have "q \<in> block p n \<or> p \<in> block q k" using assms(3,4) by (auto simp: mem_block_iff)
  moreover have "p \<in> block p n" "q \<in> block q k" using assms(3,4) by (simp_all add: mem_block_iff)
  ultimately show False using assms(5) by blast
qed

lemma sep_sub:
  "sep p n q k \<Longrightarrow> n' \<le> n \<Longrightarrow> k' \<le> k \<Longrightarrow> sep p n' q k'"
  by (auto simp: sep_def)

lemma apart_sym: "apart a b \<Longrightarrow> apart b a"
  by (simp add: apart_def)

lemma apart_nat:
  assumes "unat a + 4 \<le> unat b" and "unat b + 4 \<le> 2 ^ 32"
  shows "apart a b"
proof -
  have "unat (b - a) = unat b - unat a" and "unat (a - b) = unat a + 2 ^ 32 - unat b"
    using assms by (simp_all add: unat_sub_if')
  then show ?thesis
    using assms by (simp add: apart_def word_le_nat_alt) linarith
qed

lemma apart_sep:
  assumes "sep p n q k" and "unat i + 4 \<le> n" and "unat j + 4 \<le> k"
  shows "apart (p + i) (q + j)"
proof -
  have u: "unat (p + i) = unat p + unat i" "unat (q + j) = unat q + unat j"
    using assms by (simp_all add: sep_def unat_add_word)
  from assms consider "unat p + n \<le> unat q" | "unat q + k \<le> unat p"
    by (auto simp: sep_def)
  then show ?thesis
  proof cases
    case 1
    then show ?thesis using assms u by (intro apart_nat) (simp_all add: sep_def)
  next
    case 2
    then show ?thesis using assms u by (intro apart_sym [OF apart_nat]) (simp_all add: sep_def)
  qed
qed

lemma apart_sep0:
  assumes "sep p n q k" and "4 \<le> n" and "4 \<le> k"
  shows "apart p q" and "unat j + 4 \<le> k \<Longrightarrow> apart p (q + j)" and "unat i + 4 \<le> n \<Longrightarrow> apart (p + i) q"
  using apart_sep [OF assms(1), of 0 0] apart_sep [OF assms(1), of 0 j]
    apart_sep [OF assms(1), of i 0] assms(2,3) by simp_all

lemma aligned4_apart:
  assumes "aligned4 a" and "aligned4 b" and "a \<noteq> b"
  shows "apart a b"
proof -
  have "unat a \<noteq> unat b" using assms(3) by (simp add: word_unat_eq_iff)
  moreover have "unat a + 4 \<le> 2 ^ 32" "unat b + 4 \<le> 2 ^ 32"
    using assms(1,2) dvd_less_imp_add_le [of 4 _ "2 ^ 30"] by (simp_all add: aligned4_def)
  moreover obtain k l where "unat a = 4 * k" and "unat b = 4 * l"
    using assms(1,2) by (auto simp: aligned4_def dvd_def)
  ultimately consider "unat a + 4 \<le> unat b" | "unat b + 4 \<le> unat a"
    by (cases "k < l") force+
  then show ?thesis
    by cases (use \<open>unat a + 4 \<le> 2 ^ 32\<close> \<open>unat b + 4 \<le> 2 ^ 32\<close> in
        \<open>auto intro: apart_nat apart_sym [OF apart_nat]\<close>)
qed

section \<open>Frames\<close>

lemma same_on_refl [simp]: "same_on A m m" and same_off_refl [simp]: "same_off A m m"
  by (simp_all add: same_on_def same_off_def)

lemma same_on_trans: "same_on A m m' \<Longrightarrow> same_on A m' m'' \<Longrightarrow> same_on A m m''"
  by (simp add: same_on_def)

lemma same_off_trans: "same_off A m m' \<Longrightarrow> same_off A m' m'' \<Longrightarrow> same_off A m m''"
  by (simp add: same_off_def)

lemma same_off_mono: "same_off A m m' \<Longrightarrow> A \<subseteq> B \<Longrightarrow> same_off B m m'"
  by (auto simp: same_off_def)

lemma same_on_mono: "same_on A m m' \<Longrightarrow> B \<subseteq> A \<Longrightarrow> same_on B m m'"
  by (auto simp: same_on_def)

lemma same_off_on: "same_off A m m' \<Longrightarrow> A \<inter> B = {} \<Longrightarrow> same_on B m m'"
  by (auto simp: same_on_def same_off_def)

lemma same_onD: "same_on A m m' \<Longrightarrow> a \<in> A \<Longrightarrow> m' a = m a"
  by (simp add: same_on_def)

lemma load32_same_on:
  assumes "same_on A m m'" and "block a 4 \<subseteq> A" and "unat a + 4 \<le> 2 ^ 32"
  shows "load32 m' a = load32 m a"
proof -
  have "m' (a + i) = m (a + i)" if "unat i < 4" for i
    using assms that by (intro same_onD [OF assms(1)] subsetD [OF assms(2)] block_add_word)
  from this [of 0] this [of 1] this [of 2] this [of 3] show ?thesis
    by (intro load32_cong) simp_all
qed

lemma store32_same_off:
  assumes "unat a + 4 \<le> 2 ^ 32"
  shows "same_off (block a 4) m (store32 m a v)"
proof -
  have "a + i \<in> block a 4" if "unat i < 4" for i
    using assms that by (rule block_add_word)
  from this [of 0] this [of 1] this [of 2] this [of 3] show ?thesis
    by (auto simp: same_off_def intro!: store32_other)
qed

lemma same_off_store32:
  "same_off A m m' \<Longrightarrow> unat a + 4 \<le> 2 ^ 32 \<Longrightarrow> block a 4 \<subseteq> A \<Longrightarrow> same_off A m (store32 m' a v)"
  using store32_same_off [of a m' v] by (blast intro: same_off_trans same_off_mono)

lemma load32_same_off:
  assumes "same_off A m m'" and "block a 4 \<inter> A = {}" and "unat a + 4 \<le> 2 ^ 32"
  shows "load32 m' a = load32 m a"
  using assms by (intro load32_same_on [of "block a 4"] same_off_on [of A]) auto

lemma block_disjI: "unat p + n \<le> unat q \<or> unat q + k \<le> unat p \<Longrightarrow> block p n \<inter> block q k = {}"
  by (auto simp: mem_block_iff)

lemma load32_frame:
  assumes "same_off (block q k) m m'" and "unat a + 4 \<le> unat q \<or> unat q + k \<le> unat a"
    and "unat a + 4 \<le> 2 ^ 32"
  shows "load32 m' a = load32 m a"
  using assms by (intro load32_same_off [of "block q k"] block_disjI)

lemma load32_store16_other:
  "b \<notin> {a, a + 1} \<Longrightarrow> b + 1 \<notin> {a, a + 1} \<Longrightarrow> b + 2 \<notin> {a, a + 1} \<Longrightarrow> b + 3 \<notin> {a, a + 1}
    \<Longrightarrow> load32 (store16 m a v) b = load32 m b"
  by (simp add: load32_def store16_def)

lemma store16_same_off:
  assumes "unat a + 2 \<le> 2 ^ 32"
  shows "same_off (block a 2) m (store16 m a v)"
  using block_add_word [OF assms, of 0] block_add_word [OF assms, of 1] by (auto simp: same_off_def store16_def)

lemma same_off_store16:
  "same_off A m m' \<Longrightarrow> unat a + 2 \<le> 2 ^ 32 \<Longrightarrow> block a 2 \<subseteq> A \<Longrightarrow> same_off A m (store16 m' a v)"
  using store16_same_off [of a m' v] by (blast intro: same_off_trans same_off_mono)

lemma block_part:
  "unat p + n \<le> 2 ^ 32 \<Longrightarrow> 0 < l \<Longrightarrow> unat k + l \<le> n \<Longrightarrow> unat (p + k) + l \<le> 2 ^ 32 \<and> block (p + k) l \<subseteq> block p n"
  using unat_add_word [of p k] by (auto simp: mem_block_iff)

lemma apart_self_offsets [simp]:
  "apart (p + i) (p + j) \<longleftrightarrow> apart i j"
  "apart p (p + j) \<longleftrightarrow> apart 0 j"
  "apart (p + i) p \<longleftrightarrow> apart i 0"
  by (simp_all add: apart_def)

lemmas apart_numeral [simp] =
  apart_def [of "numeral v" "numeral w"] apart_def [of 0 "numeral w"] apart_def [of "numeral v" 0] for v w

section \<open>Pages\<close>

lemma page_aligned_bound:
  assumes "page_aligned p"
  shows "unat p + 4096 \<le> 2 ^ 32"
  using assms dvd_less_imp_add_le [of 4096 "unat p" "2 ^ 20"] by (simp add: page_aligned_def)

lemma page_offset:
  assumes "page_aligned p" and "n < 4096"
  shows "unat (p + of_nat n) = unat p + n"
  using page_aligned_bound [OF assms(1)] assms(2) by (simp add: unat_add_of_nat)

lemma page_take_bit:
  assumes "page_aligned p" and "n < 4096"
  shows "take_bit 12 (p + of_nat n) = of_nat n"
proof -
  have "unat (take_bit 12 (p + of_nat n)) = (unat p + n) mod 4096"
    by (simp add: unsigned_take_bit_eq page_offset [OF assms]) (simp add: take_bit_eq_mod)
  also have "\<dots> = n"
    using assms by (simp add: page_aligned_def mod_add_left_eq [symmetric] mod_eq_0_iff_dvd [symmetric])
  also have "\<dots> = unat (of_nat n :: addr)"
    using assms(2) by (simp add: unat_of_nat)
  finally show ?thesis by (simp add: word_unat_eq_iff)
qed

lemma mask_eq_page: "(x :: addr) AND 0xfffff000 = x - take_bit 12 x"
proof -
  have "x AND NOT (mask 12) = push_bit 12 (drop_bit 12 x)"
    by (rule bit_word_eqI) (auto simp: bit_simps)
  moreover have "push_bit 12 (drop_bit 12 x) + take_bit 12 x = x"
    by (rule bits_ident)
  moreover have "(0xfffff000 :: addr) = NOT (mask 12)"
    by (simp add: mask_eq_exp_minus_1)
  ultimately show ?thesis by (simp add: algebra_simps)
qed

lemma page_mask:
  assumes "page_aligned p" and "n < 4096"
  shows "(p + of_nat n) AND 0xfffff000 = p"
  by (simp add: mask_eq_page page_take_bit [OF assms])

end
