(* ===== verification/Lib_String.thy ===== *)
theory Lib_String
  imports Prelude
begin

text \<open>
  \<open>lib/string.c\<close>: the memory and string primitives on the byte memory. The three \<open>rep\<close>
  string instructions are recursions on the count register; \<open>strlen\<close> keeps the ECX arithmetic
  of its assembly. The \<open>while\<close> loops of \<open>strcpy\<close>, \<open>strcat\<close> and \<open>strcmp\<close> have no bound in the
  source and are \<open>partial_function (option)\<close>, where \<open>None\<close> is a loop that never ends. The
  \<open>int\<close> counters of \<open>strncpy\<close> and \<open>strncmp\<close> are compared with an unsigned bound, so the
  loops run over all \<open>size\<close> indices.
\<close>

section \<open>Operations\<close>

primrec rep_movsb :: "nat \<Rightarrow> addr \<Rightarrow> addr \<Rightarrow> memory \<Rightarrow> memory" where
  "rep_movsb 0 esi edi m = m"
| "rep_movsb (Suc ecx) esi edi m = rep_movsb ecx (esi + 1) (edi + 1) (m(edi := m esi))"

definition memcpy :: "memory \<Rightarrow> addr \<Rightarrow> addr \<Rightarrow> u32 \<Rightarrow> memory" where
  "memcpy m dst src sz = rep_movsb (unat sz) src dst m"

primrec rep_stosb :: "nat \<Rightarrow> addr \<Rightarrow> u8 \<Rightarrow> memory \<Rightarrow> memory" where
  "rep_stosb 0 edi al m = m"
| "rep_stosb (Suc ecx) edi al m = rep_stosb ecx (edi + 1) al (m(edi := al))"

definition memset :: "memory \<Rightarrow> addr \<Rightarrow> u32 \<Rightarrow> u32 \<Rightarrow> memory" where
  "memset m dst c sz = rep_stosb (unat sz) dst (ucast c) m"

text \<open>\<open>rep cmpsb\<close> stops at the first difference; the result is the zero flag, which the
  \<open>xor\<close> before it has set, so that a count of zero compares equal.\<close>

primrec repe_cmpsb :: "nat \<Rightarrow> addr \<Rightarrow> addr \<Rightarrow> memory \<Rightarrow> bool" where
  "repe_cmpsb 0 esi edi m = True"
| "repe_cmpsb (Suc ecx) esi edi m =
     (if m esi = m edi then repe_cmpsb ecx (esi + 1) (edi + 1) m else False)"

definition memcmp :: "memory \<Rightarrow> addr \<Rightarrow> addr \<Rightarrow> u32 \<Rightarrow> u32" where
  "memcmp m dst src sz = (if repe_cmpsb (unat sz) src dst m then 0 else 1)"

text \<open>\<open>repne scasb\<close> with AL = 0: the final ECX and the zero flag.\<close>

function repne_scasb :: "memory \<Rightarrow> addr \<Rightarrow> u32 \<Rightarrow> u32 \<times> bool" where
  "repne_scasb m edi ecx =
     (if ecx = 0 then (ecx, False)
      else if m edi = 0 then (ecx - 1, True)
      else repne_scasb m (edi + 1) (ecx - 1))"
  by pat_completeness auto
termination
  by (relation "measure (\<lambda>(m, edi, ecx). unat ecx)") (auto simp: unat_minus_one unat_gt_0)

declare repne_scasb.simps [simp del]

definition strlen :: "memory \<Rightarrow> addr \<Rightarrow> u32" where
  "strlen m s =
     (let (ecx, zf) = repne_scasb m s 0xffffffff
      in if zf then - (ecx - 0xffffffff) - 1 else 0)"

partial_function (option) strcpy_loop :: "memory \<Rightarrow> addr \<Rightarrow> addr \<Rightarrow> (addr \<times> memory) option" where
  "strcpy_loop m dst src =
     (if m src \<noteq> 0 then strcpy_loop (m(dst := m src)) (dst + 1) (src + 1)
      else Some (dst, m))"

definition strcpy :: "memory \<Rightarrow> addr \<Rightarrow> addr \<Rightarrow> (addr \<times> memory) option" where
  "strcpy m dst src =
     (case strcpy_loop m dst src of None \<Rightarrow> None
      | Some (d, m') \<Rightarrow> Some (dst, m'(d := 0)))"

definition strncpy :: "memory \<Rightarrow> addr \<Rightarrow> addr \<Rightarrow> u32 \<Rightarrow> addr \<times> memory" where
  "strncpy m dst src sz = (dst, rep_movsb (unat sz) src dst m)"

text \<open>\<open>while (c = *dst != '\0') dst++\<close>: the shared scan of \<open>strcat\<close> and \<open>strncat\<close>.\<close>

partial_function (option) scan_end :: "memory \<Rightarrow> addr \<Rightarrow> addr option" where
  "scan_end m dst = (if m dst \<noteq> 0 then scan_end m (dst + 1) else Some dst)"

definition strcat :: "memory \<Rightarrow> addr \<Rightarrow> addr \<Rightarrow> (addr \<times> memory) option" where
  "strcat m dst src =
     (case scan_end m dst of None \<Rightarrow> None
      | Some d \<Rightarrow> (case strcpy m d src of None \<Rightarrow> None | Some (_, m') \<Rightarrow> Some (dst, m')))"

definition strncat :: "memory \<Rightarrow> addr \<Rightarrow> addr \<Rightarrow> u32 \<Rightarrow> (addr \<times> memory) option" where
  "strncat m dst src sz =
     (case scan_end m dst of None \<Rightarrow> None
      | Some d \<Rightarrow> Some (dst, snd (strncpy m d src sz)))"

partial_function (option) strcmp :: "memory \<Rightarrow> addr \<Rightarrow> addr \<Rightarrow> u32 option" where
  "strcmp m dst src =
     (if m src \<noteq> m dst then Some 1
      else if m src = 0 then Some 0
      else strcmp m (dst + 1) (src + 1))"

primrec strncmp_loop :: "nat \<Rightarrow> memory \<Rightarrow> addr \<Rightarrow> addr \<Rightarrow> u32" where
  "strncmp_loop 0 m dst src = 0"
| "strncmp_loop (Suc n) m dst src =
     (if m dst \<noteq> m src then 1 else strncmp_loop n m (dst + 1) (src + 1))"

definition strncmp :: "memory \<Rightarrow> addr \<Rightarrow> addr \<Rightarrow> u32 \<Rightarrow> u32" where
  "strncmp m dst src sz = strncmp_loop (unat sz) m dst src"

text \<open>The NUL-terminated string \<open>cs\<close> at \<open>p\<close>, and the bytes of an object as a list.\<close>

primrec cstr :: "memory \<Rightarrow> addr \<Rightarrow> u8 list \<Rightarrow> bool" where
  "cstr m p [] \<longleftrightarrow> m p = 0"
| "cstr m p (c # cs) \<longleftrightarrow> m p = c \<and> c \<noteq> 0 \<and> cstr m (p + 1) cs"

primrec bytes_at :: "memory \<Rightarrow> addr \<Rightarrow> nat \<Rightarrow> u8 list" where
  "bytes_at m p 0 = []"
| "bytes_at m p (Suc n) = m p # bytes_at m (p + 1) n"

section \<open>Bytes of an object\<close>

lemma length_bytes_at [simp]: "length (bytes_at m p n) = n"
  by (induction n arbitrary: p) auto

lemma nth_bytes_at: "i < n \<Longrightarrow> bytes_at m p n ! i = m (p + of_nat i)"
proof (induction n arbitrary: p i)
  case (Suc n)
  then show ?case by (cases i) (auto simp: algebra_simps)
qed simp

lemma bytes_at_eq_iff:
  "bytes_at m p n = bytes_at m' q n \<longleftrightarrow> (\<forall>i < n. m (p + of_nat i) = m' (q + of_nat i))"
  by (auto simp: list_eq_iff_nth_eq nth_bytes_at)

lemma bytes_at_same_on:
  assumes "same_on (block p n) m m'" and "unat p + n \<le> 2 ^ 32"
  shows "bytes_at m' p n = bytes_at m p n"
  using assms by (auto simp: bytes_at_eq_iff intro!: same_onD block_add_of_nat)

section \<open>Memory primitives\<close>

lemma unat_inc: "unat (p :: addr) < 4294967295 \<Longrightarrow> unat (p + 1) = Suc (unat p)"
  using unat_add_of_nat [of p 1] by simp

lemma block_0 [simp]: "block p 0 = {}"
  by (auto simp: mem_block_iff)

lemma block_Suc: "unat p + Suc n \<le> 2 ^ 32 \<Longrightarrow> block p (Suc n) = insert p (block (p + 1) n)"
  by (cases n) (auto simp: mem_block_iff unat_inc word_unat_eq_iff)

lemma inc_bound: "unat (p :: addr) + Suc n \<le> 2 ^ 32 \<Longrightarrow> unat (p + 1) + n \<le> 2 ^ 32"
  by (cases n) (auto simp: unat_inc less_imp_le)

lemma self_notin_block_inc:
  "unat p + Suc n \<le> 2 ^ 32 \<Longrightarrow> p \<notin> block (p + 1) n"
  by (cases n) (auto simp: mem_block_iff unat_inc)

lemma sep_inc: "sep p (Suc n) q (Suc n) \<Longrightarrow> sep (p + 1) n (q + 1) n"
  by (cases n) (auto simp: sep_def unat_inc less_imp_le)

lemma rep_stosb_spec:
  "unat p + n \<le> 2 ^ 32 \<Longrightarrow> rep_stosb n p v m x = (if x \<in> block p n then v else m x)"
proof (induction n arbitrary: p m)
  case (Suc n)
  then show ?case
    using inc_bound [OF Suc.prems] by (auto simp: block_Suc)
qed simp

lemma memset_spec:
  "unat dst + unat n \<le> 2 ^ 32 \<Longrightarrow>
     memset m dst c n x = (if x \<in> block dst (unat n) then ucast c else m x)"
  by (simp add: memset_def rep_stosb_spec)

lemma rep_movsb_spec:
  "sep dst n src n \<Longrightarrow> same_off (block dst n) m (rep_movsb n src dst m)
     \<and> bytes_at (rep_movsb n src dst m) dst n = bytes_at m src n"
proof (induction n arbitrary: src dst m)
  case 0
  then show ?case by simp
next
  case (Suc n)
  let ?m = "m(dst := m src)"
  have b: "unat dst + Suc n \<le> 2 ^ 32" "unat src + Suc n \<le> 2 ^ 32"
    using Suc.prems by (simp_all add: sep_def)
  have IH: "same_off (block (dst + 1) n) ?m (rep_movsb n (src + 1) (dst + 1) ?m)"
    "bytes_at (rep_movsb n (src + 1) (dst + 1) ?m) (dst + 1) n = bytes_at ?m (src + 1) n"
    using Suc.IH sep_inc [OF Suc.prems] by blast+
  have "rep_movsb n (src + 1) (dst + 1) ?m dst = m src"
    using IH(1) self_notin_block_inc [OF b(1)] by (simp add: same_off_def)
  moreover have "dst \<notin> block (src + 1) n"
    using sep_block [OF Suc.prems] b by (auto simp: block_Suc)
  then have "same_on (block (src + 1) n) m ?m"
    by (auto simp: same_on_def)
  then have "bytes_at ?m (src + 1) n = bytes_at m (src + 1) n"
    using inc_bound [OF b(2)] by (rule bytes_at_same_on)
  moreover have "same_off (block dst (Suc n)) m (rep_movsb n (src + 1) (dst + 1) ?m)"
    using IH(1) b(1) by (auto simp: same_off_def block_Suc)
  ultimately show ?case
    using IH(2) by simp
qed

lemma memcpy_spec:
  assumes "sep dst (unat n) src (unat n)"
  shows "same_off (block dst (unat n)) m (memcpy m dst src n)"
    and "bytes_at (memcpy m dst src n) dst (unat n) = bytes_at m src (unat n)"
  using rep_movsb_spec [OF assms] by (simp_all add: memcpy_def)

lemma repe_cmpsb_iff: "repe_cmpsb n p q m \<longleftrightarrow> bytes_at m p n = bytes_at m q n"
  by (induction n arbitrary: p q) auto

lemma memcmp_iff: "memcmp m dst src n = 0 \<longleftrightarrow> bytes_at m dst (unat n) = bytes_at m src (unat n)"
  by (auto simp: memcmp_def repe_cmpsb_iff)

section \<open>Strings\<close>

lemma cstr_unique: "cstr m p s \<Longrightarrow> cstr m p t \<Longrightarrow> s = t"
proof (induction s arbitrary: p t)
  case Nil
  then show ?case by (cases t) auto
next
  case (Cons c s)
  then show ?case by (cases t) auto
qed

lemma cstr_same_on:
  "same_on (block p (Suc (length s))) m m' \<Longrightarrow> unat p + Suc (length s) \<le> 2 ^ 32 \<Longrightarrow>
     cstr m' p s \<longleftrightarrow> cstr m p s"
proof (induction s arbitrary: p)
  case Nil
  then show ?case by (simp add: same_on_def block_Suc)
next
  case (Cons c s)
  have "cstr m' (p + 1) s \<longleftrightarrow> cstr m (p + 1) s"
    by (rule Cons.IH) (use Cons.prems inc_bound [OF Cons.prems(2)] in
        \<open>auto simp: same_on_def block_Suc [of p "Suc (length s)"]\<close>)
  moreover have "m' p = m p"
    using Cons.prems by (auto simp: same_on_def block_Suc [of p "Suc (length s)"])
  ultimately show ?case by simp
qed

lemma repne_scasb_cstr:
  "cstr m p s \<Longrightarrow> length s < unat ecx \<Longrightarrow>
     repne_scasb m p ecx = (ecx - of_nat (length s) - 1, True)"
proof (induction s arbitrary: p ecx)
  case Nil
  then show ?case by (subst repne_scasb.simps) (auto simp: unat_gt_0)
next
  case (Cons c s)
  then have "ecx \<noteq> 0" by auto
  moreover have "unat (ecx - 1) = unat ecx - 1"
    using \<open>ecx \<noteq> 0\<close> by (rule unat_minus_one)
  ultimately show ?case
    using Cons by (subst repne_scasb.simps) (simp add: algebra_simps)
qed

lemma strlen_cstr:
  assumes "cstr m p s" and "length s < 4294967295"
  shows "strlen m p = of_nat (length s)"
  using repne_scasb_cstr [OF assms(1), of "0xffffffff"] assms(2)
  by (simp add: strlen_def)

lemma repne_scasb_no_nul:
  "(\<And>i. i < unat ecx \<Longrightarrow> m (p + of_nat i) \<noteq> 0) \<Longrightarrow> repne_scasb m p ecx = (0, False)"
proof (induction m p ecx rule: repne_scasb.induct)
  case (1 m p ecx)
  show ?case
  proof (cases "ecx = 0")
    case True
    then show ?thesis by (subst repne_scasb.simps) simp
  next
    case False
    then have u: "unat (ecx - 1) = unat ecx - 1" and "0 < unat ecx"
      by (simp_all add: unat_minus_one unat_gt_0)
    with 1(2) [of 0] have "m p \<noteq> 0" by simp
    moreover have "m (p + 1 + of_nat i) \<noteq> 0" if "i < unat (ecx - 1)" for i
      using 1(2) [of "Suc i"] that u by (simp add: algebra_simps)
    ultimately show ?thesis
      using 1(1) False by (subst repne_scasb.simps) simp
  qed
qed

lemma strcpy_loop_cstr:
  "cstr m src s \<Longrightarrow> sep dst (Suc (length s)) src (Suc (length s)) \<Longrightarrow>
     \<exists>m'. strcpy_loop m dst src = Some (dst + of_nat (length s), m')
        \<and> same_off (block dst (length s)) m m' \<and> bytes_at m' dst (length s) = s"
proof (induction s arbitrary: m src dst)
  case Nil
  then show ?case by (subst strcpy_loop.simps) simp
next
  case (Cons c s)
  let ?m = "m(dst := c)"
  have b: "unat dst + Suc (Suc (length s)) \<le> 2 ^ 32" "unat src + Suc (Suc (length s)) \<le> 2 ^ 32"
    using Cons.prems(2) by (simp_all add: sep_def)
  have "dst \<notin> block src (Suc (Suc (length s)))"
    using sep_block [OF Cons.prems(2)] b by (auto simp: block_Suc [of dst])
  then have "same_on (block (src + 1) (Suc (length s))) m ?m"
    using b by (auto simp: same_on_def block_Suc [of src])
  then have "cstr ?m (src + 1) s"
    using Cons.prems(1) inc_bound [OF b(2)] by (simp add: cstr_same_on)
  moreover have "sep (dst + 1) (Suc (length s)) (src + 1) (Suc (length s))"
    using Cons.prems(2) by (intro sep_inc) simp
  ultimately obtain m' where m': "strcpy_loop ?m (dst + 1) (src + 1) = Some (dst + 1 + of_nat (length s), m')"
    "same_off (block (dst + 1) (length s)) ?m m'" "bytes_at m' (dst + 1) (length s) = s"
    using Cons.IH by blast
  have "m' dst = c"
    using m'(2) self_notin_block_inc [of dst "length s"] b(1) by (simp add: same_off_def)
  moreover have "same_off (block dst (length (c # s))) m m'"
    using m'(2) b(1) by (auto simp: same_off_def block_Suc)
  ultimately show ?case
    using m' Cons.prems(1) by (subst strcpy_loop.simps) (simp add: algebra_simps)
qed

lemma bytes_at_cstr:
  "bytes_at m p (length s) = s \<Longrightarrow> 0 \<notin> set s \<Longrightarrow> m (p + of_nat (length s)) = 0 \<Longrightarrow> cstr m p s"
  by (induction s arbitrary: p) (auto simp: algebra_simps)

lemma cstr_bytes_at:
  "cstr m p s \<Longrightarrow> bytes_at m p (length s) = s \<and> 0 \<notin> set s \<and> m (p + of_nat (length s)) = 0"
proof (induction s arbitrary: p)
  case (Cons c s)
  then show ?case using Cons.IH [of "p + 1"] by (simp add: algebra_simps)
qed simp

lemma scan_end_cstr: "cstr m p s \<Longrightarrow> scan_end m p = Some (p + of_nat (length s))"
  by (induction s arbitrary: p) (subst scan_end.simps, auto simp: algebra_simps)+

lemma bytes_at_append: "bytes_at m p (a + b) = bytes_at m p a @ bytes_at m (p + of_nat a) b"
  by (induction a arbitrary: p) (auto simp: algebra_simps)

lemma strcpy_cstr:
  assumes "cstr m src s" and "sep dst (Suc (length s)) src (Suc (length s))"
  shows "\<exists>m'. strcpy m dst src = Some (dst, m') \<and> cstr m' dst s
    \<and> same_off (block dst (Suc (length s))) m m'"
proof -
  obtain m' where m': "strcpy_loop m dst src = Some (dst + of_nat (length s), m')"
    "same_off (block dst (length s)) m m'" "bytes_at m' dst (length s) = s"
    using strcpy_loop_cstr [OF assms] by blast
  let ?e = "dst + of_nat (length s)"
  have b: "unat dst + Suc (length s) \<le> 2 ^ 32" using assms(2) by (simp add: sep_def)
  then have e: "?e \<in> block dst (Suc (length s))" "?e \<notin> block dst (length s)"
    by (simp_all add: mem_block_iff unat_add_of_nat)
  have "same_on (block dst (length s)) m' (m'(?e := 0))"
    using e(2) by (auto simp: same_on_def)
  then have "bytes_at (m'(?e := 0)) dst (length s) = s"
    using m'(3) b by (simp add: bytes_at_same_on)
  then have "cstr (m'(?e := 0)) dst s"
    using cstr_bytes_at [OF assms(1)] by (intro bytes_at_cstr) auto
  moreover have "same_off (block dst (Suc (length s))) m (m'(?e := 0))"
    using m'(2) e(1) by (auto simp: same_off_def mem_block_iff)
  ultimately show ?thesis
    using m'(1) by (auto simp: strcpy_def)
qed

text \<open>
  \<open>strcpy\<close> returns for every terminated source string that the destination buffer does not
  overlap; the destination then holds the same string, terminator included, and no byte outside
  the destination's \<open>length + 1\<close> bytes has changed.
\<close>

theorem strcpy_copies:
  assumes "cstr m src s" and "sep dst (Suc (length s)) src (Suc (length s))"
  shows "\<exists>m'. strcpy m dst src = Some (dst, m') \<and> cstr m' dst s
    \<and> same_off (block dst (Suc (length s))) m m'"
  using assms by (rule strcpy_cstr)

definition hello_mem :: memory where
  "hello_mem = (\<lambda>_. 0)(0xc0001000 := 0x68, 0xc0001001 := 0x69)"

lemma hello_mem_cstr: "cstr hello_mem 0xc0001000 [0x68, 0x69]"
  by (simp add: hello_mem_def)

theorem strcpy_copies_witness:
  "\<exists>m'. strcpy hello_mem 0xc0002000 0xc0001000 = Some (0xc0002000, m') \<and> cstr m' 0xc0002000 [0x68, 0x69]
    \<and> same_off (block 0xc0002000 3) hello_mem m'"
  using strcpy_copies [OF hello_mem_cstr, where dst = "0xc0002000"] by (simp add: sep_def numeral_3_eq_3)

text \<open>
  \<open>strcat\<close> on a terminated destination string with room for both strings leaves the
  destination holding the concatenation and changes nothing outside the appended bytes.
\<close>

theorem strcat_appends:
  assumes "cstr m dst d" and "cstr m src s"
    and "sep dst (Suc (length d + length s)) src (Suc (length s))"
  shows "\<exists>m'. strcat m dst src = Some (dst, m') \<and> cstr m' dst (d @ s)
    \<and> same_off (block (dst + of_nat (length d)) (Suc (length s))) m m'"
proof -
  let ?e = "dst + of_nat (length d)"
  have b: "unat dst + Suc (length d + length s) \<le> 2 ^ 32" using assms(3) by (simp add: sep_def)
  then have ue: "unat ?e = unat dst + length d" by (simp add: unat_add_of_nat)
  have "sep ?e (Suc (length s)) src (Suc (length s))"
    using assms(3) ue by (auto simp: sep_def)
  then obtain m' where m': "strcpy m ?e src = Some (?e, m')" "cstr m' ?e s"
    "same_off (block ?e (Suc (length s))) m m'"
    using strcpy_cstr [OF assms(2)] by blast
  have "same_on (block dst (length d)) m m'"
    using m'(3) ue by (intro same_off_on) (auto simp: mem_block_iff)
  then have "bytes_at m' dst (length d) = d"
    using cstr_bytes_at [OF assms(1)] b by (simp add: bytes_at_same_on)
  then have "cstr m' dst (d @ s)"
    using cstr_bytes_at [OF assms(1)] cstr_bytes_at [OF m'(2)]
    by (intro bytes_at_cstr) (simp_all add: bytes_at_append algebra_simps)
  then show ?thesis
    using m' by (simp add: strcat_def scan_end_cstr [OF assms(1)])
qed

theorem strcat_appends_witness:
  "\<exists>m'. strcat hello_mem 0xc0002000 0xc0001000 = Some (0xc0002000, m') \<and> cstr m' 0xc0002000 [0x68, 0x69]"
proof -
  have "cstr hello_mem 0xc0002000 []" by (simp add: hello_mem_def)
  from strcat_appends [OF this hello_mem_cstr] show ?thesis by (auto simp: sep_def)
qed

text \<open>
  \<open>strcmp\<close> returns on any two terminated strings, with 0 when they are equal and 1 when
  they differ (it never orders them).
\<close>

theorem strcmp_equality:
  assumes "cstr m a s" and "cstr m b t"
  shows "strcmp m a b = Some (if s = t then 0 else 1)"
  using assms
proof (induction s arbitrary: a b t)
  case Nil
  then show ?case by (subst strcmp.simps) (cases t, auto)
next
  case (Cons c s)
  then show ?case by (subst strcmp.simps) (cases t, auto)
qed

theorem strcmp_equality_witness:
  "strcmp hello_mem 0xc0001000 0xc0001001 = Some 1"
proof -
  have "cstr hello_mem 0xc0001001 [0x69]" by (simp add: hello_mem_def)
  from strcmp_equality [OF hello_mem_cstr this] show ?thesis by simp
qed

text \<open>
  The ECX arithmetic of \<open>strlen\<close> yields exactly the number of bytes before the terminator
  for every terminated string, and 0 when no terminator occurs in the first $2^{32} - 1$ bytes.
\<close>

theorem strlen_correct:
  "(cstr m p s \<and> length s < 4294967295 \<longrightarrow> strlen m p = of_nat (length s))
   \<and> ((\<forall>i < 4294967295. m (p + of_nat i) \<noteq> 0) \<longrightarrow> strlen m p = 0)"
  using strlen_cstr [of m p s] repne_scasb_no_nul [of "0xffffffff" m p]
  by (auto simp: strlen_def)

theorem strlen_correct_witness: "strlen hello_mem 0xc0001000 = 2"
  using strlen_correct [of hello_mem "0xc0001000" "[0x68, 0x69]"] hello_mem_cstr by simp

end
