(* ===== verification/Ring0.thy ===== *)
theory Ring0
  imports Prelude
begin

text \<open>
  \<open>include/asm/ring0.h\<close>: port and model-specific-register access. The hardware is not part of
  the repository, so what an input instruction returns is a parameter: a function of everything
  the kernel has done to the hardware so far (the trace, newest event first) and of the port.
  Every definition that reads a device takes that parameter \<open>hw\<close>.
\<close>

datatype io_event =
    Out8 u16 u8
  | Out32 u16 u32
  | Out16 u16 u16
  | In8 u16 u8
  | In16 u16 u16
  | In32 u16 u32
  | Mmio_Write addr u32
  | Mmio_Read addr u32
  | Rdmsr u32 "u32 \<times> u32"
  | Wrmsr u32 "u32 \<times> u32"
  | Lgdt addr
  | Lidt addr
  | Flush_Segment u32 u32
  | Flush_Cr3
  | Hlt
  | Cli
  | Sti

record hardware =
  hw_in8 :: "io_event list \<Rightarrow> u16 \<Rightarrow> u8"
  hw_in16 :: "io_event list \<Rightarrow> u16 \<Rightarrow> u16"
  hw_in32 :: "io_event list \<Rightarrow> u16 \<Rightarrow> u32"
  hw_mmio :: "io_event list \<Rightarrow> addr \<Rightarrow> u32"
  hw_msr :: "io_event list \<Rightarrow> u32 \<Rightarrow> u32 \<times> u32"

text \<open>The machine every component shares: the byte memory and the trace of device accesses.\<close>

record machine =
  mem :: memory
  io :: "io_event list"

definition event :: "io_event \<Rightarrow> 'a machine_scheme \<Rightarrow> 'a machine_scheme" where
  "event e s = s\<lparr>io := e # io s\<rparr>"

definition outb :: "u16 \<Rightarrow> u8 \<Rightarrow> 'a machine_scheme \<Rightarrow> 'a machine_scheme" where
  "outb port v = event (Out8 port v)"

definition outl :: "u16 \<Rightarrow> u32 \<Rightarrow> 'a machine_scheme \<Rightarrow> 'a machine_scheme" where
  "outl port v = event (Out32 port v)"

text \<open>The pause \<open>io_wait\<close> of the \<open>_p\<close> variants executes two \<open>nop\<close> and changes nothing.\<close>

definition outw :: "u16 \<Rightarrow> u16 \<Rightarrow> 'a machine_scheme \<Rightarrow> 'a machine_scheme" where
  "outw port v = event (Out16 port v)"

definition outb_p :: "u16 \<Rightarrow> u8 \<Rightarrow> 'a machine_scheme \<Rightarrow> 'a machine_scheme" where
  "outb_p port v = outb port v"

definition outl_p :: "u16 \<Rightarrow> u32 \<Rightarrow> 'a machine_scheme \<Rightarrow> 'a machine_scheme" where
  "outl_p port v = outl port v"

definition inb :: "hardware \<Rightarrow> u16 \<Rightarrow> 'a machine_scheme \<Rightarrow> u8 \<times> 'a machine_scheme" where
  "inb hw port s = (let v = hw_in8 hw (io s) port in (v, event (In8 port v) s))"

definition inw :: "hardware \<Rightarrow> u16 \<Rightarrow> 'a machine_scheme \<Rightarrow> u16 \<times> 'a machine_scheme" where
  "inw hw port s = (let v = hw_in16 hw (io s) port in (v, event (In16 port v) s))"

definition inl :: "hardware \<Rightarrow> u16 \<Rightarrow> 'a machine_scheme \<Rightarrow> u32 \<times> 'a machine_scheme" where
  "inl hw port s = (let v = hw_in32 hw (io s) port in (v, event (In32 port v) s))"

definition rdmsr :: "hardware \<Rightarrow> u32 \<Rightarrow> 'a machine_scheme \<Rightarrow> (u32 \<times> u32) \<times> 'a machine_scheme" where
  "rdmsr hw msr s = (let v = hw_msr hw (io s) msr in (v, event (Rdmsr msr v) s))"

definition wrmsr :: "u32 \<Rightarrow> u32 \<Rightarrow> u32 \<Rightarrow> 'a machine_scheme \<Rightarrow> 'a machine_scheme" where
  "wrmsr msr lo hi = event (Wrmsr msr (lo, hi))"

definition lgdt :: "addr \<Rightarrow> 'a machine_scheme \<Rightarrow> 'a machine_scheme" where
  "lgdt gdt = event (Lgdt gdt)"

definition lidt :: "addr \<Rightarrow> 'a machine_scheme \<Rightarrow> 'a machine_scheme" where
  "lidt idt = event (Lidt idt)"

definition flush_segment :: "u32 \<Rightarrow> u32 \<Rightarrow> 'a machine_scheme \<Rightarrow> 'a machine_scheme" where
  "flush_segment cs ds = event (Flush_Segment cs ds)"

definition flush_cr3 :: "'a machine_scheme \<Rightarrow> 'a machine_scheme" where
  "flush_cr3 = event Flush_Cr3"

definition hlt :: "'a machine_scheme \<Rightarrow> 'a machine_scheme" where
  "hlt = event Hlt"

definition lock_kernel :: "'a machine_scheme \<Rightarrow> 'a machine_scheme" where
  "lock_kernel = event Cli"

definition unlock_kernel :: "'a machine_scheme \<Rightarrow> 'a machine_scheme" where
  "unlock_kernel = event Sti"

text \<open>A volatile access to a device register behind a linear address.\<close>

definition mmio_write :: "addr \<Rightarrow> u32 \<Rightarrow> 'a machine_scheme \<Rightarrow> 'a machine_scheme result" where
  "mmio_write a v s = deref a (Inr (event (Mmio_Write a v) s))"

definition mmio_read :: "hardware \<Rightarrow> addr \<Rightarrow> 'a machine_scheme \<Rightarrow> (u32 \<times> 'a machine_scheme) result" where
  "mmio_read hw a s = deref a (let v = hw_mmio hw (io s) a in Inr (v, event (Mmio_Read a v) s))"

lemma event_mem [simp]: "mem (event e s) = mem s" "io (event e s) = e # io s"
  by (simp_all add: event_def)

lemma out_mem [simp]:
  "mem (outb port v s) = mem s" "io (outb port v s) = Out8 port v # io s"
  "mem (outl port w s) = mem s" "io (outl port w s) = Out32 port w # io s"
  "mem (outb_p port v s) = mem s" "io (outb_p port v s) = Out8 port v # io s"
  "mem (snd (inb hw port s)) = mem s" "mem (flush_cr3 s) = mem s"
  by (simp_all add: outb_def outl_def outb_p_def inb_def flush_cr3_def Let_def)

text \<open>Device accesses change the trace only, so every record field of an extension is untouched.\<close>

lemma event_more [simp]: "machine.more (event e s) = machine.more s"
  by (simp add: event_def)

lemmas io_defs = outb_p_def outl_p_def outb_def outw_def outl_def inb_def inw_def inl_def rdmsr_def wrmsr_def
  lgdt_def lidt_def flush_segment_def flush_cr3_def hlt_def lock_kernel_def unlock_kernel_def Let_def

end
