(* ===== verification/Mm_Linear.thy ===== *)
theory Mm_Linear
  imports Prelude
begin

text \<open>
  \<open>phy2lin\<close> and \<open>lin2phy\<close> of \<open>mm/mmap.c\<close>: the fixed correspondence between physical and linear
  addresses that every other component relies on. Kernel memory (physical below 1 GB) appears
  at 3 GB, device memory (physical 3 GB and up) at 2 GB.
\<close>

definition phy2lin :: "addr \<Rightarrow> addr" where
  "phy2lin phy = (if phy \<le> 0x40000000 then phy + 0xC0000000
     else if 0xC0000000 \<le> phy then phy - 0x40000000 else 0)"

definition lin2phy :: "addr \<Rightarrow> addr" where
  "lin2phy lin = (if 0xC0000000 \<le> lin then lin - 0xC0000000
     else if 0x80000000 \<le> lin \<and> lin < 0xC0000000 then lin + 0x40000000 else 0)"

lemma phy2lin_low:
  "unat p < 0x40000000 \<Longrightarrow> unat (phy2lin p) = unat p + 0xC0000000"
  by (simp add: phy2lin_def word_le_nat_alt unat_add_word)

lemma unat_sub_word: "b \<le> (a :: addr) \<Longrightarrow> unat (a - b) = unat a - unat b"
  by (simp add: unat_sub_if' word_le_nat_alt)

lemma lin2phy_phy2lin:
  assumes "p < 0x40000000 \<or> 0xC0000000 \<le> p"
  shows "lin2phy (phy2lin p) = p"
  using assms
proof
  assume p: "p < 0x40000000"
  then have "unat (p + 0xC0000000) = unat p + 0xC0000000"
    by (simp add: word_less_nat_alt unat_add_word)
  then have "0xC0000000 \<le> p + 0xC0000000" by (simp add: word_le_nat_alt)
  moreover have "p \<le> 0x40000000" using p by simp
  ultimately show ?thesis by (simp add: phy2lin_def lin2phy_def)
next
  assume p: "0xC0000000 \<le> p"
  then have u: "unat (p - 0x40000000) = unat p - 0x40000000"
    by (intro unat_sub_word [THEN trans]) (simp_all add: word_le_nat_alt)
  have "\<not> p \<le> 0x40000000" "\<not> 0xC0000000 \<le> p - 0x40000000" "0x80000000 \<le> p - 0x40000000"
    using p u unat_lt [of p] by (simp_all add: word_le_nat_alt word_less_nat_alt del: unat_lt)
  moreover have "p - 0x40000000 < 0xC0000000" using calculation(2) by (simp add: not_le)
  ultimately show ?thesis using p by (simp add: phy2lin_def lin2phy_def)
qed

text \<open>
  Translating a physical address to linear and back is the identity on kernel memory
  (below 1 GB) and on device memory (from 3 GB), the image is always a mapped linear address,
  and physical addresses of the two ranges never share a linear address.
\<close>

theorem phy2lin_roundtrip:
  assumes "p < 0x40000000 \<or> 0xC0000000 \<le> p" and "q < 0x40000000 \<or> 0xC0000000 \<le> q"
  shows "lin2phy (phy2lin p) = p \<and> mapped (phy2lin p) \<and> (phy2lin p = phy2lin q \<longrightarrow> p = q)"
proof -
  have "mapped (phy2lin p)"
    using assms(1)
  proof
    assume "p < 0x40000000"
    then show ?thesis
      by (simp add: phy2lin_def mapped_def word_le_nat_alt word_less_nat_alt unat_add_word)
  next
    assume p: "0xC0000000 \<le> p"
    then have "unat (p - 0x40000000) = unat p - 0x40000000"
      by (intro unat_sub_word [THEN trans]) (simp_all add: word_le_nat_alt)
    with p show ?thesis by (simp add: phy2lin_def mapped_def word_le_nat_alt)
  qed
  moreover have "phy2lin p = phy2lin q \<longrightarrow> p = q"
    using lin2phy_phy2lin [OF assms(1)] lin2phy_phy2lin [OF assms(2)] by metis
  ultimately show ?thesis using lin2phy_phy2lin [OF assms(1)] by simp
qed

theorem phy2lin_roundtrip_witness:
  "lin2phy (phy2lin 0xb8000) = 0xb8000 \<and> mapped (phy2lin 0xb8000)
   \<and> phy2lin 0xb8000 \<noteq> phy2lin 0xfee00000"
  using phy2lin_roundtrip [of "0xb8000" "0xfee00000"] by simp

end
