(* ===== verification/Mm_Buddy.thy ===== *)
theory Mm_Buddy
  imports Lib_String Ring0 Mm_Linear
begin

text \<open>
  \<open>mm/buddy.c\<close>: the page allocator. One status byte per physical page, in two arrays that
  follow the kernel image: the kernel zone and the user zone. \<open>page_init\<close> builds them, \<open>palloc\<close>
  searches one of them for a run of unused pages and marks it, \<open>pfree\<close> clears marks.
  \<open>used_prefix\<close> is the shape the kernel zone keeps as long as pages are only taken: a used
  prefix followed by unused pages. The linker symbol \<open>_kernel_end\<close> is an argument of
  \<open>page_init\<close>.
\<close>

abbreviation (input) PAGE_SIZE :: u32 where "PAGE_SIZE \<equiv> 4096"
abbreviation (input) MEM_UNUSED :: u8 where "MEM_UNUSED \<equiv> 1"
abbreviation (input) MEM_USED :: u8 where "MEM_USED \<equiv> 2"
abbreviation (input) ZONE_KERNEL :: u32 where "ZONE_KERNEL \<equiv> 1"
abbreviation (input) ZONE_USER :: u32 where "ZONE_USER \<equiv> 2"

section \<open>State and operations\<close>

record buddy = machine +
  memmap_kernel :: addr
  memmap_user :: addr
  memmap_end :: addr
  kernel_mem_pages :: u32
  user_mem_pages :: u32

text \<open>The counting loops that write one status to consecutive entries.\<close>

primrec set_status :: "nat \<Rightarrow> addr \<Rightarrow> u8 \<Rightarrow> memory \<Rightarrow> memory" where
  "set_status 0 ptr v m = m"
| "set_status (Suc n) ptr v m = set_status n (ptr + 1) v (m(ptr := v))"

function fill_unused :: "addr \<Rightarrow> addr \<Rightarrow> memory \<Rightarrow> memory" where
  "fill_unused ptr mend m =
     (if ptr < mend then fill_unused (ptr + 1) mend (m(ptr := MEM_UNUSED)) else m)"
  by pat_completeness auto
termination
proof (relation "measure (\<lambda>(ptr, mend, m). unat mend - unat ptr)", goal_cases)
  case (2 ptr mend m)
  then have "unat ptr < unat mend" by (simp add: word_less_nat_alt)
  moreover from this have "unat (ptr + 1) = Suc (unat ptr)"
    using unat_lt [of mend] by (intro unat_inc) linarith
  ultimately show ?case by simp
qed simp

declare fill_unused.simps [simp del]

definition page_init :: "addr \<Rightarrow> u32 \<Rightarrow> 'a buddy_scheme \<Rightarrow> 'a buddy_scheme" where
  "page_init kernel_end total_mem s =
     (let kp = drop_bit 4 total_mem;
          up = drop_bit 4 total_mem * 3;
          mk = kernel_end - 0xc0000000 + 0xc0000000;
          mu = kernel_end - 0xc0000000 + kp + 0xc0000000;
          me = mu + up;
          kernel_reserved_pages = drop_bit 12 (me - 0xc0000000) + 1;
          m = set_status (unat kernel_reserved_pages) mk MEM_USED (mem s);
          m = fill_unused (mk + kernel_reserved_pages) me m
      in s\<lparr>mem := m, memmap_kernel := mk, memmap_user := mu, memmap_end := me,
           kernel_mem_pages := kp, user_mem_pages := up\<rparr>)"

function palloc_loop ::
  "u32 \<Rightarrow> addr \<Rightarrow> u32 \<Rightarrow> u32 \<Rightarrow> u32 \<Rightarrow> addr \<Rightarrow> u32 \<Rightarrow> memory \<Rightarrow> addr \<times> memory" where
  "palloc_loop zone ptr searchlen sz index head_ptr curr_size m =
     (if index < searchlen then
        if m (ptr + index) = MEM_UNUSED then
          if curr_size - 1 = 0 then
            ((if zone = ZONE_KERNEL then phy2lin (push_bit 12 (index - sz))
              else push_bit 12 (index - sz)),
             set_status (unat sz) head_ptr MEM_USED m)
          else palloc_loop zone ptr searchlen sz (index + 1) head_ptr (curr_size - 1) m
        else palloc_loop zone ptr searchlen sz (index + 1) (head_ptr + 1) sz m
      else (0, m))"
  by pat_completeness auto
termination
proof (relation "measure (\<lambda>(zone, ptr, searchlen, sz, index, head_ptr, curr_size, m).
    unat searchlen - unat index)", goal_cases)
  case (2 zone ptr searchlen sz index head_ptr curr_size m)
  then have "unat index < unat searchlen" by (simp add: word_less_nat_alt)
  moreover from this have "unat (index + 1) = Suc (unat index)"
    using unat_lt [of searchlen] by (intro unat_inc) linarith
  ultimately show ?case by simp
next
  case (3 zone ptr searchlen sz index head_ptr curr_size m)
  then have "unat index < unat searchlen" by (simp add: word_less_nat_alt)
  moreover from this have "unat (index + 1) = Suc (unat index)"
    using unat_lt [of searchlen] by (intro unat_inc) linarith
  ultimately show ?case by simp
qed simp

declare palloc_loop.simps [simp del]

text \<open>The number of pages a byte count needs.\<close>

definition page_count :: "u32 \<Rightarrow> u32" where
  "page_count sz = (if sz mod PAGE_SIZE \<noteq> 0 then sz div PAGE_SIZE + 1 else sz div PAGE_SIZE)"

definition palloc :: "u32 \<Rightarrow> u32 \<Rightarrow> 'a buddy_scheme \<Rightarrow> addr \<times> 'a buddy_scheme" where
  "palloc zone sz s =
     (let n = page_count sz in
      if zone \<noteq> ZONE_USER \<and> zone \<noteq> ZONE_KERNEL then (0, s)
      else
        let ptr = (if zone = ZONE_KERNEL then memmap_kernel s else memmap_user s);
            searchlen = (if zone = ZONE_KERNEL then kernel_mem_pages s else user_mem_pages s);
            (r, m) = palloc_loop zone ptr searchlen n 0 ptr n (mem s)
        in (r, s\<lparr>mem := m\<rparr>))"

text \<open>The second rounding test of \<open>pfree\<close> reads \<open>len\<close> after it has been divided.\<close>

definition pfree :: "addr \<Rightarrow> u32 \<Rightarrow> u32 \<Rightarrow> 'a buddy_scheme \<Rightarrow> 'a buddy_scheme" where
  "pfree a len zone s =
     (let len = len div PAGE_SIZE;
          len = (if len mod PAGE_SIZE \<noteq> 0 then len + 1 else len);
          ptr = (if zone = ZONE_USER then memmap_user s else memmap_kernel s) + drop_bit 12 a
      in s\<lparr>mem := set_status (unat len - 1) (ptr + 1) MEM_UNUSED (mem s)\<rparr>)"

section \<open>The shape of a zone\<close>

definition used_prefix :: "memory \<Rightarrow> addr \<Rightarrow> nat \<Rightarrow> nat \<Rightarrow> bool" where
  "used_prefix m p n k \<longleftrightarrow> unat p + n \<le> 2 ^ 32 \<and> n < 2 ^ 32 \<and> k \<le> n
     \<and> (\<forall>i < k. m (p + of_nat i) \<noteq> MEM_UNUSED)
     \<and> (\<forall>i. k \<le> i \<longrightarrow> i < n \<longrightarrow> m (p + of_nat i) = MEM_UNUSED)"

section \<open>Loops\<close>

lemma set_status_eq: "set_status n p v m = rep_stosb n p v m"
  by (induction n arbitrary: p m) auto

lemma set_status_spec:
  "unat p + n \<le> 2 ^ 32 \<Longrightarrow> set_status n p v m x = (if x \<in> block p n then v else m x)"
  by (simp add: set_status_eq rep_stosb_spec)

lemma of_nat_add_1: "(of_nat i + 1 :: addr) = of_nat (Suc i)"
  by (simp add: add.commute)

lemma palloc_loop_skip_used:
  assumes "\<forall>i < k. m (p + of_nat i) \<noteq> MEM_UNUSED" and "k \<le> unat len" and "i \<le> k"
  shows "palloc_loop zone p len sz (of_nat i) (p + of_nat i) sz m
    = palloc_loop zone p len sz (of_nat k) (p + of_nat k) sz m"
  using assms(3)
proof (induction rule: inc_induct)
  case (step i)
  then have "(of_nat i :: u32) < len"
    using assms(2) unat_lt [of len] by (simp add: word_less_nat_alt unat_of_nat del: unat_lt)
  then have "palloc_loop zone p len sz (of_nat i) (p + of_nat i) sz m
      = palloc_loop zone p len sz (of_nat i + 1) (p + of_nat i + 1) sz m"
    using assms(1) step by (subst palloc_loop.simps) simp
  with step.IH show ?case by (simp add: of_nat_add_1 add.assoc)
qed simp

lemma palloc_loop_take:
  assumes free: "\<forall>i. k \<le> i \<longrightarrow> i < unat len \<longrightarrow> m (p + of_nat i) = MEM_UNUSED"
    and "k + j \<le> unat len" and "j + Suc d = unat sz"
  shows "palloc_loop zone p len sz (of_nat (k + j)) h (of_nat (Suc d)) m =
    (if k + unat sz \<le> unat len
     then ((if zone = ZONE_KERNEL then phy2lin (push_bit 12 (of_nat k - 1)) else push_bit 12 (of_nat k - 1)),
           set_status (unat sz) h MEM_USED m)
     else (0, m))"
  using assms(2,3)
proof (induction d arbitrary: j)
  case 0
  have sz: "sz = of_nat (Suc j)"
    using 0(2) eq_of_unat [of sz] by simp
  have u: "unat (of_nat (k + j) :: u32) = k + j"
    using 0(1) unat_lt [of len] by (simp add: unat_of_nat del: unat_lt of_nat_add)
  show ?case
  proof (cases "k + j < unat len")
    case True
    then have "(of_nat (k + j) :: u32) < len" using u by (simp add: word_less_nat_alt del: of_nat_add)
    moreover have "m (p + of_nat (k + j)) = MEM_UNUSED" using free True by (simp del: of_nat_add)
    moreover have "of_nat (k + j) - sz = (of_nat k - 1 :: u32)"
      by (simp add: sz)
    ultimately show ?thesis
      using True 0 by (subst palloc_loop.simps) (simp del: of_nat_add)
  next
    case False
    then have "\<not> (of_nat (k + j) :: u32) < len" using u by (simp add: word_less_nat_alt del: of_nat_add)
    then show ?thesis using False 0 by (subst palloc_loop.simps) (simp del: of_nat_add)
  qed
next
  case (Suc d)
  have u: "unat (of_nat (k + j) :: u32) = k + j"
    using Suc.prems(1) unat_lt [of len] by (simp add: unat_of_nat del: unat_lt of_nat_add)
  have d: "unat (of_nat (Suc d) :: u32) = Suc d"
    using Suc.prems(2) unat_lt [of sz] by (simp add: unat_of_nat del: unat_lt of_nat_Suc)
  then have nz: "(of_nat (Suc d) :: u32) \<noteq> 0" by (metis unat_0 nat.distinct(1))
  show ?case
  proof (cases "k + j < unat len")
    case True
    then have "(of_nat (k + j) :: u32) < len" using u by (simp add: word_less_nat_alt del: of_nat_add)
    moreover have "m (p + of_nat (k + j)) = MEM_UNUSED" using free True by (simp del: of_nat_add)
    moreover have "of_nat (Suc (Suc d)) - 1 = (of_nat (Suc d) :: u32)" by simp
    ultimately have "palloc_loop zone p len sz (of_nat (k + j)) h (of_nat (Suc (Suc d))) m
       = palloc_loop zone p len sz (of_nat (k + j) + 1) h (of_nat (Suc d)) m"
      using nz by (subst palloc_loop.simps) (simp del: of_nat_add of_nat_Suc)
    also have "(of_nat (k + j) + 1 :: u32) = of_nat (k + Suc j)"
      by simp
    finally show ?thesis
      using Suc.IH [of "Suc j"] Suc.prems True by (simp del: of_nat_add of_nat_Suc)
  next
    case False
    then have "\<not> (of_nat (k + j) :: u32) < len" using u by (simp add: word_less_nat_alt del: of_nat_add)
    then show ?thesis using False Suc.prems by (subst palloc_loop.simps) (simp del: of_nat_add of_nat_Suc)
  qed
qed

lemma palloc_loop_prefix:
  assumes "used_prefix m p (unat len) k" and "0 < unat sz"
  shows "palloc_loop zone p len sz 0 p sz m =
    (if k + unat sz \<le> unat len
     then ((if zone = ZONE_KERNEL then phy2lin (push_bit 12 (of_nat k - 1)) else push_bit 12 (of_nat k - 1)),
           set_status (unat sz) (p + of_nat k) MEM_USED m)
     else (0, m))"
proof -
  obtain d where d: "unat sz = Suc d" using assms(2) by (cases "unat sz") auto
  then have sz: "sz = of_nat (Suc d)" using eq_of_unat by blast
  have "palloc_loop zone p len sz 0 p sz m = palloc_loop zone p len sz (of_nat k) (p + of_nat k) sz m"
    using palloc_loop_skip_used [of k m p len 0 zone sz] assms(1) by (simp add: used_prefix_def)
  then show ?thesis
    using palloc_loop_take [of k len m p 0 d sz zone "p + of_nat k"] assms(1) d
    by (simp add: used_prefix_def sz [symmetric] del: of_nat_Suc)
qed

lemma used_prefix_take:
  assumes "used_prefix m p n k" and "k + j \<le> n"
  shows "used_prefix (set_status j (p + of_nat k) MEM_USED m) p n (k + j)"
proof -
  have b: "unat p + n \<le> 2 ^ 32" using assms(1) by (simp add: used_prefix_def)
  show ?thesis
  proof (cases "j = 0")
    case True
    with assms show ?thesis by simp
  next
    case False
    then have uk: "unat (p + of_nat k) = unat p + k"
      using b assms(2) by (intro unat_add_of_nat) simp
    have st: "set_status j (p + of_nat k) MEM_USED m (p + of_nat i) =
        (if k \<le> i \<and> i < k + j then MEM_USED else m (p + of_nat i))" if "i < n" for i
    proof -
      have "unat (p + of_nat i) = unat p + i"
        using b that by (intro unat_add_of_nat) simp
      then show ?thesis
        using b uk assms(2) by (auto simp: set_status_spec mem_block_iff)
    qed
    show ?thesis
      using assms st by (auto simp: used_prefix_def)
  qed
qed

lemma palloc_kernel:
  assumes "used_prefix (mem s) (memmap_kernel s) (unat (kernel_mem_pages s)) k"
    and "0 < unat (page_count sz)"
  shows "palloc ZONE_KERNEL sz s =
    (if k + unat (page_count sz) \<le> unat (kernel_mem_pages s)
     then (phy2lin (push_bit 12 (of_nat k - 1)),
           s\<lparr>mem := set_status (unat (page_count sz)) (memmap_kernel s + of_nat k) MEM_USED (mem s)\<rparr>)
     else (0, s))"
  using palloc_loop_prefix [OF assms, of ZONE_KERNEL] by (simp add: palloc_def)

text \<open>The linear address of the page with a given number in the kernel zone.\<close>

definition kernel_page :: "nat \<Rightarrow> addr" where
  "kernel_page i = 0xC0000000 + of_nat (i * 4096)"

lemma unat_kernel_page: "i < 0x40000 \<Longrightarrow> unat (kernel_page i) = 0xC0000000 + i * 4096"
  using unat_add_of_nat [of "0xC0000000" "i * 4096"] by (simp add: kernel_page_def)

lemma kernel_page_aligned: "i < 0x40000 \<Longrightarrow> page_aligned (kernel_page i)"
  by (simp add: page_aligned_def unat_kernel_page dvd_add)

lemma phy2lin_page:
  assumes "0 < k" and "k \<le> 0x40000"
  shows "phy2lin (push_bit 12 (of_nat k - 1)) = kernel_page (k - 1)"
proof -
  have "(of_nat k - 1 :: addr) = of_nat (k - 1)" using assms(1) by (simp add: of_nat_diff)
  then have "push_bit 12 (of_nat k - 1 :: addr) = of_nat ((k - 1) * 4096)"
    by (simp add: push_bit_eq_mult)
  moreover have "unat (of_nat ((k - 1) * 4096) :: addr) = (k - 1) * 4096"
    using assms by (simp add: unat_of_nat del: of_nat_mult)
  then have "(of_nat ((k - 1) * 4096) :: addr) \<le> 0x40000000"
    using assms by (simp add: word_le_nat_alt del: of_nat_mult)
  ultimately show ?thesis by (simp add: phy2lin_def kernel_page_def add.commute del: of_nat_mult)
qed

lemma fill_unused_spec:
  "fill_unused p e m x = (if unat p \<le> unat x \<and> unat x < unat e then MEM_UNUSED else m x)"
proof (induction p e m rule: fill_unused.induct)
  case (1 p e m)
  show ?case
  proof (cases "p < e")
    case True
    then have "unat p < unat e" by (simp add: word_less_nat_alt)
    moreover from this have "unat (p + 1) = Suc (unat p)"
      using unat_lt [of e] by (intro unat_inc) linarith
    moreover have "unat x = unat p \<longleftrightarrow> x = p" by (simp add: word_unat_eq_iff)
    ultimately show ?thesis
      using 1 [OF True] by (subst fill_unused.simps) (auto simp: True fun_upd_def)
  next
    case False
    then show ?thesis by (subst fill_unused.simps) (auto simp: word_less_nat_alt)
  qed
qed

lemma unat_drop_bit: "unat (drop_bit n (w :: addr)) = unat w div 2 ^ n"
  by (simp add: unsigned_drop_bit_eq) (simp add: drop_bit_eq_div take_bit_nat_eq_self)

section \<open>Properties of the page allocator\<close>

text \<open>The number of reserved pages \<open>page_init\<close> computes for a page map that ends at \<open>e\<close>.\<close>

definition reserved_pages :: "addr \<Rightarrow> nat" where
  "reserved_pages e = (unat e - 0xC0000000) div 4096 + 1"

lemma page_init_facts:
  assumes "0xC0000000 \<le> unat ke" and "unat ke + 4 * (unat tm div 16) < 2 ^ 32"
  shows "memmap_kernel (page_init ke tm s) = ke"
    and "unat (kernel_mem_pages (page_init ke tm s)) = unat tm div 16"
    and "unat (user_mem_pages (page_init ke tm s)) = 3 * (unat tm div 16)"
    and "unat (memmap_user (page_init ke tm s)) = unat ke + unat tm div 16"
    and "unat (memmap_end (page_init ke tm s)) = unat ke + 4 * (unat tm div 16)"
proof -
  let ?kp = "drop_bit 4 tm"
  have kp: "unat ?kp = unat tm div 16" by (simp add: unat_drop_bit)
  have "unat (?kp * 3) = unat ?kp * 3"
    using assms by (subst unat_mult_lem [THEN iffD1]) (simp_all add: kp)
  moreover have "unat (ke + ?kp) = unat ke + unat ?kp"
    using assms by (intro unat_add_word) (simp add: kp)
  moreover from calculation have "unat (ke + ?kp + ?kp * 3) = unat ke + unat ?kp + unat ?kp * 3"
    using assms by (subst unat_add_word) (simp_all add: kp)
  moreover have "ke - 0xc0000000 + ?kp + 0xc0000000 = ke + ?kp" by simp
  ultimately show "memmap_kernel (page_init ke tm s) = ke"
    and "unat (kernel_mem_pages (page_init ke tm s)) = unat tm div 16"
    and "unat (user_mem_pages (page_init ke tm s)) = 3 * (unat tm div 16)"
    and "unat (memmap_user (page_init ke tm s)) = unat ke + unat tm div 16"
    and "unat (memmap_end (page_init ke tm s)) = unat ke + 4 * (unat tm div 16)"
    by (simp_all add: page_init_def Let_def kp)
qed

lemma page_init_mem:
  assumes "0xC0000000 \<le> unat ke" and "unat ke + 4 * (unat tm div 16) < 2 ^ 32"
    and "r = reserved_pages (memmap_end (page_init ke tm s))"
    and "unat ke + r \<le> unat (memmap_end (page_init ke tm s))"
  shows "mem (page_init ke tm s) x =
    (if unat ke \<le> unat x \<and> unat x < unat ke + r then MEM_USED
     else if unat ke + r \<le> unat x \<and> unat x < unat (memmap_end (page_init ke tm s)) then MEM_UNUSED
     else mem s x)"
proof -
  let ?e = "memmap_end (page_init ke tm s)"
  let ?r = "drop_bit 12 (?e - 0xc0000000) + 1 :: addr"
  note f = page_init_facts [OF assms(1,2), of s]
  have "0xC0000000 \<le> ?e" using assms(1) f(5) by (simp add: word_le_nat_alt)
  then have "unat (?e - 0xc0000000) = unat ?e - 0xC0000000"
    by (intro unat_sub_word [THEN trans]) simp_all
  then have "unat (drop_bit 12 (?e - 0xc0000000)) = (unat ?e - 0xC0000000) div 4096"
    by (simp add: unat_drop_bit)
  moreover have "(unat ?e - 0xC0000000) div 4096 < 4294967295"
    using unat_lt [of ?e] by linarith
  ultimately have r: "unat ?r = r"
    using assms(3) by (simp add: unat_inc reserved_pages_def)
  have b: "unat ke + r \<le> 2 ^ 32" "unat ke + r < 4294967296"
    using assms(4) unat_lt [of ?e] by (simp_all del: unat_lt)
  have ukr: "unat (ke + ?r) = unat ke + r"
    using b r by (simp add: unat_add_word)
  have "mem (page_init ke tm s) = fill_unused (ke + ?r) ?e (set_status (unat ?r) ke MEM_USED (mem s))"
    by (simp add: page_init_def Let_def)
  then show ?thesis
    using b by (simp only: fill_unused_spec ukr r) (auto simp: set_status_spec mem_block_iff)
qed

text \<open>A small machine: a kernel zone of eight pages of which two are used, a user zone of four.\<close>

definition tiny_map :: memory where
  "tiny_map = (\<lambda>x. if x < 0xc0100002 then MEM_USED else MEM_UNUSED)"

definition tiny_buddy :: buddy where
  "tiny_buddy = \<lparr>mem = tiny_map, io = [], memmap_kernel = 0xc0100000, memmap_user = 0xc0100008,
     memmap_end = 0xc010000c, kernel_mem_pages = 8, user_mem_pages = 4\<rparr>"

lemma tiny_buddy_prefix:
  "used_prefix (mem tiny_buddy) (memmap_kernel tiny_buddy) (unat (kernel_mem_pages tiny_buddy)) 2"
proof -
  have "unat (0xc0100000 + of_nat i :: addr) = 0xc0100000 + i" if "i < 8" for i
    using that unat_add_of_nat [of "0xc0100000" i] by simp
  then show ?thesis
    by (auto simp: used_prefix_def tiny_buddy_def tiny_map_def word_less_nat_alt)
qed

lemma used_prefix_same_on:
  assumes "same_on (block p n) m m'" and "used_prefix m p n k"
  shows "used_prefix m' p n k"
proof -
  have "m' (p + of_nat i) = m (p + of_nat i)" if "i < n" for i
    using assms that by (intro same_onD [OF assms(1)] block_add_of_nat) (simp_all add: used_prefix_def)
  then show ?thesis using assms(2) by (simp add: used_prefix_def)
qed

lemma palloc_page:
  assumes "used_prefix (mem s) (memmap_kernel s) (unat (kernel_mem_pages s)) k"
    and "0 < k" and "k < unat (kernel_mem_pages s)" and "unat (kernel_mem_pages s) \<le> 0x40000"
  shows "\<exists>m. palloc ZONE_KERNEL 4096 s = (kernel_page (k - 1), s\<lparr>mem := m\<rparr>)
    \<and> used_prefix m (memmap_kernel s) (unat (kernel_mem_pages s)) (Suc k)
    \<and> same_off (block (memmap_kernel s) (unat (kernel_mem_pages s))) (mem s) m"
proof -
  have pc: "page_count 4096 = 1" by (simp add: page_count_def)
  let ?m = "set_status 1 (memmap_kernel s + of_nat k) MEM_USED (mem s)"
  have b: "unat (memmap_kernel s) + unat (kernel_mem_pages s) \<le> 2 ^ 32" using assms(1) by (simp add: used_prefix_def)
  then have u: "unat (memmap_kernel s + of_nat k) = unat (memmap_kernel s) + k" using assms(3) by (simp add: unat_add_of_nat)
  have "palloc ZONE_KERNEL 4096 s = (kernel_page (k - 1), s\<lparr>mem := ?m\<rparr>)"
    using palloc_kernel [OF assms(1), of 4096] phy2lin_page [of k] assms(2-4) by (simp add: pc)
  moreover have "used_prefix ?m (memmap_kernel s) (unat (kernel_mem_pages s)) (Suc k)"
    using used_prefix_take [OF assms(1), of 1] assms(3) by simp
  moreover have "same_off (block (memmap_kernel s) (unat (kernel_mem_pages s))) (mem s) ?m"
    using b u assms(3) by (auto simp: same_off_def set_status_spec mem_block_iff)
  ultimately show ?thesis by blast
qed

text \<open>
  C18: a kernel-zone request. While the zone is a used prefix of \<open>k\<close> pages, \<open>palloc\<close> succeeds
  exactly when \<open>k + n\<close> pages fit; it then marks exactly the \<open>n\<close> status bytes after the prefix,
  changes no other byte, and the zone is again a used prefix, of \<open>k + n\<close> pages. When they do not
  fit it returns NULL and changes nothing.
\<close>

theorem palloc_takes_next_run:
  assumes "used_prefix (mem s) (memmap_kernel s) (unat (kernel_mem_pages s)) k"
    and "n = unat (page_count sz)" and "0 < n" and "palloc ZONE_KERNEL sz s = (r, s')"
  shows "if k + n \<le> unat (kernel_mem_pages s)
    then used_prefix (mem s') (memmap_kernel s) (unat (kernel_mem_pages s)) (k + n)
      \<and> same_off (block (memmap_kernel s + of_nat k) n) (mem s) (mem s')
      \<and> r = phy2lin (push_bit 12 (of_nat k - 1))
    else r = 0 \<and> s' = s"
proof (cases "k + n \<le> unat (kernel_mem_pages s)")
  case True
  let ?p = "memmap_kernel s + of_nat k"
  have "unat ?p = unat (memmap_kernel s) + k" and "unat ?p + n \<le> 2 ^ 32"
    using assms(1,3) True by (simp_all add: used_prefix_def unat_add_of_nat)
  then have "same_off (block ?p n) (mem s) (set_status n ?p MEM_USED (mem s))"
    by (simp add: same_off_def set_status_spec)
  then show ?thesis
    using palloc_kernel [OF assms(1), of sz] used_prefix_take [OF assms(1) True] assms True by auto
next
  case False
  then show ?thesis using palloc_kernel [OF assms(1), of sz] assms by auto
qed

theorem palloc_takes_next_run_witness:
  "used_prefix (mem (snd (palloc ZONE_KERNEL 8000 tiny_buddy))) 0xc0100000 8 4"
  using palloc_takes_next_run [OF tiny_buddy_prefix refl _ surjective_pairing, of 8000]
  by (simp add: page_count_def tiny_buddy_def)

text \<open>A sequence of kernel-zone requests with no \<open>pfree\<close> in between: what was granted, with its size.\<close>

fun granted :: "u32 list \<Rightarrow> 'a buddy_scheme \<Rightarrow> (addr \<times> u32) list" where
  "granted [] s = []"
| "granted (a # as) s = (case palloc ZONE_KERNEL a s of (p, s') \<Rightarrow> (if p = 0 then [] else [(p, a)]) @ granted as s')"

lemma kernel_page_nonzero: "i < 0x40000 \<Longrightarrow> kernel_page i \<noteq> 0"
  using unat_kernel_page [of i] by (metis add_is_0 rel_simps(76) unat_0)

lemma granted_next:
  assumes "used_prefix (mem s) (memmap_kernel s) (unat (kernel_mem_pages s)) k" and "0 < k"
    and "unat (kernel_mem_pages s) \<le> 0x40000" and "0 < unat (page_count a)"
  shows "k + unat (page_count a) \<le> unat (kernel_mem_pages s) \<Longrightarrow>
      granted (a # as) s = (kernel_page (k - 1), a)
        # granted as (s\<lparr>mem := set_status (unat (page_count a)) (memmap_kernel s + of_nat k) MEM_USED (mem s)\<rparr>)"
    and "\<not> k + unat (page_count a) \<le> unat (kernel_mem_pages s) \<Longrightarrow> granted (a # as) s = granted as s"
  using palloc_kernel [OF assms(1,4)] phy2lin_page [of k] kernel_page_nonzero [of "k - 1"] assms(2-4) by auto

lemma granted_bounds:
  assumes "used_prefix (mem s) (memmap_kernel s) (unat (kernel_mem_pages s)) k" and "0 < k"
    and "unat (kernel_mem_pages s) \<le> 0x40000" and "\<forall>a \<in> set as. 0 < unat (page_count a)" and "(q, b) \<in> set (granted as s)"
  shows "0xC0000000 + (k - 1) * 4096 \<le> unat q \<and> unat q + unat (page_count b) * 4096 < 2 ^ 32 \<and> b \<in> set as"
  using assms
proof (induction as arbitrary: s k)
  case (Cons a as)
  let ?n = "unat (page_count a)" and ?N = "unat (kernel_mem_pages s)"
  have a: "0 < ?n" using Cons.prems(4) by simp
  note g = granted_next [OF Cons.prems(1-3) a]
  show ?case
  proof (cases "k + ?n \<le> ?N")
    case True
    let ?s = "s\<lparr>mem := set_status ?n (memmap_kernel s + of_nat k) MEM_USED (mem s)\<rparr>"
    have u: "used_prefix (mem ?s) (memmap_kernel ?s) (unat (kernel_mem_pages ?s)) (k + ?n)"
      using used_prefix_take [OF Cons.prems(1) True] by simp
    from Cons.prems(5) consider "q = kernel_page (k - 1)" "b = a" | "(q, b) \<in> set (granted as ?s)" unfolding g(1) [OF True] by auto
    then show ?thesis
    proof cases
      case 1
      then show ?thesis using True Cons.prems(2,3) unat_kernel_page [of "k - 1"] by simp
    next
      case 2
      then show ?thesis using Cons.IH [OF u] Cons.prems(2-4) a by auto
    qed
  next
    case False
    have "(q, b) \<in> set (granted as s)" using Cons.prems(5) unfolding g(2) [OF False] .
    then show ?thesis using Cons.IH [OF Cons.prems(1-3)] Cons.prems(4) by simp
  qed
qed simp

text \<open>
  C19: while the pages in use are a prefix of the page map (which \<open>page_init\<close> establishes, \<open>palloc\<close>
  keeps and a \<open>pfree\<close> inside the prefix would end), no two kernel-zone allocations overlap: in every
  sequence of requests of at least one page each, whatever their number and whichever of them fail,
  the byte ranges of those that succeed are pairwise disjoint and do not wrap around.
\<close>

theorem palloc_successive_disjoint:
  assumes "used_prefix (mem s) (memmap_kernel s) (unat (kernel_mem_pages s)) k" and "0 < k"
    and "unat (kernel_mem_pages s) \<le> 0x40000" and "\<forall>a \<in> set as. 0 < unat (page_count a)"
  shows "sorted_wrt (\<lambda>(p, a) (q, b). sep p (unat (page_count a) * 4096) q (unat (page_count b) * 4096)) (granted as s)"
  using assms
proof (induction as arbitrary: s k)
  case (Cons a as)
  let ?n = "unat (page_count a)" and ?N = "unat (kernel_mem_pages s)"
  have a: "0 < ?n" and as: "\<forall>a \<in> set as. 0 < unat (page_count a)" using Cons.prems(4) by simp_all
  note g = granted_next [OF Cons.prems(1-3) a]
  show ?case
  proof (cases "k + ?n \<le> ?N")
    case True
    let ?s = "s\<lparr>mem := set_status ?n (memmap_kernel s + of_nat k) MEM_USED (mem s)\<rparr>"
    have u: "used_prefix (mem ?s) (memmap_kernel ?s) (unat (kernel_mem_pages ?s)) (k + ?n)"
      using used_prefix_take [OF Cons.prems(1) True] by simp
    have k: "0 < k + ?n" "unat (kernel_mem_pages ?s) \<le> 0x40000" using Cons.prems(2,3) by simp_all
    have p: "unat (kernel_page (k - 1)) = 0xC0000000 + (k - 1) * 4096" using True a Cons.prems(3) by (intro unat_kernel_page) simp
    have "sep (kernel_page (k - 1)) (?n * 4096) q (unat (page_count b) * 4096)" if "(q, b) \<in> set (granted as ?s)" for q b
    proof -
      have "0xC0000000 + (k + ?n - 1) * 4096 \<le> unat q" "unat q + unat (page_count b) * 4096 < 2 ^ 32"
        using granted_bounds [OF u k as that] by simp_all
      then show ?thesis using p Cons.prems(2) by (simp add: sep_def algebra_simps)
    qed
    then show ?thesis using Cons.IH [OF u k as] g(1) [OF True] by auto
  next
    case False
    then show ?thesis using Cons.IH [OF Cons.prems(1-3) as] g(2) by simp
  qed
qed simp

theorem palloc_successive_disjoint_witness:
  "granted [8192, 0x10000, 1] tiny_buddy = [(0xc0001000, 8192), (0xc0003000, 1)]
   \<and> sep (0xc0001000 :: addr) 8192 0xc0003000 4096"
proof -
  have c: "unat (page_count 8192) = 2" "unat (page_count 0x10000) = 16" "unat (page_count 1) = 1" by (simp_all add: page_count_def)
  have t: "unat (kernel_mem_pages tiny_buddy) = 8" "memmap_kernel tiny_buddy = 0xc0100000" by (simp_all add: tiny_buddy_def)
  let ?s = "tiny_buddy\<lparr>mem := set_status 2 0xc0100002 MEM_USED (mem tiny_buddy)\<rparr>"
  have u: "used_prefix (mem ?s) (memmap_kernel ?s) (unat (kernel_mem_pages ?s)) 4"
    using used_prefix_take [OF tiny_buddy_prefix, of 2] by (simp add: t)
  have g: "granted [8192, 0x10000, 1] tiny_buddy = [(0xc0001000, 8192), (0xc0003000, 1)]"
    using granted_next(1) [OF tiny_buddy_prefix, of 8192 "[0x10000, 1]"] granted_next(2) [OF u, of "0x10000" "[1]"]
      granted_next(1) [OF u, of 1 "[]"] by (simp add: c t kernel_page_def)
  show ?thesis
    using palloc_successive_disjoint [OF tiny_buddy_prefix, of "[8192, 0x10000, 1]"] unfolding g by (simp add: c t)
qed
text \<open>
  The page \<open>palloc\<close> returns is not the first page of the run it marks but the page before
  it: the status byte of the returned page was already not \<open>MEM_UNUSED\<close> before the call.
\<close>

theorem palloc_returns_preceding_page:
  assumes "used_prefix (mem s) (memmap_kernel s) (unat (kernel_mem_pages s)) k"
    and "0 < k" and "k \<le> 0x40000" and "0 < unat (page_count sz)"
    and "k + unat (page_count sz) \<le> unat (kernel_mem_pages s)"
  shows "fst (palloc ZONE_KERNEL sz s) = kernel_page (k - 1)
    \<and> mem s (memmap_kernel s + of_nat (k - 1)) \<noteq> MEM_UNUSED"
proof
  show "fst (palloc ZONE_KERNEL sz s) = kernel_page (k - 1)"
    using palloc_kernel [OF assms(1,4)] assms by (simp add: phy2lin_page)
  have "k - 1 < k" using assms(2) by simp
  then show "mem s (memmap_kernel s + of_nat (k - 1)) \<noteq> MEM_UNUSED"
    using assms(1) unfolding used_prefix_def by blast
qed

theorem palloc_returns_preceding_page_witness:
  "fst (palloc ZONE_KERNEL 1 tiny_buddy) = 0xc0001000 \<and> mem tiny_buddy 0xc0100001 \<noteq> MEM_UNUSED"
  using palloc_returns_preceding_page [OF tiny_buddy_prefix, of 1]
  by (simp add: page_count_def tiny_buddy_def kernel_page_def)

lemma page_init_prefix:
  assumes "0xC0000000 \<le> unat ke" and "unat ke + 4 * (unat tm div 16) < 2 ^ 32"
    and "s' = page_init ke tm s" and "r = reserved_pages (memmap_end s')"
    and "r \<le> unat (kernel_mem_pages s')"
  shows "used_prefix (mem s') (memmap_kernel s') (unat (kernel_mem_pages s')) r"
    and "unat ke + r \<le> unat x \<Longrightarrow> unat x < unat (memmap_end s') \<Longrightarrow> mem s' x = MEM_UNUSED"
proof -
  note f = page_init_facts [OF assms(1,2), of s, folded assms(3)]
  have fit: "unat ke + r \<le> unat (memmap_end s')" using assms(5) f by simp
  note m = page_init_mem [OF assms(1,2), of r s, folded assms(3), OF assms(4) fit]
  have "unat (ke + of_nat i) = unat ke + i" if "i < unat (kernel_mem_pages s')" for i
    using that assms(2) f(2) by (intro unat_add_of_nat) simp
  then show "used_prefix (mem s') (memmap_kernel s') (unat (kernel_mem_pages s')) r"
    using assms(2,5) f fit by (auto simp: used_prefix_def m)
  show "unat ke + r \<le> unat x \<Longrightarrow> unat x < unat (memmap_end s') \<Longrightarrow> mem s' x = MEM_UNUSED"
    by (simp add: m)
qed

lemma last_byte_in_page:
  fixes b e :: nat
  assumes "b \<le> e" and "(e - b) mod 4096 \<noteq> 0"
  shows "b + (e - b) div 4096 * 4096 \<le> e - 1 \<and> e - 1 < b + (e - b) div 4096 * 4096 + 4096"
proof -
  have "(e - b) div 4096 * 4096 + (e - b) mod 4096 = e - b" by simp
  moreover have "(e - b) mod 4096 < 4096" by simp
  ultimately show ?thesis using assms by linarith
qed

text \<open>
  C17: \<open>page_init\<close> establishes the shape the allocator relies on: with the map placed at the end
  of the kernel image, the kernel zone is a used prefix of exactly the reserved pages, every entry
  of the user zone is unused, and the reserved pages cover the whole map (no page after them
  begins before the map's end).
\<close>

theorem page_init_establishes:
  assumes "0xC0000000 \<le> unat ke" and "unat ke + 4 * (unat tm div 16) < 2 ^ 32"
    and "s' = page_init ke tm s" and "r = reserved_pages (memmap_end s')"
    and "r \<le> unat (kernel_mem_pages s')"
  shows "used_prefix (mem s') (memmap_kernel s') (unat (kernel_mem_pages s')) r
    \<and> (\<forall>x \<in> block (memmap_user s') (unat (user_mem_pages s')). mem s' x = MEM_UNUSED)
    \<and> unat (memmap_end s') < 0xC0000000 + r * 4096"
proof -
  note f = page_init_facts [OF assms(1,2), of s, folded assms(3)]
  note p = page_init_prefix [OF assms]
  have "mem s' x = MEM_UNUSED" if "x \<in> block (memmap_user s') (unat (user_mem_pages s'))" for x
    using that f assms(5) by (intro p(2)) (auto simp: mem_block_iff)
  moreover have "unat (memmap_end s') < 0xC0000000 + r * 4096"
    using assms(1,4) f(5) by (simp add: reserved_pages_def)
  ultimately show ?thesis using p(1) by blast
qed

text \<open>The boot configuration of a machine with 128 MB and a kernel that ends at 0xc0120800.\<close>

theorem page_init_establishes_witness:
  "used_prefix (mem (page_init 0xc0120800 131072 tiny_buddy)) 0xc0120800 8192 297"
proof -
  have f: "unat (memmap_end (page_init 0xc0120800 131072 tiny_buddy)) = 0xc0128800"
    "unat (kernel_mem_pages (page_init 0xc0120800 131072 tiny_buddy)) = 8192"
    "memmap_kernel (page_init 0xc0120800 131072 tiny_buddy) = 0xc0120800"
    using page_init_facts [of "0xc0120800" 131072 tiny_buddy] by simp_all
  show ?thesis
    using page_init_establishes [of "0xc0120800" 131072 "page_init 0xc0120800 131072 tiny_buddy" tiny_buddy, OF _ _ refl refl]
    by (simp add: f reserved_pages_def)
qed

text \<open>
  Because of the off-by-one in \<open>palloc\<close>, the first page handed out after \<open>page_init\<close> is
  the last reserved page, and whenever the page map does not end on a page boundary that page
  contains the final byte of the map itself.
\<close>

theorem first_palloc_overlaps_page_map:
  assumes "0xC0000000 \<le> unat ke" and "unat ke + 4 * (unat tm div 16) < 2 ^ 32"
    and "s' = page_init ke tm s" and "r = reserved_pages (memmap_end s')"
    and "r < unat (kernel_mem_pages s')" and "r \<le> 0x40000"
    and "unat (memmap_end s') mod 4096 \<noteq> 0"
  shows "memmap_end s' - 1 \<in> block (fst (palloc ZONE_KERNEL 4096 s')) 4096"
proof -
  note f = page_init_facts [OF assms(1,2), of s, folded assms(3)]
  let ?e = "unat (memmap_end s')"
  have r: "0 < r" "r - 1 = (?e - 0xC0000000) div 4096"
    using assms(4) by (simp_all add: reserved_pages_def)
  from palloc_kernel [OF page_init_prefix(1) [OF assms(1-4)], of 4096]
  have "fst (palloc ZONE_KERNEL 4096 s') = kernel_page (r - 1)"
    using assms(5,6) r(1) by (simp add: page_count_def phy2lin_page)
  moreover have "unat (kernel_page (r - 1)) = 0xC0000000 + (r - 1) * 4096"
    using assms(6) r(1) by (intro unat_kernel_page) simp
  moreover have "unat (memmap_end s' - 1) = ?e - 1"
    using assms(7) by (intro unat_minus_one) auto
  moreover have "(?e - 0xC0000000) mod 4096 \<noteq> 0"
  proof -
    have "?e = (?e - 0xC0000000) + 786432 * 4096" using assms(1) f(5) by simp
    then show ?thesis using assms(7) by (metis mod_mult_self1)
  qed
  ultimately show ?thesis
    using assms(1) f(5) r(2) last_byte_in_page [of "0xC0000000" ?e]
    by (simp add: mem_block_iff)
qed

theorem first_palloc_overlaps_page_map_witness:
  "memmap_end (page_init 0xc0120800 131072 tiny_buddy) - 1
     \<in> block (fst (palloc ZONE_KERNEL 4096 (page_init 0xc0120800 131072 tiny_buddy))) 4096"
proof -
  have f: "unat (memmap_end (page_init 0xc0120800 131072 tiny_buddy)) = 0xc0128800"
    "unat (kernel_mem_pages (page_init 0xc0120800 131072 tiny_buddy)) = 8192"
    using page_init_facts [of "0xc0120800" 131072 tiny_buddy] by simp_all
  show ?thesis
    by (rule first_palloc_overlaps_page_map [of "0xc0120800" 131072, OF _ _ refl refl])
      (simp_all add: f reserved_pages_def)
qed

lemma whole_pages:
  assumes "n < 4096" and "sz = of_nat (n * 4096)"
  shows "sz div 4096 = of_nat n" "page_count sz = of_nat n"
proof -
  have usz: "unat sz = n * 4096" using assms by (simp add: unat_of_nat del: of_nat_mult)
  then have "unat (sz div 4096) = n" by (simp add: unat_div)
  then show dv: "sz div 4096 = of_nat n" by (rule eq_of_unat)
  have "unat (sz mod 4096) = 0" using usz by (simp add: unat_mod)
  then show "page_count sz = of_nat n" by (simp add: page_count_def dv unat_eq_zero)
qed

lemma kernel_page_index:
  assumes "0 < k" and "k \<le> 0x40000"
  shows "drop_bit 12 (lin2phy (kernel_page (k - 1))) + 1 = of_nat k"
proof -
  have "lin2phy (kernel_page (k - 1)) = of_nat ((k - 1) * 4096)"
    using assms unat_kernel_page [of "k - 1"]
    by (simp add: lin2phy_def kernel_page_def word_le_nat_alt del: of_nat_mult)
  moreover have "unat (of_nat ((k - 1) * 4096) :: addr) = (k - 1) * 4096"
    using assms by (simp add: unat_of_nat del: of_nat_mult)
  ultimately have "unat (drop_bit 12 (lin2phy (kernel_page (k - 1)))) = k - 1"
    by (simp add: unat_drop_bit del: of_nat_mult)
  then show ?thesis
    using eq_of_unat [of "drop_bit 12 (lin2phy (kernel_page (k - 1)))" "k - 1"] assms(1) by (simp add: of_nat_diff)
qed

lemma set_status_undone:
  assumes "used_prefix m p N k" and "k + n \<le> N" and "0 < n"
  shows "set_status n (p + of_nat k) MEM_UNUSED (set_status n (p + of_nat k) MEM_USED m) = m"
proof
  fix x
  have b: "unat (p + of_nat k) + n \<le> 2 ^ 32" using assms by (simp add: used_prefix_def unat_add_of_nat)
  have "m x = MEM_UNUSED" if "x \<in> block (p + of_nat k) n"
  proof -
    from that obtain i where "i < n" and "x = p + of_nat (k + i)" by (elim block_cases) (simp add: add.assoc)
    then show ?thesis using assms(1,2) by (simp add: used_prefix_def del: of_nat_add)
  qed
  then show "set_status n (p + of_nat k) MEM_UNUSED (set_status n (p + of_nat k) MEM_USED m) x = m x"
    using b by (simp add: set_status_spec)
qed

lemma pfree_writes:
  assumes "0 < n" and "n < 4096" and "sz = of_nat (n * 4096)"
  shows "pfree p sz ZONE_KERNEL s = s\<lparr>mem := set_status n (memmap_kernel s + (drop_bit 12 p + 1)) MEM_UNUSED (mem s)\<rparr>"
proof -
  have un: "unat (of_nat n :: u32) = n" using assms(2) by (simp add: unat_of_nat)
  have "(of_nat n :: u32) mod 4096 = of_nat n" using un assms(2) by (simp add: word_unat_eq_iff unat_mod)
  moreover have "(of_nat n :: u32) \<noteq> 0" using un assms(1) by (metis unat_0 less_irrefl)
  moreover have "unat (of_nat n + 1 :: u32) = Suc n" using un assms(2) by (simp add: unat_inc)
  ultimately show ?thesis by (simp add: pfree_def whole_pages [OF assms(2,3)] Let_def add.assoc)
qed

lemma set_status_other: "(\<And>i. i < n \<Longrightarrow> x \<noteq> p + of_nat i) \<Longrightarrow> set_status n p v m x = m x"
proof (induction n arbitrary: p m)
  case (Suc n)
  have "x \<noteq> p" using Suc.prems [of 0] by simp
  moreover have "x \<noteq> p + 1 + of_nat i" if "i < n" for i using Suc.prems [of "Suc i"] that by (simp add: add.assoc)
  ultimately show ?case using Suc.IH [of "p + 1"] by simp
qed simp

text \<open>A page of the kernel zone is never among the status bytes that its own linear address selects.\<close>

lemma linear_index_apart:
  assumes "0 < k" and "k \<le> 0x40000" and "i < 4096" and "j < 4096"
  shows "(p :: addr) + of_nat (k + i) \<noteq> p + (drop_bit 12 (kernel_page (k - 1)) + 1) + of_nat j"
proof
  have "unat (drop_bit 12 (kernel_page (k - 1))) = 0xC0000 + (k - 1)"
    using assms unat_kernel_page [of "k - 1"] by (simp add: unat_drop_bit)
  then have d: "drop_bit 12 (kernel_page (k - 1)) + 1 = of_nat (0xC0000 + k)"
    using eq_of_unat [of "drop_bit 12 (kernel_page (k - 1))" "0xC0000 + (k - 1)"] assms(1) by (simp add: of_nat_diff)
  assume "p + of_nat (k + i) = p + (drop_bit 12 (kernel_page (k - 1)) + 1) + of_nat j"
  then have "(of_nat (k + i) :: addr) = of_nat (0xC0000 + k + j)" unfolding d by (simp add: add.assoc)
  then have "unat (of_nat (k + i) :: addr) = unat (of_nat (0xC0000 + k + j) :: addr)" by (rule arg_cong)
  then show False using assms by (simp add: unat_of_nat del: of_nat_add of_nat_numeral)
qed



text \<open>
  In a fragmented kernel zone \<open>palloc\<close> hands out the same memory twice, because the run it
  marks starts at \<open>head_ptr\<close>, which advances once per used page only. With the pages used, free,
  used, free, free, a request for two pages returns page 2 (its range is pages 2 and 3) but marks
  pages 2 and 3 instead of 3 and 4, and the second of two further one-page requests returns page 3.
\<close>

definition frag_buddy :: buddy where
  "frag_buddy = \<lparr>mem = (\<lambda>_. MEM_USED)(0xc0100001 := MEM_UNUSED, 0xc0100003 := MEM_UNUSED, 0xc0100004 := MEM_UNUSED),
     io = [], memmap_kernel = 0xc0100000, memmap_user = 0xc0100005, memmap_end = 0xc0100005,
     kernel_mem_pages = 5, user_mem_pages = 0\<rparr>"

theorem palloc_fragmented_overlap:
  "\<exists>p s1 q s2 r s3. palloc ZONE_KERNEL 8192 frag_buddy = (p, s1) \<and> palloc ZONE_KERNEL 4096 s1 = (q, s2)
     \<and> palloc ZONE_KERNEL 4096 s2 = (r, s3) \<and> p = kernel_page 2 \<and> r = kernel_page 3
     \<and> block p 8192 \<inter> block r 4096 \<noteq> {}"
proof -
  let ?m = "\<lambda>_ :: addr. MEM_USED"
  have two: "set_status 2 p v m = m(p := v, p + 1 := v)" for p v m
    by (simp add: numeral_2_eq_2)
  have a: "palloc ZONE_KERNEL 8192 frag_buddy = (0xc0002000, frag_buddy\<lparr>mem := ?m(0xc0100001 := MEM_UNUSED, 0xc0100003 := MEM_UNUSED,
      0xc0100004 := MEM_UNUSED, 0xc0100002 := MEM_USED, 0xc0100003 := MEM_USED)\<rparr>)"
    by (simp add: palloc_def page_count_def frag_buddy_def palloc_loop.simps phy2lin_def two)
  have b: "palloc ZONE_KERNEL 4096 (snd (palloc ZONE_KERNEL 8192 frag_buddy)) = (0xc0000000, frag_buddy\<lparr>mem := ?m(0xc0100001 := MEM_UNUSED, 0xc0100003 := MEM_UNUSED,
      0xc0100004 := MEM_UNUSED, 0xc0100002 := MEM_USED, 0xc0100003 := MEM_USED, 0xc0100001 := MEM_USED)\<rparr>)"
    by (simp add: a) (simp add: palloc_def page_count_def frag_buddy_def palloc_loop.simps phy2lin_def)
  have c: "fst (palloc ZONE_KERNEL 4096 (snd (palloc ZONE_KERNEL 4096 (snd (palloc ZONE_KERNEL 8192 frag_buddy))))) = 0xc0003000"
    by (simp add: b) (simp add: palloc_def page_count_def frag_buddy_def palloc_loop.simps phy2lin_def)
  have "(0xc0003000 :: addr) \<in> block 0xc0002000 8192 \<inter> block 0xc0003000 4096"
    by (simp add: mem_block_iff)
  then show ?thesis
    using a b c by (fastforce simp: kernel_page_def prod_eq_iff)
qed

text \<open>
  The first allocation of any size from an untouched user zone returns a physical address in
  the page below address zero (0xfffff000), outside every zone, instead of the start of the zone.
\<close>

theorem palloc_user_first:
  assumes "used_prefix (mem s) (memmap_user s) (unat (user_mem_pages s)) 0"
    and "0 < unat (page_count sz)" and "unat (page_count sz) \<le> unat (user_mem_pages s)"
  shows "fst (palloc ZONE_USER sz s) = 0xfffff000"
  using palloc_loop_prefix [OF assms(1,2), of ZONE_USER] assms(3) by (simp add: palloc_def mask_eq_exp_minus_1)

theorem palloc_user_first_witness: "fst (palloc ZONE_USER 4096 tiny_buddy) = 0xfffff000"
proof -
  have "unat (0xc0100008 + of_nat i :: addr) = 0xc0100008 + i" if "i < 4" for i
    using that unat_add_of_nat [of "0xc0100008" i] by simp
  then have "used_prefix (mem tiny_buddy) (memmap_user tiny_buddy) (unat (user_mem_pages tiny_buddy)) 0"
    by (auto simp: used_prefix_def tiny_buddy_def tiny_map_def word_less_nat_alt)
  from palloc_user_first [OF this, of 4096] show ?thesis by (simp add: page_count_def tiny_buddy_def)
qed

end
