(* ===== verification/Mm_Slab.thy ===== *)
theory Mm_Slab
  imports Mm_Buddy
begin

text \<open>
  \<open>mm/slab.c\<close>: the object allocator behind \<open>kmalloc\<close>. A cache (\<open>kmem_cache_t\<close>) holds three
  lists of slabs (one page each); a slab begins with its header, then an array of free-list
  nodes (\<open>free_t\<close>), then the objects. The structs live in the byte memory at their compiler
  offsets, which the abbreviations below name. The static struct \<open>kmem_kmem\<close> is reached through
  its linker address, a field of the state.
\<close>

section \<open>Struct layout\<close>

abbreviation (input) kmem_empty_slab :: "memory \<Rightarrow> addr \<Rightarrow> addr" where "kmem_empty_slab m k \<equiv> load32 m k"
abbreviation (input) kmem_partial_slab :: "memory \<Rightarrow> addr \<Rightarrow> addr" where "kmem_partial_slab m k \<equiv> load32 m (k + 4)"
abbreviation (input) kmem_full_slab :: "memory \<Rightarrow> addr \<Rightarrow> addr" where "kmem_full_slab m k \<equiv> load32 m (k + 8)"
abbreviation (input) kmem_obj_size :: "memory \<Rightarrow> addr \<Rightarrow> u32" where "kmem_obj_size m k \<equiv> load32 m (k + 12)"
abbreviation (input) kmem_obj_count :: "memory \<Rightarrow> addr \<Rightarrow> u32" where "kmem_obj_count m k \<equiv> load32 m (k + 16)"
abbreviation (input) kmem_next :: "memory \<Rightarrow> addr \<Rightarrow> addr" where "kmem_next m k \<equiv> load32 m (k + 24)"
abbreviation (input) slab_start :: "memory \<Rightarrow> addr \<Rightarrow> addr" where "slab_start m p \<equiv> load32 m p"
abbreviation (input) slab_free_count :: "memory \<Rightarrow> addr \<Rightarrow> u32" where "slab_free_count m p \<equiv> load32 m (p + 4)"
abbreviation (input) slab_parent :: "memory \<Rightarrow> addr \<Rightarrow> addr" where "slab_parent m p \<equiv> load32 m (p + 8)"
abbreviation (input) slab_free :: "memory \<Rightarrow> addr \<Rightarrow> addr" where "slab_free m p \<equiv> load32 m (p + 12)"
abbreviation (input) slab_next :: "memory \<Rightarrow> addr \<Rightarrow> addr" where "slab_next m p \<equiv> load32 m (p + 16)"
abbreviation (input) free_index :: "memory \<Rightarrow> addr \<Rightarrow> u32" where "free_index m f \<equiv> load32 m f"
abbreviation (input) free_next :: "memory \<Rightarrow> addr \<Rightarrow> addr" where "free_next m f \<equiv> load32 m (f + 4)"

abbreviation (input) KMEM_FLAG_COMFORT :: u32 where "KMEM_FLAG_COMFORT \<equiv> 1"
abbreviation (input) KMEM_FLAG_STRICT :: u32 where "KMEM_FLAG_STRICT \<equiv> 2"
abbreviation (input) SLAB_SIZE :: u32 where "SLAB_SIZE \<equiv> 4096"

record slab_sys = buddy +
  kmem_kmem :: addr
  quick_alloc_table :: "addr list"

section \<open>Operations\<close>

text \<open>The loaded image of the static struct \<open>kmem_kmem\<close>: 28-byte objects, 113 per slab.\<close>

definition kmem_kmem_image :: "addr \<Rightarrow> memory \<Rightarrow> memory" where
  "kmem_kmem_image k m =
     (let m = store32 m k 0;
          m = store32 m (k + 4) 0;
          m = store32 m (k + 8) 0;
          m = store32 m (k + 12) 28;
          m = store32 m (k + 16) ((SLAB_SIZE - 20) div (8 + 28));
          m = store32 m (k + 20) KMEM_FLAG_STRICT
      in store32 m (k + 24) 0)"

primrec creat_slab_loop :: "nat \<Rightarrow> u32 \<Rightarrow> addr \<Rightarrow> addr \<Rightarrow> memory \<Rightarrow> addr \<times> addr \<times> memory" where
  "creat_slab_loop 0 i freeidx prev m = (freeidx, prev, m)"
| "creat_slab_loop (Suc n) i freeidx prev m =
     (let m = store32 m freeidx i;
          freeidx = freeidx + 8;
          m = store32 m (prev + 4) freeidx
      in creat_slab_loop n (i + 1) freeidx (prev + 8) m)"

definition creat_slab :: "u32 \<Rightarrow> 'a slab_sys_scheme \<Rightarrow> (addr \<times> 'a slab_sys_scheme) result" where
  "creat_slab obj_count s =
     (let (slab, s) = palloc ZONE_KERNEL (1 * PAGE_SIZE) s in
      deref slab
       (let m = store32 (mem s) (slab + 4) obj_count;
            m = store32 m (slab + 16) 0;
            freeidx = slab + 20;
            m = store32 m (slab + 12) freeidx;
            (freeidx, prev, m) = creat_slab_loop (unat obj_count) 0 freeidx freeidx m;
            prev = prev - 8;
            m = store32 m (prev + 4) 0;
            m = store32 m slab freeidx
        in Inr (slab, s\<lparr>mem := m\<rparr>)))"

definition alloc_from_slab :: "addr \<Rightarrow> u32 \<Rightarrow> memory \<Rightarrow> (addr \<times> memory) result" where
  "alloc_from_slab slab obj_size m =
     deref slab
      (let a = slab_free m slab in
       deref a
        (let m = store32 m (slab + 12) (free_next m a);
             m = store32 m (slab + 4) (slab_free_count m slab - 1);
             index = free_index m a
         in Inr (slab_start m slab + obj_size * index, m)))"

text \<open>
  The status of the source is 0 for a slab taken from the partial list and also for a slab just
  created (the jump to \<open>creat_fin\<close>), 1 for a slab taken from the empty list.
\<close>

definition alloc_from_kmem :: "addr \<Rightarrow> 'a slab_sys_scheme \<Rightarrow> (addr \<times> 'a slab_sys_scheme) result" where
  "alloc_from_kmem kmem s = deref kmem
    (let m = mem s in
     bindE
      (if kmem_partial_slab m kmem = 0 then
         if kmem_empty_slab m kmem = 0 then
           bindE (creat_slab (kmem_obj_count m kmem) s) (\<lambda>(head, s).
             let m = store32 (mem s) (head + 8) kmem;
                 m = store32 m kmem head
             in Inr (head, 0 :: nat, s\<lparr>mem := m\<rparr>))
         else Inr (kmem_empty_slab m kmem, 1, s)
       else Inr (kmem_partial_slab m kmem, 0, s))
      (\<lambda>(head, status, s).
     bindE (alloc_from_slab head (kmem_obj_size (mem s) kmem) (mem s)) (\<lambda>(ret, m).
       let m =
         (if status = 0 then
            if slab_free_count m head = 0 then
              let m = store32 m (kmem + 4) (slab_next m head);
                  m = store32 m (head + 16) (kmem_full_slab m kmem)
              in store32 m (kmem + 8) head
            else m
          else if slab_free_count m head = 0 then
            let m = store32 m kmem (slab_next m head);
                m = store32 m (head + 16) (kmem_full_slab m kmem)
            in store32 m (kmem + 8) head
          else
            let m = store32 m kmem (slab_next m head);
                m = store32 m (head + 16) (kmem_partial_slab m kmem)
            in store32 m (kmem + 4) head)
       in Inr (ret, s\<lparr>mem := m\<rparr>))))"

definition add_kmem :: "u32 \<Rightarrow> u32 \<Rightarrow> 'a slab_sys_scheme \<Rightarrow> (addr \<times> 'a slab_sys_scheme) result" where
  "add_kmem obj_size flags s =
     bindE (alloc_from_kmem (kmem_kmem s) s) (\<lambda>(kmem, s).
     deref kmem
      (let m = store32 (mem s) kmem 0;
           m = store32 m (kmem + 4) 0;
           m = store32 m (kmem + 8) 0;
           m = store32 m (kmem + 12) obj_size;
           m = store32 m (kmem + 16) ((SLAB_SIZE - 20) div (8 + obj_size));
           m = store32 m (kmem + 20) flags;
           m = store32 m (kmem + 24) 0;
           m = store32 m (kmem + 24) (kmem_next m (kmem_kmem s));
           m = store32 m (kmem_kmem s + 24) kmem
       in Inr (kmem, s\<lparr>mem := m\<rparr>)))"

primrec slab_init_loop :: "nat \<Rightarrow> nat \<Rightarrow> u32 \<Rightarrow> 'a slab_sys_scheme \<Rightarrow> 'a slab_sys_scheme result" where
  "slab_init_loop 0 i sz s = Inr s"
| "slab_init_loop (Suc n) i sz s =
     bindE (add_kmem sz KMEM_FLAG_COMFORT s) (\<lambda>(k, s).
       slab_init_loop n (Suc i) (push_bit 1 sz)
         (s\<lparr>quick_alloc_table := (quick_alloc_table s)[i := k]\<rparr>))"

definition slab_init :: "'a slab_sys_scheme \<Rightarrow> 'a slab_sys_scheme result" where
  "slab_init s = slab_init_loop 12 0 1 s"

text \<open>The list walk that \<open>query_kmem\<close> and the strict branch of \<open>__kmalloc\<close> share.\<close>

partial_function (option) kmem_walk :: "memory \<Rightarrow> addr \<Rightarrow> u32 \<Rightarrow> addr result option" where
  "kmem_walk m kmem sz =
     (if \<not> mapped kmem then Some (Inl (Page_Fault kmem))
      else if kmem_obj_size m kmem = sz then Some (Inr kmem)
      else if kmem_next m kmem = 0 then Some (Inr 0)
      else kmem_walk m (kmem_next m kmem) sz)"

definition query_kmem :: "u32 \<Rightarrow> 'a slab_sys_scheme \<Rightarrow> addr result" where
  "query_kmem sz s = returns (kmem_walk (mem s) (kmem_kmem s) sz)"

text \<open>The size-class loop: shift until zero, then index \<open>quick_alloc_table[i + 1]\<close>.\<close>

primrec size_class :: "nat \<Rightarrow> nat \<Rightarrow> u32 \<Rightarrow> nat option" where
  "size_class 0 i sz = None"
| "size_class (Suc n) i sz = (if drop_bit 1 sz = 0 then Some (i + 1) else size_class n (Suc i) (drop_bit 1 sz))"

definition kmalloc_flags :: "u32 \<Rightarrow> u32 \<Rightarrow> addr \<Rightarrow> 'a slab_sys_scheme \<Rightarrow> (addr \<times> 'a slab_sys_scheme) result" where
  "kmalloc_flags sz flags quickalloc s =
     (if SLAB_SIZE div 2 < sz then Inr (0, s)
      else if flags = KMEM_FLAG_COMFORT then
        (case size_class 12 0 sz of
           None \<Rightarrow> Inl Undefined
         | Some i \<Rightarrow> if i < length (quick_alloc_table s)
                     then alloc_from_kmem (quick_alloc_table s ! i) s else Inl Out_Of_Bounds)
      else if flags = KMEM_FLAG_STRICT then
        (if quickalloc \<noteq> 0 then alloc_from_kmem quickalloc s
         else bindE (returns (kmem_walk (mem s) (kmem_kmem s) sz)) (\<lambda>k.
           if k = 0 then Inr (0, s) else alloc_from_kmem k s))
      else Inl Undefined)"

definition kmalloc :: "u32 \<Rightarrow> 'a slab_sys_scheme \<Rightarrow> (addr \<times> 'a slab_sys_scheme) result" where
  "kmalloc sz = kmalloc_flags sz KMEM_FLAG_COMFORT 0"

definition kmalloc_s :: "u32 \<Rightarrow> 'a slab_sys_scheme \<Rightarrow> (addr \<times> 'a slab_sys_scheme) result" where
  "kmalloc_s sz = kmalloc_flags sz KMEM_FLAG_STRICT 0"

definition qsmalloc :: "addr \<Rightarrow> 'a slab_sys_scheme \<Rightarrow> (addr \<times> 'a slab_sys_scheme) result" where
  "qsmalloc quickalloc = kmalloc_flags 0 KMEM_FLAG_STRICT quickalloc"

definition release_slab :: "addr \<Rightarrow> memory \<Rightarrow> (addr \<times> memory) result" where
  "release_slab obj m =
     (let slab = obj AND 0xfffff000 in
      deref slab (deref (slab_parent m slab)
       (if kmem_obj_size m (slab_parent m slab) = 0 then Inl Divide_Error
        else
          let index = (obj - slab_start m slab) div kmem_obj_size m (slab_parent m slab);
              free_node = slab_free m slab + 8 * index
          in deref free_node
              (let m = store32 m (free_node + 4) (slab_free m slab);
                   m = store32 m (slab + 12) free_node;
                   m = store32 m (slab + 4) (slab_free_count m slab + 1)
               in Inr (slab, m)))))"

partial_function (option) find_prev :: "memory \<Rightarrow> addr \<Rightarrow> addr \<Rightarrow> addr result option" where
  "find_prev m head slab =
     (if \<not> mapped head then Some (Inl (Page_Fault head))
      else if slab_next m head \<noteq> slab then find_prev m (slab_next m head) slab
      else Some (Inr head))"

definition kfree :: "addr \<Rightarrow> 'a slab_sys_scheme \<Rightarrow> 'a slab_sys_scheme result" where
  "kfree a s =
     (if a < 0xc0000000 then Inr s
      else bindE (release_slab a (mem s)) (\<lambda>(slab, m).
        let parent = slab_parent m slab;
            head = (if slab_free_count m slab = 1 then kmem_full_slab m parent
                    else kmem_partial_slab m parent)
        in bindE (if head = slab then Inr head else returns (find_prev m head slab)) (\<lambda>head.
          let m = store32 m (head + 16) (slab_next m slab);
              m = (if slab_free_count m slab = kmem_obj_count m parent then
                     let m = store32 m (slab + 16) (kmem_empty_slab m parent)
                     in store32 m parent slab
                   else
                     let m = store32 m (slab + 16) (kmem_partial_slab m parent)
                     in store32 m (parent + 4) slab)
          in Inr (s\<lparr>mem := m\<rparr>))))"

end
