(* ===== verification/Mm_Slab_Inv.thy ===== *)
theory Mm_Slab_Inv
  imports Mm_Slab
begin

text \<open>
  Correctness of \<open>mm/slab.c\<close> for histories without \<open>kfree\<close>. Each cache is in one of three
  phases, which the ghost record \<open>cache\<close> names: no current slab, a slab with one object taken
  that still sits in the empty list (the state \<open>alloc_from_kmem\<close> leaves after it has created a
  slab), or a slab with at least two objects taken in the partial list. \<open>heap_inv\<close> relates the
  memory to a list of such records and gives the set of addresses the allocator owns.
\<close>

section \<open>One slab\<close>

text \<open>The address of the \<open>i\<close>-th free-list node, and of the \<open>i\<close>-th object, of a slab.\<close>

definition slab_node :: "addr \<Rightarrow> nat \<Rightarrow> addr" where
  "slab_node S i = S + of_nat (20 + 8 * i)"

definition slab_obj :: "addr \<Rightarrow> nat \<Rightarrow> nat \<Rightarrow> nat \<Rightarrow> addr" where
  "slab_obj S n sz i = S + of_nat (20 + 8 * n + sz * i)"

text \<open>A slab of \<open>n\<close> objects of which the first \<open>k\<close> have been handed out, in order.\<close>

definition slab_ok :: "memory \<Rightarrow> addr \<Rightarrow> nat \<Rightarrow> nat \<Rightarrow> bool" where
  "slab_ok m S n k \<longleftrightarrow>
     slab_start m S = slab_node S n \<and> slab_free_count m S = of_nat (n - k)
     \<and> slab_free m S = (if k < n then slab_node S k else 0) \<and> slab_next m S = 0
     \<and> (\<forall>i. k \<le> i \<and> i < n \<longrightarrow> free_index m (slab_node S i) = of_nat i
         \<and> free_next m (slab_node S i) = (if Suc i < n then slab_node S (Suc i) else 0))"

lemma unat_slab_node:
  "page_aligned S \<Longrightarrow> 20 + 8 * i < 4096 \<Longrightarrow> unat (slab_node S i) = unat S + (20 + 8 * i)"
  unfolding slab_node_def by (rule page_offset)

lemma unat_slab_obj:
  "page_aligned S \<Longrightarrow> 20 + 8 * n + sz * i < 4096 \<Longrightarrow>
     unat (slab_obj S n sz i) = unat S + (20 + 8 * n + sz * i)"
  unfolding slab_obj_def by (rule page_offset)

lemma slab_node_Suc: "slab_node S i + 8 = slab_node S (Suc i)"
  by (simp add: slab_node_def)

lemma slab_node_0: "slab_node S 0 = S + 20"
  by (simp add: slab_node_def)

lemma unat_slab_node4:
  "page_aligned S \<Longrightarrow> 28 + 8 * i \<le> 4096 \<Longrightarrow> unat (slab_node S i + 4) = unat S + (24 + 8 * i)"
  using page_offset [of S "24 + 8 * i"] by (simp add: slab_node_def ac_simps)

lemma unat_off:
  "page_aligned S \<Longrightarrow> unat j < 4096 \<Longrightarrow> unat (S + j) = unat S + unat j"
  using page_aligned_bound [of S] by (intro unat_add_word) simp

lemma creat_slab_loop_spec:
  assumes "page_aligned S" and "20 + 8 * n < 4096"
  shows "i + r = n \<Longrightarrow> \<exists>m'. creat_slab_loop r (of_nat i) (slab_node S i) (slab_node S i) m
      = (slab_node S n, slab_node S n, m')
    \<and> same_off (block (slab_node S i) (8 * r)) m m'
    \<and> (\<forall>j. i \<le> j \<and> j < n \<longrightarrow> load32 m' (slab_node S j) = of_nat j
        \<and> load32 m' (slab_node S j + 4) = slab_node S (Suc j))"
proof (induction r arbitrary: i m)
  case 0
  then show ?case by auto
next
  case (Suc r)
  let ?f = "slab_node S i"
  let ?m1 = "store32 m ?f (of_nat i)"
  let ?m2 = "store32 ?m1 (?f + 4) (slab_node S (Suc i))"
  have uf: "unat ?f = unat S + (20 + 8 * i)" "unat (?f + 4) = unat S + (24 + 8 * i)"
    "unat (slab_node S (Suc i)) = unat S + (28 + 8 * i)"
    using assms Suc.prems by (simp_all add: unat_slab_node unat_slab_node4)
  have b: "unat S + 4096 \<le> 2 ^ 32" using assms(1) by (rule page_aligned_bound)
  obtain m' where m': "creat_slab_loop r (of_nat (Suc i)) (slab_node S (Suc i)) (slab_node S (Suc i)) ?m2
      = (slab_node S n, slab_node S n, m')"
    "same_off (block (slab_node S (Suc i)) (8 * r)) ?m2 m'"
    "\<forall>j. Suc i \<le> j \<and> j < n \<longrightarrow> load32 m' (slab_node S j) = of_nat j
        \<and> load32 m' (slab_node S j + 4) = slab_node S (Suc j)"
    using Suc.IH [of "Suc i" ?m2] Suc.prems by auto
  have "same_off (block ?f 4) m ?m1" "same_off (block (?f + 4) 4) ?m1 ?m2"
    using b uf Suc.prems assms by (simp_all add: store32_same_off)
  then have so: "same_off (block ?f (8 * Suc r)) m m'"
    using m'(2) uf by (elim same_off_mono [THEN same_off_trans [THEN same_off_trans]])
      (auto simp: mem_block_iff same_off_def)
  have "load32 m' ?f = load32 ?m2 ?f" "load32 m' (?f + 4) = load32 ?m2 (?f + 4)"
    by (rule load32_frame [OF m'(2)]; use uf b Suc.prems assms(2) in simp)+
  then have "load32 m' ?f = of_nat i \<and> load32 m' (?f + 4) = slab_node S (Suc i)"
    by (simp add: load32_store32_apart)
  then show ?case
    using m' so by (auto simp: slab_node_Suc Let_def le_Suc_eq add.commute dest: le_imp_less_or_eq)
qed

lemma header_block:
  "page_aligned S \<Longrightarrow> unat j + 4 \<le> n \<Longrightarrow> n \<le> 4096 \<Longrightarrow> block (S + j) 4 \<subseteq> block S n"
  by (auto simp: mem_block_iff unat_off)

lemma mapped_slab_node: "mapped S \<Longrightarrow> page_aligned S \<Longrightarrow> 20 + 8 * i < 4096 \<Longrightarrow> mapped (slab_node S i)"
  by (simp add: mapped_def word_le_nat_alt unat_slab_node)

lemma slab_obj_node: "slab_node S n + of_nat sz * of_nat k = slab_obj S n sz k"
  by (simp add: slab_node_def slab_obj_def ac_simps)

lemma creat_slab_ok:
  assumes "palloc ZONE_KERNEL 4096 s = (S, s1)" and "mapped S" and "page_aligned S"
    and "0 < n" and "20 + 8 * n < 4096"
  shows "\<exists>m'. creat_slab (of_nat n) s = Inr (S, s1\<lparr>mem := m'\<rparr>) \<and> slab_ok m' S n 0
    \<and> same_off (block S (20 + 8 * n)) (mem s1) m'"
proof -
  let ?m1 = "store32 (store32 (store32 (mem s1) (S + 4) (of_nat n)) (S + 16) 0) (S + 12) (S + 20)"
  have b: "unat S + 4096 \<le> 2 ^ 32" using assms(3) by (rule page_aligned_bound)
  have un: "unat (of_nat n :: u32) = n" using assms(5) by (simp add: unat_of_nat)
  obtain m2 where m2: "creat_slab_loop n 0 (S + 20) (S + 20) ?m1 = (slab_node S n, slab_node S n, m2)"
    "same_off (block (S + 20) (8 * n)) ?m1 m2"
    "\<forall>j. j < n \<longrightarrow> load32 m2 (slab_node S j) = of_nat j \<and> load32 m2 (slab_node S j + 4) = slab_node S (Suc j)"
    using creat_slab_loop_spec [OF assms(3,5), of 0 n ?m1] by (auto simp: slab_node_0)
  obtain l where n: "n = Suc l" using assms(4) by (cases n) auto
  have prev: "slab_node S n - 4 = slab_node S l + 4" by (simp add: n slab_node_def)
  let ?m3 = "store32 m2 (slab_node S l + 4) 0"
  let ?m4 = "store32 ?m3 S (slab_node S n)"
  have ul: "unat (slab_node S l + 4) = unat S + (24 + 8 * l)" "unat (S + 20) = unat S + 20"
    using assms(3,5) n by (simp_all add: unat_slab_node4 unat_off)
  have hdr: "load32 ?m4 (S + j) = load32 ?m1 (S + j)" if "unat j + 4 \<le> 20" "apart 0 j" for j
  proof -
    have "load32 ?m4 (S + j) = load32 ?m3 (S + j)"
      using that by (simp add: load32_store32_apart)
    also have "\<dots> = load32 m2 (S + j)"
      by (rule load32_frame [OF store32_same_off]) (use that ul b assms(3,5) n in \<open>simp_all add: unat_off\<close>)
    also have "\<dots> = load32 ?m1 (S + j)"
      by (rule load32_frame [OF m2(2)]) (use that ul b assms(3) in \<open>simp_all add: unat_off\<close>)
    finally show ?thesis .
  qed
  have nodes: "load32 ?m4 (slab_node S i) = of_nat i
      \<and> load32 ?m4 (slab_node S i + 4) = (if Suc i < n then slab_node S (Suc i) else 0)" if "i < n" for i
  proof -
    have ui: "unat (slab_node S i) = unat S + (20 + 8 * i)" "unat (slab_node S i + 4) = unat S + (24 + 8 * i)"
      using that assms(3,5) by (simp_all add: unat_slab_node unat_slab_node4)
    have "load32 ?m4 x = load32 ?m3 x" if "unat S + 20 \<le> unat x" "unat x + 4 \<le> 2 ^ 32" for x
      by (rule load32_frame [OF store32_same_off]) (use that b in simp_all)
    moreover have "load32 ?m3 x = load32 m2 x"
      if "unat x + 4 \<le> unat (slab_node S l + 4) \<or> unat (slab_node S l + 4) + 4 \<le> unat x" "unat x + 4 \<le> 2 ^ 32" for x
      by (rule load32_frame [OF store32_same_off]) (use that b ul assms(5) n in simp_all)
    ultimately show ?thesis
      using m2(3) that ui ul b n assms(5) by (cases "i = l") auto
  qed
  have "same_off (block S (20 + 8 * n)) (mem s1) ?m1"
    using b assms(3,5) by (intro same_off_store32 same_off_refl header_block) (simp_all add: unat_off)
  moreover have "same_off (block S (20 + 8 * n)) ?m1 m2"
    using m2(2) ul by (rule_tac same_off_mono) (auto simp: mem_block_iff)
  ultimately have "same_off (block S (20 + 8 * n)) (mem s1) m2" by (rule same_off_trans)
  then have so: "same_off (block S (20 + 8 * n)) (mem s1) ?m4"
    using ul b n assms(5) by (intro same_off_store32) (auto simp: mem_block_iff)
  have "slab_ok ?m4 S n 0"
    using hdr [of 4] hdr [of 12] hdr [of 16] nodes assms(4)
    by (simp add: slab_ok_def load32_store32_apart slab_node_0)
  moreover have "creat_slab (of_nat n) s = Inr (S, s1\<lparr>mem := ?m4\<rparr>)"
    using assms(1,2) m2(1) un by (simp add: creat_slab_def Let_def prev)
  ultimately show ?thesis using so by blast
qed

lemma alloc_from_slab_ok:
  assumes "slab_ok m S n k" and "k < n" and "mapped S" and "page_aligned S" and "20 + 8 * n < 4096"
  shows "\<exists>m'. alloc_from_slab S (of_nat sz) m = Inr (slab_obj S n sz k, m') \<and> slab_ok m' S n (Suc k)
    \<and> same_off (block S 20) m m' \<and> load32 m' (S + 8) = load32 m (S + 8)"
proof -
  have b: "unat S + 4096 \<le> 2 ^ 32" using assms(4) by (rule page_aligned_bound)
  let ?f = "slab_node S k"
  let ?m1 = "store32 m (S + 12) (load32 m (?f + 4))"
  let ?m2 = "store32 ?m1 (S + 4) (load32 ?m1 (S + 4) - 1)"
  have so: "same_off (block S 20) m ?m2"
    using b assms(4) by (intro same_off_store32 same_off_refl header_block) (simp_all add: unat_off)
  have nd: "load32 ?m2 (slab_node S i) = load32 m (slab_node S i)"
    "load32 ?m2 (slab_node S i + 4) = load32 m (slab_node S i + 4)" if "i < n" for i
    by (rule load32_frame [OF so]; use that b assms(4,5) in \<open>simp add: unat_slab_node unat_slab_node4\<close>)+
  have "alloc_from_slab S (of_nat sz) m = Inr (load32 ?m2 S + of_nat sz * load32 ?m2 ?f, ?m2)"
    using assms by (simp add: alloc_from_slab_def slab_ok_def mapped_slab_node Let_def)
  moreover have "load32 ?m2 S = slab_node S n"
    using assms(1) by (simp add: slab_ok_def load32_store32_apart)
  moreover have "load32 ?m2 ?f = of_nat k"
    using nd(1) [of k] assms(1,2) by (simp add: slab_ok_def)
  ultimately have "alloc_from_slab S (of_nat sz) m = Inr (slab_obj S n sz k, ?m2)"
    by (simp add: slab_obj_node)
  moreover have "slab_ok ?m2 S n (Suc k)"
    using assms(1,2) nd by (auto simp: slab_ok_def load32_store32_apart of_nat_diff)
  moreover have "load32 ?m2 (S + 8) = load32 m (S + 8)"
    by (simp add: load32_store32_apart)
  ultimately show ?thesis using so by blast
qed

section \<open>One cache\<close>

record cache =
  c_addr :: addr
  c_count :: nat
  c_size :: nat
  c_cur :: "(addr \<times> nat) option"

text \<open>What the memory says of a cache, and where its parts may lie.\<close>

definition cache_mem :: "memory \<Rightarrow> cache \<Rightarrow> bool" where
  "cache_mem m c \<longleftrightarrow>
     kmem_obj_size m (c_addr c) = of_nat (c_size c) \<and> kmem_obj_count m (c_addr c) = of_nat (c_count c)
     \<and> (case c_cur c of
          None \<Rightarrow> kmem_empty_slab m (c_addr c) = 0 \<and> kmem_partial_slab m (c_addr c) = 0
        | Some (S, k) \<Rightarrow> kmem_empty_slab m (c_addr c) = (if k = 1 then S else 0)
            \<and> kmem_partial_slab m (c_addr c) = (if k = 1 then 0 else S)
            \<and> slab_parent m S = c_addr c \<and> slab_ok m S (c_count c) k)"

definition cache_geo :: "cache \<Rightarrow> bool" where
  "cache_geo c \<longleftrightarrow> mapped (c_addr c) \<and> unat (c_addr c) + 28 \<le> 2 ^ 32 \<and> 2 \<le> c_count c \<and> 1 \<le> c_size c
     \<and> 20 + 8 * c_count c + c_size c * c_count c \<le> 4096
     \<and> (case c_cur c of None \<Rightarrow> True
        | Some (S, k) \<Rightarrow> mapped S \<and> page_aligned S \<and> 1 \<le> k \<and> k < c_count c
            \<and> sep (c_addr c) 28 S (20 + 8 * c_count c))"

definition cache_next :: "cache \<Rightarrow> cache" where
  "cache_next c = (case c_cur c of None \<Rightarrow> c
     | Some (S, k) \<Rightarrow> c\<lparr>c_cur := (if Suc k = c_count c then None else Some (S, Suc k))\<rparr>)"

lemma of_nat_eq_0: "n < 4096 \<Longrightarrow> (of_nat n :: u32) = 0 \<longleftrightarrow> n = 0"
proof -
  assume "n < 4096"
  then have "unat (of_nat n :: u32) = n" by (simp add: unat_of_nat)
  then show ?thesis by (metis unat_eq_zero)
qed

lemma slab_ok_frame:
  assumes "slab_ok m S n k" and "page_aligned S" and "20 + 8 * n < 4096"
    and "same_on (block S (20 + 8 * n)) m m'"
  shows "slab_ok m' S n k"
proof -
  have b: "unat S + 4096 \<le> 2 ^ 32" using assms(2) by (rule page_aligned_bound)
  have h: "load32 m' (S + j) = load32 m (S + j)" if "unat j + 4 \<le> 20" for j
    by (rule load32_same_on [OF assms(4)]) (use that b assms(2,3) in \<open>simp_all add: header_block unat_off\<close>)
  have nd: "load32 m' (slab_node S i) = load32 m (slab_node S i)"
    "load32 m' (slab_node S i + 4) = load32 m (slab_node S i + 4)" if "i < n" for i
    by (rule load32_same_on [OF assms(4)]; use that b assms(2,3) in
        \<open>simp add: block_mono unat_slab_node unat_slab_node4\<close>)+
  show ?thesis
    using assms(1) h [of 0] h [of 4] h [of 12] h [of 16] nd by (simp add: slab_ok_def)
qed

lemma cache_geo_header:
  assumes "cache_geo c"
  shows "20 + 8 * c_count c < 4096"
proof -
  have "2 \<le> c_count c" "20 + 8 * c_count c + c_size c * c_count c \<le> 4096" "1 \<le> c_size c"
    using assms unfolding cache_geo_def by blast+
  moreover from this have "1 \<le> c_size c * c_count c" by simp
  ultimately show ?thesis by linarith
qed

lemma slab_ok_parent:
  assumes "slab_ok m S n k" and "page_aligned S" and "20 + 8 * n < 4096"
  shows "slab_ok (store32 m (S + 8) v) S n k"
proof -
  have b: "unat S + 4096 \<le> 2 ^ 32" using assms(2) by (rule page_aligned_bound)
  have nd: "load32 (store32 m (S + 8) v) (slab_node S i) = load32 m (slab_node S i)"
    "load32 (store32 m (S + 8) v) (slab_node S i + 4) = load32 m (slab_node S i + 4)" if "i < n" for i
    by (rule load32_frame [OF store32_same_off]; use that b assms(2,3) in
        \<open>simp add: unat_slab_node unat_slab_node4 unat_off\<close>)+
  then show ?thesis
    using assms(1) by (simp add: slab_ok_def load32_store32_apart)
qed

text \<open>
  The current slab of a cache has given out its object \<open>k\<close>, before the cache moves the slab to
  another of its lists.
\<close>

definition taken_from_slab :: "memory \<Rightarrow> cache \<Rightarrow> addr \<Rightarrow> nat \<Rightarrow> memory \<Rightarrow> bool" where
  "taken_from_slab m c S k m1 \<longleftrightarrow> alloc_from_slab S (of_nat (c_size c)) m = Inr (slab_obj S (c_count c) (c_size c) k, m1)
     \<and> slab_ok m1 S (c_count c) (Suc k) \<and> same_off (block (c_addr c) 28 \<union> block S 20) m m1
     \<and> load32 m1 (S + 8) = c_addr c \<and> load32 m1 (S + 16) = 0 \<and> (load32 m1 (S + 4) = 0 \<longleftrightarrow> Suc k = c_count c)
     \<and> (\<forall>j. unat j + 4 \<le> 28 \<longrightarrow> load32 m1 (c_addr c + j) = load32 m (c_addr c + j))"

definition kmem_allocates :: "'a slab_sys_scheme \<Rightarrow> cache \<Rightarrow> addr \<Rightarrow> nat \<Rightarrow> memory \<Rightarrow> bool" where
  "kmem_allocates s c S k m' \<longleftrightarrow> alloc_from_kmem (c_addr c) s = Inr (slab_obj S (c_count c) (c_size c) k, s\<lparr>mem := m'\<rparr>)
     \<and> cache_mem m' (cache_next c) \<and> same_off (block (c_addr c) 28 \<union> block S 20) (mem s) m'
     \<and> load32 m' (c_addr c + 24) = load32 (mem s) (c_addr c + 24)"

lemma cache_cur:
  assumes "cache_geo c" and "c_cur c = Some (S, k)"
  shows "mapped (c_addr c)" "unat (c_addr c) + 28 \<le> 2 ^ 32" "mapped S" "S \<noteq> 0" "page_aligned S" "1 \<le> k" "k < c_count c"
    "20 + 8 * c_count c < 4096" "sep (c_addr c) 28 S (20 + 8 * c_count c)" "unat S + 4096 \<le> 2 ^ 32"
  using assms cache_geo_header [OF assms(1)] mapped_nonzero [of S] page_aligned_bound [of S] by (simp_all add: cache_geo_def)

lemma cache_stores:
  assumes "cache_geo c" and "c_cur c = Some (S, k)"
  shows "unat j + 4 \<le> 28 \<Longrightarrow> unat (c_addr c + j) + 4 \<le> 2 ^ 32 \<and> block (c_addr c + j) 4 \<subseteq> block (c_addr c) 28 \<union> block S 20"
    and "unat (S + 16) + 4 \<le> 2 ^ 32" "block (S + 16) 4 \<subseteq> block (c_addr c) 28 \<union> block S 20"
  using cache_cur(2,5,10) [OF assms] by (auto simp: mem_block_iff unat_add_word unat_off)

lemma cur_taken:
  assumes "cache_mem (mem s) c" and "cache_geo c" and "c_cur c = Some (S, k)"
  shows "\<exists>m1. taken_from_slab (mem s) c S k m1"
proof -
  let ?K = "c_addr c" and ?n = "c_count c"
  note g = cache_cur [OF assms(2,3)]
  have ok: "slab_ok (mem s) S ?n k" using assms(1,3) by (simp add: cache_mem_def)
  obtain m1 where m1: "alloc_from_slab S (of_nat (c_size c)) (mem s) = Inr (slab_obj S ?n (c_size c) k, m1)"
    "slab_ok m1 S ?n (Suc k)" "same_off (block S 20) (mem s) m1" "load32 m1 (S + 8) = ?K"
    using alloc_from_slab_ok [OF ok g(7,3,5,8)] assms(1,3) by (auto simp: cache_mem_def)
  have "load32 m1 (?K + j) = load32 (mem s) (?K + j)" if "unat j + 4 \<le> 28" for j
    by (rule load32_frame [OF m1(3)]) (use that g(2,9) in \<open>auto simp: sep_def unat_add_word\<close>)
  moreover have "load32 m1 (S + 4) = 0 \<longleftrightarrow> Suc k = ?n" "load32 m1 (S + 16) = 0"
    using m1(2) g(7,8) of_nat_eq_0 [of "?n - Suc k"] by (auto simp: slab_ok_def)
  moreover have "same_off (block ?K 28 \<union> block S 20) (mem s) m1" using m1(3) by (rule same_off_mono) simp
  ultimately show ?thesis using m1(1,2,4) by (auto simp: taken_from_slab_def)
qed

lemma take_last:
  assumes mem: "cache_mem (mem s) c" and geo: "cache_geo c" "c_cur c = Some (S, k)"
    and taken: "taken_from_slab (mem s) c S k m1" and last: "Suc k = c_count c"
  shows "\<exists>m'. kmem_allocates s c S k m'"
proof -
  let ?K = "c_addr c" and ?j = "if k = 1 then 0 else 4 :: addr"
  let ?m2 = "store32 m1 (?K + ?j) 0"
  let ?m4 = "store32 (store32 ?m2 (S + 16) (load32 ?m2 (?K + 8))) (?K + 8) S"
  note g = cache_cur [OF geo]
  note ap = apart_sep [OF g(9)] apart_sep0 [OF g(9)] apart_sep [OF sep_sym [OF g(9)]] apart_sep0 [OF sep_sym [OF g(9)]]
  have cells: "load32 m1 (?K + j) = load32 (mem s) (?K + j)" if "unat j + 4 \<le> 28" for j
    using taken that by (simp add: taken_from_slab_def)
  have "alloc_from_kmem ?K s = Inr (slab_obj S (c_count c) (c_size c) k, s\<lparr>mem := ?m4\<rparr>)"
    using mem g(1,4) geo(2) taken last
    by (cases "k = 1") (simp_all add: alloc_from_kmem_def cache_mem_def taken_from_slab_def Let_def)
  moreover have "cache_mem ?m4 (cache_next c)"
    using mem geo(2) last cells [of 0] cells [of 4] cells [of 12] cells [of 16]
    by (cases "k = 1") (simp_all add: cache_mem_def cache_next_def load32_store32_apart ap)
  moreover have "same_off (block ?K 28 \<union> block S 20) (mem s) ?m4"
    using taken cache_stores(1) [OF geo, of ?j] cache_stores(1) [OF geo, of 8] cache_stores(2,3) [OF geo]
    by (intro same_off_store32) (simp_all add: taken_from_slab_def)
  moreover have "load32 ?m4 (?K + 24) = load32 (mem s) (?K + 24)"
    using cells [of 24] by (simp add: load32_store32_apart ap)
  ultimately show ?thesis unfolding kmem_allocates_def by blast
qed

lemma take_first:
  assumes mem: "cache_mem (mem s) c" and geo: "cache_geo c" "c_cur c = Some (S, 1)"
    and taken: "taken_from_slab (mem s) c S 1 m1" and more: "Suc 1 \<noteq> c_count c"
  shows "\<exists>m'. kmem_allocates s c S 1 m'"
proof -
  let ?K = "c_addr c"
  let ?m2 = "store32 m1 ?K 0"
  let ?m4 = "store32 ?m2 (?K + 4) S"
  note g = cache_cur [OF geo]
  note ap = apart_sep [OF g(9)] apart_sep0 [OF g(9)] apart_sep [OF sep_sym [OF g(9)]] apart_sep0 [OF sep_sym [OF g(9)]]
  have cells: "load32 m1 (?K + j) = load32 (mem s) (?K + j)" if "unat j + 4 \<le> 28" for j
    using taken that by (simp add: taken_from_slab_def)
  have t: "slab_ok m1 S (c_count c) (Suc 1)" "load32 m1 (S + 8) = ?K" "load32 m1 (S + 16) = 0"
    using taken by (simp_all add: taken_from_slab_def)
  have "store32 ?m2 (S + 16) 0 = ?m2"
    using store32_id [of ?m2 "S + 16"] t(3) by (simp add: load32_store32_apart ap)
  then have "alloc_from_kmem ?K s = Inr (slab_obj S (c_count c) (c_size c) 1, s\<lparr>mem := ?m4\<rparr>)"
    using mem geo(2) g(1,4) taken more cells [of 4]
    by (simp add: alloc_from_kmem_def cache_mem_def taken_from_slab_def Let_def load32_store32_apart)
  moreover have "same_off (block ?K 28) m1 ?m4"
    using g(2) by (intro same_off_store32 same_off_refl) (auto simp: mem_block_iff unat_add_word)
  then have "slab_ok ?m4 S (c_count c) (Suc 1)"
    using sep_block [OF g(9)] by (intro slab_ok_frame [OF t(1) g(5,8)] same_off_on) auto
  then have "cache_mem ?m4 (cache_next c)"
    using mem geo(2) more cells [of 12] cells [of 16] t(2)
    by (simp add: cache_mem_def cache_next_def load32_store32_apart ap)
  moreover have "same_off (block ?K 28 \<union> block S 20) (mem s) ?m4"
    using taken cache_stores(1) [OF geo, of 0] cache_stores(1) [OF geo, of 4] by (intro same_off_store32) (simp_all add: taken_from_slab_def)
  moreover have "load32 ?m4 (?K + 24) = load32 (mem s) (?K + 24)"
    using cells [of 24] by (simp add: load32_store32_apart ap)
  ultimately show ?thesis unfolding kmem_allocates_def by blast
qed

lemma take_next:
  assumes mem: "cache_mem (mem s) c" and geo: "cache_geo c" "c_cur c = Some (S, k)"
    and taken: "taken_from_slab (mem s) c S k m1" and more: "k \<noteq> 1" "Suc k \<noteq> c_count c"
  shows "kmem_allocates s c S k m1"
proof -
  note g = cache_cur [OF geo]
  have cells: "load32 m1 (c_addr c + j) = load32 (mem s) (c_addr c + j)" if "unat j + 4 \<le> 28" for j
    using taken that by (simp add: taken_from_slab_def)
  have "alloc_from_kmem (c_addr c) s = Inr (slab_obj S (c_count c) (c_size c) k, s\<lparr>mem := m1\<rparr>)"
    using mem geo(2) g(1,4) taken more by (simp add: alloc_from_kmem_def cache_mem_def taken_from_slab_def Let_def)
  moreover have "cache_mem m1 (cache_next c)"
    using mem geo(2) more g(6) taken cells [of 0] cells [of 4] cells [of 12] cells [of 16]
    by (simp add: cache_mem_def cache_next_def taken_from_slab_def)
  ultimately show ?thesis using taken cells [of 24] by (simp add: kmem_allocates_def taken_from_slab_def)
qed

lemma alloc_from_kmem_cur:
  assumes "cache_mem (mem s) c" and "cache_geo c" and "c_cur c = Some (S, k)"
  shows "\<exists>m'. alloc_from_kmem (c_addr c) s = Inr (slab_obj S (c_count c) (c_size c) k, s\<lparr>mem := m'\<rparr>)
    \<and> cache_mem m' (cache_next c) \<and> same_off (block (c_addr c) 28 \<union> block S 20) (mem s) m'
    \<and> load32 m' (c_addr c + 24) = load32 (mem s) (c_addr c + 24)"
proof -
  obtain m1 where t: "taken_from_slab (mem s) c S k m1" using cur_taken [OF assms] by blast
  have "\<exists>m'. kmem_allocates s c S k m'"
    using take_last [OF assms t] take_next [OF assms t] take_first [of s c S m1] assms t
    by (cases "k = 1"; cases "Suc k = c_count c") auto
  then show ?thesis by (simp add: kmem_allocates_def)
qed

text \<open>A new slab is entered into its cache.\<close>

lemma slab_adopted:
  assumes ok: "slab_ok m S n k" and S: "page_aligned S" "20 + 8 * n < 4096" and K: "unat K + 28 \<le> 2 ^ 32"
    and sp: "sep K 28 S (20 + 8 * n)"
  shows "slab_ok (store32 (store32 m (S + 8) K) K S) S n k"
    and "same_off (block K 28 \<union> block S (20 + 8 * n)) m (store32 (store32 m (S + 8) K) K S)"
proof -
  let ?m1 = "store32 m (S + 8) K"
  let ?m2 = "store32 ?m1 K S"
  have "slab_ok ?m1 S n k" using ok S by (rule slab_ok_parent)
  moreover have "same_off (block K 28) ?m1 ?m2"
    using K by (intro same_off_store32 same_off_refl) (auto simp: mem_block_iff)
  then have "same_on (block S (20 + 8 * n)) ?m1 ?m2" by (rule same_off_on) (rule sep_block [OF sp])
  ultimately show "slab_ok ?m2 S n k" using slab_ok_frame [OF _ S] by blast
  show "same_off (block K 28 \<union> block S (20 + 8 * n)) m ?m2"
  proof (intro same_off_store32 same_off_refl)
    show "unat (S + 8) + 4 \<le> 2 ^ 32" "unat K + 4 \<le> 2 ^ 32"
      using page_aligned_bound [OF S(1)] K S(1) by (simp_all add: unat_off)
    show "block (S + 8) 4 \<subseteq> block K 28 \<union> block S (20 + 8 * n)"
      using header_block [OF S(1), of 8 "20 + 8 * n"] S(2) by auto
    show "block K 4 \<subseteq> block K 28 \<union> block S (20 + 8 * n)"
      using block_mono [of K K 4 28] by auto
  qed
qed

lemma alloc_from_kmem_none:
  assumes mem: "cache_mem (mem s) c" and geo: "cache_geo c" and cur: "c_cur c = None"
    and pg: "palloc ZONE_KERNEL 4096 s = (S, s1)" and S: "mapped S" "page_aligned S"
    and sp: "sep (c_addr c) 28 S (20 + 8 * c_count c)"
    and fr: "same_on (block (c_addr c) 28) (mem s) (mem s1)"
  shows "\<exists>m'. alloc_from_kmem (c_addr c) s = Inr (slab_obj S (c_count c) (c_size c) 0, s1\<lparr>mem := m'\<rparr>)
    \<and> cache_mem m' (c\<lparr>c_cur := Some (S, 1)\<rparr>)
    \<and> same_off (block (c_addr c) 28 \<union> block S (20 + 8 * c_count c)) (mem s1) m'
    \<and> load32 m' (c_addr c + 24) = load32 (mem s) (c_addr c + 24)"
proof -
  let ?K = "c_addr c" and ?n = "c_count c"
  have g: "mapped ?K" "unat ?K + 28 \<le> 2 ^ 32" "2 \<le> ?n" "20 + 8 * ?n < 4096"
    using geo cache_geo_header [OF geo] by (simp_all add: cache_geo_def)
  note ap = apart_sep [OF sp] apart_sep0 [OF sp] apart_sep [OF sep_sym [OF sp]] apart_sep0 [OF sep_sym [OF sp]]
  obtain m2 where m2: "creat_slab (of_nat ?n) s = Inr (S, s1\<lparr>mem := m2\<rparr>)" "slab_ok m2 S ?n 0"
    "same_off (block S (20 + 8 * ?n)) (mem s1) m2"
    using creat_slab_ok [OF pg S, of ?n] g by auto
  let ?m3 = "store32 (store32 m2 (S + 8) ?K) ?K S"
  have K1: "load32 (mem s1) (?K + j) = load32 (mem s) (?K + j)" if "unat j + 4 \<le> 28" for j
    by (rule load32_same_on [OF fr]) (use that g(2) in \<open>auto simp: mem_block_iff unat_add_word\<close>)
  have K2: "load32 m2 (?K + j) = load32 (mem s1) (?K + j)" if "unat j + 4 \<le> 28" for j
    by (rule load32_frame [OF m2(3)]) (use that sp g(2) in \<open>auto simp: sep_def unat_add_word\<close>)
  note m3 = slab_adopted [OF m2(2) S(2) g(4,2) sp]
  obtain m4 where m4: "alloc_from_slab S (of_nat (c_size c)) ?m3 = Inr (slab_obj S ?n (c_size c) 0, m4)"
    "slab_ok m4 S ?n 1" "same_off (block S 20) ?m3 m4" "load32 m4 (S + 8) = ?K"
    using alloc_from_slab_ok [OF m3(1), of "c_size c"] g S by (auto simp: load32_store32_apart ap)
  have K4: "load32 m4 (?K + j) = load32 ?m3 (?K + j)" if "unat j + 4 \<le> 28" for j
    by (rule load32_frame [OF m4(3)]) (use that sp g(2) in \<open>auto simp: sep_def unat_add_word\<close>)
  have fc: "load32 m4 (S + 4) \<noteq> 0"
    using m4(2) g(3,4) of_nat_eq_0 [of "?n - 1"] by (auto simp: slab_ok_def)
  have "alloc_from_kmem ?K s = Inr (slab_obj S ?n (c_size c) 0, s1\<lparr>mem := m4\<rparr>)"
    using mem cur g(1) m2(1) m4(1) fc K1 [of 12] K2 [of 12]
    by (simp add: alloc_from_kmem_def cache_mem_def Let_def load32_store32_apart ap)
  moreover have "cache_mem m4 (c\<lparr>c_cur := Some (S, 1)\<rparr>)"
    using mem cur m4(2,4) K4 [of 0] K4 [of 4] K4 [of 12] K4 [of 16] K2 [of 4] K2 [of 12] K2 [of 16]
      K1 [of 4] K1 [of 12] K1 [of 16]
    by (simp add: cache_mem_def load32_store32_apart ap)
  moreover have "same_off (block ?K 28 \<union> block S (20 + 8 * ?n)) (mem s1) ?m3"
    by (rule same_off_trans [OF same_off_mono [OF m2(3)] m3(2)]) simp
  then have "same_off (block ?K 28 \<union> block S (20 + 8 * ?n)) (mem s1) m4"
    by (rule same_off_trans) (rule same_off_mono [OF m4(3)], auto simp: mem_block_iff)
  moreover have "load32 m4 (?K + 24) = load32 (mem s) (?K + 24)"
    using K4 [of 24] K2 [of 24] K1 [of 24] by (simp add: load32_store32_apart ap)
  ultimately show ?thesis by blast
qed

section \<open>The whole heap\<close>

text \<open>Address ranges as intervals of natural numbers (start, length).\<close>

type_synonym region = "nat \<times> nat"

definition rset :: "region \<Rightarrow> addr set" where
  "rset r = {x. fst r \<le> unat x \<and> unat x < fst r + snd r}"

definition rdisj :: "region \<Rightarrow> region \<Rightarrow> bool" where
  "rdisj r q \<longleftrightarrow> fst r + snd r \<le> fst q \<or> fst q + snd q \<le> fst r"

definition rsub :: "region \<Rightarrow> region \<Rightarrow> bool" where
  "rsub r q \<longleftrightarrow> fst q \<le> fst r \<and> fst r + snd r \<le> fst q + snd q"

text \<open>
  The regions a cache keeps for itself: its struct, and of its current slab the header with the
  free-list nodes and the rest of the page behind the objects already handed out.
\<close>

definition cache_regions :: "cache \<Rightarrow> region list" where
  "cache_regions c = (unat (c_addr c), 28) #
     (case c_cur c of None \<Rightarrow> []
      | Some (S, k) \<Rightarrow> [(unat S, 20 + 8 * c_count c),
          (unat S + (20 + 8 * c_count c + c_size c * k), 4096 - (20 + 8 * c_count c + c_size c * k))])"

text \<open>The first address of the kernel zone that has never been handed out.\<close>

definition heap_top :: "nat \<Rightarrow> nat" where
  "heap_top k = 0xC0000000 + (k - 1) * 4096"

definition map_region :: "'a slab_sys_scheme \<Rightarrow> region" where
  "map_region s = (unat (memmap_kernel s), unat (kernel_mem_pages s))"

definition heap_regions :: "'a slab_sys_scheme \<Rightarrow> cache list \<Rightarrow> region list" where
  "heap_regions s cs = map_region s # concat (map cache_regions cs)"

definition heap_ok :: "'a slab_sys_scheme \<Rightarrow> cache list \<Rightarrow> nat \<Rightarrow> bool" where
  "heap_ok s cs k \<longleftrightarrow>
     used_prefix (mem s) (memmap_kernel s) (unat (kernel_mem_pages s)) k
     \<and> 0 < k \<and> unat (kernel_mem_pages s) \<le> 0x40000
     \<and> (\<forall>c \<in> set cs. cache_mem (mem s) c \<and> cache_geo c)
     \<and> (\<forall>r \<in> set (heap_regions s cs). fst r + snd r \<le> heap_top k)
     \<and> sorted_wrt rdisj (heap_regions s cs)"

definition owned :: "'a slab_sys_scheme \<Rightarrow> cache list \<Rightarrow> nat \<Rightarrow> addr set" where
  "owned s cs k = (\<Union>r \<in> set (heap_regions s cs). rset r) \<union> {x. heap_top k \<le> unat x}"

lemma rdisj_sym: "rdisj r q \<Longrightarrow> rdisj q r"
  by (auto simp: rdisj_def)

lemma rdisj_rset: "rdisj r q \<Longrightarrow> rset r \<inter> rset q = {}"
  by (auto simp: rdisj_def rset_def)

lemma rsub_rset: "rsub r q \<Longrightarrow> rset r \<subseteq> rset q"
  by (auto simp: rsub_def rset_def)

lemma rdisj_rsub: "rdisj r q \<Longrightarrow> rsub r' r \<Longrightarrow> rdisj r' q"
  by (auto simp: rdisj_def rsub_def)

lemma block_rset: "block p n = rset (unat p, n)"
  by (auto simp: rset_def mem_block_iff)

lemma regions_replace:
  assumes "sorted_wrt rdisj (A @ rs @ B)" and "sorted_wrt rdisj rs'"
    and "\<forall>r \<in> set (A @ rs @ B). fst r + snd r \<le> L"
    and "\<forall>r' \<in> set rs'. (\<exists>r \<in> set rs. rsub r' r) \<or> L \<le> fst r'"
  shows "sorted_wrt rdisj (A @ rs' @ B)"
proof -
  have "rdisj a r'" if "a \<in> set A \<union> set B" "r' \<in> set rs'" for a r'
  proof -
    from assms(4) that(2) consider r where "r \<in> set rs" "rsub r' r" | "L \<le> fst r'" by blast
    then show ?thesis
    proof cases
      case 1
      then have "rdisj r a"
        using assms(1) that(1) by (auto simp: sorted_wrt_append intro: rdisj_sym)
      then show ?thesis using 1(2) rdisj_rsub rdisj_sym by blast
    next
      case 2
      moreover have "fst a + snd a \<le> L" using assms(3) that(1) by auto
      ultimately show ?thesis by (simp add: rdisj_def)
    qed
  qed
  then have out: "\<forall>a \<in> set A \<union> set B. \<forall>r' \<in> set rs'. rdisj a r' \<and> rdisj r' a"
    using rdisj_sym by blast
  show ?thesis
    using assms(1,2) out by (simp add: sorted_wrt_append ball_Un)
qed

lemma cache_mem_frame:
  assumes "cache_mem m c" and "cache_geo c" and "same_on (\<Union>r \<in> set (cache_regions c). rset r) m m'"
  shows "cache_mem m' c"
proof -
  have K: "unat (c_addr c) + 28 \<le> 2 ^ 32" using assms(2) by (simp add: cache_geo_def)
  have "same_on (block (c_addr c) 28) m m'"
    using assms(3) by (rule same_on_mono) (auto simp: cache_regions_def block_rset)
  then have ld: "load32 m' (c_addr c + j) = load32 m (c_addr c + j)" if "unat j + 4 \<le> 28" for j
    by (rule load32_same_on) (use that K in \<open>auto simp: mem_block_iff unat_add_word\<close>)
  show ?thesis
  proof (cases "c_cur c")
    case None
    then show ?thesis
      using assms(1) ld [of 0] ld [of 4] ld [of 12] ld [of 16] by (simp add: cache_mem_def)
  next
    case (Some a)
    obtain S k where cur: "c_cur c = Some (S, k)" using Some by (cases a) auto
    have on: "same_on (block S (20 + 8 * c_count c)) m m'"
      using assms(3) by (rule same_on_mono) (auto simp: cache_regions_def block_rset cur)
    then have "slab_ok m' S (c_count c) k"
      using slab_ok_frame [of m S "c_count c" k m'] assms(1,2) cur cache_geo_header [OF assms(2)]
      by (simp add: cache_mem_def cache_geo_def)
    moreover have "load32 m' (S + 8) = load32 m (S + 8)"
      using on by (rule load32_same_on) (use assms(2) cur page_aligned_bound [of S] in
          \<open>auto simp: cache_geo_def mem_block_iff unat_off\<close>)
    ultimately show ?thesis
      using assms(1) cur ld [of 0] ld [of 4] ld [of 12] ld [of 16] by (simp add: cache_mem_def)
  qed
qed

lemma region_source:
  assumes "(\<exists>q \<in> set R. rsub r q) \<or> L \<le> fst r"
  shows "rset r \<subseteq> (\<Union>q \<in> set R. rset q) \<union> {x. L \<le> unat x}"
  using assms
proof
  assume "L \<le> fst r"
  then show ?thesis by (auto simp: rset_def)
qed (auto dest: rsub_rset)

lemma heap_regions_split:
  "heap_regions s (xs @ c # ys)
     = (map_region s # concat (map cache_regions xs)) @ cache_regions c @ concat (map cache_regions ys)"
  by (simp add: heap_regions_def)

lemma other_caches_kept:
  assumes ok: "heap_ok s (xs @ c # ys) k"
    and fr: "same_off (rset (map_region s) \<union> (\<Union>r \<in> set (cache_regions c). rset r) \<union> {x. heap_top k \<le> unat x}) (mem s) m'"
    and d: "d \<in> set xs \<union> set ys"
  shows "cache_mem m' d \<and> cache_geo d"
proof -
  let ?A = "map_region s # concat (map cache_regions xs)" and ?B = "concat (map cache_regions ys)"
  have old: "sorted_wrt rdisj (?A @ cache_regions c @ ?B)"
    "\<forall>r \<in> set (?A @ cache_regions c @ ?B). fst r + snd r \<le> heap_top k"
    using ok unfolding heap_ok_def heap_regions_split by blast+
  have "rset q \<inter> rset r = {}" if "r \<in> set (cache_regions d)" "q \<in> insert (map_region s) (set (cache_regions c))" for r q
  proof (rule rdisj_rset)
    have "r \<in> set (concat (map cache_regions xs)) \<union> set ?B" using that(1) d by auto
    then show "rdisj q r"
      using old(1) that(2) by (auto simp add: sorted_wrt_append rdisj_sym simp del: set_concat)
  qed
  moreover have "rset r \<inter> {x. heap_top k \<le> unat x} = {}" if "r \<in> set (cache_regions d)" for r
    using old(2) that d by (force simp: rset_def)
  ultimately have "same_on (\<Union>r \<in> set (cache_regions d). rset r) (mem s) m'"
    by (intro same_off_on [OF fr]) blast
  moreover have "cache_mem (mem s) d" "cache_geo d" using ok d by (auto simp: heap_ok_def)
  ultimately show ?thesis using cache_mem_frame by blast
qed

text \<open>
  One step of the heap: cache \<open>c\<close> becomes \<open>c'\<close> and the region \<open>b\<close> is handed out, both out of
  the old regions of \<open>c\<close> and fresh pages. First the regions alone.
\<close>

lemma diff_greatest: "A \<subseteq> B \<Longrightarrow> A \<inter> C = {} \<Longrightarrow> A \<subseteq> B - C"
  by blast

lemma regions_step:
  assumes old: "sorted_wrt rdisj (A @ rs @ B)" "\<forall>r \<in> set (A @ rs @ B). fst r + snd r \<le> L" and top: "L \<le> L'"
    and srt: "sorted_wrt rdisj (b # rs')"
    and src: "\<forall>r' \<in> set (b # rs'). (\<exists>r \<in> set rs. rsub r' r) \<or> L \<le> fst r'"
    and lim: "\<forall>r' \<in> set (b # rs'). fst r' + snd r' \<le> L'"
  shows "sorted_wrt rdisj (A @ rs' @ B)" and "\<forall>r \<in> set (A @ rs' @ B). rdisj b r"
    and "\<forall>r \<in> set (A @ rs' @ B). fst r + snd r \<le> L'"
    and "rset b \<subseteq> (\<Union>r \<in> set (A @ rs @ B). rset r) \<union> {x. L \<le> unat x}"
    and "(\<Union>r \<in> set (A @ rs' @ B). rset r) \<union> {x. L' \<le> unat x} \<subseteq> (\<Union>r \<in> set (A @ rs @ B). rset r) \<union> {x. L \<le> unat x} - rset b"
proof -
  let ?own = "(\<Union>r \<in> set (A @ rs @ B). rset r) \<union> {x. L \<le> unat x}"
  have "sorted_wrt rdisj (A @ (b # rs') @ B)" by (rule regions_replace [OF old(1) srt old(2) src])
  then show "sorted_wrt rdisj (A @ rs' @ B)" and b: "\<forall>r \<in> set (A @ rs' @ B). rdisj b r"
    using rdisj_sym by (simp_all add: sorted_wrt_append ball_Un)
  show "\<forall>r \<in> set (A @ rs' @ B). fst r + snd r \<le> L'"
    using old(2) lim top by (auto intro: le_trans)
  have part: "rset r' \<subseteq> ?own" if "r' \<in> set (b # rs')" for r'
    using region_source [OF src [rule_format, OF that]] by auto
  show "rset b \<subseteq> ?own" by (rule part) simp
  have "rset r \<subseteq> ?own - rset b" if "r \<in> set (A @ rs' @ B)" for r
  proof (rule diff_greatest)
    show "rset r \<inter> rset b = {}" using rdisj_rset [of b r] b that by blast
    show "rset r \<subseteq> ?own"
    proof (cases "r \<in> set rs'")
      case True
      then show ?thesis by (intro part) simp
    next
      case False
      then show ?thesis using that by auto
    qed
  qed
  moreover have "{x. L' \<le> unat x} \<subseteq> ?own - rset b"
    by (rule diff_greatest) (use lim top in \<open>auto simp: rset_def\<close>)
  ultimately show "(\<Union>r \<in> set (A @ rs' @ B). rset r) \<union> {x. L' \<le> unat x} \<subseteq> ?own - rset b"
    by (intro Un_least UN_least)
qed

lemma heap_step:
  assumes ok: "heap_ok s (xs @ c # ys) k"
    and st: "memmap_kernel s' = memmap_kernel s" "kernel_mem_pages s' = kernel_mem_pages s"
    and up: "used_prefix (mem s') (memmap_kernel s) (unat (kernel_mem_pages s)) k'" and k: "k \<le> k'"
    and c': "cache_mem (mem s') c'" "cache_geo c'"
    and srt: "sorted_wrt rdisj (b # cache_regions c')"
    and src: "\<forall>r' \<in> set (b # cache_regions c'). (\<exists>r \<in> set (cache_regions c). rsub r' r) \<or> heap_top k \<le> fst r'"
    and lim: "\<forall>r' \<in> set (b # cache_regions c'). fst r' + snd r' \<le> heap_top k'"
    and fr: "same_off (rset (map_region s) \<union> (\<Union>r \<in> set (cache_regions c). rset r) \<union> {x. heap_top k \<le> unat x}) (mem s) (mem s')"
  shows "heap_ok s' (xs @ c' # ys) k'" and "rset b \<subseteq> owned s (xs @ c # ys) k"
    and "owned s' (xs @ c' # ys) k' \<subseteq> owned s (xs @ c # ys) k - rset b"
    and "same_off (owned s (xs @ c # ys) k) (mem s) (mem s')"
    and "\<forall>r \<in> set (heap_regions s' (xs @ c' # ys)). rdisj b r"
proof -
  let ?A = "map_region s # concat (map cache_regions xs)" and ?B = "concat (map cache_regions ys)"
  have old: "sorted_wrt rdisj (?A @ cache_regions c @ ?B)"
    "\<forall>r \<in> set (?A @ cache_regions c @ ?B). fst r + snd r \<le> heap_top k"
    using ok unfolding heap_ok_def heap_regions_split by blast+
  have top: "heap_top k \<le> heap_top k'" using k by (simp add: heap_top_def)
  note new = regions_step [OF old top srt src lim]
  have regs: "heap_regions s' (xs @ c' # ys) = ?A @ cache_regions c' @ ?B"
    using st by (simp add: heap_regions_split map_region_def)
  show "heap_ok s' (xs @ c' # ys) k'"
    using ok st up k c' other_caches_kept [OF ok fr] new(1,3) by (auto simp: heap_ok_def regs)
  show "\<forall>r \<in> set (heap_regions s' (xs @ c' # ys)). rdisj b r" unfolding regs by (rule new(2))
  show "rset b \<subseteq> owned s (xs @ c # ys) k" unfolding owned_def heap_regions_split by (rule new(4))
  show "owned s' (xs @ c' # ys) k' \<subseteq> owned s (xs @ c # ys) k - rset b"
    using new(5) unfolding owned_def regs unfolding heap_regions_split .
  show "same_off (owned s (xs @ c # ys) k) (mem s) (mem s')"
    using fr by (rule same_off_mono) (simp only: owned_def heap_regions_split, auto)
qed

text \<open>
  What one allocation from cache \<open>c\<close> does to the heap: it returns a block that the allocator
  owned and now owns no more, keeps the invariant, and writes only to memory it owned.
\<close>

definition alloc_step :: "'a slab_sys_scheme \<Rightarrow> addr \<Rightarrow> cache \<Rightarrow> cache list \<Rightarrow> cache list \<Rightarrow> nat
    \<Rightarrow> 'a slab_sys_scheme \<Rightarrow> cache \<Rightarrow> nat \<Rightarrow> bool" where
  "alloc_step s p c xs ys k s' c' k' \<longleftrightarrow>
     heap_ok s' (xs @ c' # ys) k' \<and> mapped p \<and> unat p + c_size c \<le> heap_top k'
     \<and> block p (c_size c) \<subseteq> owned s (xs @ c # ys) k
     \<and> owned s' (xs @ c' # ys) k' \<subseteq> owned s (xs @ c # ys) k - block p (c_size c)
     \<and> same_off (owned s (xs @ c # ys) k) (mem s) (mem s')
     \<and> c_addr c' = c_addr c \<and> c_size c' = c_size c \<and> c_count c' = c_count c
     \<and> k \<le> k' \<and> k' \<le> Suc k \<and> s' = s\<lparr>mem := mem s'\<rparr>
     \<and> load32 (mem s') (c_addr c + 24) = load32 (mem s) (c_addr c + 24)
     \<and> (\<forall>r \<in> set (heap_regions s' (xs @ c' # ys)). rdisj (unat p, c_size c) r)"

lemma used_prefix_frame:
  assumes "used_prefix m (memmap_kernel s) (unat (kernel_mem_pages s)) k" and "same_on (rset (map_region s)) m m'"
  shows "used_prefix m' (memmap_kernel s) (unat (kernel_mem_pages s)) k"
proof -
  have "m' (memmap_kernel s + of_nat i) = m (memmap_kernel s + of_nat i)" if "i < unat (kernel_mem_pages s)" for i
    using assms that block_add_of_nat [of "memmap_kernel s" "unat (kernel_mem_pages s)" i]
    by (intro same_onD [OF assms(2)]) (simp add: used_prefix_def block_rset map_region_def)
  then show ?thesis using assms(1) by (simp add: used_prefix_def)
qed

lemma cache_regions_cur:
  "c_cur c = Some (S, k) \<Longrightarrow> cache_regions c = [(unat (c_addr c), 28), (unat S, 20 + 8 * c_count c),
     (unat S + (20 + 8 * c_count c + c_size c * k), 4096 - (20 + 8 * c_count c + c_size c * k))]"
  "c_cur c = None \<Longrightarrow> cache_regions c = [(unat (c_addr c), 28)]"
  by (simp_all add: cache_regions_def)

lemma cache_geo_obj:
  assumes "cache_geo c" and "k < c_count c"
  shows "20 + 8 * c_count c + c_size c * k + c_size c \<le> 4096"
proof -
  have "c_size c * Suc k \<le> c_size c * c_count c" using assms(2) by (intro mult_le_mono2) simp
  moreover have "20 + 8 * c_count c + c_size c * c_count c \<le> 4096" using assms(1) by (simp add: cache_geo_def)
  ultimately show ?thesis by simp
qed

lemma heap_ok_member:
  assumes "heap_ok s (xs @ c # ys) k"
  shows "cache_mem (mem s) c" "cache_geo c" "sorted_wrt rdisj (cache_regions c)"
    and "\<forall>r \<in> set (cache_regions c). fst r + snd r \<le> heap_top k \<and> rdisj (map_region s) r"
  using assms unfolding heap_ok_def heap_regions_split by (simp_all add: sorted_wrt_append)

lemma heap_alloc_cur:
  assumes ok: "heap_ok s (xs @ c # ys) k" and cur: "c_cur c = Some (S, j)"
  shows "\<exists>p s' c' k'. alloc_from_kmem (c_addr c) s = Inr (p, s') \<and> alloc_step s p c xs ys k s' c' k'"
proof -
  note h = heap_ok_member [OF ok]
  let ?p = "slab_obj S (c_count c) (c_size c) j" and ?c = "cache_next c"
  obtain m' where m': "alloc_from_kmem (c_addr c) s = Inr (?p, s\<lparr>mem := m'\<rparr>)" "cache_mem m' ?c"
    "same_off (block (c_addr c) 28 \<union> block S 20) (mem s) m'"
    "load32 m' (c_addr c + 24) = load32 (mem s) (c_addr c + 24)"
    using alloc_from_kmem_cur [OF h(1,2) cur] by blast
  have g: "mapped S" "page_aligned S" "j < c_count c" "1 \<le> c_size c"
    using h(2) cur by (simp_all add: cache_geo_def)
  note fit = cache_geo_obj [OF h(2) g(3)]
  note regs = cache_regions_cur(1) [OF cur]
  let ?b = "(unat S + (20 + 8 * c_count c + c_size c * j), c_size c)"
  have up: "unat ?p = fst ?b" using g fit by (simp add: unat_slab_obj)
  have rb: "rset ?b = block ?p (c_size c)" by (simp add: block_rset up)
  have geo: "cache_geo ?c" using h(2) cur by (auto simp: cache_geo_def cache_next_def)
  have src: "\<forall>r' \<in> set (?b # cache_regions ?c). \<exists>r \<in> set (cache_regions c). rsub r' r"
    using cur fit by (auto simp: cache_next_def cache_regions_def rsub_def)
  have srt: "sorted_wrt rdisj (?b # cache_regions ?c)"
    using h(3) cur fit by (auto simp: cache_next_def cache_regions_def rdisj_def)
  have lim: "\<forall>r' \<in> set (?b # cache_regions ?c). fst r' + snd r' \<le> heap_top k"
  proof
    fix r' assume "r' \<in> set (?b # cache_regions ?c)"
    then obtain r where "r \<in> set (cache_regions c)" "rsub r' r" using src by blast
    then show "fst r' + snd r' \<le> heap_top k" using h(4) by (fastforce simp: rsub_def)
  qed
  have dif: "same_off (rset (map_region s) \<union> (\<Union>r \<in> set (cache_regions c). rset r) \<union> {x. heap_top k \<le> unat x}) (mem s) m'"
    using m'(3) by (rule same_off_mono) (auto simp: regs block_rset rset_def)
  note step = heap_step [where s = s and xs = xs and c = c and ys = ys and k = k and s' = "s\<lparr>mem := m'\<rparr>" and k' = k and c' = ?c and b = ?b]
  have up': "used_prefix m' (memmap_kernel s) (unat (kernel_mem_pages s)) k"
  proof -
    have "same_on (rset (map_region s)) (mem s) m'"
      using m'(3) h(4) rdisj_rset [of "map_region s"] by (intro same_off_on [OF m'(3)])
        (auto simp: regs block_rset rdisj_def rset_def)
    then show ?thesis using ok unfolding heap_ok_def by (blast intro: used_prefix_frame)
  qed
  have "alloc_step s ?p c xs ys k (s\<lparr>mem := m'\<rparr>) ?c k"
    unfolding alloc_step_def using step [OF ok _ _ _ _ _ geo srt] src lim dif up' m'(2,4) g(1) up
    by (auto simp: rb cache_next_def cur mapped_def word_le_nat_alt)
  then show ?thesis using m'(1) by blast
qed

lemma heap_page:
  assumes ok: "heap_ok s cs k" and room: "k < unat (kernel_mem_pages s)"
  shows "palloc ZONE_KERNEL 4096 s
    = (kernel_page (k - 1), s\<lparr>mem := set_status 1 (memmap_kernel s + of_nat k) MEM_USED (mem s)\<rparr>)"
    and "unat (kernel_page (k - 1)) = heap_top k" "page_aligned (kernel_page (k - 1))" "mapped (kernel_page (k - 1))"
    and "heap_top (Suc k) = heap_top k + 4096"
    and "used_prefix (set_status 1 (memmap_kernel s + of_nat k) MEM_USED (mem s)) (memmap_kernel s) (unat (kernel_mem_pages s)) (Suc k)"
    and "same_off (rset (map_region s)) (mem s) (set_status 1 (memmap_kernel s + of_nat k) MEM_USED (mem s))"
proof -
  have up: "used_prefix (mem s) (memmap_kernel s) (unat (kernel_mem_pages s)) k" "0 < k" "k < 0x40000"
    using ok room by (simp_all add: heap_ok_def)
  have "page_count 4096 = 1" by (simp add: page_count_def)
  then show "palloc ZONE_KERNEL 4096 s
    = (kernel_page (k - 1), s\<lparr>mem := set_status 1 (memmap_kernel s + of_nat k) MEM_USED (mem s)\<rparr>)"
    using palloc_kernel [OF up(1), of 4096] room up(2,3) by (simp add: phy2lin_page)
  show u: "unat (kernel_page (k - 1)) = heap_top k"
    using up by (simp add: unat_kernel_page heap_top_def)
  show "page_aligned (kernel_page (k - 1))" using up by (simp add: kernel_page_aligned)
  show "mapped (kernel_page (k - 1))" using u by (simp add: mapped_def word_le_nat_alt heap_top_def)
  show "heap_top (Suc k) = heap_top k + 4096" using up(2) by (cases k) (simp_all add: heap_top_def)
  show "used_prefix (set_status 1 (memmap_kernel s + of_nat k) MEM_USED (mem s)) (memmap_kernel s) (unat (kernel_mem_pages s)) (Suc k)"
    using used_prefix_take [OF up(1), of 1] room by simp
  have "unat (memmap_kernel s + of_nat k) = unat (memmap_kernel s) + k"
    using up(1) room by (intro unat_add_of_nat) (simp add: used_prefix_def)
  then show "same_off (rset (map_region s)) (mem s) (set_status 1 (memmap_kernel s + of_nat k) MEM_USED (mem s))"
    using room by (auto simp: same_off_def rset_def map_region_def)
qed

lemma heap_alloc_new:
  assumes ok: "heap_ok s (xs @ c # ys) k" and cur: "c_cur c = None" and room: "k < unat (kernel_mem_pages s)"
  defines "S \<equiv> kernel_page (k - 1)" and "m1 \<equiv> set_status 1 (memmap_kernel s + of_nat k) MEM_USED (mem s)"
  shows "\<exists>m'. alloc_from_kmem (c_addr c) s = Inr (slab_obj S (c_count c) (c_size c) 0, s\<lparr>mem := m'\<rparr>)
    \<and> cache_mem m' (c\<lparr>c_cur := Some (S, 1)\<rparr>) \<and> cache_geo (c\<lparr>c_cur := Some (S, 1)\<rparr>)
    \<and> same_off (block (c_addr c) 28 \<union> block S (20 + 8 * c_count c)) m1 m'
    \<and> load32 m' (c_addr c + 24) = load32 (mem s) (c_addr c + 24)"
proof -
  note h = heap_ok_member [OF ok] and pg = heap_page [OF ok room, folded S_def m1_def]
  have g: "2 \<le> c_count c" using h(2) by (simp add: cache_geo_def)
  note hdr = cache_geo_header [OF h(2)]
  have K: "unat (c_addr c) + 28 \<le> heap_top k" "rdisj (map_region s) (unat (c_addr c), 28)"
    using h(4) cache_regions_cur(2) [OF cur] by auto
  have b: "heap_top k + 4096 \<le> 2 ^ 32" using page_aligned_bound [OF pg(3)] pg(2) by simp
  have sp: "sep (c_addr c) 28 S (20 + 8 * c_count c)"
    using K(1) b pg(2) hdr by (auto simp: sep_def)
  have fr: "same_on (block (c_addr c) 28) (mem s) m1"
    using rdisj_rset [OF K(2)] by (intro same_off_on [OF pg(7)]) (simp add: block_rset)
  have "cache_geo (c\<lparr>c_cur := Some (S, 1)\<rparr>)"
    using h(2) cur pg(3,4) sp g by (auto simp: cache_geo_def)
  then show ?thesis
    using alloc_from_kmem_none [OF h(1,2) cur pg(1,4,3) sp] fr by auto
qed

lemma heap_alloc_none:
  assumes ok: "heap_ok s (xs @ c # ys) k" and cur: "c_cur c = None" and room: "k < unat (kernel_mem_pages s)"
  shows "\<exists>p s' c' k'. alloc_from_kmem (c_addr c) s = Inr (p, s') \<and> alloc_step s p c xs ys k s' c' k'"
proof -
  define S where "S = kernel_page (k - 1)"
  define c' where "c' = c\<lparr>c_cur := Some (S, 1)\<rparr>"
  define m1 where "m1 = set_status 1 (memmap_kernel s + of_nat k) MEM_USED (mem s)"
  note h = heap_ok_member [OF ok] and pg = heap_page [OF ok room, folded S_def m1_def]
  note fit = cache_geo_obj [OF h(2), of 0]
  have fit1: "20 + 8 * c_count c + c_size c \<le> 4096" "1 \<le> c_size c" using fit h(2) by (auto simp: cache_geo_def)
  note regs = cache_regions_cur(2) [OF cur]
  have K: "unat (c_addr c) + 28 \<le> heap_top k" "rdisj (map_region s) (unat (c_addr c), 28)" using h(4) regs by auto
  obtain m' where m': "alloc_from_kmem (c_addr c) s = Inr (slab_obj S (c_count c) (c_size c) 0, s\<lparr>mem := m'\<rparr>)"
    "cache_mem m' c'" "cache_geo c'" "same_off (block (c_addr c) 28 \<union> block S (20 + 8 * c_count c)) m1 m'"
    "load32 m' (c_addr c + 24) = load32 (mem s) (c_addr c + 24)"
    using heap_alloc_new [OF ok cur room] unfolding S_def c'_def m1_def by blast
  let ?p = "slab_obj S (c_count c) (c_size c) 0" and ?b = "(heap_top k + (20 + 8 * c_count c), c_size c)"
  have up: "unat ?p = fst ?b"
    using unat_slab_obj [OF pg(3), of "c_count c" "c_size c" 0] fit1 pg(2) by simp
  have mp: "mapped ?p" using up by (simp add: mapped_def word_le_nat_alt heap_top_def)
  have cf: "c_addr c' = c_addr c" "c_size c' = c_size c" "c_count c' = c_count c" by (simp_all add: c'_def)
  have rb: "rset ?b = block ?p (c_size c)" by (simp only: block_rset up fst_conv)
  have cr: "cache_regions c' = [(unat (c_addr c), 28), (heap_top k, 20 + 8 * c_count c),
     (heap_top k + (20 + 8 * c_count c + c_size c), 4096 - (20 + 8 * c_count c + c_size c))]"
    by (simp add: cache_regions_def c'_def pg(2))
  have src: "\<forall>r' \<in> set (?b # cache_regions c'). (\<exists>r \<in> set (cache_regions c). rsub r' r) \<or> heap_top k \<le> fst r'"
    by (simp add: cr regs rsub_def)
  have srt: "sorted_wrt rdisj (?b # cache_regions c')"
    using K(1) by (auto simp: cr rdisj_def)
  have lim: "\<forall>r' \<in> set (?b # cache_regions c'). fst r' + snd r' \<le> heap_top (Suc k)"
    using K(1) fit1 pg(5) by (auto simp: cr)
  let ?W = "rset (map_region s) \<union> (\<Union>r \<in> set (cache_regions c). rset r) \<union> {x. heap_top k \<le> unat x}"
  have "same_off ?W (mem s) m1" using pg(7) by (rule same_off_mono) auto
  moreover have "same_off ?W m1 m'"
    using m'(4) by (rule same_off_mono) (auto simp: regs block_rset rset_def pg(2))
  ultimately have dif: "same_off ?W (mem s) m'" by (rule same_off_trans)
  have "fst (map_region s) + snd (map_region s) \<le> heap_top k"
    using ok by (simp add: heap_ok_def heap_regions_def)
  then have "(block (c_addr c) 28 \<union> block S (20 + 8 * c_count c)) \<inter> rset (map_region s) = {}"
    using rdisj_rset [OF K(2)] pg(2) by (auto simp: block_rset) (auto simp: rset_def)
  then have up': "used_prefix m' (memmap_kernel s) (unat (kernel_mem_pages s)) (Suc k)"
    using used_prefix_frame [OF pg(6)] same_off_on [OF m'(4)] by blast
  note step = heap_step [where s = s and xs = xs and c = c and ys = ys and k = k and s' = "s\<lparr>mem := m'\<rparr>" and k' = "Suc k" and c' = c' and b = ?b]
  have "alloc_step s ?p c xs ys k (s\<lparr>mem := m'\<rparr>) c' (Suc k)"
    unfolding alloc_step_def using step [OF ok _ _ _ _ _ m'(3) srt src lim] dif up' m'(2,5) up lim mp cf
    by (auto simp: rb)
  then show ?thesis using m'(1) by blast
qed

lemma heap_alloc:
  assumes "heap_ok s (xs @ c # ys) k" and "c_cur c \<noteq> None \<or> k < unat (kernel_mem_pages s)"
  shows "\<exists>p s' c' k'. alloc_from_kmem (c_addr c) s = Inr (p, s') \<and> alloc_step s p c xs ys k s' c' k'"
proof (cases "c_cur c")
  case None
  then show ?thesis using assms by (intro heap_alloc_none) auto
next
  case (Some a)
  then show ?thesis using heap_alloc_cur [OF assms(1), of "fst a" "snd a"] by simp
qed

lemma heap_alloc_no_page:
  assumes ok: "heap_ok s (xs @ c # ys) k" and cur: "c_cur c = None" and room: "\<not> k < unat (kernel_mem_pages s)"
  shows "alloc_from_kmem (c_addr c) s = Inl (Page_Fault 0)"
proof -
  note h = heap_ok_member [OF ok]
  have "page_count 4096 = 1" by (simp add: page_count_def)
  then have "palloc ZONE_KERNEL 4096 s = (0, s)"
    using palloc_kernel [of s k 4096] ok room by (simp add: heap_ok_def)
  then show ?thesis
    using h(1,2) cur by (simp add: alloc_from_kmem_def cache_mem_def cache_geo_def creat_slab_def)
qed

section \<open>The allocator\<close>

text \<open>
  The invariant of \<open>kmalloc\<close>: the heap is well formed, its memory is \<open>A\<close>, and the size classes
  1 to 10 (objects of 2 to 1024 bytes) are caches of the heap. The class of 2048-byte objects has
  one object per slab and is not covered.
\<close>

definition classes_ok :: "'a slab_sys_scheme \<Rightarrow> cache list \<Rightarrow> bool" where
  "classes_ok s cs \<longleftrightarrow> length (quick_alloc_table s) = 12
     \<and> (\<forall>i \<in> {1..10}. \<exists>c \<in> set cs. c_addr c = quick_alloc_table s ! i \<and> c_size c = 2 ^ i)"

definition heap_inv :: "'a slab_sys_scheme \<Rightarrow> addr set \<Rightarrow> bool" where
  "heap_inv s A \<longleftrightarrow> (\<exists>cs k. heap_ok s cs k \<and> classes_ok s cs \<and> A = owned s cs k)"

text \<open>The number of unused pages of the kernel zone.\<close>

definition pages_left :: "'a buddy_scheme \<Rightarrow> nat" where
  "pages_left s = length (filter (\<lambda>i. mem s (memmap_kernel s + of_nat i) = MEM_UNUSED) [0..<unat (kernel_mem_pages s)])"

lemma pages_left_prefix:
  assumes "used_prefix (mem s) (memmap_kernel s) (unat (kernel_mem_pages s)) k"
  shows "pages_left s = unat (kernel_mem_pages s) - k"
proof -
  let ?f = "\<lambda>i. mem s (memmap_kernel s + of_nat i) = MEM_UNUSED" and ?n = "unat (kernel_mem_pages s)"
  have "filter ?f [0..<k] = []" "filter ?f [k..<?n] = [k..<?n]" "k \<le> ?n"
    using assms by (auto simp: used_prefix_def filter_empty_conv filter_id_conv)
  moreover have "[0..<?n] = [0..<k] @ [k..<?n]" using \<open>k \<le> ?n\<close> by (metis le_add_diff_inverse upt_add_eq_append zero_le)
  ultimately show ?thesis by (simp add: pages_left_def)
qed

lemma heap_ok_left: "heap_ok s cs k \<Longrightarrow> pages_left s = unat (kernel_mem_pages s) - k \<and> k \<le> unat (kernel_mem_pages s)"
  using pages_left_prefix by (auto simp: heap_ok_def used_prefix_def)

lemma size_class_bounds:
  "size_class n i sz = Some j \<Longrightarrow> unat sz < 2 ^ (j - i) \<and> i < j \<and> (sz \<noteq> 0 \<longrightarrow> 2 ^ (j - i) \<le> 2 * unat sz)"
proof (induction n arbitrary: i sz)
  case (Suc n)
  have u: "unat (drop_bit 1 sz) = unat sz div 2" by (simp add: unat_drop_bit)
  show ?case
  proof (cases "drop_bit 1 sz = 0")
    case True
    then have "unat sz div 2 = 0" using u by simp
    then have "unat sz < 2" by linarith
    moreover have "sz \<noteq> 0 \<Longrightarrow> 1 \<le> unat sz" by (simp add: Suc_le_eq unat_gt_0)
    ultimately show ?thesis using Suc.prems True by auto
  next
    case False
    then have "size_class n (Suc i) (drop_bit 1 sz) = Some j" using Suc.prems by simp
    from Suc.IH [OF this, unfolded u] False have "unat sz div 2 < 2 ^ (j - Suc i)" "Suc i < j" "2 ^ (j - Suc i) \<le> 2 * (unat sz div 2)"
      by simp_all
    moreover have "(2 :: nat) ^ (j - i) = 2 * 2 ^ (j - Suc i)" using \<open>Suc i < j\<close>
      by (metis Suc_diff_Suc Suc_lessD power_Suc)
    ultimately show ?thesis by linarith
  qed
qed simp

lemma size_class_total: "unat sz < 2 ^ n \<Longrightarrow> 0 < n \<Longrightarrow> \<exists>j \<le> i + n. size_class n i sz = Some j"
proof (induction n arbitrary: i sz)
  case (Suc n)
  have u: "unat (drop_bit 1 sz) = unat sz div 2" by (simp add: unat_drop_bit)
  show ?case
  proof (cases "drop_bit 1 sz = 0")
    case False
    then have "0 < unat sz div 2" using u by (metis unat_gt_0)
    then have "0 < n" using Suc.prems by (cases n) auto
    moreover have "unat (drop_bit 1 sz) < 2 ^ n" using u Suc.prems by simp
    ultimately show ?thesis using Suc.IH [of "drop_bit 1 sz" "Suc i"] False by auto
  qed simp
qed simp

lemma size_class_mono: "size_class n i sz = Some j \<Longrightarrow> n \<le> n' \<Longrightarrow> size_class n' i sz = Some j"
proof (induction n arbitrary: n' i sz)
  case (Suc n)
  then show ?case by (cases n') (auto split: if_splits)
qed simp

end
