(* ===== verification/Allocator.thy ===== *)
theory Allocator
  imports Prelude
begin

text \<open>
  What a client of the kernel heap relies on, as an interface: the allocator keeps an invariant
  over a set of addresses it owns, a successful call hands out a block of that set and gives it
  up for good, writes nothing outside the set, and is not disturbed by writes outside it. The
  lemmas about clients are proved once from these laws; \<open>Mm_Slab_Alloc\<close> shows that \<open>kmalloc\<close>
  satisfies them.
\<close>

text \<open>
  A client of an allocator: it requests blocks smaller than \<open>limit\<close> bytes and writes bytes of
  blocks it has been given. The second component of a configuration lists those blocks.
\<close>

inductive client ::
  "(u32 \<Rightarrow> 's \<Rightarrow> (addr \<times> 's) result) \<Rightarrow> ('s \<Rightarrow> memory) \<Rightarrow> (memory \<Rightarrow> 's \<Rightarrow> 's) \<Rightarrow> nat
     \<Rightarrow> 's \<times> (addr \<times> nat) list \<Rightarrow> 's \<times> (addr \<times> nat) list \<Rightarrow> bool"
  for alloc get_mem set_mem limit where
  client_alloc: "unat n < limit \<Longrightarrow> alloc n s = Inr (p, s') \<Longrightarrow>
     client alloc get_mem set_mem limit (s, L) (s', (p, unat n) # L)"
| client_write: "(p, n) \<in> set L \<Longrightarrow> a \<in> block p n \<Longrightarrow>
     client alloc get_mem set_mem limit (s, L) (set_mem ((get_mem s)(a := v)) s, L)"

inductive_cases client_cases: "client alloc get_mem set_mem limit (s, L) (s', L')"

definition disjoint_blocks :: "addr \<times> nat \<Rightarrow> addr \<times> nat \<Rightarrow> bool" where
  "disjoint_blocks x y \<longleftrightarrow> block (fst x) (snd x) \<inter> block (fst y) (snd y) = {}"

locale allocator =
  fixes alloc :: "u32 \<Rightarrow> 's \<Rightarrow> (addr \<times> 's) result"
    and get_mem :: "'s \<Rightarrow> memory" and set_mem :: "memory \<Rightarrow> 's \<Rightarrow> 's"
    and inv :: "'s \<Rightarrow> addr set \<Rightarrow> bool" and limit :: nat
  assumes frame: "inv s A \<Longrightarrow> same_on A (get_mem s) m \<Longrightarrow> inv (set_mem m s) A"
    and get_set: "get_mem (set_mem m s) = m"
    and fresh: "inv s A \<Longrightarrow> unat n < limit \<Longrightarrow> alloc n s = Inr (p, s') \<Longrightarrow>
       mapped p \<and> block p (unat n) \<subseteq> A \<and> same_off A (get_mem s) (get_mem s')
       \<and> (\<exists>A'. inv s' A' \<and> A' \<subseteq> A - block p (unat n))"
begin

definition client_ok :: "'s \<times> (addr \<times> nat) list \<Rightarrow> bool" where
  "client_ok x \<longleftrightarrow> sorted_wrt disjoint_blocks (snd x)
     \<and> (\<forall>b \<in> set (snd x). mapped (fst b))
     \<and> (\<exists>A. inv (fst x) A \<and> (\<forall>b \<in> set (snd x). block (fst b) (snd b) \<inter> A = {}))"

lemma step_ok:
  assumes "client alloc get_mem set_mem limit (s, L) (s', L')" and "client_ok (s, L)"
  shows "client_ok (s', L')"
proof -
  obtain A where A: "inv s A" "\<forall>b \<in> set L. block (fst b) (snd b) \<inter> A = {}"
    and L: "sorted_wrt disjoint_blocks L" "\<forall>b \<in> set L. mapped (fst b)"
    using assms(2) by (auto simp: client_ok_def)
  from assms(1) show ?thesis
  proof (cases rule: client_cases [consumes 1])
    case (1 n p)
    obtain A' where A': "mapped p" "block p (unat n) \<subseteq> A" "inv s' A'" "A' \<subseteq> A - block p (unat n)"
      using fresh [OF A(1) 1(2,3)] by blast
    have "\<forall>b \<in> set L. disjoint_blocks (p, unat n) b"
      using A(2) A'(2) by (auto simp: disjoint_blocks_def)
    moreover have "\<forall>b \<in> set L'. block (fst b) (snd b) \<inter> A' = {}"
      unfolding 1(1) using A(2) A'(4) by auto
    moreover have "\<forall>b \<in> set L'. mapped (fst b)" using L(2) A'(1) 1(1) by simp
    ultimately show ?thesis
      using L(1) A'(3) 1(1) by (simp add: client_ok_def) blast
  next
    case (2 p n a v)
    have "a \<notin> A" using A(2) 2(1,3,4) by fastforce
    then have "inv s' A"
      unfolding 2(2) by (intro frame [OF A(1)]) (auto simp: same_on_def)
    then show ?thesis using A(2) L 2(1) by (auto simp: client_ok_def)
  qed
qed

lemma run_ok:
  assumes "(client alloc get_mem set_mem limit)\<^sup>*\<^sup>* (s, []) (s', L)" and "inv s A"
  shows "client_ok (s', L)"
  using assms(1)
proof (induction rule: rtranclp_induct2)
  case refl
  show ?case using assms(2) by (auto simp: client_ok_def)
next
  case (step s1 L1 s2 L2)
  show ?case using step_ok [OF step(2,3)] .
qed

lemma alloc_keeps_blocks:
  assumes "(client alloc get_mem set_mem limit)\<^sup>*\<^sup>* (s, []) (s', L)" and "inv s A"
    and "unat n < limit" and "alloc n s' = Inr (p, s'')" and "(q, k) \<in> set L"
  shows "block p (unat n) \<inter> block q k = {}" and "same_on (block q k) (get_mem s') (get_mem s'')"
proof -
  obtain B where B: "inv s' B" "\<forall>b \<in> set L. block (fst b) (snd b) \<inter> B = {}"
    using run_ok [OF assms(1,2)] by (auto simp: client_ok_def)
  have d: "block q k \<inter> B = {}" using B(2) assms(5) by fastforce
  note f = fresh [OF B(1) assms(3,4)]
  show "block p (unat n) \<inter> block q k = {}" using f d by blast
  show "same_on (block q k) (get_mem s') (get_mem s'')"
    using f d by (intro same_off_on [of B]) auto
qed

end

end
