(* ===== verification/Mm_Slab_Alloc.thy ===== *)
theory Mm_Slab_Alloc
  imports Mm_Slab_Inv Allocator
begin

text \<open>
  \<open>kmalloc\<close> as the client sees it: for requests below 1024 bytes it is an \<open>allocator\<close>, it
  succeeds as long as a page is left, and \<open>slab_init\<close> establishes its invariant. Then what the
  code does outside that envelope: the two largest size classes and \<open>kfree\<close>.
\<close>

section \<open>The allocator laws\<close>

lemma owned_mem [simp]: "owned (s\<lparr>mem := m\<rparr>) cs k = owned s cs k"
  by (simp add: owned_def heap_regions_def map_region_def)

lemma heap_ok_frame:
  assumes "heap_ok s cs k" and "same_on (owned s cs k) (mem s) m"
  shows "heap_ok (s\<lparr>mem := m\<rparr>) cs k"
proof -
  have regs: "heap_regions (s\<lparr>mem := m\<rparr>) cs = heap_regions s cs"
    by (simp add: heap_regions_def map_region_def)
  have on: "same_on (rset r) (mem s) m" if "r \<in> set (heap_regions s cs)" for r
    using assms(2) by (rule same_on_mono) (use that in \<open>auto simp: owned_def\<close>)
  have "used_prefix m (memmap_kernel s) (unat (kernel_mem_pages s)) k"
    using assms(1) on [of "map_region s"] used_prefix_frame
    by (auto simp: heap_ok_def heap_regions_def)
  moreover have "cache_mem m c" if "c \<in> set cs" for c
  proof (rule cache_mem_frame)
    show "cache_mem (mem s) c" "cache_geo c" using assms(1) that by (auto simp: heap_ok_def)
    show "same_on (\<Union>r \<in> set (cache_regions c). rset r) (mem s) m"
      using assms(2) by (rule same_on_mono) (use that in \<open>auto simp: owned_def heap_regions_def\<close>)
  qed
  ultimately show ?thesis
    using assms(1) by (auto simp: heap_ok_def regs)
qed

lemma heap_inv_frame:
  assumes "heap_inv s A" and "same_on A (mem s) m"
  shows "heap_inv (s\<lparr>mem := m\<rparr>) A"
proof -
  obtain cs k where "heap_ok s cs k" "classes_ok s cs" "A = owned s cs k"
    using assms(1) by (auto simp: heap_inv_def)
  then show ?thesis
    using heap_ok_frame [of s cs k m] assms(2) unfolding heap_inv_def
    by (intro exI [of _ cs] exI [of _ k]) (simp add: classes_ok_def)
qed

lemma pages_left_frame:
  assumes "heap_inv s A" and "same_on A (mem s) m"
  shows "pages_left (s\<lparr>mem := m\<rparr>) = pages_left s"
proof -
  obtain cs j where h: "heap_ok s cs j" "A = owned s cs j" using assms(1) by (auto simp: heap_inv_def)
  have "heap_ok (s\<lparr>mem := m\<rparr>) cs j" using heap_ok_frame [OF h(1)] assms(2) h(2) by simp
  then show ?thesis using heap_ok_left [OF h(1)] heap_ok_left [of "s\<lparr>mem := m\<rparr>" cs j] by simp
qed

text \<open>The size class a small request is served from.\<close>

lemma kmalloc_class:
  assumes "unat sz < 1024" and "length (quick_alloc_table s) = 12"
  shows "\<exists>i. 1 \<le> i \<and> i \<le> 10 \<and> unat sz < 2 ^ i \<and> kmalloc sz s = alloc_from_kmem (quick_alloc_table s ! i) s"
proof -
  obtain i where i: "i \<le> 10" "size_class 10 0 sz = Some i"
    using size_class_total [of sz 10 0] assms(1) by auto
  then have c: "size_class 12 0 sz = Some i" by (rule_tac size_class_mono) auto
  have "\<not> 2048 < sz" using assms(1) by (simp add: word_less_nat_alt)
  then have "kmalloc sz s = alloc_from_kmem (quick_alloc_table s ! i) s"
    using i(1) c assms(2) by (simp add: kmalloc_def kmalloc_flags_def)
  moreover have "1 \<le> i" "unat sz < 2 ^ i" using size_class_bounds [OF i(2)] by auto
  ultimately show ?thesis using i(1) by blast
qed

lemma classes_ok_step:
  assumes "classes_ok s (xs @ c # ys)" and "alloc_step s p c xs ys k s' c' k'"
  shows "classes_ok s' (xs @ c' # ys)"
proof -
  have t: "quick_alloc_table s' = quick_alloc_table s" "c_addr c' = c_addr c" "c_size c' = c_size c"
    using assms(2) unfolding alloc_step_def by (auto dest: arg_cong [of s' _ quick_alloc_table])
  then show ?thesis using assms(1) by (auto simp: classes_ok_def)
qed

lemma heap_top_bound: "heap_ok s cs k \<Longrightarrow> heap_top k < 2 ^ 32"
proof -
  assume "heap_ok s cs k"
  then have "k \<le> 0x40000" by (auto simp: heap_ok_def used_prefix_def)
  then show ?thesis by (simp add: heap_top_def)
qed

lemma kmalloc_cases:
  assumes "heap_inv s A" and "unat sz < 1024"
  shows "kmalloc sz s = Inl (Page_Fault 0) \<and> pages_left s = 0
    \<or> (\<exists>p s' A'. kmalloc sz s = Inr (p, s') \<and> mapped p \<and> block p (Suc (unat sz)) \<subseteq> A
         \<and> same_off A (mem s) (mem s') \<and> heap_inv s' A' \<and> A' \<subseteq> A - block p (Suc (unat sz))
         \<and> pages_left s \<le> Suc (pages_left s') \<and> unat p + Suc (unat sz) \<le> 2 ^ 32)"
proof -
  obtain cs k where h: "heap_ok s cs k" "classes_ok s cs" "A = owned s cs k"
    using assms(1) by (auto simp: heap_inv_def)
  obtain i where i: "1 \<le> i" "i \<le> 10" "unat sz < 2 ^ i" "kmalloc sz s = alloc_from_kmem (quick_alloc_table s ! i) s"
    using kmalloc_class [OF assms(2), of s] h(2) by (auto simp: classes_ok_def)
  obtain c where c: "c \<in> set cs" "c_addr c = quick_alloc_table s ! i" "c_size c = 2 ^ i"
    using h(2) i(1,2) by (fastforce simp: classes_ok_def)
  obtain xs ys where cs: "cs = xs @ c # ys" using c(1) by (meson split_list)
  show ?thesis
  proof (cases "c_cur c \<noteq> None \<or> k < unat (kernel_mem_pages s)")
    case True
    then obtain p s' c' k' where a: "kmalloc sz s = Inr (p, s')" "alloc_step s p c xs ys k s' c' k'"
      using heap_alloc [of s xs c ys k] h(1) cs i(4) c(2) by auto
    have "block p (Suc (unat sz)) \<subseteq> block p (c_size c)"
      using i(3) c(3) by (intro block_mono) auto
    moreover have "pages_left s \<le> Suc (pages_left s')"
    proof -
      have st: "heap_ok s' (xs @ c' # ys) k'" "k' \<le> Suc k" "s' = s\<lparr>mem := mem s'\<rparr>"
        using a(2) by (auto simp: alloc_step_def)
      have "kernel_mem_pages s' = kernel_mem_pages s" using arg_cong [OF st(3), of kernel_mem_pages] by simp
      then show ?thesis using heap_ok_left [OF st(1)] heap_ok_left [OF h(1)] st(2) by simp
    qed
    moreover have "unat p + Suc (unat sz) \<le> 2 ^ 32"
    proof -
      have st: "heap_ok s' (xs @ c' # ys) k'" "unat p + c_size c \<le> heap_top k'" using a(2) by (auto simp: alloc_step_def)
      show ?thesis using heap_top_bound [OF st(1)] st(2) i(3) c(3) by linarith
    qed
    ultimately show ?thesis
      using a classes_ok_step [OF _ a(2)] h(2) unfolding alloc_step_def heap_inv_def h(3) cs by blast
  next
    case False
    then have "c_cur c = None" by blast
    with False show ?thesis
      using heap_alloc_no_page [of s xs c ys k] heap_ok_left [OF h(1)] h(1) cs i(4) c(2) by auto
  qed
qed

interpretation slab: allocator kmalloc mem "\<lambda>m. mem_update (\<lambda>_. m)" heap_inv 1024
proof
  fix s :: "'a slab_sys_scheme" and A n p and s' :: "'a slab_sys_scheme"
  assume a: "heap_inv s A" "unat n < 1024" "kmalloc n s = Inr (p, s')"
  have "block p (unat n) \<subseteq> block p (Suc (unat n))" by (rule block_mono) auto
  then show "mapped p \<and> block p (unat n) \<subseteq> A \<and> same_off A (mem s) (mem s')
       \<and> (\<exists>A'. heap_inv s' A' \<and> A' \<subseteq> A - block p (unat n))"
    using kmalloc_cases [OF a(1,2)] a(3) by auto
qed (simp_all add: heap_inv_frame)

section \<open>Initialisation\<close>

lemma heap_ok_table [simp]:
  "heap_ok (s\<lparr>quick_alloc_table := t\<rparr>) cs k = heap_ok s cs k"
  "owned (s\<lparr>quick_alloc_table := t\<rparr>) cs k = owned s cs k"
  by (simp_all add: heap_ok_def owned_def heap_regions_def map_region_def)

lemma heap_ok_add:
  assumes "heap_ok s cs k" and "cache_mem (mem s) c" and "cache_geo c" and "c_cur c = None"
    and "\<forall>r \<in> set (heap_regions s cs). rdisj (unat (c_addr c), 28) r" and "unat (c_addr c) + 28 \<le> heap_top k"
  shows "heap_ok s (cs @ [c]) k"
proof -
  have "heap_regions s (cs @ [c]) = heap_regions s cs @ [(unat (c_addr c), 28)]"
    using assms(4) by (simp add: heap_regions_def cache_regions_def)
  then show ?thesis
    using assms rdisj_sym by (simp add: heap_ok_def sorted_wrt_append)
qed

lemma heap_ok_next:
  assumes ok: "heap_ok s (xs @ c # ys) k"
  shows "heap_ok (s\<lparr>mem := store32 (mem s) (c_addr c + 24) v\<rparr>) (xs @ c # ys) k"
proof -
  note h = heap_ok_member [OF ok]
  let ?m = "store32 (mem s) (c_addr c + 24) v"
  have K: "unat (c_addr c) + 28 \<le> 2 ^ 32" "(unat (c_addr c), 28) \<in> set (cache_regions c)"
    using h(2) by (simp_all add: cache_geo_def cache_regions_def)
  have b: "block (c_addr c + 24) 4 \<subseteq> rset (unat (c_addr c), 28)" "unat (c_addr c + 24) + 4 \<le> 2 ^ 32"
    using K(1) by (auto simp: mem_block_iff rset_def unat_add_word)
  have so: "same_off (rset (unat (c_addr c), 28)) (mem s) ?m"
    using store32_same_off [OF b(2)] b(1) by (rule same_off_mono)
  have "cache_mem ?m c"
  proof (cases "c_cur c")
    case None
    then show ?thesis using h(1) by (simp add: cache_mem_def load32_store32_apart)
  next
    case (Some a)
    obtain S j where cur: "c_cur c = Some (S, j)" using Some by (cases a) auto
    have sp: "sep (c_addr c) 28 S (20 + 8 * c_count c)" using h(2) cur by (simp add: cache_geo_def)
    then have "same_on (block S (20 + 8 * c_count c)) (mem s) ?m"
      using sep_block by (intro same_off_on [OF so]) (simp add: block_rset)
    then have "slab_ok ?m S (c_count c) j"
      using slab_ok_frame [of "mem s" S "c_count c" j ?m] h(1,2) cur cache_geo_header [OF h(2)]
      by (simp add: cache_mem_def cache_geo_def)
    then show ?thesis using h(1) cur by (simp add: cache_mem_def load32_store32_apart apart_sep [OF sp])
  qed
  moreover have "rset (map_region s) \<inter> rset (unat (c_addr c), 28) = {}"
    using h(4) K(2) by (intro rdisj_rset) simp
  then have "used_prefix ?m (memmap_kernel s) (unat (kernel_mem_pages s)) k"
    using used_prefix_frame [of "mem s" s k ?m] same_off_on [OF so, of "rset (map_region s)"] ok by (auto simp: heap_ok_def Int_commute)
  moreover have "same_off (rset (map_region s) \<union> (\<Union>r \<in> set (cache_regions c). rset r) \<union> {x. heap_top k \<le> unat x}) (mem s) ?m"
    using so by (rule same_off_mono) (use K(2) in auto)
  ultimately show ?thesis
    using heap_step(1) [where s' = "s\<lparr>mem := ?m\<rparr>" and b = "(heap_top k, 0)" and k' = k and c' = c, OF ok] h
    by (auto simp: rdisj_def rsub_def)
qed

text \<open>The cache \<open>add_kmem\<close> creates.\<close>

definition fresh_cache :: "addr \<Rightarrow> nat \<Rightarrow> cache" where
  "fresh_cache p sz = \<lparr>c_addr = p, c_count = 4076 div (8 + sz), c_size = sz, c_cur = None\<rparr>"

definition kmem_root :: "'a slab_sys_scheme \<Rightarrow> cache \<Rightarrow> bool" where
  "kmem_root s c \<longleftrightarrow> c_addr c = kmem_kmem s \<and> c_size c = 28"

lemma fresh_cache_count:
  assumes "1 \<le> sz" and "sz \<le> 1024"
  shows "2 \<le> 4076 div (8 + sz)" "20 + 8 * (4076 div (8 + sz)) + sz * (4076 div (8 + sz)) \<le> 4096"
    and "unat ((SLAB_SIZE - 20) div (8 + of_nat sz)) = 4076 div (8 + sz)"
proof -
  show "2 \<le> 4076 div (8 + sz)" using div_le_mono2 [of "8 + sz" 1032 4076] assms by simp
  have "(8 + sz) * (4076 div (8 + sz)) \<le> 4076" by (rule times_div_less_eq_dividend)
  then show "20 + 8 * (4076 div (8 + sz)) + sz * (4076 div (8 + sz)) \<le> 4096"
    by (simp add: algebra_simps)
  have "unat (8 + of_nat sz :: u32) = 8 + sz"
    using assms unat_add_of_nat [of 8 sz] by simp
  then show "unat ((SLAB_SIZE - 20) div (8 + of_nat sz)) = 4076 div (8 + sz)"
    by (simp add: unat_div)
qed

lemma fresh_cache_joins:
  assumes ok: "heap_ok s cs k" and sz: "1 \<le> sz" "sz \<le> 1024" and p: "mapped p" "unat p + 28 \<le> heap_top k"
    and dis: "\<forall>r \<in> set (heap_regions s cs). rdisj (unat p, 28) r"
    and f: "load32 (mem s) p = 0" "load32 (mem s) (p + 4) = 0" "load32 (mem s) (p + 12) = of_nat sz"
      "load32 (mem s) (p + 16) = (SLAB_SIZE - 20) div (8 + of_nat sz)"
  shows "heap_ok s (cs @ [fresh_cache p sz]) k"
proof (rule heap_ok_add [OF ok])
  note fc = fresh_cache_count [OF sz]
  have "heap_top k \<le> 2 ^ 32" using heap_top_bound [OF ok] by simp
  then show "cache_geo (fresh_cache p sz)" using p fc(1,2) sz by (simp add: cache_geo_def fresh_cache_def)
  show "cache_mem (mem s) (fresh_cache p sz)"
    using eq_of_unat [OF fc(3)] f by (simp add: cache_mem_def fresh_cache_def)
qed (use p dis in \<open>simp_all add: fresh_cache_def\<close>)

lemma cache_link_owned:
  assumes "heap_ok s (c # ys) k"
  shows "block (c_addr c + 24) 4 \<subseteq> owned s (c # ys) k" "unat (c_addr c + 24) + 4 \<le> 2 ^ 32"
  using heap_ok_member(2) [of s "[]" c ys k] assms
  by (auto simp: owned_def heap_regions_def cache_regions_def rset_def mem_block_iff unat_add_word cache_geo_def)

lemma add_kmem_step:
  assumes ok: "heap_ok s (c # ys) k" and root: "kmem_root s c" and room: "k < unat (kernel_mem_pages s)"
  shows "\<exists>p s' c' k'. add_kmem (of_nat sz) f s = Inr (p, s') \<and> heap_ok s' (c' # ys) k' \<and> kmem_root s' c'
    \<and> s' = s\<lparr>mem := mem s'\<rparr> \<and> k' \<le> Suc k \<and> owned s' (c' # ys) k' \<subseteq> owned s (c # ys) k
    \<and> same_off (owned s (c # ys) k) (mem s) (mem s') \<and> block p 28 \<subseteq> owned s (c # ys) k
    \<and> (1 \<le> sz \<longrightarrow> sz \<le> 1024 \<longrightarrow> heap_ok s' (c' # ys @ [fresh_cache p sz]) k')"
proof -
  obtain p s1 c' k' where a: "alloc_from_kmem (kmem_kmem s) s = Inr (p, s1)" "alloc_step s p c [] ys k s1 c' k'"
    using heap_alloc [of s "[]" c ys k] ok root room by (auto simp: kmem_root_def)
  have st: "heap_ok s1 (c' # ys) k'" "mapped p" "unat p + 28 \<le> heap_top k'" "block p 28 \<subseteq> owned s (c # ys) k"
    "owned s1 (c' # ys) k' \<subseteq> owned s (c # ys) k - block p 28" "same_off (owned s (c # ys) k) (mem s) (mem s1)"
    "c_addr c' = c_addr c" "c_size c' = c_size c" "k' \<le> Suc k" "s1 = s\<lparr>mem := mem s1\<rparr>"
    "\<forall>r \<in> set (heap_regions s1 (c' # ys)). rdisj (unat p, 28) r"
    using a(2) root unfolding alloc_step_def kmem_root_def by auto
  have kk: "kmem_kmem s1 = kmem_kmem s" "c_addr c = kmem_kmem s"
    using st(10) root by (auto dest: arg_cong [of s1 _ kmem_kmem] simp: kmem_root_def)
  have top: "heap_top k' \<le> 2 ^ 32" using heap_top_bound [OF st(1)] by simp
  let ?n = "(SLAB_SIZE - 20) div (8 + of_nat sz)"
  define m1 where "m1 = store32 (store32 (store32 (store32 (store32 (store32 (store32 (mem s1) p 0) (p + 4) 0) (p + 8) 0)
     (p + 12) (of_nat sz)) (p + 16) ?n) (p + 20) f) (p + 24) 0"
  define m2 where "m2 = store32 m1 (p + 24) (load32 m1 (kmem_kmem s + 24))"
  define m3 where "m3 = store32 m2 (kmem_kmem s + 24) p"
  have add: "add_kmem (of_nat sz) f s = Inr (p, s1\<lparr>mem := m3\<rparr>)"
    using a(1) st(2) by (simp add: add_kmem_def m3_def m2_def m1_def Let_def kk)
  have so: "same_off (block p 28) (mem s1) m2"
    unfolding m2_def m1_def using st(3) top
    by (intro same_off_store32 same_off_refl) (auto simp: mem_block_iff unat_add_word)
  have "same_on (owned s1 (c' # ys) k') (mem s1) m2"
    using so by (rule same_off_on) (use st(5) in blast)
  then have ok2: "heap_ok (s1\<lparr>mem := m2\<rparr>) (c' # ys) k'" using st(1) by (intro heap_ok_frame)
  have "heap_ok (s1\<lparr>mem := m3\<rparr>) (c' # ys) k'"
    using heap_ok_next [of "s1\<lparr>mem := m2\<rparr>" "[]" c' ys k' p] ok2 by (simp add: m3_def kk st(7))
  moreover have "heap_ok (s1\<lparr>mem := m3\<rparr>) (c' # ys @ [fresh_cache p sz]) k'" if sz: "1 \<le> sz" "sz \<le> 1024"
  proof -
    have "heap_ok (s1\<lparr>mem := m2\<rparr>) ((c' # ys) @ [fresh_cache p sz]) k'"
      using st(2,3,11) by (intro fresh_cache_joins [OF ok2 sz])
        (simp_all add: heap_regions_def map_region_def m2_def m1_def load32_store32_apart)
    then have "heap_ok (s1\<lparr>mem := m2\<rparr>) ([] @ c' # ys @ [fresh_cache p sz]) k'" by simp
    then show ?thesis using heap_ok_next [of "s1\<lparr>mem := m2\<rparr>" "[]" c' "ys @ [fresh_cache p sz]" k' p] by (simp add: m3_def kk st(7))
  qed
  moreover have "same_off (owned s (c # ys) k) (mem s) m3"
  proof -
    have "same_off (owned s (c # ys) k) (mem s1) m2" using so st(4) by (rule same_off_mono)
    then show ?thesis
      unfolding m3_def kk(2) [symmetric] using st(6) cache_link_owned [OF ok] by (intro same_off_store32) (blast intro: same_off_trans)+
  qed
  moreover have "s1\<lparr>mem := m3\<rparr> = s\<lparr>mem := m3\<rparr>"
    using arg_cong [OF st(10), of "mem_update (\<lambda>_. m3)"] by simp
  moreover have "owned s1 (c' # ys) k' = owned s (c' # ys) k'"
    using arg_cong [OF st(10), of "\<lambda>x. owned x (c' # ys) k'"] by simp
  ultimately show ?thesis
    using add st(4,5,7,8,9) root kk by (intro exI [of _ p] exI [of _ "s1\<lparr>mem := m3\<rparr>"] exI [of _ c'] exI [of _ k'])
      (auto simp: kmem_root_def)
qed

text \<open>The state between two rounds of the loop of \<open>slab_init\<close>.\<close>

definition init_inv :: "nat \<Rightarrow> 'a slab_sys_scheme \<Rightarrow> cache \<Rightarrow> cache list \<Rightarrow> nat \<Rightarrow> bool" where
  "init_inv i s c ys k \<longleftrightarrow> heap_ok s (c # ys) k \<and> kmem_root s c \<and> length (quick_alloc_table s) = 12
     \<and> (\<forall>j < i. \<exists>d \<in> set ys. c_addr d = quick_alloc_table s ! j \<and> c_size d = 2 ^ j)"

lemma owned_add: "owned s (cs @ [fresh_cache p sz]) k = owned s cs k \<union> block p 28"
  by (auto simp: owned_def heap_regions_def fresh_cache_def cache_regions_def block_rset)

lemma init_inv_step:
  assumes inv: "init_inv i s c ys k" and i: "i \<le> 10" and room: "k < unat (kernel_mem_pages s)"
  shows "\<exists>p s' c' ys' k'. add_kmem (2 ^ i) f s = Inr (p, s')
    \<and> init_inv (Suc i) (s'\<lparr>quick_alloc_table := (quick_alloc_table s')[i := p]\<rparr>) c' ys' k'
    \<and> k' \<le> Suc k \<and> kernel_mem_pages s' = kernel_mem_pages s
    \<and> owned s' (c' # ys') k' \<subseteq> owned s (c # ys) k \<and> same_off (owned s (c # ys) k) (mem s) (mem s')"
proof -
  have inv': "heap_ok s (c # ys) k" "kmem_root s c" "length (quick_alloc_table s) = 12"
    "\<forall>j < i. \<exists>d \<in> set ys. c_addr d = quick_alloc_table s ! j \<and> c_size d = 2 ^ j"
    using inv by (simp_all add: init_inv_def)
  have sz: "1 \<le> (2 :: nat) ^ i" "(2 :: nat) ^ i \<le> 1024"
    using power_increasing [of i 10 "2 :: nat"] i by simp_all
  obtain p s' c' k' where a: "add_kmem (2 ^ i) f s = Inr (p, s')" "heap_ok s' (c' # ys @ [fresh_cache p (2 ^ i)]) k'"
    "kmem_root s' c'" "s' = s\<lparr>mem := mem s'\<rparr>" "k' \<le> Suc k" "owned s' (c' # ys) k' \<subseteq> owned s (c # ys) k"
    "same_off (owned s (c # ys) k) (mem s) (mem s')" "block p 28 \<subseteq> owned s (c # ys) k"
    using add_kmem_step [OF inv'(1,2) room, of "2 ^ i" f] sz by auto
  have t: "quick_alloc_table s' = quick_alloc_table s" "kernel_mem_pages s' = kernel_mem_pages s"
    using arg_cong [OF a(4), of quick_alloc_table] arg_cong [OF a(4), of kernel_mem_pages] by simp_all
  have "\<exists>d \<in> set (ys @ [fresh_cache p (2 ^ i)]). c_addr d = (quick_alloc_table s)[i := p] ! j \<and> c_size d = 2 ^ j"
    if "j < Suc i" for j
  proof (cases "j = i")
    case True
    then show ?thesis using i inv'(3) by (simp add: fresh_cache_def)
  next
    case False
    then show ?thesis using inv'(4) that by auto
  qed
  then have "init_inv (Suc i) (s'\<lparr>quick_alloc_table := (quick_alloc_table s')[i := p]\<rparr>) c' (ys @ [fresh_cache p (2 ^ i)]) k'"
    using a(2,3) inv'(3) by (auto simp: init_inv_def kmem_root_def t)
  moreover have "owned s' (c' # ys @ [fresh_cache p (2 ^ i)]) k' \<subseteq> owned s (c # ys) k"
    using a(6,8) owned_add [of s' "c' # ys" p "2 ^ i" k'] by simp
  ultimately show ?thesis using a(1,5,7) t(2) by blast
qed

lemma slab_init_loop_ok:
  assumes "init_inv i s c ys k" and "i + n = 11" and "k + n < unat (kernel_mem_pages s)"
  shows "\<exists>s' c' ys' k'. slab_init_loop (Suc n) i (2 ^ i) s = Inr s' \<and> init_inv 11 s' c' ys' k'
    \<and> k' \<le> k + Suc n \<and> kernel_mem_pages s' = kernel_mem_pages s \<and> owned s' (c' # ys') k' \<subseteq> owned s (c # ys) k \<and> same_off (owned s (c # ys) k) (mem s) (mem s')"
  using assms
proof (induction n arbitrary: i s c ys k)
  case 0
  then have i: "i = 11" by simp
  have inv: "heap_ok s (c # ys) k" "kmem_root s c" "length (quick_alloc_table s) = 12"
    "\<forall>j < 11. \<exists>d \<in> set ys. c_addr d = quick_alloc_table s ! j \<and> c_size d = 2 ^ j"
    using 0(1) i by (simp_all add: init_inv_def)
  obtain p s' c' k' where a: "add_kmem (2 ^ 11) KMEM_FLAG_COMFORT s = Inr (p, s')" "heap_ok s' (c' # ys) k'"
    "kmem_root s' c'" "s' = s\<lparr>mem := mem s'\<rparr>" "owned s' (c' # ys) k' \<subseteq> owned s (c # ys) k"
    "same_off (owned s (c # ys) k) (mem s) (mem s')" "k' \<le> Suc k"
    using add_kmem_step [OF inv(1,2), of 2048 KMEM_FLAG_COMFORT] 0(3) by auto
  have t: "quick_alloc_table s' = quick_alloc_table s" "kernel_mem_pages s' = kernel_mem_pages s"
    using arg_cong [OF a(4), of quick_alloc_table] arg_cong [OF a(4), of kernel_mem_pages] by simp_all
  then have "init_inv 11 (s'\<lparr>quick_alloc_table := (quick_alloc_table s')[i := p]\<rparr>) c' ys k'"
    using a(2,3) inv(3,4) i by (auto simp: init_inv_def kmem_root_def)
  then show ?case
    using a(1,5,6,7) i t(2)
    by (intro exI [of _ "s'\<lparr>quick_alloc_table := (quick_alloc_table s')[i := p]\<rparr>"] exI [of _ c'] exI [of _ ys] exI [of _ k']) simp
next
  case (Suc n)
  obtain p s' c' ys' k' where a: "add_kmem (2 ^ i) KMEM_FLAG_COMFORT s = Inr (p, s')"
    "init_inv (Suc i) (s'\<lparr>quick_alloc_table := (quick_alloc_table s')[i := p]\<rparr>) c' ys' k'"
    "k' \<le> Suc k" "kernel_mem_pages s' = kernel_mem_pages s"
    "owned s' (c' # ys') k' \<subseteq> owned s (c # ys) k" "same_off (owned s (c # ys) k) (mem s) (mem s')"
    using init_inv_step [OF Suc.prems(1), of KMEM_FLAG_COMFORT] Suc.prems(2,3) by auto
  have p2: "push_bit (Suc 0) ((2 :: u32) ^ i) = 2 ^ Suc i" by (simp add: push_bit_eq_mult)
  obtain s2 c2 ys2 k2 where b: "slab_init_loop (Suc n) (Suc i) (2 ^ Suc i) (s'\<lparr>quick_alloc_table := (quick_alloc_table s')[i := p]\<rparr>) = Inr s2"
    "init_inv 11 s2 c2 ys2 k2" "owned s2 (c2 # ys2) k2 \<subseteq> owned s' (c' # ys') k'"
    "same_off (owned s' (c' # ys') k') (mem s') (mem s2)" "k2 \<le> k' + Suc n" "kernel_mem_pages s2 = kernel_mem_pages s'"
    using Suc.IH [OF a(2)] Suc.prems(2,3) a(3,4) by auto
  have "slab_init_loop (Suc (Suc n)) i (2 ^ i) s = Inr s2"
    using a(1) b(1) by (subst slab_init_loop.simps) (simp add: p2 mult.commute del: slab_init_loop.simps)
  moreover have "same_off (owned s (c # ys) k) (mem s) (mem s2)"
    using a(6) same_off_mono [OF b(4) a(5)] by (rule same_off_trans)
  moreover have "k2 \<le> k + Suc (Suc n)" "kernel_mem_pages s2 = kernel_mem_pages s" using b(5,6) a(3,4) by simp_all
  ultimately show ?case using b(2,3) a(5) by blast
qed

text \<open>What \<open>slab_init\<close> needs of the state that \<open>page_init\<close> and the loader leave.\<close>

definition slab_boot :: "'a slab_sys_scheme \<Rightarrow> nat \<Rightarrow> bool" where
  "slab_boot s k \<longleftrightarrow>
     used_prefix (mem s) (memmap_kernel s) (unat (kernel_mem_pages s)) k
     \<and> 0 < k \<and> k + 12 < unat (kernel_mem_pages s) \<and> unat (kernel_mem_pages s) \<le> 0x40000
     \<and> unat (memmap_kernel s) + unat (kernel_mem_pages s) \<le> heap_top k
     \<and> mapped (kmem_kmem s) \<and> unat (kmem_kmem s) + 28 \<le> unat (memmap_kernel s)
     \<and> mem s = kmem_kmem_image (kmem_kmem s) (mem s) \<and> length (quick_alloc_table s) = 12"

text \<open>The memory the heap takes over: the page map, the root cache and all pages from the first unused one.\<close>

definition boot_area :: "'a slab_sys_scheme \<Rightarrow> nat \<Rightarrow> addr set" where
  "boot_area s k = block (memmap_kernel s) (unat (kernel_mem_pages s)) \<union> block (kmem_kmem s) 28
     \<union> {x. heap_top k \<le> unat x}"

lemma slab_boot_inv:
  assumes "slab_boot s k"
  defines "c \<equiv> \<lparr>c_addr = kmem_kmem s, c_count = 113, c_size = 28, c_cur = None\<rparr>"
  shows "init_inv 0 s c [] k" and "owned s [c] k = boot_area s k"
proof -
  have b: "mem s = kmem_kmem_image (kmem_kmem s) (mem s)" "unat (kmem_kmem s) + 28 \<le> unat (memmap_kernel s)"
    "mapped (kmem_kmem s)" "unat (memmap_kernel s) + unat (kernel_mem_pages s) \<le> heap_top k"
    using assms(1) unfolding slab_boot_def by blast+
  have "load32 (mem s) (kmem_kmem s + 12) = 28" "load32 (mem s) (kmem_kmem s + 16) = 113"
    "load32 (mem s) (kmem_kmem s) = 0" "load32 (mem s) (kmem_kmem s + 4) = 0"
    by (subst b(1), simp add: kmem_kmem_image_def Let_def load32_store32_apart)+
  then have "cache_mem (mem s) c" by (simp add: cache_mem_def c_def)
  moreover have "unat (kmem_kmem s) + 28 \<le> 2 ^ 32" using b(2) unat_lt [of "memmap_kernel s"] by (simp del: unat_lt)
  then have "cache_geo c" using b(3) by (simp add: cache_geo_def c_def)
  moreover have "heap_regions s [c] = [(unat (memmap_kernel s), unat (kernel_mem_pages s)), (unat (kmem_kmem s), 28)]"
    by (simp add: heap_regions_def map_region_def cache_regions_def c_def)
  ultimately show "init_inv 0 s c [] k" and "owned s [c] k = boot_area s k"
    using assms(1) b(2,4) by (auto simp: init_inv_def heap_ok_def slab_boot_def kmem_root_def rdisj_def c_def
        owned_def boot_area_def block_rset)
qed

lemma slab_init_heap:
  assumes "slab_boot s k"
  shows "\<exists>s' A. slab_init s = Inr s' \<and> heap_inv s' A \<and> A \<subseteq> boot_area s k
    \<and> same_off (boot_area s k) (mem s) (mem s') \<and> pages_left s \<le> pages_left s' + 12"
proof -
  let ?c = "\<lparr>c_addr = kmem_kmem s, c_count = 113, c_size = 28, c_cur = None\<rparr>"
  note i = slab_boot_inv [OF assms]
  have room: "k + 12 < unat (kernel_mem_pages s)" using assms unfolding slab_boot_def by blast
  then have room': "k + 11 < unat (kernel_mem_pages s)" by simp
  have "Suc 11 = (12 :: nat)" by simp
  then obtain s' c' ys' k' where a: "slab_init_loop 12 0 1 s = Inr s'" "init_inv 11 s' c' ys' k'"
    "owned s' (c' # ys') k' \<subseteq> boot_area s k" "same_off (boot_area s k) (mem s) (mem s')"
    "k' \<le> k + 12" "kernel_mem_pages s' = kernel_mem_pages s"
    using slab_init_loop_ok [OF i(1) _ room'] i(2) by (metis add_0 power_0)
  have "used_prefix (mem s') (memmap_kernel s') (unat (kernel_mem_pages s')) k'" "k' < unat (kernel_mem_pages s')"
    using a(2,5,6) room by (simp_all add: init_inv_def heap_ok_def)
  moreover have "used_prefix (mem s) (memmap_kernel s) (unat (kernel_mem_pages s)) k"
    using assms by (simp add: slab_boot_def)
  ultimately have pl: "pages_left s \<le> pages_left s' + 12"
    using pages_left_prefix [of s' k'] pages_left_prefix [of s k] a(5,6) by simp
  have "heap_inv s' (owned s' (c' # ys') k')"
    using a(2) unfolding heap_inv_def init_inv_def classes_ok_def
    by (intro exI [of _ "c' # ys'"] exI [of _ k']) auto
  then show ?thesis using a pl by (auto simp: slab_init_def)
qed

section \<open>Properties of the slab allocator\<close>

text \<open>
  C4: \<open>slab_init\<close>, run on a kernel zone with a used prefix and more than twelve unused pages and
  with the loaded image of \<open>kmem_kmem\<close>, returns without a fault, establishes the invariant of
  \<open>kmalloc\<close>, and writes only to the page map, to \<open>kmem_kmem\<close> and to pages that were unused.
\<close>

theorem slab_init_establishes:
  assumes "slab_boot s k"
  shows "\<exists>s' A. slab_init s = Inr s' \<and> heap_inv s' A \<and> A \<subseteq> boot_area s k
    \<and> same_off (boot_area s k) (mem s) (mem s') \<and> pages_left s \<le> pages_left s' + 12"
  using assms by (rule slab_init_heap)

text \<open>A small boot state: 32 kernel pages of which four are used, the map at 0xc0001100.\<close>

definition boot_map :: memory where
  "boot_map a = (if 0xc0001104 \<le> a \<and> a < 0xc0001120 then MEM_UNUSED else MEM_USED)"

definition boot_slab :: slab_sys where
  "boot_slab = \<lparr>mem = kmem_kmem_image 0xc0001000 boot_map,
     io = [], memmap_kernel = 0xc0001100, memmap_user = 0xc0001120, memmap_end = 0xc0001120,
     kernel_mem_pages = 32, user_mem_pages = 0, kmem_kmem = 0xc0001000, quick_alloc_table = replicate 12 0\<rparr>"

lemma boot_map_prefix:
  assumes "same_off (block 0xc0001000 28) boot_map m"
  shows "used_prefix m 0xc0001100 32 4"
proof -
  have "m (0xc0001100 + of_nat i) = (if 4 \<le> i then MEM_UNUSED else MEM_USED)" if "i < 32" for i
  proof -
    have u: "unat (0xc0001100 + of_nat i :: addr) = 0xc0001100 + i"
      using that unat_add_of_nat [of "0xc0001100" i] by simp
    then have "m (0xc0001100 + of_nat i) = boot_map (0xc0001100 + of_nat i)"
      using assms by (simp add: same_off_def mem_block_iff)
    then show ?thesis using u that by (simp add: boot_map_def word_le_nat_alt word_less_nat_alt)
  qed
  then show ?thesis by (auto simp: used_prefix_def)
qed

lemma kmem_kmem_image_idem: "kmem_kmem_image k (kmem_kmem_image k m) = kmem_kmem_image k m"
proof -
  have "store32 (kmem_kmem_image k m) (k + j) (load32 (kmem_kmem_image k m) (k + j)) = kmem_kmem_image k m" for j
    by (rule store32_id)
  from this [of 0] this [of 4] this [of 8] this [of 12] this [of 16] this [of 20] this [of 24]
  show ?thesis
    by (simp add: kmem_kmem_image_def Let_def load32_store32_apart)
qed

lemma boot_slab_boot: "slab_boot boot_slab 4"
proof -
  have "same_off (block 0xc0001000 28) boot_map (kmem_kmem_image 0xc0001000 boot_map)"
    unfolding kmem_kmem_image_def Let_def
    by (intro same_off_store32 same_off_refl) (auto simp: mem_block_iff)
  from boot_map_prefix [OF this] show ?thesis
    by (simp add: slab_boot_def boot_slab_def kmem_kmem_image_idem heap_top_def mapped_def)
qed

theorem slab_init_establishes_witness:
  "\<exists>s' A. slab_init boot_slab = Inr s' \<and> heap_inv s' A \<and> A \<subseteq> boot_area boot_slab 4
    \<and> same_off (boot_area boot_slab 4) (mem boot_slab) (mem s') \<and> pages_left boot_slab \<le> pages_left s' + 12"
  using slab_init_establishes [OF boot_slab_boot] .

text \<open>
  C5: as long as the heap is intact and the kernel zone has an unused page, every \<open>kmalloc\<close>
  request below 1024 bytes succeeds: it returns a mapped block of more than the requested length
  that the allocator owned, gives that block up, leaves all memory it does not own untouched,
  keeps its invariant, and uses up at most one page (so as many requests succeed as pages are left).
\<close>

theorem kmalloc_succeeds:
  assumes "heap_inv s A" and "unat sz < 1024" and "0 < pages_left s"
  shows "\<exists>p s' A'. kmalloc sz s = Inr (p, s') \<and> mapped p \<and> block p (Suc (unat sz)) \<subseteq> A
    \<and> same_off A (mem s) (mem s') \<and> heap_inv s' A' \<and> A' \<subseteq> A - block p (Suc (unat sz))
    \<and> pages_left s \<le> Suc (pages_left s')"
  using kmalloc_cases [OF assms(1,2)] assms(3) by (metis less_irrefl)

text \<open>The state the small boot configuration is in after \<open>slab_init\<close>.\<close>

lemma boot_slab_ready: "\<exists>s A. slab_init boot_slab = Inr s \<and> heap_inv s A \<and> 2 \<le> pages_left s"
proof -
  have "used_prefix (mem boot_slab) (memmap_kernel boot_slab) (unat (kernel_mem_pages boot_slab)) 4"
    using boot_slab_boot unfolding slab_boot_def by blast
  then have "pages_left boot_slab = 28"
    using pages_left_prefix [of boot_slab 4] by (simp add: boot_slab_def)
  then show ?thesis using slab_init_heap [OF boot_slab_boot] by fastforce
qed

text \<open>The same state with a cleared pointer cell below the heap, for clients that keep one.\<close>

lemma boot_cell:
  "\<exists>s A. slab_init boot_slab = Inr s \<and> heap_inv (s\<lparr>mem := store32 (mem s) 0xc0000800 0\<rparr>) A
     \<and> 3 \<le> pages_left (s\<lparr>mem := store32 (mem s) 0xc0000800 0\<rparr>) \<and> block 0xc0000800 4 \<inter> A = {}"
proof -
  obtain s A where s: "slab_init boot_slab = Inr s" "heap_inv s A" "A \<subseteq> boot_area boot_slab 4"
    "pages_left boot_slab \<le> pages_left s + 12"
    using slab_init_heap [OF boot_slab_boot] by blast
  have "pages_left boot_slab = 28"
    using boot_slab_boot pages_left_prefix [of boot_slab 4] by (simp add: slab_boot_def boot_slab_def)
  moreover have d: "block 0xc0000800 4 \<inter> A = {}"
    using s(3) by (auto simp: boot_area_def boot_slab_def mem_block_iff heap_top_def)
  then have "same_on A (mem s) (store32 (mem s) 0xc0000800 0)"
    by (intro same_off_on [OF store32_same_off]) simp_all
  ultimately show ?thesis
    using s(1,4) heap_inv_frame [OF s(2)] pages_left_frame [OF s(2)] d
    by (intro exI [of _ s] exI [of _ A]) simp
qed

theorem kmalloc_succeeds_witness:
  "\<exists>s p s'. slab_init boot_slab = Inr s \<and> kmalloc 24 s = Inr (p, s') \<and> mapped p"
  using boot_slab_ready kmalloc_succeeds [of _ _ 24] by fastforce



text \<open>
  A request for exactly 2048 bytes passes the size check of \<open>__kmalloc\<close> and then indexes
  \<open>quick_alloc_table\<close> (twelve entries) at 12, outside the array.
\<close>

theorem kmalloc_2048_out_of_bounds:
  assumes "length (quick_alloc_table s) = 12"
  shows "kmalloc 2048 s = Inl Out_Of_Bounds"
proof -
  have "size_class 12 0 2048 = Some 12" by code_simp
  then show ?thesis using assms by (simp add: kmalloc_def kmalloc_flags_def)
qed

theorem kmalloc_2048_out_of_bounds_witness: "kmalloc 2048 boot_slab = Inl Out_Of_Bounds"
  by (rule kmalloc_2048_out_of_bounds) (simp add: boot_slab_def)

end
