(* ===== verification/Mm_Slab_Free.thy ===== *)
theory Mm_Slab_Free
  imports Mm_Slab_Alloc
begin

text \<open>
  What \<open>release_slab\<close> and \<open>kfree\<close> do. \<open>release_slab\<close> computes the free-list node of the object
  relative to the current head of the free list (\<open>slab->free + index\<close>) and not to the array of
  nodes, and \<open>kfree\<close> looks the slab up in the partial list even while it still sits in the empty
  list. The lemmas follow the first object of a slab through both functions.
\<close>

section \<open>Cells of a slab and its cache\<close>

lemma node_header_apart:
  assumes "page_aligned S" and "28 + 8 * i \<le> 4096" and "unat j + 4 \<le> 20"
  shows "apart (S + j) (slab_node S i)" "apart (S + j) (slab_node S i + 4)"
    "apart (slab_node S i) (S + j)" "apart (slab_node S i + 4) (S + j)"
proof -
  have b: "unat S + 4096 \<le> 2 ^ 32" using assms(1) by (rule page_aligned_bound)
  have u: "unat (S + j) = unat S + unat j" using assms by (simp add: unat_off)
  show 1: "apart (S + j) (slab_node S i)" "apart (S + j) (slab_node S i + 4)"
    by (rule apart_nat; use assms b u in \<open>simp add: unat_slab_node unat_slab_node4\<close>)+
  then show "apart (slab_node S i) (S + j)" "apart (slab_node S i + 4) (S + j)" by (auto intro: apart_sym)
qed

lemma node_cache_apart:
  assumes "sep K 28 S (20 + 8 * n)" and "i < n" and "page_aligned S" and "20 + 8 * n < 4096" and "unat j + 4 \<le> 28"
  shows "apart (K + j) (slab_node S i)" "apart (K + j) (slab_node S i + 4)"
    "apart (slab_node S i) (K + j)" "apart (slab_node S i + 4) (K + j)"
proof -
  have v: "unat (of_nat (20 + 8 * i) :: addr) = 20 + 8 * i" "unat (of_nat (24 + 8 * i) :: addr) = 24 + 8 * i"
    using assms by (simp_all add: unat_of_nat del: of_nat_add)
  have e: "slab_node S i + 4 = S + of_nat (24 + 8 * i)" by (simp add: slab_node_def)
  show 1: "apart (K + j) (slab_node S i)" "apart (K + j) (slab_node S i + 4)"
    unfolding e unfolding slab_node_def
    by (rule apart_sep [OF assms(1,5)]; use assms v in \<open>simp del: of_nat_add\<close>)+
  then show "apart (slab_node S i) (K + j)" "apart (slab_node S i + 4) (K + j)" by (auto intro: apart_sym)
qed

text \<open>The facts about one cache and its current slab that the walks below start from.\<close>

lemma cache_cur_facts:
  assumes "cache_mem m c" and "cache_geo c" and "c_cur c = Some (S, k)"
  shows "mapped (c_addr c)" "mapped S" "page_aligned S" "1 \<le> k" "k < c_count c" "20 + 8 * c_count c < 4096"
    "sep (c_addr c) 28 S (20 + 8 * c_count c)" "c_size c < 4096" "1 \<le> c_size c"
    and "load32 m (c_addr c + 12) = of_nat (c_size c)" "load32 m (c_addr c + 16) = of_nat (c_count c)"
    "load32 m (S + 8) = c_addr c" "load32 m S = slab_node S (c_count c)" "load32 m (S + 4) = of_nat (c_count c - k)"
    "load32 m (S + 12) = slab_node S k" "load32 m (S + 16) = 0" "load32 m (slab_node S k) = of_nat k"
    "load32 m (c_addr c + 4) = (if k = 1 then 0 else S)"
proof -
  have "c_size c * 1 \<le> c_size c * c_count c" using assms(2) by (intro mult_le_mono2) (simp add: cache_geo_def)
  moreover have "20 + 8 * c_count c + c_size c * c_count c \<le> 4096" using assms(2) by (simp add: cache_geo_def)
  ultimately show "c_size c < 4096" by linarith
qed (use assms cache_geo_header [OF assms(2)] in \<open>auto simp: cache_geo_def cache_mem_def slab_ok_def\<close>)

section \<open>Releasing the first object\<close>

definition released :: "addr \<Rightarrow> nat \<Rightarrow> nat \<Rightarrow> memory \<Rightarrow> memory" where
  "released S n k m = store32 (store32 (store32 m (slab_node S k + 4) (slab_node S k)) (S + 12) (slab_node S k))
     (S + 4) (of_nat (n - k) + 1)"

lemma release_first:
  assumes "cache_mem m c" and "cache_geo c" and "c_cur c = Some (S, k)"
  shows "release_slab (slab_obj S (c_count c) (c_size c) 0) m = Inr (S, released S (c_count c) k m)"
proof -
  note f = cache_cur_facts [OF assms]
  let ?n = "c_count c" and ?p = "slab_obj S (c_count c) (c_size c) 0"
  have "?p AND 0xfffff000 = S"
    using page_mask [OF f(3,6)] by (simp add: slab_obj_def)
  moreover have "?p - slab_node S ?n = 0" by (simp add: slab_obj_def slab_node_def)
  moreover have "(of_nat (c_size c) :: u32) \<noteq> 0" using f(8,9) of_nat_eq_0 [of "c_size c"] by auto
  moreover have "mapped (slab_node S k)" using f(2,3,5,6) by (intro mapped_slab_node) auto
  moreover have "28 + 8 * k \<le> 4096" using f(5,6) by simp
  note node_header_apart [OF f(3) this]
  ultimately show ?thesis
    using f by (simp add: release_slab_def released_def Let_def load32_store32_apart)
qed

lemma released_loads:
  assumes "cache_mem m c" and "cache_geo c" and "c_cur c = Some (S, k)"
  shows "load32 (released S (c_count c) k m) (S + 12) = slab_node S k"
    "load32 (released S (c_count c) k m) (S + 4) = of_nat (Suc (c_count c - k))"
    "load32 (released S (c_count c) k m) (slab_node S k + 4) = slab_node S k"
    "load32 (released S (c_count c) k m) (slab_node S k) = of_nat k"
    "load32 (released S (c_count c) k m) S = slab_node S (c_count c)"
    "load32 (released S (c_count c) k m) (S + 8) = c_addr c"
    "load32 (released S (c_count c) k m) (S + 16) = 0"
    "unat j + 4 \<le> 28 \<Longrightarrow> load32 (released S (c_count c) k m) (c_addr c + j) = load32 m (c_addr c + j)"
proof -
  note f = cache_cur_facts [OF assms]
  have h: "28 + 8 * k \<le> 4096" using f(5,6) by simp
  note ap = node_header_apart [OF f(3) h] node_header_apart [OF f(3) h, where j = 0, simplified]
    node_cache_apart [OF f(7,5,3,6)] apart_sep [OF f(7)] apart_sep [OF sep_sym [OF f(7)]]
  note d = released_def load32_store32_apart ap f
  show "load32 (released S (c_count c) k m) (S + 12) = slab_node S k"
    "load32 (released S (c_count c) k m) (S + 4) = of_nat (Suc (c_count c - k))"
    "load32 (released S (c_count c) k m) (slab_node S k + 4) = slab_node S k"
    "load32 (released S (c_count c) k m) (slab_node S k) = of_nat k"
    "load32 (released S (c_count c) k m) S = slab_node S (c_count c)"
    "load32 (released S (c_count c) k m) (S + 8) = c_addr c"
    "load32 (released S (c_count c) k m) (S + 16) = 0"
    by (simp_all add: d)
  assume j: "unat j + 4 \<le> 28"
  have hdr: "unat (4 :: addr) + 4 \<le> 20 + 8 * c_count c" "unat (12 :: addr) + 4 \<le> 20 + 8 * c_count c" by simp_all
  show "load32 (released S (c_count c) k m) (c_addr c + j) = load32 m (c_addr c + j)"
    using j ap(12) [OF j] apart_sep [OF sep_sym [OF f(7)] hdr(1) j] apart_sep [OF sep_sym [OF f(7)] hdr(2) j]
    by (simp add: released_def load32_store32_apart)
qed

lemma kfree_first_faults:
  assumes "cache_mem (mem s) c" and "cache_geo c" and "c_cur c = Some (S, 1)" and "0xc0000000 \<le> unat S"
  shows "kfree (slab_obj S (c_count c) (c_size c) 0) s = Inl (Page_Fault 0)"
proof -
  note f = cache_cur_facts [OF assms(1-3)] and l = released_loads [OF assms(1-3)]
  let ?m = "released S (c_count c) 1 (mem s)"
  have "\<not> slab_obj S (c_count c) (c_size c) 0 < 0xc0000000"
    using unat_slab_obj [OF f(3), of "c_count c" "c_size c" 0] f(6) assms(4) by (simp add: word_less_nat_alt)
  moreover have "load32 ?m (S + 4) \<noteq> 1"
  proof -
    have "unat (of_nat (Suc (c_count c - 1)) :: u32) = c_count c"
      using f(4,5,6) by (simp add: unat_of_nat del: of_nat_Suc)
    then show ?thesis using l(2) f(4,5) by (metis less_irrefl unat_1)
  qed
  moreover have "find_prev ?m 0 S = Some (Inl (Page_Fault 0))"
    by (subst find_prev.simps) simp
  ultimately show ?thesis
    using release_first [OF assms(1-3)] l(6) l(8) [of 4] f(2,18) by (auto simp add: kfree_def Let_def)
qed

lemma kfree_first_partial:
  assumes "cache_mem (mem s) c" and "cache_geo c" and "c_cur c = Some (S, k)" and "2 \<le> k" and "0xc0000000 \<le> unat S"
  shows "kfree (slab_obj S (c_count c) (c_size c) 0) s =
    Inr (s\<lparr>mem := store32 (store32 (released S (c_count c) k (mem s)) (S + 16) S) (c_addr c + 4) S\<rparr>)"
proof -
  note f = cache_cur_facts [OF assms(1-3)] and l = released_loads [OF assms(1-3)]
  let ?m = "released S (c_count c) k (mem s)" and ?n = "c_count c"
  have big: "\<not> slab_obj S ?n (c_size c) 0 < 0xc0000000"
    using unat_slab_obj [OF f(3), of ?n "c_size c" 0] f(6) assms(5) by (simp add: word_less_nat_alt)
  have u: "unat (of_nat (Suc (?n - k)) :: u32) = Suc (?n - k)" "unat (of_nat ?n :: u32) = ?n"
    using f(5,6) by (simp_all add: unat_of_nat del: of_nat_Suc)
  have fc: "load32 ?m (S + 4) \<noteq> 1" "load32 ?m (S + 4) \<noteq> of_nat ?n"
  proof -
    have "Suc (?n - k) \<noteq> 1" "Suc (?n - k) \<noteq> ?n" using assms(4) f(5) by simp_all
    then show "load32 ?m (S + 4) \<noteq> 1" "load32 ?m (S + 4) \<noteq> of_nat ?n"
      unfolding l(2) using u by (metis unat_1)+
  qed
  have "store32 ?m (S + 16) 0 = ?m" using store32_id [of ?m "S + 16"] l(7) by simp
  then show ?thesis
    using release_first [OF assms(1-3)] l(6,7) l(8) [of 4] l(8) [of 16] f(11,18) assms(4) big fc
    by (simp add: kfree_def Let_def load32_store32_apart apart_sep [OF sep_sym [OF f(7)]])
qed

text \<open>After that, the free list is a loop through one node.\<close>

lemma looped_alloc:
  assumes "cache_mem m0 c" and "cache_geo c" and "c_cur c = Some (S, k)"
    and m: "load32 (mem s) (c_addr c + 4) = S" "load32 (mem s) (c_addr c + 12) = of_nat (c_size c)"
      "load32 (mem s) S = slab_node S (c_count c)" "load32 (mem s) (S + 12) = slab_node S k"
      "load32 (mem s) (slab_node S k) = of_nat k" "load32 (mem s) (slab_node S k + 4) = slab_node S k"
    and fc: "load32 (mem s) (S + 4) = of_nat (Suc d)" "d < 4096"
  shows "\<exists>m'. alloc_from_slab S (of_nat (c_size c)) (mem s) = Inr (slab_obj S (c_count c) (c_size c) k, m')
    \<and> (0 < d \<longrightarrow> alloc_from_kmem (c_addr c) s = Inr (slab_obj S (c_count c) (c_size c) k, s\<lparr>mem := m'\<rparr>))
    \<and> (\<exists>s'. alloc_from_kmem (c_addr c) s = Inr (slab_obj S (c_count c) (c_size c) k, s'))
    \<and> load32 m' (c_addr c + 4) = S \<and> load32 m' (c_addr c + 12) = of_nat (c_size c)
    \<and> load32 m' S = slab_node S (c_count c) \<and> load32 m' (S + 12) = slab_node S k
    \<and> load32 m' (slab_node S k) = of_nat k \<and> load32 m' (slab_node S k + 4) = slab_node S k
    \<and> load32 m' (S + 4) = of_nat d"
proof -
  note f = cache_cur_facts [OF assms(1-3)]
  have h: "28 + 8 * k \<le> 4096" using f(5,6) by simp
  note ap = node_header_apart [OF f(3) h] node_header_apart [OF f(3) h, where j = 0, simplified] apart_sep [OF sep_sym [OF f(7)]]
  let ?m = "store32 (store32 (mem s) (S + 12) (slab_node S k)) (S + 4) (of_nat d)"
  have nz: "S \<noteq> 0" "mapped (slab_node S k)" using f by (auto intro: mapped_nonzero mapped_slab_node)
  have a: "alloc_from_slab S (of_nat (c_size c)) (mem s) = Inr (slab_obj S (c_count c) (c_size c) k, ?m)"
    using f(2) nz m(3-6) fc(1) by (simp add: alloc_from_slab_def Let_def load32_store32_apart ap slab_obj_node)
  moreover have "alloc_from_kmem (c_addr c) s = Inr (slab_obj S (c_count c) (c_size c) k, s\<lparr>mem := ?m\<rparr>)" if "0 < d"
    using a f(1) nz(1) m(1,2) fc(2) that of_nat_eq_0 [of d] by (simp add: alloc_from_kmem_def Let_def)
  moreover have "\<exists>s'. alloc_from_kmem (c_addr c) s = Inr (slab_obj S (c_count c) (c_size c) k, s')"
    using a f(1) nz(1) m(1,2) by (simp add: alloc_from_kmem_def Let_def)
  ultimately show ?thesis
    using m by (intro exI [of _ ?m]) (simp add: load32_store32_apart ap)
qed

section \<open>Properties of kfree\<close>

text \<open>
  Freeing the only object of a slab that was created for it faults: the slab is still in the
  cache's empty list, and \<open>kfree\<close> searches the (empty) partial list for it through a null pointer.
\<close>

theorem kfree_after_first_alloc_faults:
  assumes "heap_ok s (xs @ c # ys) k" and "c_cur c = None" and "k < unat (kernel_mem_pages s)"
    and "alloc_from_kmem (c_addr c) s = Inr (p, s')"
  shows "kfree p s' = Inl (Page_Fault 0)"
proof -
  let ?S = "kernel_page (k - 1)"
  obtain m' where m: "alloc_from_kmem (c_addr c) s = Inr (slab_obj ?S (c_count c) (c_size c) 0, s\<lparr>mem := m'\<rparr>)"
    "cache_mem m' (c\<lparr>c_cur := Some (?S, 1)\<rparr>)" "cache_geo (c\<lparr>c_cur := Some (?S, 1)\<rparr>)"
    using heap_alloc_new [OF assms(1-3)] by blast
  have "0xc0000000 \<le> unat ?S" using heap_page(2) [OF assms(1,3)] by (simp add: heap_top_def)
  then show ?thesis
    using kfree_first_faults [of "s\<lparr>mem := m'\<rparr>" "c\<lparr>c_cur := Some (?S, 1)\<rparr>" ?S] m assms(4) by simp
qed

theorem kfree_after_first_alloc_faults_witness:
  "\<exists>p s'. alloc_from_kmem 0xc0001000 boot_slab = Inr (p, s') \<and> kfree p s' = Inl (Page_Fault 0)"
proof -
  let ?c = "\<lparr>c_addr = kmem_kmem boot_slab, c_count = 113, c_size = 28, c_cur = None\<rparr>"
  have ok: "heap_ok boot_slab ([] @ ?c # []) 4"
    using slab_boot_inv(1) [OF boot_slab_boot] by (simp add: init_inv_def)
  have room: "4 < unat (kernel_mem_pages boot_slab)" and k: "kmem_kmem boot_slab = 0xc0001000"
    by (simp_all add: boot_slab_def)
  obtain p s' where "alloc_from_kmem (c_addr ?c) boot_slab = Inr (p, s')"
    using heap_alloc [OF ok] room by blast
  then show ?thesis
    using kfree_after_first_alloc_faults [OF ok _ room] k by auto
qed

text \<open>
  C40: after \<open>kfree\<close> of the first object of a slab in the partial list, the next two
  allocations from that cache return the same address.
\<close>

theorem kfree_double_allocation:
  assumes "cache_mem (mem s) c" and "cache_geo c" and "c_cur c = Some (S, k)" and "2 \<le> k"
    and "0xc0000000 \<le> unat S"
  shows "\<exists>s1 p s2 s3. kfree (slab_obj S (c_count c) (c_size c) 0) s = Inr s1
    \<and> alloc_from_kmem (c_addr c) s1 = Inr (p, s2) \<and> alloc_from_kmem (c_addr c) s2 = Inr (p, s3)"
proof -
  note f = cache_cur_facts [OF assms(1-3)] and l = released_loads [OF assms(1-3)]
  let ?m = "store32 (store32 (released S (c_count c) k (mem s)) (S + 16) S) (c_addr c + 4) S"
  let ?s1 = "s\<lparr>mem := ?m\<rparr>"
  have h: "28 + 8 * k \<le> 4096" using f(5,6) by simp
  note ap = node_header_apart [OF f(3) h] node_cache_apart [OF f(7,5,3,6)] apart_sep [OF f(7)] apart_sep [OF sep_sym [OF f(7)]]
    apart_sep0 [OF f(7)]
  have n: "c_count c - k = Suc (c_count c - k - 1)" "c_count c - k < 4096" using f(5,6) by simp_all
  have ld: "load32 ?m (c_addr c + 4) = S" "load32 ?m (c_addr c + 12) = of_nat (c_size c)"
    "load32 ?m S = slab_node S (c_count c)" "load32 ?m (S + 12) = slab_node S k"
    "load32 ?m (slab_node S k) = of_nat k" "load32 ?m (slab_node S k + 4) = slab_node S k"
    "load32 ?m (S + 4) = of_nat (Suc (c_count c - k))"
    using l(1-7) l(8) [of 12] f(10) by (simp_all add: load32_store32_apart ap)
  obtain m1 where m1: "alloc_from_kmem (c_addr c) ?s1 = Inr (slab_obj S (c_count c) (c_size c) k, ?s1\<lparr>mem := m1\<rparr>)"
    "load32 m1 (c_addr c + 4) = S" "load32 m1 (c_addr c + 12) = of_nat (c_size c)"
    "load32 m1 S = slab_node S (c_count c)" "load32 m1 (S + 12) = slab_node S k"
    "load32 m1 (slab_node S k) = of_nat k" "load32 m1 (slab_node S k + 4) = slab_node S k"
    "load32 m1 (S + 4) = of_nat (c_count c - k)"
    using looped_alloc [OF assms(1-3), of ?s1 "c_count c - k"] ld n by auto
  obtain s3 where "alloc_from_kmem (c_addr c) (?s1\<lparr>mem := m1\<rparr>) = Inr (slab_obj S (c_count c) (c_size c) k, s3)"
    using looped_alloc [OF assms(1-3), of "?s1\<lparr>mem := m1\<rparr>" "c_count c - k - 1"] m1(2-8) n by auto
  then show ?thesis using kfree_first_partial [OF assms] m1(1) by blast
qed

theorem kfree_double_allocation_witness:
  "\<exists>p1 s1 p2 s2 s3 q s4 s5. alloc_from_kmem 0xc0001000 boot_slab = Inr (p1, s1)
    \<and> alloc_from_kmem 0xc0001000 s1 = Inr (p2, s2) \<and> kfree p1 s2 = Inr s3
    \<and> alloc_from_kmem 0xc0001000 s3 = Inr (q, s4) \<and> alloc_from_kmem 0xc0001000 s4 = Inr (q, s5)"
proof -
  let ?c = "\<lparr>c_addr = kmem_kmem boot_slab, c_count = 113, c_size = 28, c_cur = None\<rparr>"
  let ?c1 = "?c\<lparr>c_cur := Some (kernel_page 3, 1)\<rparr>" and ?c2 = "?c\<lparr>c_cur := Some (kernel_page 3, 2)\<rparr>"
  have ok: "heap_ok boot_slab ([] @ ?c # []) 4"
    using slab_boot_inv(1) [OF boot_slab_boot] by (simp add: init_inv_def)
  have room: "4 < unat (kernel_mem_pages boot_slab)" and k: "kmem_kmem boot_slab = 0xc0001000"
    by (simp_all add: boot_slab_def)
  obtain m1 where m1: "alloc_from_kmem 0xc0001000 boot_slab = Inr (slab_obj (kernel_page 3) 113 28 0, boot_slab\<lparr>mem := m1\<rparr>)"
    "cache_mem m1 ?c1" "cache_geo ?c1"
    using heap_alloc_new [OF ok _ room] k by auto
  obtain m2 where m2: "alloc_from_kmem 0xc0001000 (boot_slab\<lparr>mem := m1\<rparr>) = Inr (slab_obj (kernel_page 3) 113 28 1, boot_slab\<lparr>mem := m2\<rparr>)"
    "cache_mem m2 ?c2"
    using alloc_from_kmem_cur [of "boot_slab\<lparr>mem := m1\<rparr>" ?c1 "kernel_page 3" 1] m1(2,3) k
    by (auto simp: cache_next_def eval_nat_numeral)
  have "cache_geo ?c2" using m1(3) by (simp add: cache_geo_def)
  moreover have "0xc0000000 \<le> unat (kernel_page 3)" by (simp add: unat_kernel_page)
  ultimately show ?thesis
    using kfree_double_allocation [of "boot_slab\<lparr>mem := m2\<rparr>" ?c2 "kernel_page 3" 2] m1(1) m2 k by auto
qed

section \<open>The class with one object per slab\<close>

lemma large_class:
  assumes "1024 \<le> unat sz" and "unat sz < 2048" and "length (quick_alloc_table s) = 12"
  shows "kmalloc sz s = alloc_from_kmem (quick_alloc_table s ! 11) s"
proof -
  obtain i where i: "i \<le> 11" "size_class 11 0 sz = Some i"
    using size_class_total [of sz 11 0] assms(2) by auto
  have "unat sz < 2 ^ i" using size_class_bounds [OF i(2)] by simp
  then have "\<not> i \<le> 10" using power_increasing [of i 10 "2 :: nat"] assms(1) by auto
  with i(1) have "i = 11" by simp
  then have "size_class 12 0 sz = Some 11" using size_class_mono [OF i(2), of 12] by simp
  moreover have "\<not> 2048 < sz" using assms(2) by (simp add: word_less_nat_alt)
  ultimately show ?thesis using assms(3) by (simp add: kmalloc_def kmalloc_flags_def)
qed

text \<open>The cache of that class as \<open>slab_init\<close> leaves it.\<close>

definition single_cache :: "memory \<Rightarrow> addr \<Rightarrow> bool" where
  "single_cache m K \<longleftrightarrow> mapped K \<and> kmem_empty_slab m K = 0 \<and> kmem_partial_slab m K = 0
     \<and> kmem_obj_size m K = 2048 \<and> kmem_obj_count m K = 1"

lemma single_cache_twice:
  assumes ok: "heap_ok s cs k" and room: "k < unat (kernel_mem_pages s)" and K: "single_cache (mem s) K"
    and top: "unat K + 28 \<le> heap_top k" and dis: "rdisj (map_region s) (unat K, 28)"
  shows "\<exists>p m'. alloc_from_kmem K s = Inr (p, s\<lparr>mem := m'\<rparr>)
    \<and> alloc_from_kmem K (s\<lparr>mem := m'\<rparr>) = Inl (Page_Fault 0)"
proof -
  define S where "S = kernel_page (k - 1)"
  define m1 where "m1 = set_status 1 (memmap_kernel s + of_nat k) MEM_USED (mem s)"
  note pg = heap_page [OF ok room, folded S_def m1_def]
  have b: "unat S + 4096 \<le> 2 ^ 32" using page_aligned_bound [OF pg(3)] .
  have sp: "sep K 28 S 28" using top b pg(2) by (auto simp: sep_def)
  note ap = apart_sep [OF sp] apart_sep0 [OF sp] apart_sep [OF sep_sym [OF sp]] apart_sep0 [OF sep_sym [OF sp]]
  have "same_on (block K 28) (mem s) m1"
    using rdisj_rset [OF dis] by (intro same_off_on [OF pg(7)]) (simp add: block_rset)
  then have K1: "load32 m1 (K + j) = load32 (mem s) (K + j)" if "unat j + 4 \<le> 28" for j
    by (rule load32_same_on) (use that top b pg(2) in \<open>auto simp: mem_block_iff unat_add_word\<close>)
  obtain m2 where m2: "creat_slab 1 s = Inr (S, s\<lparr>mem := m2\<rparr>)" "slab_ok m2 S 1 0" "same_off (block S 28) m1 m2"
    using creat_slab_ok [OF pg(1,4,3), of 1] by auto
  have K2: "load32 m2 (K + j) = load32 m1 (K + j)" if "unat j + 4 \<le> 28" for j
    by (rule load32_frame [OF m2(3)]) (use that sp in \<open>auto simp: sep_def unat_add_word\<close>)
  let ?m3 = "store32 (store32 m2 (S + 8) K) K S"
  have "slab_ok (store32 m2 (S + 8) K) S 1 0"
    using m2(2) pg(3) by (intro slab_ok_parent) simp_all
  moreover have "same_off (block K 28) (store32 m2 (S + 8) K) ?m3"
    using top b pg(2) by (intro same_off_store32 same_off_refl) (auto simp: mem_block_iff)
  then have "same_on (block S (20 + 8 * 1)) (store32 m2 (S + 8) K) ?m3"
    by (rule same_off_on) (use sep_block [OF sp] in simp)
  ultimately have "slab_ok ?m3 S 1 0" using slab_ok_frame [OF _ pg(3)] by simp
  then obtain m4 where m4: "alloc_from_slab S 2048 ?m3 = Inr (slab_obj S 1 2048 0, m4)" "slab_ok m4 S 1 1"
    "same_off (block S 20) ?m3 m4"
    using alloc_from_slab_ok [of ?m3 S 1 0 2048] pg(3,4) by auto
  have K4: "load32 m4 (K + j) = load32 ?m3 (K + j)" if "unat j + 4 \<le> 28" for j
    by (rule load32_frame [OF m4(3)]) (use that sp in \<open>auto simp: sep_def unat_add_word\<close>)
  have z: "load32 m4 (S + 4) = 0" "load32 m4 (S + 12) = 0" "load32 m4 (S + 16) = 0" "S \<noteq> 0"
    using m4(2) pg(4) by (auto simp: slab_ok_def)
  let ?m6 = "store32 (store32 (store32 m4 (K + 4) 0) (S + 16) (load32 (store32 m4 (K + 4) 0) (K + 8))) (K + 8) S"
  have kk: "mapped K" "load32 (mem s) K = 0" "load32 (mem s) (K + 4) = 0" "load32 (mem s) (K + 12) = 2048"
    "load32 (mem s) (K + 16) = 1"
    using K by (simp_all add: single_cache_def)
  have "alloc_from_kmem K s = Inr (slab_obj S 1 2048 0, s\<lparr>mem := ?m6\<rparr>)"
    using kk m2(1) m4(1) z K1 [of 12] K2 [of 12]
    by (simp add: alloc_from_kmem_def Let_def load32_store32_apart ap)
  moreover have "load32 ?m6 K = S" "load32 ?m6 (K + 4) = 0" "load32 ?m6 (S + 12) = 0"
    using K4 [of 0] z by (simp_all add: load32_store32_apart ap)
  then have "alloc_from_kmem K (s\<lparr>mem := ?m6\<rparr>) = Inl (Page_Fault 0)"
    using kk(1) z(4) pg(4) by (simp add: alloc_from_kmem_def alloc_from_slab_def Let_def)
  ultimately show ?thesis by blast
qed

text \<open>
  The size class for 1024 to 2047 bytes has one object per slab, and its slab is never
  removed from the empty list. The first such request succeeds, the second takes the exhausted
  slab and faults on its null free list.
\<close>

theorem kmalloc_large_second_faults:
  assumes "heap_ok s cs k" and "k < unat (kernel_mem_pages s)"
    and "length (quick_alloc_table s) = 12" and "K = quick_alloc_table s ! 11" and "single_cache (mem s) K"
    and "unat K + 28 \<le> heap_top k" and "rdisj (map_region s) (unat K, 28)"
    and "1024 \<le> unat a" and "unat a < 2048" and "1024 \<le> unat b" and "unat b < 2048"
  shows "\<exists>p s'. kmalloc a s = Inr (p, s') \<and> kmalloc b s' = Inl (Page_Fault 0)"
proof -
  obtain p m' where m: "alloc_from_kmem K s = Inr (p, s\<lparr>mem := m'\<rparr>)"
    "alloc_from_kmem K (s\<lparr>mem := m'\<rparr>) = Inl (Page_Fault 0)"
    using single_cache_twice [OF assms(1,2,5,6,7)] by blast
  then show ?thesis
    using large_class [OF assms(8,9,3)] large_class [OF assms(10,11), of "s\<lparr>mem := m'\<rparr>"] assms(3,4) by simp
qed

text \<open>The small boot configuration with such a cache as the last table entry.\<close>

definition single_slab :: slab_sys where
  "single_slab = boot_slab\<lparr>mem := store32 (store32 (store32 (store32 boot_map 0xc0001000 0) 0xc0001004 0) 0xc000100c 2048) 0xc0001010 1,
     quick_alloc_table := replicate 11 0 @ [0xc0001000]\<rparr>"

theorem kmalloc_large_second_faults_witness:
  "\<exists>p s'. kmalloc 1500 single_slab = Inr (p, s') \<and> kmalloc 1024 s' = Inl (Page_Fault 0)"
proof -
  have "same_off (block 0xc0001000 28) boot_map (mem single_slab)"
    by (simp add: single_slab_def, intro same_off_store32 same_off_refl) (auto simp: mem_block_iff)
  from boot_map_prefix [OF this] have "heap_ok single_slab [] 4"
    by (simp add: heap_ok_def heap_regions_def map_region_def heap_top_def single_slab_def boot_slab_def)
  moreover have "single_cache (mem single_slab) 0xc0001000"
    by (simp add: single_cache_def single_slab_def mapped_def load32_store32_apart)
  moreover have "kernel_mem_pages single_slab = 32" "quick_alloc_table single_slab = replicate 11 0 @ [0xc0001000]"
    "memmap_kernel single_slab = 0xc0001100"
    by (simp_all add: single_slab_def boot_slab_def)
  ultimately show ?thesis
    by (intro kmalloc_large_second_faults [of single_slab "[]" 4 "0xc0001000" 1500 1024])
      (simp_all add: heap_top_def rdisj_def map_region_def nth_append)
qed

end
