(* ===== verification/Queue.thy ===== *)
theory Queue
  imports Prelude
begin

text \<open>
  The contract of a bounded queue: what its clients may rely on. \<open>Lib_Fifo\<close> shows that the ring
  buffer of \<open>lib/fifo.c\<close> satisfies it with one slot less than the buffer has.
\<close>

datatype 'e queue_op = Put 'e | Get

text \<open>The specification: a list, and what each \<open>Get\<close> answers.\<close>

primrec queue_spec :: "'e queue_op list \<Rightarrow> 'e list \<Rightarrow> 'e option list" where
  "queue_spec [] q = []"
| "queue_spec (c # cs) q =
     (case c of Put e \<Rightarrow> queue_spec cs (q @ [e])
      | Get \<Rightarrow> (case q of [] \<Rightarrow> None # queue_spec cs [] | x # q' \<Rightarrow> Some x # queue_spec cs q'))"

text \<open>The queue never holds more than \<open>cap\<close> elements during the run, and every element is legal.\<close>

primrec within :: "nat \<Rightarrow> ('e \<Rightarrow> bool) \<Rightarrow> 'e queue_op list \<Rightarrow> nat \<Rightarrow> bool" where
  "within cap legal [] n \<longleftrightarrow> True"
| "within cap legal (c # cs) n \<longleftrightarrow>
     (case c of Put e \<Rightarrow> legal e \<and> n < cap \<and> within cap legal cs (Suc n) | Get \<Rightarrow> within cap legal cs (n - 1))"

text \<open>Running the same operations on an implementation.\<close>

primrec queue_run :: "('e \<Rightarrow> 's \<Rightarrow> 's result) \<Rightarrow> ('s \<Rightarrow> ('e option \<times> 's) result) \<Rightarrow> 'e queue_op list \<Rightarrow> 's \<Rightarrow> ('e option list) result" where
  "queue_run put get [] s = Inr []"
| "queue_run put get (c # cs) s =
     (case c of Put e \<Rightarrow> bindE (put e s) (\<lambda>s'. queue_run put get cs s')
      | Get \<Rightarrow> bindE (get s) (\<lambda>(r, s'). bindE (queue_run put get cs s') (\<lambda>rs. Inr (r # rs))))"

locale queue =
  fixes put :: "'e \<Rightarrow> 's \<Rightarrow> 's result" and get :: "'s \<Rightarrow> ('e option \<times> 's) result"
    and rep :: "'s \<Rightarrow> 'e list \<Rightarrow> bool" and cap :: nat and legal :: "'e \<Rightarrow> bool"
  assumes put_law: "rep s q \<Longrightarrow> legal e \<Longrightarrow> length q < cap \<Longrightarrow> \<exists>s'. put e s = Inr s' \<and> rep s' (q @ [e])"
    and get_law: "rep s (x # q) \<Longrightarrow> \<exists>s'. get s = Inr (Some x, s') \<and> rep s' q"
    and get_empty: "rep s [] \<Longrightarrow> \<exists>s'. get s = Inr (None, s') \<and> rep s' []"
begin

lemma run_spec:
  "rep s q \<Longrightarrow> within cap legal cs (length q) \<Longrightarrow> queue_run put get cs s = Inr (queue_spec cs q)"
proof (induction cs arbitrary: s q)
  case (Cons c cs)
  show ?case
  proof (cases c)
    case (Put e)
    then have w: "legal e" "length q < cap" "within cap legal cs (length (q @ [e]))"
      using Cons.prems(2) by simp_all
    obtain s' where "put e s = Inr s'" "rep s' (q @ [e])"
      using put_law [OF Cons.prems(1) w(1,2)] by blast
    then show ?thesis using Cons.IH w(3) Put by simp
  next
    case Get
    then have w: "within cap legal cs (length (tl q))" using Cons.prems(2) by simp
    show ?thesis
    proof (cases q)
      case Nil
      then obtain s' where "get s = Inr (None, s')" "rep s' []" using get_empty Cons.prems(1) by blast
      then show ?thesis using Cons.IH [of s' "[]"] w Get Nil by simp
    next
      case (Cons x q')
      then obtain s' where "get s = Inr (Some x, s')" "rep s' q'" using get_law Cons.prems(1) by blast
      then show ?thesis using Cons.IH [of s' q'] w Get Cons by simp
    qed
  qed
qed simp

end

end
