(* ===== verification/Lib_Fifo.thy ===== *)
theory Lib_Fifo
  imports Mm_Slab Queue
begin

text \<open>
  \<open>lib/fifo.c\<close>: a ring buffer of fixed-size elements. The descriptor (\<open>fifo_t\<close>) comes from
  \<open>kmalloc\<close>, the buffer from \<open>palloc\<close>. \<open>fifo_rep\<close> relates a descriptor and its buffer to a list
  of elements; the ring holds at most one element less than it has slots, and only once its
  \<open>dirty\<close> flag has been set by a first \<open>fifo_enqueue\<close>.
\<close>

abbreviation (input) fifo_size :: "memory \<Rightarrow> addr \<Rightarrow> u32" where "fifo_size m f \<equiv> load32 m f"
abbreviation (input) fifo_data_size :: "memory \<Rightarrow> addr \<Rightarrow> u32" where "fifo_data_size m f \<equiv> load32 m (f + 4)"
abbreviation (input) fifo_dirty :: "memory \<Rightarrow> addr \<Rightarrow> u32" where "fifo_dirty m f \<equiv> load32 m (f + 8)"
abbreviation (input) fifo_data :: "memory \<Rightarrow> addr \<Rightarrow> addr" where "fifo_data m f \<equiv> load32 m (f + 12)"
abbreviation (input) fifo_start :: "memory \<Rightarrow> addr \<Rightarrow> addr" where "fifo_start m f \<equiv> load32 m (f + 16)"
abbreviation (input) fifo_end :: "memory \<Rightarrow> addr \<Rightarrow> addr" where "fifo_end m f \<equiv> load32 m (f + 20)"

section \<open>Operations\<close>

definition alloc_fifo :: "u32 \<Rightarrow> u32 \<Rightarrow> 'a slab_sys_scheme \<Rightarrow> (addr \<times> 'a slab_sys_scheme) result" where
  "alloc_fifo sz data_size s =
     (if data_size = 0 then Inl Divide_Error
      else
        let sz = (if sz mod data_size \<noteq> 0 then sz + (data_size - sz mod data_size) else sz)
        in bindE (kmalloc 24 s) (\<lambda>(fifo, s). deref fifo
          (let m = store32 (mem s) (fifo + 4) data_size;
               m = store32 m fifo sz;
               m = store32 m (fifo + 8) 0;
               (data, s) = palloc ZONE_KERNEL sz (s\<lparr>mem := m\<rparr>);
               m = store32 (mem s) (fifo + 12) data;
               m = store32 m (fifo + 16) (fifo_data m fifo);
               m = store32 m (fifo + 20) (fifo_data m fifo)
           in Inr (fifo, s\<lparr>mem := m\<rparr>))))"

definition fifo_enqueue :: "addr \<Rightarrow> addr \<Rightarrow> 'a machine_scheme \<Rightarrow> (int \<times> 'a machine_scheme) result" where
  "fifo_enqueue fifo data s = deref fifo
    (let m = store32 (mem s) (fifo + 8) 1 in
     deref (fifo_end m fifo) (deref data
      (let m = memcpy m (fifo_end m fifo) data (fifo_data_size m fifo) in
       if fifo_data m fifo + fifo_size m fifo \<le> fifo_end m fifo + fifo_data_size m fifo
       then Inr (- 1, s\<lparr>mem := store32 m (fifo + 20) (fifo_data m fifo)\<rparr>)
       else Inr (0, s\<lparr>mem := store32 m (fifo + 20) (fifo_end m fifo + fifo_data_size m fifo)\<rparr>))))"

definition fifo_dequeue :: "addr \<Rightarrow> addr \<Rightarrow> 'a machine_scheme \<Rightarrow> (int \<times> 'a machine_scheme) result" where
  "fifo_dequeue fifo buffer s = deref fifo
    (let m = mem s in
     if fifo_start m fifo = fifo_end m fifo \<and> fifo_dirty m fifo = 1 then
       deref buffer (Inr (- 1, s\<lparr>mem := memset m buffer 0 (fifo_data_size m fifo)\<rparr>))
     else deref (fifo_start m fifo) (deref buffer
      (let m = memcpy m buffer (fifo_start m fifo) (fifo_data_size m fifo) in
       if fifo_data m fifo + fifo_size m fifo \<le> fifo_start m fifo + fifo_data_size m fifo
       then Inr (0, s\<lparr>mem := store32 m (fifo + 16) (fifo_data m fifo)\<rparr>)
       else Inr (0, s\<lparr>mem := store32 m (fifo + 16) (fifo_start m fifo + fifo_data_size m fifo)\<rparr>))))"

section \<open>The ring as a queue\<close>

text \<open>Slot \<open>j\<close> of a buffer at \<open>d\<close> with elements of \<open>w\<close> bytes.\<close>

definition slot :: "addr \<Rightarrow> nat \<Rightarrow> nat \<Rightarrow> addr" where
  "slot d w j = d + of_nat (w * j)"

text \<open>Descriptor \<open>f\<close>, buffer \<open>d\<close> of \<open>n\<close> slots of \<open>w\<close> bytes, first element in slot \<open>i\<close>, contents \<open>q\<close>.\<close>

definition fifo_geo :: "addr \<Rightarrow> addr \<Rightarrow> nat \<Rightarrow> nat \<Rightarrow> bool" where
  "fifo_geo f d w n \<longleftrightarrow> mapped f \<and> mapped d \<and> 0 < w \<and> 0 < n
     \<and> unat d + w * n < 2 ^ 32 \<and> sep f 24 d (w * n)"

definition fifo_ring :: "memory \<Rightarrow> addr \<Rightarrow> addr \<Rightarrow> nat \<Rightarrow> nat \<Rightarrow> nat \<Rightarrow> nat \<Rightarrow> bool" where
  "fifo_ring m f d w n i e \<longleftrightarrow>
     fifo_size m f = of_nat (w * n) \<and> fifo_data_size m f = of_nat w \<and> fifo_data m f = d
     \<and> i < n \<and> fifo_start m f = slot d w i \<and> e < n \<and> fifo_end m f = slot d w e"

definition fifo_rep :: "memory \<Rightarrow> addr \<Rightarrow> addr \<Rightarrow> nat \<Rightarrow> nat \<Rightarrow> nat \<Rightarrow> u8 list list \<Rightarrow> bool" where
  "fifo_rep m f d w n i q \<longleftrightarrow>
     fifo_ring m f d w n i ((i + length q) mod n) \<and> fifo_dirty m f = 1 \<and> length q < n
     \<and> (\<forall>j < length q. bytes_at m (slot d w ((i + j) mod n)) w = q ! j)"

lemma unat_slot:
  assumes "fifo_geo f d w n" and "j < n"
  shows "unat (slot d w j) = unat d + w * j" and "w * j + w \<le> w * n"
proof -
  have "w * Suc j \<le> w * n" using assms(2) by (intro mult_le_mono2) simp
  then show "w * j + w \<le> w * n" by simp
  then show "unat (slot d w j) = unat d + w * j"
    using assms(1) unfolding slot_def fifo_geo_def by (intro unat_add_of_nat) linarith
qed

lemma slot_eq_iff:
  assumes "fifo_geo f d w n" and "i < n" and "j < n"
  shows "slot d w i = slot d w j \<longleftrightarrow> i = j"
proof
  assume "slot d w i = slot d w j"
  then have "w * i = w * j"
    using unat_slot(1) [OF assms(1,2)] unat_slot(1) [OF assms(1,3)] by (metis add_left_cancel)
  then show "i = j" using assms(1) by (simp add: fifo_geo_def)
qed simp

lemma slot_sep:
  assumes "fifo_geo f d w n" and "i < n" and "j < n" and "i \<noteq> j"
  shows "block (slot d w i) w \<inter> block (slot d w j) w = {}"
proof -
  have "w * Suc i \<le> w * j \<or> w * Suc j \<le> w * i"
    using assms(4) by (metis Suc_leI linorder_neqE_nat mult_le_mono2)
  then show ?thesis
    using unat_slot [OF assms(1,2)] unat_slot [OF assms(1,3)] by (intro block_disjI) auto
qed

text \<open>The pointer step both operations share.\<close>

lemma slot_step:
  assumes "fifo_geo f d w n" and "j < n"
  shows "d + of_nat (w * n) \<le> slot d w j + of_nat w \<longleftrightarrow> Suc j = n"
    and "Suc j < n \<Longrightarrow> slot d w j + of_nat w = slot d w (Suc j)"
proof -
  have g: "unat d + w * n < 2 ^ 32" "0 < w" using assms(1) by (simp_all add: fifo_geo_def)
  note u = unat_slot [OF assms]
  have "unat (d + of_nat (w * n)) = unat d + w * n" using g by (intro unat_add_of_nat) simp
  moreover have "unat (slot d w j + of_nat w) = unat d + w * j + w"
    using u g by (subst unat_add_of_nat) simp_all
  moreover have "w * n \<le> w * j + w \<longleftrightarrow> Suc j = n"
    using assms(2) g(2) by (metis Suc_leI add.commute le_antisym mult_Suc_right mult_le_cancel1 not_less_eq_eq)
  ultimately show "d + of_nat (w * n) \<le> slot d w j + of_nat w \<longleftrightarrow> Suc j = n"
    by (simp add: word_le_nat_alt del: of_nat_mult)
  show "Suc j < n \<Longrightarrow> slot d w j + of_nat w = slot d w (Suc j)"
    by (simp add: slot_def algebra_simps)
qed

lemma ring_index_inj:
  fixes a b i n :: nat
  assumes "(i + a) mod n = (i + b) mod n" and "a < n" and "b < n"
  shows "a = b"
proof -
  have le: "y = x" if "x \<le> y" "y < n" "(i + x) mod n = (i + y) mod n" for x y
  proof -
    have "n dvd y - x" using that mod_eq_dvd_iff_nat [of "i + x" "i + y" n] by simp
    then show ?thesis using that dvd_imp_le [of n "y - x"] by linarith
  qed
  show ?thesis
  proof (cases "a \<le> b")
    case True
    then show ?thesis using le [of a b] assms(1,3) by simp
  next
    case False
    then show ?thesis using le [of b a] assms(1) [symmetric] assms(2) by simp
  qed
qed

lemma fifo_struct_frame:
  assumes "fifo_geo f d w n" and "same_off (block d (w * n) \<union> B) m m'" and "block f 24 \<inter> B = {}" and "unat j + 4 \<le> 24"
  shows "load32 m' (f + j) = load32 m (f + j)"
proof (rule load32_same_off [OF assms(2)])
  have s: "sep f 24 d (w * n)" using assms(1) by (simp add: fifo_geo_def)
  then have f: "unat (f + j) = unat f + unat j" using assms(4) by (intro unat_add_word) (simp add: sep_def)
  then show "unat (f + j) + 4 \<le> 2 ^ 32" using s assms(4) by (simp add: sep_def)
  have "block (f + j) 4 \<subseteq> block f 24" using f assms(4) by (intro block_mono) simp_all
  then show "block (f + j) 4 \<inter> (block d (w * n) \<union> B) = {}"
    using sep_block [OF s] assms(3) by blast
qed

lemma slot_block: "fifo_geo f d w n \<Longrightarrow> j < n \<Longrightarrow> block (slot d w j) w \<subseteq> block d (w * n)"
  using unat_slot [of f d w n j] by (intro block_mono) auto

lemma slot_facts:
  assumes "fifo_geo f d w n" and "j < n"
  shows "mapped (slot d w j)" "unat (slot d w j) + w \<le> 2 ^ 32" "unat (of_nat w :: u32) = w"
proof -
  note u = unat_slot [OF assms]
  have g: "unat d + w * n < 2 ^ 32" "mapped d" "0 < n" using assms(1) by (simp_all add: fifo_geo_def)
  show "mapped (slot d w j)" using u(1) g(2) by (simp add: mapped_def word_le_nat_alt)
  show "unat (slot d w j) + w \<le> 2 ^ 32" using u g(1) by linarith
  have "w \<le> w * n" using g(3) by simp
  then have "w < 2 ^ 32" using g(1) by linarith
  then show "unat (of_nat w :: u32) = w" by (simp add: unat_of_nat)
qed

text \<open>An outside object: a client buffer that overlaps neither the descriptor nor the ring.\<close>

definition outside :: "addr \<Rightarrow> addr \<Rightarrow> nat \<Rightarrow> nat \<Rightarrow> addr \<Rightarrow> bool" where
  "outside f d w n b \<longleftrightarrow> mapped b \<and> sep f 24 b w \<and> sep d (w * n) b w"

lemma outside_slot:
  assumes "fifo_geo f d w n" and "outside f d w n b" and "j < n"
  shows "sep (slot d w j) w b w"
  using assms(2) unat_slot [OF assms(1,3)] by (auto simp: outside_def sep_def)

lemma struct_store_bytes:
  assumes "fifo_geo f d w n" and "j < n" and "unat k + 4 \<le> 24"
  shows "bytes_at (store32 m (f + k) v) (slot d w j) w = bytes_at m (slot d w j) w"
proof (rule bytes_at_same_on)
  have s: "sep f 24 d (w * n)" using assms(1) by (simp add: fifo_geo_def)
  then have f: "unat (f + k) = unat f + unat k" "unat f + 24 \<le> 2 ^ 32" using assms(3) unat_add_word [of f k] by (simp_all add: sep_def)
  have "block (f + k) 4 \<subseteq> block f 24" using f assms(3) by (intro block_mono) simp_all
  then have "block (f + k) 4 \<inter> block (slot d w j) w = {}"
    using sep_block [OF s] slot_block [OF assms(1,2)] by blast
  then show "same_on (block (slot d w j) w) m (store32 m (f + k) v)"
    using f assms(3) by (intro same_off_on [OF store32_same_off]) simp_all
  show "unat (slot d w j) + w \<le> 2 ^ 32" using slot_facts [OF assms(1,2)] by simp
qed

lemma enqueue_step:
  assumes geo: "fifo_geo f d w n" and ring: "fifo_ring (mem s) f d w n i e" and src: "outside f d w n src"
  shows "\<exists>m'. fifo_enqueue f src s = Inr (if Suc e = n then - 1 else 0, s\<lparr>mem := m'\<rparr>)
    \<and> fifo_ring m' f d w n i (Suc e mod n) \<and> fifo_dirty m' f = 1
    \<and> bytes_at m' (slot d w e) w = bytes_at (mem s) src w
    \<and> (\<forall>j < n. j \<noteq> e \<longrightarrow> bytes_at m' (slot d w j) w = bytes_at (mem s) (slot d w j) w)
    \<and> same_off (block f 24 \<union> block d (w * n)) (mem s) m'"
proof -
  have n: "0 < n" "mapped f" "sep f 24 d (w * n)" using geo by (auto simp: fifo_geo_def)
  have ld: "load32 (mem s) f = of_nat (w * n)" "load32 (mem s) (f + 4) = of_nat w" "load32 (mem s) (f + 12) = d"
    "load32 (mem s) (f + 16) = slot d w i" "load32 (mem s) (f + 20) = slot d w e"
    and e: "e < n" and i: "i < n"
    using ring by (simp_all add: fifo_ring_def)
  let ?m1 = "store32 (mem s) (f + 8) 1"
  let ?m2 = "memcpy ?m1 (slot d w e) src (of_nat w)"
  have w: "unat (of_nat w :: u32) = w" by (rule slot_facts(3) [OF geo e])
  have cp: "same_off (block (slot d w e) w) ?m1 ?m2" "bytes_at ?m2 (slot d w e) w = bytes_at ?m1 src w"
    using memcpy_spec [of "slot d w e" "of_nat w" src ?m1] outside_slot [OF geo src e] w by simp_all
  have so: "same_off (block d (w * n) \<union> {}) ?m1 ?m2"
    using cp(1) by (rule same_off_mono) (use slot_block [OF geo e] in blast)
  have st: "load32 ?m2 (f + j) = load32 ?m1 (f + j)" if "unat j + 4 \<le> 24" for j
    using fifo_struct_frame [OF geo so] that by simp
  note st' = st [of 0] st [of 4] st [of 8] st [of 12] st [of 16] st [of 20]
  define m3 where "m3 = store32 ?m2 (f + 20) (slot d w (Suc e mod n))"
  have "fifo_enqueue f src s = Inr (if Suc e = n then - 1 else 0, s\<lparr>mem := m3\<rparr>)"
    using n(2) src slot_facts(1) [OF geo e] ld st' slot_step [OF geo e] e
    by (auto simp: fifo_enqueue_def Let_def load32_store32_apart outside_def m3_def slot_def [of d w 0] mod_if
        simp del: of_nat_mult)
  moreover have "bytes_at ?m1 src w = bytes_at (mem s) src w"
  proof (rule bytes_at_same_on)
    have f8: "unat (f + 8) = unat f + 8" "unat f + 24 \<le> 2 ^ 32" "unat src + w \<le> 2 ^ 32"
      "block f 24 \<inter> block src w = {}"
      using n(3) src unat_add_word [of f 8] sep_block [of f 24 src w] by (auto simp: sep_def outside_def)
    then have "block (f + 8) 4 \<subseteq> block f 24" by (intro block_mono) simp_all
    then show "same_on (block src w) (mem s) ?m1"
      using f8 by (intro same_off_on [OF store32_same_off]) auto
    show "unat src + w \<le> 2 ^ 32" by (rule f8)
  qed
  moreover have oth: "bytes_at ?m2 (slot d w j) w = bytes_at ?m1 (slot d w j) w" if "j < n" "j \<noteq> e" for j
    using slot_sep [OF geo e that(1)] that(2) slot_facts(2) [OF geo that(1)]
    by (intro bytes_at_same_on same_off_on [OF cp(1)]) auto
  moreover have "same_off (block f 24 \<union> block d (w * n)) (mem s) m3"
  proof -
    have b: "unat (f + j) + 4 \<le> 2 ^ 32" "block (f + j) 4 \<subseteq> block f 24" if "unat j + 4 \<le> 24" for j
      using that n(3) unat_add_word [of f j] by (auto simp: sep_def mem_block_iff)
    have "same_off (block f 24 \<union> block d (w * n)) (mem s) ?m1"
      using b [of 8] by (intro same_off_store32 same_off_refl) auto
    moreover have "same_off (block f 24 \<union> block d (w * n)) ?m1 ?m2" using so by (rule same_off_mono) auto
    ultimately show ?thesis unfolding m3_def using b [of 20]
      by (intro same_off_store32) (auto intro: same_off_trans)
  qed
  ultimately show ?thesis
    using ld st' e i cp(2) by (intro exI [of _ m3])
      (simp add: m3_def fifo_ring_def load32_store32_apart struct_store_bytes [OF geo])
qed

lemma enqueue_rep:
  assumes geo: "fifo_geo f d w n" and rep: "fifo_rep (mem s) f d w n i q" and src: "outside f d w n src"
    and room: "Suc (length q) < n"
  shows "\<exists>r m'. fifo_enqueue f src s = Inr (r, s\<lparr>mem := m'\<rparr>)
    \<and> fifo_rep m' f d w n i (q @ [bytes_at (mem s) src w])"
proof -
  let ?e = "(i + length q) mod n"
  have ring: "fifo_ring (mem s) f d w n i ?e" using rep by (simp add: fifo_rep_def)
  obtain m' where m': "fifo_enqueue f src s = Inr (if Suc ?e = n then - 1 else 0, s\<lparr>mem := m'\<rparr>)"
    "fifo_ring m' f d w n i (Suc ?e mod n)" "load32 m' (f + 8) = 1"
    "bytes_at m' (slot d w ?e) w = bytes_at (mem s) src w"
    "\<forall>j < n. j \<noteq> ?e \<longrightarrow> bytes_at m' (slot d w j) w = bytes_at (mem s) (slot d w j) w"
    using enqueue_step [OF geo ring src] by blast
  have n: "0 < n" using geo by (simp add: fifo_geo_def)
  have "bytes_at m' (slot d w ((i + j) mod n)) w = (q @ [bytes_at (mem s) src w]) ! j" if j: "j < Suc (length q)" for j
  proof (cases "j = length q")
    case True
    then show ?thesis using m'(4) by simp
  next
    case False
    then have "(i + j) mod n \<noteq> ?e"
      using j room ring_index_inj [of i j n "length q"] by auto
    then show ?thesis
      using m'(5) rep j False n by (simp add: fifo_rep_def nth_append)
  qed
  then have "fifo_rep m' f d w n i (q @ [bytes_at (mem s) src w])"
    using m'(2,3) room by (simp add: fifo_rep_def mod_Suc_eq)
  then show ?thesis using m'(1) by blast
qed

lemma dequeue_rep:
  assumes geo: "fifo_geo f d w n" and rep: "fifo_rep (mem s) f d w n i (x # q)" and buf: "outside f d w n buf"
  shows "\<exists>m'. fifo_dequeue f buf s = Inr (0, s\<lparr>mem := m'\<rparr>)
    \<and> fifo_rep m' f d w n (Suc i mod n) q \<and> bytes_at m' buf w = x"
proof -
  have n: "0 < n" "mapped f" "sep f 24 d (w * n)" using geo by (auto simp: fifo_geo_def)
  have i: "i < n" "Suc (length q) < n" using rep by (auto simp: fifo_rep_def fifo_ring_def)
  have ld: "load32 (mem s) f = of_nat (w * n)" "load32 (mem s) (f + 4) = of_nat w" "load32 (mem s) (f + 8) = 1"
    "load32 (mem s) (f + 12) = d" "load32 (mem s) (f + 16) = slot d w i"
    "load32 (mem s) (f + 20) = slot d w ((i + Suc (length q)) mod n)"
    using rep by (simp_all add: fifo_rep_def fifo_ring_def)
  have "(i + Suc (length q)) mod n \<noteq> i"
    using i ring_index_inj [of i "Suc (length q)" n 0] by auto
  then have ne: "slot d w i \<noteq> slot d w ((i + Suc (length q)) mod n)"
    using slot_eq_iff [OF geo i(1), of "(i + Suc (length q)) mod n"] n(1) by simp
  let ?m = "memcpy (mem s) buf (slot d w i) (of_nat w)"
  have w: "unat (of_nat w :: u32) = w" by (rule slot_facts(3) [OF geo i(1)])
  have cp: "same_off (block buf w) (mem s) ?m" "bytes_at ?m buf w = bytes_at (mem s) (slot d w i) w"
    using memcpy_spec [of buf "of_nat w" "slot d w i" "mem s"] sep_sym [OF outside_slot [OF geo buf i(1)]] w by simp_all
  have so: "same_off (block d (w * n) \<union> block buf w) (mem s) ?m" using cp(1) by (rule same_off_mono) blast
  have sb: "sep f 24 buf w" using buf by (simp add: outside_def)
  have st: "load32 ?m (f + j) = load32 (mem s) (f + j)" if "unat j + 4 \<le> 24" for j
    using fifo_struct_frame [OF geo so sep_block [OF sb]] that by simp
  note st' = st [of 0] st [of 4] st [of 8] st [of 12] st [of 16] st [of 20]
  define m' where "m' = store32 ?m (f + 16) (slot d w (Suc i mod n))"
  have deq: "fifo_dequeue f buf s = Inr (0, s\<lparr>mem := m'\<rparr>)"
    using n(2) buf slot_facts(1) [OF geo i(1)] ld st' slot_step [OF geo i(1)] i ne
    by (auto simp: fifo_dequeue_def Let_def outside_def m'_def slot_def [of d w 0] mod_if simp del: of_nat_mult)
  have "bytes_at m' (slot d w j) w = bytes_at (mem s) (slot d w j) w" if "j < n" for j
  proof -
    have "bytes_at ?m (slot d w j) w = bytes_at (mem s) (slot d w j) w"
      using sep_block [OF outside_slot [OF geo buf that]] slot_facts(2) [OF geo that]
      by (intro bytes_at_same_on same_off_on [OF cp(1)]) auto
    then show ?thesis using struct_store_bytes [OF geo that, of 16] by (simp add: m'_def)
  qed
  moreover have "bytes_at (mem s) (slot d w ((i + Suc j) mod n)) w = q ! j" if "j < length q" for j
    using rep that unfolding fifo_rep_def by (metis Suc_less_eq length_Cons nth_Cons_Suc)
  ultimately have "fifo_rep m' f d w n (Suc i mod n) q"
    using ld st' i n(1) by (simp add: fifo_rep_def fifo_ring_def m'_def load32_store32_apart mod_add_left_eq)
  moreover have "bytes_at m' buf w = x"
  proof -
    have "bytes_at (mem s) (slot d w i) w = x" using rep i(1) by (auto simp: fifo_rep_def)
    moreover have "bytes_at m' buf w = bytes_at ?m buf w"
    proof (rule bytes_at_same_on)
      have f: "unat (f + 16) = unat f + 16" "unat f + 24 \<le> 2 ^ 32" using n(3) unat_add_word [of f 16] by (simp_all add: sep_def)
      have "block (f + 16) 4 \<subseteq> block f 24" using f by (intro block_mono) simp_all
      then show "same_on (block buf w) ?m m'"
        unfolding m'_def using f sep_block [OF sb] by (intro same_off_on [OF store32_same_off]) auto
      show "unat buf + w \<le> 2 ^ 32" using sb by (simp add: sep_def)
    qed
    ultimately show ?thesis using cp(2) by simp
  qed
  ultimately show ?thesis using deq by blast
qed

lemma dequeue_empty:
  assumes geo: "fifo_geo f d w n" and rep: "fifo_rep (mem s) f d w n i []" and buf: "outside f d w n buf"
  shows "\<exists>m'. fifo_dequeue f buf s = Inr (- 1, s\<lparr>mem := m'\<rparr>) \<and> fifo_rep m' f d w n i []
    \<and> bytes_at m' buf w = replicate w 0"
proof -
  have i: "i < n" using rep by (simp add: fifo_rep_def fifo_ring_def)
  have w: "unat (of_nat w :: u32) = w" by (rule slot_facts(3) [OF geo i])
  have sb: "sep f 24 buf w" "unat buf + w \<le> 2 ^ 32" using buf by (simp_all add: outside_def sep_def)
  let ?m = "memset (mem s) buf 0 (of_nat w)"
  have ms: "?m x = (if x \<in> block buf w then 0 else mem s x)" for x
    using memset_spec [of buf "of_nat w" "mem s" 0 x] w sb(2) by simp
  have so: "same_off (block d (w * n) \<union> block buf w) (mem s) ?m" by (simp add: same_off_def ms)
  have st: "load32 ?m (f + j) = load32 (mem s) (f + j)" if "unat j + 4 \<le> 24" for j
    using fifo_struct_frame [OF geo so sep_block [OF sb(1)]] that by simp
  have "fifo_rep ?m f d w n i []"
    using rep st [of 0] st [of 4] st [of 8] st [of 12] st [of 16] st [of 20] by (simp add: fifo_rep_def fifo_ring_def)
  moreover have "fifo_dequeue f buf s = Inr (- 1, s\<lparr>mem := ?m\<rparr>)"
    using rep geo buf i by (simp add: fifo_dequeue_def fifo_rep_def fifo_ring_def fifo_geo_def outside_def)
  moreover have "bytes_at ?m buf w = replicate w 0"
    using sb(2) by (auto simp: list_eq_iff_nth_eq nth_bytes_at ms block_add_of_nat)
  ultimately show ?thesis by blast
qed

section \<open>A client of the queue\<close>

text \<open>
  The client writes an element to its source buffer before it enqueues it, and reads its
  destination buffer after a successful dequeue.
\<close>

primrec store_bytes :: "memory \<Rightarrow> addr \<Rightarrow> u8 list \<Rightarrow> memory" where
  "store_bytes m p [] = m"
| "store_bytes m p (b # bs) = store_bytes (m(p := b)) (p + 1) bs"

definition fifo_put :: "addr \<Rightarrow> addr \<Rightarrow> u8 list \<Rightarrow> 'a machine_scheme \<Rightarrow> 'a machine_scheme result" where
  "fifo_put f src e s = bindE (fifo_enqueue f src (s\<lparr>mem := store_bytes (mem s) src e\<rparr>)) (\<lambda>(r, s'). Inr s')"

definition fifo_get :: "addr \<Rightarrow> addr \<Rightarrow> nat \<Rightarrow> 'a machine_scheme \<Rightarrow> (u8 list option \<times> 'a machine_scheme) result" where
  "fifo_get f buf w s = bindE (fifo_dequeue f buf s) (\<lambda>(r, s').
     Inr (if r = 0 then Some (bytes_at (mem s') buf w) else None, s'))"

definition ring_rep :: "addr \<Rightarrow> addr \<Rightarrow> nat \<Rightarrow> nat \<Rightarrow> addr \<Rightarrow> addr \<Rightarrow> 'a machine_scheme \<Rightarrow> u8 list list \<Rightarrow> bool" where
  "ring_rep f d w n src buf s q \<longleftrightarrow> fifo_geo f d w n \<and> outside f d w n src \<and> outside f d w n buf
     \<and> (\<exists>i. fifo_rep (mem s) f d w n i q)"

lemma store_bytes_spec:
  "unat p + length bs \<le> 2 ^ 32 \<Longrightarrow> same_off (block p (length bs)) m (store_bytes m p bs)
     \<and> bytes_at (store_bytes m p bs) p (length bs) = bs"
proof (induction bs arbitrary: p m)
  case (Cons b bs)
  have c: "unat p + Suc (length bs) \<le> 2 ^ 32" using Cons.prems by simp
  note IH = Cons.IH [OF inc_bound [OF c], of "m(p := b)"]
  have "store_bytes (m(p := b)) (p + 1) bs p = b"
    using IH self_notin_block_inc [OF c] by (simp add: same_off_def fun_upd_def)
  moreover have "same_off (block p (Suc (length bs))) m (store_bytes (m(p := b)) (p + 1) bs)"
    using IH by (auto simp: same_off_def block_Suc [OF c] fun_upd_def)
  ultimately show ?case using IH by (simp add: fun_upd_def)
qed simp

lemma fifo_rep_outside:
  assumes geo: "fifo_geo f d w n" and out: "outside f d w n b" and rep: "fifo_rep m f d w n i q"
    and so: "same_off (block b w) m m'"
  shows "fifo_rep m' f d w n i q"
proof -
  have sb: "sep f 24 b w" using out by (simp add: outside_def)
  have "same_off (block d (w * n) \<union> block b w) m m'" using so by (rule same_off_mono) blast
  from fifo_struct_frame [OF geo this sep_block [OF sb]]
  have st: "load32 m' (f + j) = load32 m (f + j)" if "unat j + 4 \<le> 24" for j using that .
  have "bytes_at m' (slot d w j) w = bytes_at m (slot d w j) w" if "j < n" for j
    using sep_block [OF outside_slot [OF geo out that]] slot_facts(2) [OF geo that]
    by (intro bytes_at_same_on same_off_on [OF so]) auto
  moreover have "0 < n" using geo by (simp add: fifo_geo_def)
  ultimately show ?thesis
    using rep st [of 0] st [of 4] st [of 8] st [of 12] st [of 16] st [of 20] by (simp add: fifo_rep_def fifo_ring_def)
qed

interpretation ring: queue "fifo_put f src" "fifo_get f buf w" "ring_rep f d w n src buf" "n - 1" "\<lambda>e. length e = w"
  for f d w n src buf
proof
  fix s :: "'a machine_scheme" and q and e :: "u8 list"
  assume rep: "ring_rep f d w n src buf s q" and e: "length e = w" and room: "length q < n - 1"
  obtain i where r: "fifo_geo f d w n" "outside f d w n src" "outside f d w n buf" "fifo_rep (mem s) f d w n i q"
    using rep by (auto simp: ring_rep_def)
  have "unat src + length e \<le> 2 ^ 32" using r(2) e by (simp add: outside_def sep_def)
  note st = store_bytes_spec [OF this, of "mem s", unfolded e]
  then have "fifo_rep (store_bytes (mem s) src e) f d w n i q" using fifo_rep_outside [OF r(1,2,4)] by blast
  then show "\<exists>s'. fifo_put f src e s = Inr s' \<and> ring_rep f d w n src buf s' (q @ [e])"
    using enqueue_rep [OF r(1) _ r(2), of "s\<lparr>mem := store_bytes (mem s) src e\<rparr>" i q] room st r
    by (fastforce simp: fifo_put_def ring_rep_def)
next
  fix s :: "'a machine_scheme" and x q
  assume "ring_rep f d w n src buf s (x # q)"
  then obtain i where r: "fifo_geo f d w n" "outside f d w n src" "outside f d w n buf" "fifo_rep (mem s) f d w n i (x # q)"
    by (auto simp: ring_rep_def)
  then show "\<exists>s'. fifo_get f buf w s = Inr (Some x, s') \<and> ring_rep f d w n src buf s' q"
    using dequeue_rep [OF r(1,4,3)] by (fastforce simp: fifo_get_def ring_rep_def)
next
  fix s :: "'a machine_scheme"
  assume "ring_rep f d w n src buf s []"
  then obtain i where r: "fifo_geo f d w n" "outside f d w n src" "outside f d w n buf" "fifo_rep (mem s) f d w n i []"
    by (auto simp: ring_rep_def)
  then show "\<exists>s'. fifo_get f buf w s = Inr (None, s') \<and> ring_rep f d w n src buf s' []"
    using dequeue_empty [OF r(1,4,3)] by (fastforce simp: fifo_get_def ring_rep_def)
qed

section \<open>Properties of the ring buffer\<close>

text \<open>
  C14: every run of enqueues and dequeues that never holds more than one element less than the
  ring has slots answers exactly as a first-in first-out list does, byte for byte, whatever
  position the ring starts from: \<open>fifo_enqueue\<close> and \<open>fifo_dequeue\<close> refine a bounded queue.
\<close>

theorem fifo_refines_queue:
  assumes "fifo_geo f d w n" and "outside f d w n src" and "outside f d w n buf"
    and "fifo_rep (mem s) f d w n i q" and "within (n - 1) (\<lambda>e. length e = w) cs (length q)"
  shows "queue_run (fifo_put f src) (fifo_get f buf w) cs s = Inr (queue_spec cs q)"
  using assms by (intro ring.run_spec) (auto simp: ring_rep_def)

text \<open>A ring of four two-byte slots whose next slot is the last one.\<close>

definition ring_mem :: memory where
  "ring_mem = store32 (store32 (store32 (store32 (store32 (store32 (\<lambda>_. 0) 0xc0001000 8) 0xc0001004 2) 0xc0001008 1)
     0xc000100c 0xc0002000) 0xc0001010 0xc0002006) 0xc0001014 0xc0002006"

lemma ring_mem_rep: "fifo_geo 0xc0001000 0xc0002000 2 4" "fifo_rep ring_mem 0xc0001000 0xc0002000 2 4 3 []"
  by (simp_all add: fifo_geo_def fifo_rep_def fifo_ring_def ring_mem_def slot_def sep_def mapped_def load32_store32_apart)

theorem fifo_refines_queue_witness:
  "queue_run (fifo_put 0xc0001000 0xc0003000) (fifo_get 0xc0001000 0xc0003010 2)
     [Put [1, 2], Put [3, 4], Get, Put [5, 6], Get, Get, Get] \<lparr>mem = ring_mem, io = []\<rparr>
   = Inr [Some [1, 2], Some [3, 4], Some [5, 6], None]"
proof -
  have "outside 0xc0001000 0xc0002000 2 4 0xc0003000" "outside 0xc0001000 0xc0002000 2 4 0xc0003010"
    by (simp_all add: outside_def sep_def mapped_def)
  then show ?thesis
    using fifo_refines_queue [OF ring_mem_rep(1), of "0xc0003000" "0xc0003010" "\<lparr>mem = ring_mem, io = []\<rparr>" 3 "[]"
        "[Put [1, 2], Put [3, 4], Get, Put [5, 6], Get, Get, Get]"] ring_mem_rep(2) by simp
qed

text \<open>
  Enqueueing into a ring that already holds one element less than its slots still stores the
  element, but the ring then counts as empty: all elements are lost and the next dequeue
  reports failure.
\<close>

theorem fifo_overflow_loses_all:
  assumes "fifo_geo f d w n" and "outside f d w n src" and "outside f d w n buf"
    and "fifo_rep (mem s) f d w n i q" and "length q = n - 1"
  shows "\<exists>r s' s''. fifo_enqueue f src s = Inr (r, s') \<and> fifo_rep (mem s') f d w n i []
    \<and> fifo_dequeue f buf s' = Inr (- 1, s'')"
proof -
  have n: "0 < n" using assms(1) by (simp add: fifo_geo_def)
  let ?e = "(i + length q) mod n"
  have ring: "fifo_ring (mem s) f d w n i ?e" and i: "i < n" using assms(4) by (simp_all add: fifo_rep_def fifo_ring_def)
  have "Suc ?e mod n = (i + n) mod n" using assms(5) n by (simp add: mod_Suc_eq)
  then have e: "Suc ?e mod n = i" using i by simp
  obtain r m' where m': "fifo_enqueue f src s = Inr (r, s\<lparr>mem := m'\<rparr>)"
    "fifo_ring m' f d w n i (Suc ?e mod n)" "load32 m' (f + 8) = 1"
    using enqueue_step [OF assms(1) ring assms(2)] by blast
  have "fifo_rep m' f d w n i []" using m'(2,3) e i n by (simp add: fifo_rep_def)
  then show ?thesis using m'(1) dequeue_empty [OF assms(1) _ assms(3), of "s\<lparr>mem := m'\<rparr>" i] by fastforce
qed

theorem fifo_overflow_loses_all_witness:
  "\<exists>s r s' s''. fifo_rep (mem s) 0xc0001000 0xc0002000 2 1 0 [] \<and> fifo_enqueue 0xc0001000 0xc0003000 (s :: machine) = Inr (r, s')
    \<and> fifo_dequeue 0xc0001000 0xc0003010 s' = Inr (- 1, s'')"
proof -
  let ?m = "store32 (store32 (store32 (store32 (store32 (store32 (\<lambda>_. 0) 0xc0001000 2) 0xc0001004 2) 0xc0001008 1)
     0xc000100c 0xc0002000) 0xc0001010 0xc0002000) 0xc0001014 0xc0002000"
  have g: "fifo_geo 0xc0001000 0xc0002000 2 1" "outside 0xc0001000 0xc0002000 2 1 0xc0003000"
    "outside 0xc0001000 0xc0002000 2 1 0xc0003010"
    by (simp_all add: fifo_geo_def outside_def sep_def mapped_def)
  have r: "fifo_rep (mem \<lparr>mem = ?m, io = []\<rparr>) 0xc0001000 0xc0002000 2 1 0 []"
    by (simp add: fifo_rep_def fifo_ring_def slot_def load32_store32_apart)
  show ?thesis using fifo_overflow_loses_all [OF g r] r by (intro exI [of _ "\<lparr>mem = ?m, io = []\<rparr>"]) auto
qed

end
