(* ===== verification/Lib_Fifo_Alloc.thy ===== *)
theory Lib_Fifo_Alloc
  imports Lib_Fifo Mm_Slab_Alloc
begin

text \<open>
  \<open>alloc_fifo\<close> on the kernel heap: the descriptor it takes from \<open>kmalloc\<close> and the pages it takes
  from \<open>palloc\<close> never overlap, so the result is a well-formed empty ring. Its \<open>dirty\<close> flag is
  clear, which the first enqueue repairs and a premature dequeue does not notice.
\<close>

lemma page_count_bound:
  assumes "0 < unat sz"
  shows "0 < unat (page_count sz)" "unat sz \<le> unat (page_count sz) * 4096"
proof -
  have u: "unat (sz div 4096) = unat sz div 4096" "unat (sz mod 4096) = unat sz mod 4096"
    by (simp_all add: unat_div unat_mod)
  have b: "unat sz div 4096 < 2 ^ 20" using unat_lt [of sz] by (simp add: div_less_iff_less_mult del: unat_lt)
  have "unat (sz div 4096 + 1) = Suc (unat sz div 4096)"
    using u(1) b by (subst unat_inc) simp_all
  then have pc: "unat (page_count sz) = (if unat sz mod 4096 \<noteq> 0 then Suc (unat sz div 4096) else unat sz div 4096)"
    using u by (simp add: page_count_def unat_eq_zero [symmetric])
  have "unat sz = unat sz div 4096 * 4096 + unat sz mod 4096" "unat sz mod 4096 < 4096" by simp_all
  then show "0 < unat (page_count sz)" "unat sz \<le> unat (page_count sz) * 4096"
    using assms pc by (auto split: if_splits)
qed

lemma heap_palloc:
  assumes ok: "heap_ok s cs k" and n: "0 < unat sz" and room: "unat (page_count sz) \<le> pages_left s"
  shows "palloc ZONE_KERNEL sz s = (kernel_page (k - 1),
      s\<lparr>mem := set_status (unat (page_count sz)) (memmap_kernel s + of_nat k) MEM_USED (mem s)\<rparr>)"
    and "unat (kernel_page (k - 1)) = heap_top k" and "heap_top k + unat sz < 2 ^ 32"
    and "same_off (rset (map_region s)) (mem s)
      (set_status (unat (page_count sz)) (memmap_kernel s + of_nat k) MEM_USED (mem s))"
proof -
  note pc = page_count_bound [OF n]
  have up: "used_prefix (mem s) (memmap_kernel s) (unat (kernel_mem_pages s)) k" "0 < k"
    "unat (kernel_mem_pages s) \<le> 0x40000"
    using ok by (simp_all add: heap_ok_def)
  have fit: "k + unat (page_count sz) \<le> unat (kernel_mem_pages s)"
    using heap_ok_left [OF ok] room by linarith
  then have k: "k \<le> 0x40000" "k - 1 < 0x40000" using up(2,3) pc(1) by simp_all
  show "palloc ZONE_KERNEL sz s = (kernel_page (k - 1),
      s\<lparr>mem := set_status (unat (page_count sz)) (memmap_kernel s + of_nat k) MEM_USED (mem s)\<rparr>)"
    using palloc_kernel [OF up(1) pc(1)] fit phy2lin_page [OF up(2) k(1)] by simp
  show "unat (kernel_page (k - 1)) = heap_top k" using k(2) by (simp add: unat_kernel_page heap_top_def)
  have "(k - 1) + unat (page_count sz) \<le> 0x3FFFF" using fit up(2,3) by linarith
  then have "((k - 1) + unat (page_count sz)) * 4096 \<le> 0x3FFFF * 4096" by (rule mult_le_mono1)
  then have "(k - 1) * 4096 + unat (page_count sz) * 4096 \<le> 0x3FFFF * 4096" by (simp add: distrib_right)
  then show "heap_top k + unat sz < 2 ^ 32" using pc(2) by (simp add: heap_top_def)
  have "unat (memmap_kernel s + of_nat k) = unat (memmap_kernel s) + k"
    using up(1) fit pc(1) by (intro unat_add_of_nat) (simp add: used_prefix_def)
  then show "same_off (rset (map_region s)) (mem s)
      (set_status (unat (page_count sz)) (memmap_kernel s + of_nat k) MEM_USED (mem s))"
    using fit up(1) by (auto simp: same_off_def set_status_spec mem_block_iff rset_def map_region_def used_prefix_def)
qed

text \<open>A well-formed ring that has never been used.\<close>

definition fifo_unused :: "memory \<Rightarrow> addr \<Rightarrow> addr \<Rightarrow> nat \<Rightarrow> nat \<Rightarrow> bool" where
  "fifo_unused m f d w n \<longleftrightarrow> fifo_geo f d w n \<and> fifo_ring m f d w n 0 0 \<and> fifo_dirty m f = 0"

text \<open>An object of the caches lies below the pages that the page allocator hands out next.\<close>

lemma object_below_top:
  assumes "heap_inv s A" and "A \<inter> block f (Suc n) = {}"
  obtains cs k where "heap_ok s cs k" "A = owned s cs k" "unat f + Suc n \<le> heap_top k" "heap_top k < 2 ^ 32"
    "rset (map_region s) \<inter> block f (Suc n) = {}"
proof -
  obtain cs k where h: "heap_ok s cs k" "A = owned s cs k" using assms(1) by (auto simp: heap_inv_def)
  have top: "heap_top k < 2 ^ 32" using h(1) by (rule heap_top_bound)
  have "unat f + Suc n \<le> heap_top k"
  proof (rule ccontr)
    assume "\<not> unat f + Suc n \<le> heap_top k"
    moreover have "unat f < heap_top k"
      using assms(2) h(2) by (auto simp: owned_def mem_block_iff not_less [symmetric])
    ultimately have "of_nat (heap_top k) \<in> block f (Suc n)" using top by (simp add: mem_block_iff unat_of_nat)
    moreover have "of_nat (heap_top k) \<in> A" using h(2) top by (simp add: owned_def unat_of_nat)
    ultimately show False using assms(2) by blast
  qed
  moreover have "rset (map_region s) \<inter> block f (Suc n) = {}" using assms(2) h(2) by (auto simp: owned_def heap_regions_def)
  ultimately show thesis using that h top by blast
qed

lemma alloc_fifo_ring:
  assumes inv: "heap_inv s A" and w: "0 < w" and n: "0 < n" and wn: "w * n < 2 ^ 31"
    and room: "unat (page_count (of_nat (w * n))) < pages_left s"
  shows "\<exists>f s' d. alloc_fifo (of_nat (w * n)) (of_nat w) s = Inr (f, s') \<and> fifo_unused (mem s') f d w n"
proof -
  let ?sz = "of_nat (w * n) :: u32" and ?w = "of_nat w :: u32"
  have "w \<le> w * n" using n by simp
  moreover have "(2 :: nat) ^ 31 \<le> 2 ^ 32" by simp
  ultimately have "w < 2 ^ 32" "w * n < 2 ^ 32" using wn by linarith+
  then have u: "unat ?sz = w * n" "unat ?w = w" by (simp_all add: unat_of_nat del: of_nat_mult)
  have "unat (?sz mod ?w) = 0" using u by (simp add: unat_mod)
  then have md: "?sz mod ?w = 0" and wz: "?w \<noteq> 0"
    using u(2) w by (auto simp: unat_eq_zero simp del: of_nat_mult)
  have pl: "pages_left s \<noteq> 0" and lt: "unat (24 :: u32) < 1024" using room by simp_all
  obtain f s1 A1 where f0: "kmalloc 24 s = Inr (f, s1)" "mapped f" "heap_inv s1 A1"
    "A1 \<subseteq> A - block f (Suc (unat (24 :: u32)))" "pages_left s \<le> Suc (pages_left s1)"
    using kmalloc_cases [OF inv lt] pl by (elim disjE exE conjE) simp_all
  have "A1 \<inter> block f 25 = {}" using f0(4) by auto
  note f = f0(1-3) this f0(5)
  have "A1 \<inter> block f (Suc 24) = {}" using f(4) by simp
  then obtain cs k where h: "heap_ok s1 cs k" "A1 = owned s1 cs k" and below: "unat f + Suc 24 \<le> heap_top k"
    and top: "heap_top k < 2 ^ 32" and mr: "rset (map_region s1) \<inter> block f (Suc 24) = {}"
    by (rule object_below_top [OF f(3)])
  have b24: "block f 24 \<subseteq> block f 25" by (intro block_mono) simp_all
  then have dis: "rset (map_region s1) \<inter> block f 24 = {}" using mr by auto
  define m0 where "m0 = store32 (store32 (store32 (mem s1) (f + 4) ?w) f ?sz) (f + 8) 0"
  let ?s0 = "s1\<lparr>mem := m0\<rparr>"
  have "same_off (block f 24) (mem s1) m0"
    unfolding m0_def using below top by (intro same_off_store32 same_off_refl) (auto simp: mem_block_iff unat_add_word)
  then have "same_on A1 (mem s1) m0" using f(4) b24 by (intro same_off_on) blast+
  then have ok0: "heap_ok ?s0 cs k" using h by (intro heap_ok_frame) simp_all
  have pl: "unat (page_count ?sz) \<le> pages_left ?s0"
    using heap_ok_left [OF ok0] heap_ok_left [OF h(1)] f(5) room by simp
  have sz0: "0 < unat ?sz" using u(1) w n by (simp del: of_nat_mult)
  note pa = heap_palloc [OF ok0 sz0 pl]
  let ?d = "kernel_page (k - 1)"
  define m1 where "m1 = set_status (unat (page_count ?sz)) (memmap_kernel s1 + of_nat k) MEM_USED m0"
  define m2 where "m2 = store32 (store32 (store32 m1 (f + 12) ?d) (f + 16) ?d) (f + 20) ?d"
  have alloc: "alloc_fifo ?sz ?w s = Inr (f, s1\<lparr>mem := m2\<rparr>)"
    using f(1,2) wz md pa(1)
    by (simp add: alloc_fifo_def Let_def m0_def [symmetric] m1_def [symmetric] m2_def load32_store32_apart del: of_nat_mult)
  have "same_off (rset (map_region s1)) m0 m1" using pa(4) by (simp add: m1_def map_region_def)
  then have on: "same_on (block f 24) m0 m1" using dis by (intro same_off_on) auto
  have ld: "load32 m1 (f + j) = load32 m0 (f + j)" if "unat j + 4 \<le> 24" for j
    using on by (rule load32_same_on) (use that below top in \<open>auto simp: mem_block_iff unat_add_word\<close>)
  have "load32 m2 f = ?sz" "load32 m2 (f + 4) = ?w" "load32 m2 (f + 8) = 0" "load32 m2 (f + 12) = ?d"
    "load32 m2 (f + 16) = ?d" "load32 m2 (f + 20) = ?d"
    using ld [of 0] ld [of 4] ld [of 8] by (simp_all add: m2_def m0_def load32_store32_apart del: of_nat_mult)
  moreover have "fifo_geo f ?d w n"
    using f(2) w n pa(2,3) u(1) below by (auto simp: fifo_geo_def sep_def mapped_def word_le_nat_alt heap_top_def)
  ultimately have "fifo_unused m2 f ?d w n"
    using n by (simp add: fifo_unused_def fifo_ring_def slot_def del: of_nat_mult)
  then show ?thesis using alloc by fastforce
qed

section \<open>Properties of ring allocation\<close>

text \<open>
  On an intact heap with enough unused pages \<open>alloc_fifo\<close> succeeds, and the ring it returns
  accepts a first element: after one enqueue it represents exactly the queue of that element.
\<close>

theorem alloc_fifo_usable:
  assumes "heap_inv s A" and "0 < w" and "1 < n" and "w * n < 2 ^ 31"
    and "unat (page_count (of_nat (w * n))) < pages_left s"
  shows "\<exists>f s' d. alloc_fifo (of_nat (w * n)) (of_nat w) s = Inr (f, s') \<and> fifo_geo f d w n
    \<and> (\<forall>src. outside f d w n src \<longrightarrow> (\<exists>r s''. fifo_enqueue f src s' = Inr (r, s'')
         \<and> fifo_rep (mem s'') f d w n 0 [bytes_at (mem s') src w]))"
proof -
  obtain f s' d where f: "alloc_fifo (of_nat (w * n)) (of_nat w) s = Inr (f, s')" "fifo_unused (mem s') f d w n"
    using alloc_fifo_ring [OF assms(1,2) _ assms(4,5)] assms(3) by auto
  have g: "fifo_geo f d w n" "fifo_ring (mem s') f d w n 0 0" using f(2) by (simp_all add: fifo_unused_def)
  have "\<exists>r s''. fifo_enqueue f src s' = Inr (r, s'') \<and> fifo_rep (mem s'') f d w n 0 [bytes_at (mem s') src w]"
    if src: "outside f d w n src" for src
  proof -
    obtain r m' where "fifo_enqueue f src s' = Inr (r, s'\<lparr>mem := m'\<rparr>)" "fifo_ring m' f d w n 0 (Suc 0 mod n)"
      "load32 m' (f + 8) = 1" "bytes_at m' (slot d w 0) w = bytes_at (mem s') src w"
      using enqueue_step [OF g src] by blast
    then show ?thesis using assms(3) by (auto simp: fifo_rep_def)
  qed
  then show ?thesis using f(1) g(1) by blast
qed

theorem alloc_fifo_usable_witness:
  "\<exists>s f s' d. slab_init boot_slab = Inr s \<and> alloc_fifo 1024 1 s = Inr (f, s') \<and> fifo_geo f d 1 1024"
proof -
  obtain s A where s: "slab_init boot_slab = Inr s" "heap_inv s A" "2 \<le> pages_left s"
    using boot_slab_ready by blast
  then show ?thesis using alloc_fifo_usable [OF s(2), of 1 1024] by (auto simp: page_count_def)
qed

text \<open>
  A dequeue from the ring that \<open>alloc_fifo\<close> returned, before anything has been enqueued,
  reports success and delivers the bytes the fresh page happens to hold, because the empty test
  also requires the \<open>dirty\<close> flag.
\<close>

theorem fresh_fifo_dequeue_succeeds:
  assumes "heap_inv s A" and "0 < w" and "0 < n" and "w * n < 2 ^ 31"
    and "unat (page_count (of_nat (w * n))) < pages_left s"
  shows "\<exists>f s'. alloc_fifo (of_nat (w * n)) (of_nat w) s = Inr (f, s')
    \<and> (\<forall>buf. mapped buf \<longrightarrow> (\<exists>s''. fifo_dequeue f buf s' = Inr (0, s'')))"
proof -
  obtain f s' d where f: "alloc_fifo (of_nat (w * n)) (of_nat w) s = Inr (f, s')" "fifo_unused (mem s') f d w n"
    using alloc_fifo_ring [OF assms] by blast
  have "mapped f" "mapped d" "load32 (mem s') (f + 16) = d" "load32 (mem s') (f + 8) = 0"
    using f(2) by (simp_all add: fifo_unused_def fifo_geo_def fifo_ring_def slot_def)
  then have "\<exists>s''. fifo_dequeue f buf s' = Inr (0, s'')" if "mapped buf" for buf
    using that by (simp add: fifo_dequeue_def Let_def)
  then show ?thesis using f(1) by blast
qed

theorem fresh_fifo_dequeue_succeeds_witness:
  "\<exists>s f s' s''. slab_init boot_slab = Inr s \<and> alloc_fifo 1024 1 s = Inr (f, s')
    \<and> fifo_dequeue f 0xc0300000 s' = Inr (0, s'')"
proof -
  obtain s A where s: "slab_init boot_slab = Inr s" "heap_inv s A" "2 \<le> pages_left s"
    using boot_slab_ready by blast
  have "mapped 0xc0300000" by (simp add: mapped_def)
  then show ?thesis using s fresh_fifo_dequeue_succeeds [OF s(2), of 1 1024] by (fastforce simp: page_count_def)
qed

end
