(* ===== verification/Lib_List.thy ===== *)
theory Lib_List
  imports Mm_Slab_Alloc
begin

text \<open>
  \<open>lib/list.c\<close>: circular doubly linked lists. A node (\<open>list_node_t\<close>) has its \<open>prev\<close>, \<open>next\<close> and
  \<open>data\<close> pointers at offsets 0, 4 and 8; a list is known by the address of the cell that holds
  its head pointer. \<open>dll\<close> relates the memory to the list of node addresses in ring order.
\<close>

abbreviation (input) node_prev :: "memory \<Rightarrow> addr \<Rightarrow> addr" where "node_prev m p \<equiv> load32 m p"
abbreviation (input) node_next :: "memory \<Rightarrow> addr \<Rightarrow> addr" where "node_next m p \<equiv> load32 m (p + 4)"
abbreviation (input) node_data :: "memory \<Rightarrow> addr \<Rightarrow> addr" where "node_data m p \<equiv> load32 m (p + 8)"

section \<open>Operations\<close>

definition list_insert :: "addr \<Rightarrow> addr \<Rightarrow> 'a slab_sys_scheme \<Rightarrow> (addr \<times> 'a slab_sys_scheme) result" where
  "list_insert head data s =
     (if head = 0 then Inr (0, s)
      else bindE (kmalloc 12 s) (\<lambda>(node, s). deref node
        (let m = store32 (mem s) (node + 8) data;
             m = store32 m node 0;
             m = store32 m (node + 4) 0
         in deref head
          (if load32 m head = 0 then
             let m = store32 m node node;
                 m = store32 m (node + 4) node;
                 m = store32 m head node
             in Inr (node, s\<lparr>mem := m\<rparr>)
           else deref (load32 m head)
            (let m = store32 m (node + 4) (node_next m (load32 m head));
                 m = store32 m node (load32 m head)
             in deref (node_next m (load32 m head))
              (let m = store32 m (node_next m (load32 m head)) node;
                   m = store32 m (load32 m head + 4) node
               in Inr (node, s\<lparr>mem := m\<rparr>)))))))"

definition list_delete :: "addr \<Rightarrow> 'a slab_sys_scheme \<Rightarrow> 'a slab_sys_scheme result" where
  "list_delete obj s =
     (if obj = 0 then Inr s
      else deref obj
       (bindE
         (if node_prev (mem s) obj \<noteq> 0 \<and> node_next (mem s) obj \<noteq> 0 then
            deref (node_prev (mem s) obj)
             (let m = store32 (mem s) (node_prev (mem s) obj + 4) (node_next (mem s) obj)
              in deref (node_next m obj) (Inr (s\<lparr>mem := store32 m (node_next m obj) (node_prev m obj)\<rparr>)))
          else Inr s)
         (\<lambda>s. bindE (kfree obj s) (\<lambda>s.
           let m = store32 (mem s) (obj + 4) 0;
               m = store32 m obj 0
           in Inr (s\<lparr>mem := store32 m (obj + 8) 0\<rparr>)))))"

text \<open>The callback of \<open>list_iter\<close>: a function of the node and the state; a non-zero result stops.\<close>

type_synonym 's callback = "addr \<Rightarrow> 's \<Rightarrow> (u32 \<times> 's) result"

partial_function (option) list_iter_loop ::
  "('s \<Rightarrow> memory) \<Rightarrow> 's callback \<Rightarrow> addr \<Rightarrow> addr \<Rightarrow> 's \<Rightarrow> 's result option" where
  "list_iter_loop get_mem callback head cur s =
     (if cur = 0 then Some (Inr s)
      else
       (case callback cur s of
          Inl e \<Rightarrow> Some (Inl e)
        | Inr (r, s) \<Rightarrow>
            if r \<noteq> 0 then Some (Inr s)
            else if \<not> mapped cur then Some (Inl (Page_Fault cur))
            else
              (let cur = node_next (get_mem s) cur in
               if cur \<noteq> 0 \<and> cur \<noteq> head then list_iter_loop get_mem callback head cur s else Some (Inr s))))"

definition list_iter :: "addr \<Rightarrow> 'a machine_scheme callback \<Rightarrow> 'a machine_scheme \<Rightarrow> 'a machine_scheme result" where
  "list_iter head callback s =
     (if head = 0 then Inr s else returns (list_iter_loop mem callback head head s))"

section \<open>Rings of nodes\<close>

definition nodes_ok :: "addr list \<Rightarrow> bool" where
  "nodes_ok xs \<longleftrightarrow> (\<forall>x \<in> set xs. mapped x \<and> unat x + 12 \<le> 2 ^ 32) \<and> sorted_wrt (\<lambda>x y. sep x 12 y 12) xs"

text \<open>The chain from node \<open>x\<close> through the nodes \<open>ys\<close> to node \<open>z\<close>; a ring leads back to its head.\<close>

primrec links :: "memory \<Rightarrow> addr \<Rightarrow> addr list \<Rightarrow> addr \<Rightarrow> bool" where
  "links m x [] z \<longleftrightarrow> node_next m x = z \<and> node_prev m z = x"
| "links m x (y # ys) z \<longleftrightarrow> node_next m x = y \<and> node_prev m y = x \<and> links m y ys z"

definition dll :: "memory \<Rightarrow> addr list \<Rightarrow> bool" where
  "dll m xs \<longleftrightarrow> nodes_ok xs \<and> (case xs of [] \<Rightarrow> True | x # ys \<Rightarrow> links m x ys x)"

text \<open>The cell at \<open>h\<close> holds the head of the ring \<open>xs\<close>.\<close>

definition list_at :: "memory \<Rightarrow> addr \<Rightarrow> addr list \<Rightarrow> bool" where
  "list_at m h xs \<longleftrightarrow> mapped h \<and> unat h + 4 \<le> 2 ^ 32 \<and> (\<forall>x \<in> set xs. sep h 4 x 12)
     \<and> load32 m h = (case xs of [] \<Rightarrow> 0 | x # _ \<Rightarrow> x) \<and> dll m xs"

text \<open>The specification of iteration: run the callback over a list until it asks to stop.\<close>

primrec iter_list :: "'s callback \<Rightarrow> addr list \<Rightarrow> 's \<Rightarrow> 's result" where
  "iter_list callback [] s = Inr s"
| "iter_list callback (x # xs) s =
     bindE (callback x s) (\<lambda>(r, s). if r \<noteq> 0 then Inr s else iter_list callback xs s)"

lemma nodes_ok_Cons:
  "nodes_ok (x # xs) \<longleftrightarrow> mapped x \<and> unat x + 12 \<le> 2 ^ 32 \<and> (\<forall>y \<in> set xs. sep x 12 y 12) \<and> nodes_ok xs"
  by (auto simp: nodes_ok_def)

lemma sep_irrefl: "0 < n \<Longrightarrow> \<not> sep p n p n"
  by (simp add: sep_def)

lemma nodes_ok_distinct: "nodes_ok xs \<Longrightarrow> distinct xs"
  by (induction xs) (auto simp: nodes_ok_Cons sep_irrefl)

lemma links_cong:
  assumes "\<forall>u \<in> set (x # ys). node_next m' u = node_next m u" and "\<forall>u \<in> set (ys @ [z]). node_prev m' u = node_prev m u"
  shows "links m' x ys z = links m x ys z"
  using assms by (induction ys arbitrary: x) auto

section \<open>Iteration\<close>

lemma list_iter_loop_spec:
  assumes keep: "\<forall>u \<in> set (x # ys). \<forall>s s'. callback u s = Inr (0, s') \<longrightarrow>
      (\<forall>v \<in> set (x # ys). node_next (get_mem s') v = node_next (get_mem s) v)"
    and next_ok: "links m x ys head" "\<forall>u \<in> set (x # ys). node_next (get_mem s) u = node_next m u"
    and ok: "\<forall>u \<in> set (x # ys). mapped u" "head \<notin> set ys"
  shows "list_iter_loop get_mem callback head x s = Some (iter_list callback (x # ys) s)"
  using assms
proof (induction ys arbitrary: x s)
  case Nil
  then have x: "mapped x" "x \<noteq> 0" by (auto intro: mapped_nonzero)
  show ?case
  proof (cases "callback x s")
    case (Inr a)
    obtain r s' where a: "a = (r, s')" by (cases a)
    have "r = 0 \<Longrightarrow> node_next (get_mem s') x = head" using Nil.prems Inr a by fastforce
    then show ?thesis using x Inr a by (subst list_iter_loop.simps) simp
  qed (use x in \<open>subst list_iter_loop.simps, simp\<close>)
next
  case (Cons y ys)
  then have x: "mapped x" "x \<noteq> 0" "mapped y" "y \<noteq> 0" "y \<noteq> head" by (auto intro: mapped_nonzero)
  show ?case
  proof (cases "callback x s")
    case (Inr a)
    obtain r s' where a: "a = (r, s')" by (cases a)
    show ?thesis
    proof (cases "r = 0")
      case True
      have st: "\<forall>v \<in> set (x # y # ys). node_next (get_mem s') v = node_next (get_mem s) v"
        using Cons.prems(1) Inr a True by simp
      have nx: "node_next (get_mem s') x = y" using st Cons.prems(2,3) by simp
      have "list_iter_loop get_mem callback head y s' = Some (iter_list callback (y # ys) s')"
      proof (rule Cons.IH)
        show "\<forall>u \<in> set (y # ys). \<forall>s s'. callback u s = Inr (0, s') \<longrightarrow>
            (\<forall>v \<in> set (y # ys). node_next (get_mem s') v = node_next (get_mem s) v)"
          using Cons.prems(1) by (meson list.set_intros(2))
        show "\<forall>u \<in> set (y # ys). node_next (get_mem s') u = node_next m u" using st Cons.prems(3) by simp
      qed (use Cons.prems in auto)
      then show ?thesis using x nx Inr a True by (subst list_iter_loop.simps) (simp add: Let_def)
    qed (use x Inr a in \<open>subst list_iter_loop.simps, simp\<close>)
  qed (use x in \<open>subst list_iter_loop.simps, simp\<close>)
qed

lemma list_iter_spec:
  assumes dll: "dll (mem s) xs" and head: "head = (case xs of [] \<Rightarrow> 0 | x # _ \<Rightarrow> x)"
    and keep: "\<forall>u \<in> set xs. \<forall>s s'. callback u s = Inr (0, s') \<longrightarrow>
      (\<forall>v \<in> set xs. node_next (mem s') v = node_next (mem s) v)"
  shows "list_iter head callback s = iter_list callback xs s"
proof (cases xs)
  case (Cons x ys)
  have ok: "nodes_ok (x # ys)" and l: "links (mem s) x ys x" using dll Cons by (simp_all add: dll_def)
  have "x \<notin> set ys" using nodes_ok_distinct [OF ok] by simp
  moreover have "\<forall>u \<in> set (x # ys). mapped u" using ok by (auto simp: nodes_ok_def)
  moreover have "x \<noteq> 0" using ok by (auto simp: nodes_ok_Cons)
  ultimately show ?thesis
    using list_iter_loop_spec [of x ys callback mem "mem s" x s] keep l head Cons by (simp add: list_iter_def)
qed (use head in \<open>simp add: list_iter_def\<close>)

section \<open>Insertion\<close>

text \<open>What the heap guarantees about the node that \<open>list_insert\<close> allocates.\<close>

definition fresh_node :: "memory \<Rightarrow> memory \<Rightarrow> addr \<Rightarrow> addr \<Rightarrow> addr list \<Rightarrow> bool" where
  "fresh_node m m1 p h xs \<longleftrightarrow> mapped p \<and> unat p + 12 \<le> 2 ^ 32 \<and> sep h 4 p 12 \<and> (\<forall>x \<in> set xs. sep p 12 x 12)
     \<and> (\<forall>a \<in> block h 4 \<union> (\<Union>x \<in> set xs. block x 12). m1 a = m a)"

lemma list_at_frame:
  assumes "list_at m h xs" and "\<forall>a \<in> block h 4 \<union> (\<Union>x \<in> set xs. block x 12). m1 a = m a"
  shows "list_at m1 h xs"
proof -
  have "load32 m1 h = load32 m h"
    by (rule load32_same_on [of "block h 4"]) (use assms in \<open>auto simp: same_on_def list_at_def\<close>)
  moreover have fld: "load32 m1 (x + j) = load32 m (x + j)" if "x \<in> set xs" "unat j + 4 \<le> 12" for x j
  proof (rule load32_same_on [of "block x 12"])
    show "same_on (block x 12) m m1" using assms(2) that by (auto simp: same_on_def)
    have x: "unat x + 12 \<le> 2 ^ 32" using assms(1) that by (auto simp: list_at_def dll_def nodes_ok_def)
    show "block (x + j) 4 \<subseteq> block x 12" "unat (x + j) + 4 \<le> 2 ^ 32"
      using x that(2) by (auto simp: mem_block_iff unat_add_word)
  qed
  have "dll m1 xs"
  proof (cases xs)
    case (Cons x ys)
    have "links m1 x ys x = links m x ys x"
      by (rule links_cong) (use fld [of _ 0] fld [of _ 4] Cons in auto)
    then show ?thesis using assms(1) Cons by (simp add: list_at_def dll_def)
  qed (simp add: dll_def nodes_ok_def)
  ultimately show ?thesis using assms(1) by (simp add: list_at_def)
qed

text \<open>The ring after an insertion behind the head.\<close>

definition inserted :: "addr \<Rightarrow> addr list \<Rightarrow> addr list" where
  "inserted p xs = (case xs of [] \<Rightarrow> [p] | a # ys \<Rightarrow> a # p # ys)"

lemma set_inserted [simp]: "set (inserted p xs) = insert p (set xs)"
  by (auto simp: inserted_def split: list.splits)

lemma insert_empty:
  assumes kb: "kmalloc 12 s = Inr (p, s1)" and at: "list_at (mem s1) h []" and fr: "fresh_node m (mem s1) p h []"
  shows "\<exists>m'. list_insert h data s = Inr (p, s1\<lparr>mem := m'\<rparr>) \<and> list_at m' h [p] \<and> node_data m' p = data
    \<and> same_off (block h 4 \<union> block p 12) (mem s1) m'"
proof -
  have f: "mapped p" "unat p + 12 \<le> 2 ^ 32" "sep h 4 p 12" "mapped h" "h \<noteq> 0" "load32 (mem s1) h = 0"
    using at fr by (auto simp: fresh_node_def list_at_def)
  note ap = apart_sep [OF f(3), where i = 0, simplified] apart_sep0 [OF f(3)] apart_sym
  let ?m = "store32 (store32 (store32 (store32 (store32 (store32 (mem s1) (p + 8) data) p 0) (p + 4) 0) p p) (p + 4) p) h p"
  have aps: "apart (p + 8) h" "apart p h" "apart (p + 4) h" "apart h (p + 8)" "apart h p" "apart h (p + 4)"
    using apart_sep0(1) [OF f(3)] apart_sep0(2) [OF f(3), of 4] apart_sep0(2) [OF f(3), of 8] by (auto intro: apart_sym)
  have "list_insert h data s = Inr (p, s1\<lparr>mem := ?m\<rparr>)"
    using kb f aps by (simp add: list_insert_def Let_def load32_store32_apart)
  moreover have "list_at ?m h [p]"
    using at f aps by (simp add: list_at_def dll_def nodes_ok_def load32_store32_apart)
  moreover have "node_data ?m p = data" using aps by (simp add: load32_store32_apart)
  moreover have "same_off (block h 4 \<union> block p 12) (mem s1) ?m"
    using f(2) f(3) by (intro same_off_store32 same_off_refl) (auto simp: mem_block_iff unat_add_word sep_def)
  ultimately show ?thesis by blast
qed

text \<open>Two cells that \<open>list_insert\<close> reads or writes overlap only when they are the same.\<close>

lemma ring_apart:
  assumes "list_at m h xs" and "fresh_node m0 m p h xs" and "x \<in> set xs" and "unat i + 4 \<le> 12" and "unat j + 4 \<le> 12"
  shows "apart (p + i) (x + j)" "apart (x + j) (p + i)" "apart h (x + j)" "apart (x + j) h" "apart h (p + i)" "apart (p + i) h"
    and "y \<in> set xs \<Longrightarrow> x \<noteq> y \<Longrightarrow> apart (x + i) (y + j)"
proof -
  have sp: "sep p 12 x 12" "sep h 4 x 12" "sep h 4 p 12" and ok: "nodes_ok xs"
    using assms(1-3) by (auto simp: fresh_node_def list_at_def dll_def split: list.splits)
  show "apart (p + i) (x + j)" "apart (x + j) (p + i)" using apart_sep [OF sp(1)] assms(4,5) apart_sym by blast+
  show "apart h (x + j)" "apart (x + j) h" using apart_sep [OF sp(2), of 0 j] assms(5) apart_sym by auto
  show "apart h (p + i)" "apart (p + i) h" using apart_sep [OF sp(3), of 0 i] assms(4) apart_sym by auto
  assume y: "y \<in> set xs" "x \<noteq> y"
  have "sep x 12 y 12 \<or> sep y 12 x 12"
    using ok assms(3) y unfolding nodes_ok_def sorted_wrt_iff_nth_less by (metis in_set_conv_nth linorder_neqE_nat)
  then show "apart (x + i) (y + j)" using assms(4,5) apart_sep apart_sym by blast
qed

text \<open>The stores of an insertion behind \<open>a\<close>, whose successor was \<open>n\<close>, and the fields afterwards.\<close>

definition spliced :: "memory \<Rightarrow> addr \<Rightarrow> addr \<Rightarrow> addr \<Rightarrow> addr \<Rightarrow> memory" where
  "spliced m p a n data =
     (let m3 = store32 (store32 (store32 m (p + 8) data) p 0) (p + 4) 0
      in store32 (store32 (store32 (store32 m3 (p + 4) n) p a) n p) (a + 4) p)"

lemma splice_fields:
  assumes at: "list_at m h xs" and fr: "fresh_node m0 m p h xs" and a: "a \<in> set xs" and n: "n \<in> set xs"
  shows "load32 (spliced m p a n data) h = load32 m h"
    and "node_data (spliced m p a n data) p = data" "node_prev (spliced m p a n data) p = a" "node_next (spliced m p a n data) p = n"
    and "u \<in> set xs \<Longrightarrow> node_next (spliced m p a n data) u = (if u = a then p else node_next m u)"
    and "u \<in> set xs \<Longrightarrow> node_prev (spliced m p a n data) u = (if u = n then p else node_prev m u)"
    and "u \<in> set xs \<Longrightarrow> node_data (spliced m p a n data) u = node_data m u"
proof -
  note ap = ring_apart [OF at fr]
  have p: "apart (p + i) (x + j)" "apart (x + j) (p + i)" if "x \<in> set xs" "i \<in> {0, 4, 8}" "j \<in> {0, 4, 8}" for x i j
    using ap(1,2) [OF that(1), of i j] that(2,3) by auto
  note c = p [where i = 0, simplified] p [where j = 0, simplified] p [where i = 0 and j = 0, simplified] p
  have h: "apart n h" "apart (a + 4) h" "apart p h" "apart (p + 4) h" "apart (p + 8) h"
    using ap(4) [OF n, of 0 0] ap(4) [OF a, of 0 4] ap(6) [OF a, of 0 0] ap(6) [OF a, of 4 0] ap(6) [OF a, of 8 0] by simp_all
  show "load32 (spliced m p a n data) h = load32 m h" by (simp add: spliced_def load32_store32_apart h)
  show "node_data (spliced m p a n data) p = data" "node_prev (spliced m p a n data) p = a" "node_next (spliced m p a n data) p = n"
    using a n by (simp_all add: spliced_def load32_store32_apart c)
  assume u: "u \<in> set xs"
  have na: "apart n (u + 4)" "apart n (u + 8)" "apart (a + 4) u" "apart (a + 4) (u + 8)"
    using ap(7) [OF n, of 0 4 u] ap(7) [OF n, of 0 8 u] ap(7) [OF a, of 4 0 u] ap(7) [OF a, of 4 8 u] u
    by (cases "u = n"; simp; fail | cases "u = a"; simp)+
  show "node_next (spliced m p a n data) u = (if u = a then p else node_next m u)"
    using u ap(7) [OF a, of 4 4 u] by (simp add: spliced_def load32_store32_apart c na)
  show "node_prev (spliced m p a n data) u = (if u = n then p else node_prev m u)"
    using u ap(7) [OF n, of 0 0 u] by (simp add: spliced_def load32_store32_apart c na)
  show "node_data (spliced m p a n data) u = node_data m u"
    using u by (simp add: spliced_def load32_store32_apart c na)
qed

lemma splice_links:
  assumes at: "list_at m h (a # ys)" and fr: "fresh_node m0 m p h (a # ys)" and n: "n = (case ys of [] \<Rightarrow> a | y # _ \<Rightarrow> y)"
  shows "links (spliced m p a n data) a (p # ys) a"
proof -
  let ?m = "spliced m p a n data"
  have nin: "n \<in> set (a # ys)" by (auto simp: n split: list.splits)
  note f = splice_fields [OF at fr _ nin, where a = a and data = data, simplified]
  have l: "links m a ys a" and ok: "nodes_ok (a # ys)" using at by (simp_all add: list_at_def dll_def)
  have dist: "distinct (a # ys)" by (rule nodes_ok_distinct [OF ok])
  have "links ?m p ys a"
  proof (cases ys)
    case Nil
    then show ?thesis using f(4) f(6) [of a] n by simp
  next
    case (Cons y zs)
    have "links ?m y zs a = links m y zs a"
      by (rule links_cong) (use f(5,6) dist Cons n in \<open>auto simp del: links.simps\<close>)
    then show ?thesis using Cons l n f(4) f(6) [of y] by simp
  qed
  then show ?thesis using f(3) f(5) [of a] by simp
qed

lemma splice_same_off:
  assumes "unat p + 12 \<le> 2 ^ 32" and "unat a + 12 \<le> 2 ^ 32" and "unat n + 12 \<le> 2 ^ 32"
  shows "same_off (block p 12 \<union> block a 12 \<union> block n 12) m (spliced m p a n data)"
proof -
  have b: "block (x + j) 4 \<subseteq> block x 12" "unat (x + j) + 4 \<le> 2 ^ 32" if "unat x + 12 \<le> 2 ^ 32" "unat j + 4 \<le> 12" for x j :: addr
    using that by (auto simp: mem_block_iff unat_add_word)
  note bp = b [OF assms(1)] and ba = b [OF assms(2)] and bn = b [OF assms(3)]
  show ?thesis unfolding spliced_def Let_def
    using bp [of 0] bp [of 4] bp [of 8] ba [of 4] bn [of 0] by (intro same_off_store32 same_off_refl) auto
qed

lemma insert_nonempty:
  assumes kb: "kmalloc 12 s = Inr (p, s1)" and at: "list_at (mem s1) h (a # ys)" and fr: "fresh_node m (mem s1) p h (a # ys)"
  shows "\<exists>m'. list_insert h data s = Inr (p, s1\<lparr>mem := m'\<rparr>) \<and> list_at m' h (a # p # ys) \<and> node_data m' p = data
    \<and> (\<forall>x \<in> set (a # ys). node_data m' x = node_data (mem s1) x)
    \<and> same_off (block h 4 \<union> block p 12 \<union> (\<Union>x \<in> set (a # ys). block x 12)) (mem s1) m'"
proof -
  define n where "n = (case ys of [] \<Rightarrow> a | y # _ \<Rightarrow> y)"
  let ?m = "spliced (mem s1) p a n data"
  have nin: "n \<in> set (a # ys)" by (auto simp: n_def split: list.splits)
  note sf = splice_fields [OF at fr _ nin, where a = a and data = data, simplified]
  have f: "mapped p" "unat p + 12 \<le> 2 ^ 32" "sep h 4 p 12" "mapped h" "h \<noteq> 0" "load32 (mem s1) h = a"
    "nodes_ok (a # ys)" "load32 (mem s1) (a + 4) = n" "\<forall>x \<in> set (a # ys). sep p 12 x 12"
    using at fr by (auto simp: fresh_node_def list_at_def dll_def n_def split: list.splits)
  have nd: "mapped x" "x \<noteq> 0" "unat x + 12 \<le> 2 ^ 32" if "x \<in> set (a # ys)" for x
    using f(7) that by (auto simp: nodes_ok_def intro: mapped_nonzero)
  note ap = ring_apart [OF at fr]
  have "list_insert h data s = Inr (p, s1\<lparr>mem := ?m\<rparr>)"
    using kb f nd [of a] nd [OF nin] ap(6) [of a 0 0] ap(6) [of a 4 0] ap(6) [of a 8 0]
      ap(1) [of a 0 4] ap(1) [of a 4 4] ap(1) [of a 8 4] ap(4) [OF nin, of 0 0]
    by (simp add: list_insert_def Let_def load32_store32_apart spliced_def)
  moreover have "list_at ?m h (a # p # ys)"
    using at f splice_links [OF at fr n_def, of data] sf(1) sep_sym by (auto simp: list_at_def dll_def nodes_ok_Cons)
  moreover have "same_off (block h 4 \<union> block p 12 \<union> (\<Union>x \<in> set (a # ys). block x 12)) (mem s1) ?m"
    using splice_same_off [OF f(2) nd(3) [of a] nd(3) [OF nin]] by (rule same_off_mono) (use nin in auto)
  ultimately show ?thesis using sf(2,7) by auto
qed

text \<open>The memory a list occupies.\<close>

definition list_area :: "addr \<Rightarrow> addr list \<Rightarrow> addr set" where
  "list_area h xs = block h 4 \<union> (\<Union>x \<in> set xs. block x 12)"

lemma node_data_same_on:
  assumes "list_at m h xs" and "same_on (list_area h xs) m m'" and "x \<in> set xs"
  shows "node_data m' x = node_data m x"
proof (rule load32_same_on [OF assms(2)])
  have "unat x + 12 \<le> 2 ^ 32" using assms(1,3) by (auto simp: list_at_def dll_def nodes_ok_def)
  then show "block (x + 8) 4 \<subseteq> list_area h xs" "unat (x + 8) + 4 \<le> 2 ^ 32"
    using assms(3) by (auto simp: list_area_def mem_block_iff unat_add_word)
qed

lemma list_insert_heap:
  assumes inv: "heap_inv s A" and pl: "0 < pages_left s" and at: "list_at (mem s) h xs" and out: "list_area h xs \<inter> A = {}"
  shows "\<exists>p s' A'. list_insert h data s = Inr (p, s') \<and> list_at (mem s') h (inserted p xs) \<and> node_data (mem s') p = data
    \<and> (\<forall>x \<in> set xs. node_data (mem s') x = node_data (mem s) x)
    \<and> heap_inv s' A' \<and> list_area h (inserted p xs) \<inter> A' = {} \<and> A' \<subseteq> A \<and> pages_left s \<le> Suc (pages_left s')
    \<and> same_off (A \<union> list_area h xs) (mem s) (mem s') \<and> block p 12 \<subseteq> A"
proof -
  have lt: "unat (12 :: u32) < 1024" by simp
  obtain p s1 A1 where k: "kmalloc 12 s = Inr (p, s1)" "mapped p" "block p (Suc (unat (12 :: u32))) \<subseteq> A"
    "same_off A (mem s) (mem s1)" "heap_inv s1 A1" "A1 \<subseteq> A - block p (Suc (unat (12 :: u32)))"
    "pages_left s \<le> Suc (pages_left s1)" "unat p + Suc (unat (12 :: u32)) \<le> 2 ^ 32"
    using kmalloc_cases [OF inv lt] pl by (elim disjE exE conjE) simp_all
  have b: "block p 12 \<subseteq> block p (Suc (unat (12 :: u32)))" by (rule block_mono) simp_all
  have keep: "\<forall>a \<in> list_area h xs. mem s1 a = mem s a" using k(4) out by (auto simp: same_off_def)
  have dj: "list_area h xs \<inter> block p 12 = {}" using out k(3) b by blast
  have "sep p 12 x 12" if "x \<in> set xs" for x
    using that at k(8) dj by (intro sep_disjoint) (auto simp: list_at_def dll_def nodes_ok_def list_area_def)
  moreover have "sep h 4 p 12"
    using at k(8) dj by (intro sep_disjoint) (auto simp: list_at_def list_area_def)
  ultimately have fr: "fresh_node (mem s) (mem s1) p h xs"
    using k(2,8) keep by (simp add: fresh_node_def list_area_def)
  have at1: "list_at (mem s1) h xs" using list_at_frame [OF at] keep by (simp add: list_area_def)
  have on: "same_on (list_area h xs) (mem s) (mem s1)" using keep unfolding same_on_def .
  have keep_data: "node_data (mem s1) x = node_data (mem s) x" if "x \<in> set xs" for x
    by (rule node_data_same_on [OF at on that])
  obtain m' where m': "list_insert h data s = Inr (p, s1\<lparr>mem := m'\<rparr>)" "list_at m' h (inserted p xs)"
    "node_data m' p = data" "\<forall>x \<in> set xs. node_data m' x = node_data (mem s1) x" "same_off (block h 4 \<union> block p 12 \<union> (\<Union>x \<in> set xs. block x 12)) (mem s1) m'"
  proof (cases xs)
    case Nil
    then show ?thesis using insert_empty [OF k(1), of h "mem s" data] at1 fr that by (auto simp: inserted_def)
  next
    case (Cons a ys)
    then show ?thesis using insert_nonempty [OF k(1), of h a ys "mem s" data] at1 fr that by (auto simp: inserted_def)
  qed
  have "list_area h (inserted p xs) \<inter> A1 = {}"
    using out k(6) b by (auto simp: list_area_def)
  moreover have "same_on A1 (mem s1) m'"
    using m'(5) by (rule same_off_on) (use out k(6) b in \<open>auto simp: list_area_def\<close>)
  then have inv': "heap_inv (s1\<lparr>mem := m'\<rparr>) A1" using k(5) by (intro heap_inv_frame)
  moreover have "pages_left s \<le> Suc (pages_left (s1\<lparr>mem := m'\<rparr>))"
    using pages_left_frame [OF k(5) \<open>same_on A1 (mem s1) m'\<close>] k(7) by simp
  moreover have "same_off (A \<union> list_area h xs) (mem s) m'"
    by (rule same_off_trans [OF same_off_mono [OF k(4)] same_off_mono [OF m'(5)]]) (use k(3) b in \<open>auto simp: list_area_def\<close>)
  moreover have "block p 12 \<subseteq> A" using k(3) b by blast
  ultimately show ?thesis
    using m'(1,2,3,4) keep_data k(6) by (intro exI [of _ p] exI [of _ "s1\<lparr>mem := m'\<rparr>"] exI [of _ A1]) auto
qed

section \<open>Properties of the list library\<close>

text \<open>
  C36: \<open>list_insert\<close> on an intact heap keeps a well-formed circular list well formed: the new node
  comes right behind the head (or becomes the only node), holds the data pointer, every other
  node keeps its place and data, and neither the heap nor the list is disturbed by the other.
\<close>

theorem list_insert_correct:
  assumes "heap_inv s A" and "0 < pages_left s" and "list_at (mem s) h xs" and "list_area h xs \<inter> A = {}"
  shows "\<exists>p s' A'. list_insert h data s = Inr (p, s') \<and> list_at (mem s') h (inserted p xs) \<and> node_data (mem s') p = data
    \<and> (\<forall>x \<in> set xs. node_data (mem s') x = node_data (mem s) x)
    \<and> heap_inv s' A' \<and> list_area h (inserted p xs) \<inter> A' = {}"
  using list_insert_heap [OF assms] by blast

theorem list_insert_correct_witness:
  "\<exists>s p s'. slab_init boot_slab = Inr s \<and> list_insert 0xc0000800 7 (s\<lparr>mem := store32 (mem s) 0xc0000800 0\<rparr>) = Inr (p, s')
     \<and> list_at (mem s') 0xc0000800 [p]"
proof -
  obtain s A where s: "slab_init boot_slab = Inr s" "heap_inv (s\<lparr>mem := store32 (mem s) 0xc0000800 0\<rparr>) A"
    "0 < pages_left (s\<lparr>mem := store32 (mem s) 0xc0000800 0\<rparr>)" "list_area 0xc0000800 [] \<inter> A = {}"
    using boot_cell by (fastforce simp: list_area_def)
  have "list_at (store32 (mem s) 0xc0000800 0) 0xc0000800 []"
    by (simp add: list_at_def dll_def nodes_ok_def mapped_def)
  then show ?thesis
    using list_insert_correct [OF s(2,3) _ s(4), of 7] s(1) by (fastforce simp: inserted_def)
qed

text \<open>
  C15: \<open>list_iter\<close> on a well-formed list always terminates and behaves exactly like running the
  callback over the nodes in ring order, each once, until it returns non-zero or faults, for
  every callback that leaves the \<open>next\<close> pointers of the list alone.
\<close>

theorem list_iter_visits_ring:
  assumes "list_at (mem s) h xs"
    and "\<forall>u \<in> set xs. \<forall>s r s'. callback u s = Inr (r, s') \<longrightarrow>
      (\<forall>v \<in> set xs. node_next (mem s') v = node_next (mem s) v)"
  shows "list_iter (load32 (mem s) h) callback s = iter_list callback xs s"
  using assms by (intro list_iter_spec) (simp_all add: list_at_def)

text \<open>Two nodes at 0xc0001000 and 0xc0001010, and a callback that traces the data of each node.\<close>

definition two_nodes :: memory where
  "two_nodes = store32 (store32 (store32 (store32 (store32 (store32 (store32 (\<lambda>_. 0) 0xc0000800 0xc0001000)
     0xc0001000 0xc0001010) 0xc0001004 0xc0001010) 0xc0001008 5) 0xc0001010 0xc0001000) 0xc0001014 0xc0001000) 0xc0001018 6"

definition trace_node :: "machine callback" where
  "trace_node p s = Inr (0, event (Mmio_Read p (node_data (mem s) p)) s)"

theorem list_iter_visits_ring_witness:
  "list_iter 0xc0001000 trace_node \<lparr>mem = two_nodes, io = []\<rparr>
   = Inr \<lparr>mem = two_nodes, io = [Mmio_Read 0xc0001010 6, Mmio_Read 0xc0001000 5]\<rparr>"
proof -
  let ?s = "\<lparr>mem = two_nodes, io = []\<rparr>"
  have "list_at (mem ?s) 0xc0000800 [0xc0001000, 0xc0001010]"
    by (simp add: list_at_def dll_def nodes_ok_def two_nodes_def sep_def mapped_def load32_store32_apart)
  moreover have "load32 two_nodes 0xc0000800 = 0xc0001000" "load32 two_nodes 0xc0001008 = 5" "load32 two_nodes 0xc0001018 = 6"
    by (simp_all add: two_nodes_def load32_store32_apart)
  ultimately show ?thesis
    using list_iter_visits_ring [of ?s "0xc0000800" "[0xc0001000, 0xc0001010]" trace_node]
    by (simp add: trace_node_def event_def)
qed

end
