(* ===== verification/Registry.thy ===== *)
theory Registry
  imports Prelude
begin

text \<open>
  What the device and file system layers expect of the tree they keep their drivers in: a finite
  map from ids to data pointers, where a lookup of an unregistered id gives a null pointer. The
  representation \<open>'t\<close> is the provider's; \<open>fits\<close> is the provider's condition for adding an id.
\<close>

locale registry =
  fixes add :: "addr \<Rightarrow> u32 \<Rightarrow> 's \<Rightarrow> 's result" and lookup :: "'s \<Rightarrow> u32 \<Rightarrow> addr result"
    and rep :: "'s \<Rightarrow> 't \<Rightarrow> bool" and abs :: "'t \<Rightarrow> u32 \<rightharpoonup> addr" and fits :: "'s \<Rightarrow> 't \<Rightarrow> u32 \<Rightarrow> bool"
  assumes lookup_law: "rep s t \<Longrightarrow> lookup s k = Inr (case abs t k of None \<Rightarrow> 0 | Some d \<Rightarrow> d)"
    and add_law: "rep s t \<Longrightarrow> abs t k = None \<Longrightarrow> fits s t k \<Longrightarrow>
      \<exists>s' t'. add d k s = Inr s' \<and> rep s' t' \<and> abs t' = (abs t)(k \<mapsto> d)"
begin

lemma add_then_lookup:
  assumes "rep s t" and "abs t k = None" and "fits s t k"
  shows "\<exists>s'. add d k s = Inr s' \<and> lookup s' k = Inr d \<and> (\<forall>j. j \<noteq> k \<longrightarrow> lookup s' j = lookup s j)"
proof -
  obtain s' t' where a: "add d k s = Inr s'" "rep s' t'" "abs t' = (abs t)(k \<mapsto> d)"
    using add_law [OF assms] by blast
  then show ?thesis using lookup_law [OF assms(1)] lookup_law [OF a(2)] by simp
qed

end

end
