(* ===== verification/Lib_Bst.thy ===== *)
theory Lib_Bst
  imports Mm_Slab_Alloc Registry
begin

text \<open>
  \<open>lib/bst.c\<close>: height-balanced search trees, keyed by an unsigned id, that the device and file
  system registries use. A node (\<open>bst_node_t\<close>) has \<open>parent\<close>, \<open>child1\<close>, \<open>child2\<close>, \<open>id\<close>, \<open>data\<close> and
  \<open>height\<close> at offsets 0, 4, 8, 12, 16 and 20; an operation takes the address of the cell that
  holds the root pointer. The recursions follow pointers and are \<open>partial_function (option)\<close>;
  \<open>tree_at\<close> relates the memory to a tree of node addresses.
\<close>

abbreviation (input) bst_parent :: "memory \<Rightarrow> addr \<Rightarrow> addr" where "bst_parent m p \<equiv> load32 m p"
abbreviation (input) bst_child1 :: "memory \<Rightarrow> addr \<Rightarrow> addr" where "bst_child1 m p \<equiv> load32 m (p + 4)"
abbreviation (input) bst_child2 :: "memory \<Rightarrow> addr \<Rightarrow> addr" where "bst_child2 m p \<equiv> load32 m (p + 8)"
abbreviation (input) bst_id :: "memory \<Rightarrow> addr \<Rightarrow> u32" where "bst_id m p \<equiv> load32 m (p + 12)"
abbreviation (input) bst_data :: "memory \<Rightarrow> addr \<Rightarrow> addr" where "bst_data m p \<equiv> load32 m (p + 16)"
abbreviation (input) bst_height :: "memory \<Rightarrow> addr \<Rightarrow> u32" where "bst_height m p \<equiv> load32 m (p + 20)"

section \<open>Operations\<close>

definition height :: "memory \<Rightarrow> addr \<Rightarrow> int result" where
  "height m node = (if node = 0 then Inr (- 1) else deref node (Inr (sint (bst_height m node))))"

definition balance_factor :: "memory \<Rightarrow> addr \<Rightarrow> int result" where
  "balance_factor m node =
     (if node = 0 then Inr 0
      else deref node
       (bindE (height m (bst_child1 m node)) (\<lambda>h1.
        bindE (height m (bst_child2 m node)) (\<lambda>h2. Inr (h1 - h2)))))"

text \<open>\<open>node->height = MAX(height(node->child1), height(node->child2)) + 1\<close>\<close>

definition update_height :: "addr \<Rightarrow> memory \<Rightarrow> memory result" where
  "update_height node m =
     bindE (height m (bst_child1 m node)) (\<lambda>h1.
     bindE (height m (bst_child2 m node)) (\<lambda>h2.
       Inr (store32 m (node + 20) (of_int (max h1 h2 + 1)))))"

definition rotate_right :: "addr \<Rightarrow> memory \<Rightarrow> (addr \<times> memory) result" where
  "rotate_right y m = deref y
    (let x = bst_child1 m y in deref x
     (let T2 = bst_child2 m x;
          m = store32 m (x + 8) y;
          m = store32 m (y + 4) T2
      in bindE (update_height y m) (\<lambda>m.
         bindE (update_height x m) (\<lambda>m. Inr (x, m)))))"

definition rotate_left :: "addr \<Rightarrow> memory \<Rightarrow> (addr \<times> memory) result" where
  "rotate_left x m = deref x
    (let y = bst_child2 m x in deref y
     (let T2 = bst_child1 m y;
          m = store32 m (y + 4) x;
          m = store32 m (x + 8) T2
      in bindE (update_height x m) (\<lambda>m.
         bindE (update_height y m) (\<lambda>m. Inr (y, m)))))"

definition balance :: "addr \<Rightarrow> memory \<Rightarrow> (addr \<times> memory) result" where
  "balance node m =
     bindE (balance_factor m node) (\<lambda>b.
       if 1 < b then
         bindE (balance_factor m (bst_child1 m node)) (\<lambda>c.
         bindE
          (if c < 0 then
             bindE (rotate_left (bst_child1 m node) m) (\<lambda>(x, m). Inr (store32 m (node + 4) x))
           else Inr m)
          (\<lambda>m. rotate_right node m))
       else if b < - 1 then
         bindE (balance_factor m (bst_child2 m node)) (\<lambda>c.
         bindE
          (if 0 < c then
             bindE (rotate_right (bst_child2 m node) m) (\<lambda>(x, m). Inr (store32 m (node + 8) x))
           else Inr m)
          (\<lambda>m. rotate_left node m))
       else Inr (node, m))"

text \<open>The branch of \<open>bst_insert\<close> for an empty subtree.\<close>

definition bst_insert_new :: "addr \<Rightarrow> addr \<Rightarrow> u32 \<Rightarrow> 'a slab_sys_scheme \<Rightarrow> (addr \<times> 'a slab_sys_scheme) result" where
  "bst_insert_new root data key s =
     bindE (kmalloc 24 s) (\<lambda>(node, s).
       let m = store32 (mem s) root node in
       if node = 0 then Inr (0, s\<lparr>mem := m\<rparr>)
       else deref node
         (let m = store32 m (node + 12) key;
              m = store32 m (node + 16) data;
              m = store32 m (node + 20) 0;
              m = store32 m (node + 8) 0;
              m = store32 m (node + 4) 0;
              m = store32 m node 0
          in Inr (node, s\<lparr>mem := m\<rparr>)))"

text \<open>
  The end of \<open>bst_insert\<close>, after the recursive call on the child at offset \<open>off\<close>: set the
  child's parent, update the height, and return what \<open>balance\<close> returns.
\<close>

definition bst_insert_end :: "addr \<Rightarrow> u32 \<Rightarrow> 'a slab_sys_scheme \<Rightarrow> (addr \<times> 'a slab_sys_scheme) result" where
  "bst_insert_end root off s =
     (let r = load32 (mem s) root in deref r
       (let child = load32 (mem s) (r + off) in deref child
         (bindE (update_height r (store32 (mem s) child r)) (\<lambda>m.
          bindE (balance r m) (\<lambda>(node, m). Inr (node, s\<lparr>mem := m\<rparr>))))))"

partial_function (option) bst_insert ::
  "addr \<Rightarrow> addr \<Rightarrow> u32 \<Rightarrow> 'a slab_sys_scheme \<Rightarrow> (addr \<times> 'a slab_sys_scheme) result option" where
  "bst_insert root data key s =
     (if \<not> mapped root then Some (Inl (Page_Fault root))
      else if load32 (mem s) root = 0 then Some (bst_insert_new root data key s)
      else if \<not> mapped (load32 (mem s) root) then Some (Inl (Page_Fault (load32 (mem s) root)))
      else if key < bst_id (mem s) (load32 (mem s) root) then
        Option.bind (bst_insert (load32 (mem s) root + 4) data key s)
          (\<lambda>r. Some (bindE r (\<lambda>(node, s). bst_insert_end root 4 s)))
      else if bst_id (mem s) (load32 (mem s) root) < key then
        Option.bind (bst_insert (load32 (mem s) root + 8) data key s)
          (\<lambda>r. Some (bindE r (\<lambda>(node, s). bst_insert_end root 8 s)))
      else Some (Inr (0, s)))"

partial_function (option) min_value_node :: "memory \<Rightarrow> addr \<Rightarrow> addr result option" where
  "min_value_node m cur =
     (if \<not> mapped cur then Some (Inl (Page_Fault cur))
      else if bst_child1 m cur \<noteq> 0 then min_value_node m (bst_child1 m cur)
      else Some (Inr cur))"

text \<open>\<open>bst_delete\<close> as a function of what \<open>__bst_delete\<close> returned: the data of that node.\<close>

definition node_or_null :: "(addr \<times> 'a slab_sys_scheme) result \<Rightarrow> (addr \<times> 'a slab_sys_scheme) result" where
  "node_or_null r = bindE r (\<lambda>(node, s). if node \<noteq> 0 then deref node (Inr (bst_data (mem s) node, s)) else Inr (0, s))"

text \<open>The end of \<open>__bst_delete\<close>.\<close>

definition bst_delete_end :: "addr \<Rightarrow> 'a slab_sys_scheme \<Rightarrow> (addr \<times> 'a slab_sys_scheme) result" where
  "bst_delete_end root s =
     (let r = load32 (mem s) root in
      if r = 0 then Inr (r, s)
      else deref r
       (bindE (update_height r (mem s)) (\<lambda>m.
        bindE (balance r m) (\<lambda>(node, m). Inr (node, s\<lparr>mem := m\<rparr>)))))"

text \<open>
  \<open>__bst_delete\<close>. The recursive calls go through \<open>bst_delete\<close>, so what is stored in the child
  field is the data pointer of the returned node.
\<close>

partial_function (option) bst_delete_node ::
  "addr \<Rightarrow> u32 \<Rightarrow> 'a slab_sys_scheme \<Rightarrow> (addr \<times> 'a slab_sys_scheme) result option" where
  "bst_delete_node root key s =
     (if \<not> mapped root then Some (Inl (Page_Fault root))
      else if load32 (mem s) root = 0 then Some (Inr (0, s))
      else if \<not> mapped (load32 (mem s) root) then Some (Inl (Page_Fault (load32 (mem s) root)))
      else if key < bst_id (mem s) (load32 (mem s) root) then
        Option.bind (bst_delete_node (load32 (mem s) root + 4) key s)
          (\<lambda>r. Some (bindE (node_or_null r) (\<lambda>(d, s).
             bst_delete_end root (s\<lparr>mem := store32 (mem s) (load32 (mem s) root + 4) d\<rparr>))))
      else if bst_id (mem s) (load32 (mem s) root) < key then
        Option.bind (bst_delete_node (load32 (mem s) root + 8) key s)
          (\<lambda>r. Some (bindE (node_or_null r) (\<lambda>(d, s).
             bst_delete_end root (s\<lparr>mem := store32 (mem s) (load32 (mem s) root + 8) d\<rparr>))))
      else if bst_child1 (mem s) (load32 (mem s) root) = 0 then
        (let temp = bst_child2 (mem s) (load32 (mem s) root) in
         Some (bindE (kfree (load32 (mem s) root) s) (\<lambda>s. bst_delete_end root (s\<lparr>mem := store32 (mem s) root temp\<rparr>))))
      else if bst_child2 (mem s) (load32 (mem s) root) = 0 then
        (let temp = bst_child1 (mem s) (load32 (mem s) root) in
         Some (bindE (kfree (load32 (mem s) root) s) (\<lambda>s. bst_delete_end root (s\<lparr>mem := store32 (mem s) root temp\<rparr>))))
      else
        Option.bind (min_value_node (mem s) (bst_child2 (mem s) (load32 (mem s) root)))
         (\<lambda>w. case w of Inl e \<Rightarrow> Some (Inl e) | Inr temp \<Rightarrow>
             (let s = s\<lparr>mem := store32 (mem s) (load32 (mem s) root + 12) (bst_id (mem s) temp)\<rparr>;
                  s = s\<lparr>mem := store32 (mem s) (load32 (mem s) root + 16) (bst_data (mem s) temp)\<rparr>
              in Option.bind (bst_delete_node (load32 (mem s) root + 8) (bst_id (mem s) temp) s)
                  (\<lambda>r. Some (bindE (node_or_null r) (\<lambda>(d, s).
                     bst_delete_end root (s\<lparr>mem := store32 (mem s) (load32 (mem s) root + 8) d\<rparr>)))))))"

definition bst_delete :: "addr \<Rightarrow> u32 \<Rightarrow> 'a slab_sys_scheme \<Rightarrow> (addr \<times> 'a slab_sys_scheme) result" where
  "bst_delete root key s = node_or_null (returns (bst_delete_node root key s))"

partial_function (option) bst_search_node :: "memory \<Rightarrow> addr \<Rightarrow> u32 \<Rightarrow> addr result option" where
  "bst_search_node m root key =
     (if root = 0 then Some (Inr 0)
      else if \<not> mapped root then Some (Inl (Page_Fault root))
      else if key < bst_id m root then bst_search_node m (bst_child1 m root) key
      else if bst_id m root < key then bst_search_node m (bst_child2 m root) key
      else Some (Inr root))"

definition bst_search :: "memory \<Rightarrow> addr \<Rightarrow> u32 \<Rightarrow> addr result" where
  "bst_search m root key =
     bindE (returns (bst_search_node m root key)) (\<lambda>node. if node \<noteq> 0 then Inr (bst_data m node) else Inr 0)"

section \<open>Trees in memory\<close>

datatype btree = Leaf | Node addr btree u32 addr btree

primrec root_of :: "btree \<Rightarrow> addr" where
  "root_of Leaf = 0"
| "root_of (Node a l i d r) = a"

primrec nodes :: "btree \<Rightarrow> addr list" where
  "nodes Leaf = []"
| "nodes (Node a l i d r) = a # nodes l @ nodes r"

primrec ids :: "btree \<Rightarrow> u32 set" where
  "ids Leaf = {}"
| "ids (Node a l i d r) = insert i (ids l \<union> ids r)"

primrec depth :: "btree \<Rightarrow> int" where
  "depth Leaf = - 1"
| "depth (Node a l i d r) = max (depth l) (depth r) + 1"

primrec ordered :: "btree \<Rightarrow> bool" where
  "ordered Leaf \<longleftrightarrow> True"
| "ordered (Node a l i d r) \<longleftrightarrow> (\<forall>j \<in> ids l. j < i) \<and> (\<forall>j \<in> ids r. i < j) \<and> ordered l \<and> ordered r"

primrec find :: "btree \<Rightarrow> u32 \<Rightarrow> addr option" where
  "find Leaf k = None"
| "find (Node a l i d r) k = (if k < i then find l k else if i < k then find r k else Some d)"

text \<open>Every field of every node, heights included.\<close>

primrec tree_at :: "memory \<Rightarrow> btree \<Rightarrow> bool" where
  "tree_at m Leaf \<longleftrightarrow> True"
| "tree_at m (Node a l i d r) \<longleftrightarrow> bst_child1 m a = root_of l \<and> bst_child2 m a = root_of r \<and> bst_id m a = i
     \<and> bst_data m a = d \<and> bst_height m a = of_int (depth (Node a l i d r)) \<and> tree_at m l \<and> tree_at m r"

definition tnodes_ok :: "addr list \<Rightarrow> bool" where
  "tnodes_ok xs \<longleftrightarrow> (\<forall>x \<in> set xs. mapped x \<and> unat x + 24 \<le> 2 ^ 32) \<and> sorted_wrt (\<lambda>x y. sep x 24 y 24) xs"

text \<open>Plain insertion into a search tree, without rotations, of a new node at \<open>p\<close>.\<close>

primrec tree_insert :: "addr \<Rightarrow> u32 \<Rightarrow> addr \<Rightarrow> btree \<Rightarrow> btree" where
  "tree_insert p k e Leaf = Node p Leaf k e Leaf"
| "tree_insert p k e (Node a l i d r) =
     (if k < i then Node a (tree_insert p k e l) i d r
      else if i < k then Node a l i d (tree_insert p k e r) else Node a l i d r)"

text \<open>No node on the path to \<open>k\<close> is out of balance (the condition under which \<open>balance\<close> rotates).\<close>

primrec path_balanced :: "u32 \<Rightarrow> btree \<Rightarrow> bool" where
  "path_balanced k Leaf \<longleftrightarrow> True"
| "path_balanced k (Node a l i d r) \<longleftrightarrow> \<bar>depth l - depth r\<bar> \<le> 1
     \<and> (if k < i then path_balanced k l else if i < k then path_balanced k r else True)"

section \<open>Search\<close>

lemma tnodes_ok_Cons:
  "tnodes_ok (x # xs) \<longleftrightarrow> mapped x \<and> unat x + 24 \<le> 2 ^ 32 \<and> (\<forall>y \<in> set xs. sep x 24 y 24) \<and> tnodes_ok xs"
  by (auto simp: tnodes_ok_def)

lemma tnodes_ok_append:
  "tnodes_ok (xs @ ys) \<longleftrightarrow> tnodes_ok xs \<and> tnodes_ok ys \<and> (\<forall>x \<in> set xs. \<forall>y \<in> set ys. sep x 24 y 24)"
  by (auto simp: tnodes_ok_def sorted_wrt_append)

lemma bst_search_node_spec:
  "tree_at m t \<Longrightarrow> tnodes_ok (nodes t) \<Longrightarrow>
     \<exists>p. bst_search_node m (root_of t) k = Some (Inr p)
       \<and> (case find t k of None \<Rightarrow> p = 0 | Some d \<Rightarrow> p \<noteq> 0 \<and> bst_data m p = d)"
proof (induction t)
  case Leaf
  show ?case by (subst bst_search_node.simps) simp
next
  case (Node a l i d r)
  have a: "mapped a" "a \<noteq> 0" "tnodes_ok (nodes l)" "tnodes_ok (nodes r)"
    using Node.prems(2) by (auto simp: tnodes_ok_Cons tnodes_ok_append)
  show ?case
    using Node.IH a Node.prems(1) by (subst bst_search_node.simps) auto
qed

lemma bst_search_spec:
  assumes "tree_at m t" and "tnodes_ok (nodes t)"
  shows "bst_search m (root_of t) k = Inr (case find t k of None \<Rightarrow> 0 | Some d \<Rightarrow> d)"
  using bst_search_node_spec [OF assms, of k] by (auto simp: bst_search_def split: option.splits)

lemma find_ids: "ordered t \<Longrightarrow> find t k = None \<longleftrightarrow> k \<notin> ids t"
  by (induction t) auto

section \<open>Insertion without rotation\<close>

lemma depth_bound: "- 1 \<le> depth t \<and> depth t < int (length (nodes t))"
  by (induction t) auto

lemma sint_of_int: "- 1 \<le> x \<Longrightarrow> x < 2 ^ 31 \<Longrightarrow> sint (of_int x :: u32) = x"
  by (simp add: sint_sbintrunc' signed_take_bit_int_eq_self) 

definition tree_area :: "btree \<Rightarrow> addr set" where
  "tree_area t = (\<Union>x \<in> set (nodes t). block x 24)"

lemma tree_area_simps [simp]:
  "tree_area Leaf = {}" "tree_area (Node a l i d r) = block a 24 \<union> tree_area l \<union> tree_area r"
  by (auto simp: tree_area_def)

lemma tree_at_cong:
  assumes "\<forall>x \<in> set (nodes t). \<forall>j \<in> {4, 8, 12, 16, 20}. load32 m' (x + j) = load32 m (x + j)"
  shows "tree_at m' t = tree_at m t"
  using assms by (induction t) auto

lemma field_frame:
  assumes "unat (x :: addr) + 24 \<le> 2 ^ 32" and "unat j + 4 \<le> 24" and "same_on (block x 24) m m'"
  shows "load32 m' (x + j) = load32 m (x + j)"
  by (rule load32_same_on [OF assms(3)]) (use assms(1,2) in \<open>auto simp: mem_block_iff unat_add_word\<close>)

lemma tree_at_frame:
  assumes "tree_at m t" and "tnodes_ok (nodes t)" and "same_on (tree_area t) m m'"
  shows "tree_at m' t"
proof -
  have "load32 m' (x + j) = load32 m (x + j)" if "x \<in> set (nodes t)" "j \<in> {4, 8, 12, 16, 20}" for x j
  proof (rule field_frame)
    show "same_on (block x 24) m m'" using assms(3) by (rule same_on_mono) (use that in \<open>auto simp: tree_area_def\<close>)
    show "unat x + 24 \<le> 2 ^ 32" using assms(2) that by (auto simp: tnodes_ok_def)
    show "unat j + 4 \<le> 24" using that by auto
  qed
  then show ?thesis using tree_at_cong [of t m' m] assms(1) by blast
qed

lemma tnodes_apart:
  assumes "tnodes_ok xs" and "x \<in> set xs" and "y \<in> set xs" and "x \<noteq> y" and "unat i + 4 \<le> 24" and "unat j + 4 \<le> 24"
  shows "apart (x + i) (y + j)"
proof -
  have "sep x 24 y 24 \<or> sep y 24 x 24"
    using assms(1-4) unfolding tnodes_ok_def sorted_wrt_iff_nth_less by (metis in_set_conv_nth linorder_neqE_nat)
  then show ?thesis using assms(5,6) apart_sep apart_sym by blast
qed

lemma tree_at_parent:
  assumes "tree_at m t" and "tnodes_ok (nodes t)" and "x \<in> set (nodes t)"
  shows "tree_at (store32 m x v) t"
proof -
  have "load32 (store32 m x v) (y + j) = load32 m (y + j)" if "y \<in> set (nodes t)" "j \<in> {4, 8, 12, 16, 20}" for y j
  proof (rule load32_store32_apart)
    show "apart x (y + j)"
      using tnodes_apart [OF assms(2,3) that(1), of 0 j] that(2) by (cases "x = y") auto
  qed
  then show ?thesis using tree_at_cong [of t "store32 m x v" m] assms(1) by blast
qed

lemma height_tree:
  assumes "tree_at m t" and "tnodes_ok (nodes t)" and "length (nodes t) < 2 ^ 31"
  shows "height m (root_of t) = Inr (depth t)"
proof (cases "t = Leaf")
  case False
  then have "mapped (root_of t)" "root_of t \<noteq> 0" "bst_height m (root_of t) = of_int (depth t)"
    using assms(1,2) by (cases t; auto simp: tnodes_ok_Cons)+
  moreover have "- 1 \<le> depth t" "depth t < 2 ^ 31" using depth_bound [of t] assms(3) by simp_all
  ultimately show ?thesis by (simp add: height_def sint_of_int)
qed (simp add: height_def)

lemma depth_insert_cong: "depth (tree_insert p k e t) = depth (tree_insert q k e t)"
  by (induction t) auto

lemma path_balanced_cong: "path_balanced k (tree_insert p k e t) = path_balanced k (tree_insert q k e t)"
proof (induction t)
  case (Node a l i d r)
  then show ?case using depth_insert_cong [of p k e l q] depth_insert_cong [of p k e r q] by auto
qed simp

lemma nodes_insert: "k \<notin> ids t \<Longrightarrow> set (nodes (tree_insert p k e t)) = insert p (set (nodes t))"
  and length_nodes_insert: "k \<notin> ids t \<Longrightarrow> length (nodes (tree_insert p k e t)) = Suc (length (nodes t))"
  by (induction t) (auto simp: not_less_iff_gr_or_eq)

lemma root_of_insert: "t \<noteq> Leaf \<Longrightarrow> root_of (tree_insert p k e t) = root_of t"
  by (cases t) auto

lemma tnodes_ok_insert:
  assumes "tnodes_ok (nodes t)" and "mapped p" and "unat p + 24 \<le> 2 ^ 32" and "\<forall>x \<in> set (nodes t). sep p 24 x 24" and "k \<notin> ids t"
  shows "tnodes_ok (nodes (tree_insert p k e t))"
  using assms
proof (induction t)
  case (Node a l i d r)
  have sp: "sep a 24 p 24" "\<And>x. x \<in> set (nodes l) \<union> set (nodes r) \<Longrightarrow> sep x 24 p 24 \<and> sep p 24 x 24"
    using Node.prems(4) sep_sym by auto
  show ?case
    using Node sp by (auto simp: tnodes_ok_Cons tnodes_ok_append nodes_insert)
qed (simp add: tnodes_ok_def)

text \<open>Neither a new parent pointer nor the height of another node changes what a tree holds.\<close>

lemma tree_at_new_parent:
  assumes ok: "tnodes_ok xs" and c: "c \<in> set xs" and u: "tree_at m u" "tnodes_ok (nodes u)" "set (nodes u) \<subseteq> set xs"
  shows "tree_at (store32 m c a) u"
proof (cases "c \<in> set (nodes u)")
  case True
  then show ?thesis using tree_at_parent u by blast
next
  case False
  have "load32 (store32 m c a) (y + j) = load32 m (y + j)" if "y \<in> set (nodes u)" "j \<in> {4, 8, 12, 16, 20}" for y j
  proof (rule load32_store32_apart)
    have y: "y \<in> set xs" "c \<noteq> y" using that(1) False u(3) by auto
    then show "apart c (y + j)" using tnodes_apart [OF ok c y, of 0 j] that(2) by auto
  qed
  then show ?thesis using tree_at_cong [of u "store32 m c a" m] u(1) by blast
qed

lemma tree_at_new_height:
  assumes ok: "tnodes_ok (a # xs)" and u: "tree_at m u" "set (nodes u) \<subseteq> set xs"
  shows "tree_at (store32 m (a + 20) h) u"
proof -
  have "load32 (store32 m (a + 20) h) (y + j) = load32 m (y + j)" if "y \<in> set (nodes u)" "j \<in> {4, 8, 12, 16, 20}" for y j
  proof (rule load32_store32_apart)
    have "sep a 24 y 24" using ok that(1) u(2) by (auto simp: tnodes_ok_Cons)
    then have "a \<noteq> y" by (auto simp: sep_def)
    then show "apart (a + 20) (y + j)" using tnodes_apart [OF ok, of a y 20 j] that u(2) by auto
  qed
  then show ?thesis using tree_at_cong [of u "store32 m (a + 20) h" m] u(1) by blast
qed

text \<open>The end of one level of \<open>bst_insert\<close> when the node stays balanced.\<close>

lemma insert_end_ok:
  assumes cell: "load32 (mem s) root = a" and off: "load32 (mem s) (a + off) = c" "c \<in> set (nodes l @ nodes r)"
    and fld: "bst_child1 (mem s) a = root_of l" "bst_child2 (mem s) a = root_of r" "bst_id (mem s) a = i" "bst_data (mem s) a = d"
    and sub: "tree_at (mem s) l" "tree_at (mem s) r" and ok: "tnodes_ok (a # nodes l @ nodes r)"
    and len: "length (nodes l) + length (nodes r) < 2 ^ 30" and bal: "\<bar>depth l - depth r\<bar> \<le> 1"
  shows "\<exists>m'. bst_insert_end root off s = Inr (a, s\<lparr>mem := m'\<rparr>) \<and> tree_at m' (Node a l i d r)
    \<and> same_off (block a 24 \<union> tree_area l \<union> tree_area r) (mem s) m'"
proof -
  let ?xs = "a # nodes l @ nodes r"
  have okl: "tnodes_ok (nodes l)" "tnodes_ok (nodes r)" and ac: "mapped a" "a \<noteq> 0" "mapped c" "unat a + 24 \<le> 2 ^ 32" "unat c + 24 \<le> 2 ^ 32" "c \<noteq> a"
  proof -
    have sp: "\<forall>y \<in> set (nodes l @ nodes r). sep a 24 y 24" using ok by (simp add: tnodes_ok_Cons)
    show "mapped c" "unat c + 24 \<le> 2 ^ 32" using ok off(2) by (auto simp: tnodes_ok_def)
    have "sep a 24 c 24" using sp off(2) by blast
    then show "c \<noteq> a" by (auto simp: sep_def)
  qed (use ok in \<open>auto simp: tnodes_ok_Cons tnodes_ok_append\<close>)
  let ?m1 = "store32 (mem s) c a"
  have f1: "load32 ?m1 (a + j) = load32 (mem s) (a + j)" if "unat j + 4 \<le> 24" for j
    using tnodes_apart [OF ok _ _ ac(6), of 0 j] off(2) that by (intro load32_store32_apart) simp
  have t1: "tree_at ?m1 l" "tree_at ?m1 r"
    using tree_at_new_parent [OF ok _ sub(1) okl(1)] tree_at_new_parent [OF ok _ sub(2) okl(2)] off(2) by auto
  have hl: "height ?m1 (root_of l) = Inr (depth l)" "height ?m1 (root_of r) = Inr (depth r)"
    using height_tree t1 okl len by auto
  define m2 where "m2 = store32 ?m1 (a + 20) (of_int (max (depth l) (depth r) + 1))"
  have up: "update_height a ?m1 = Inr m2"
    using hl f1 [of 4] f1 [of 8] fld(1,2) by (simp add: update_height_def m2_def)
  have f2: "load32 m2 (a + j) = load32 ?m1 (a + j)" if "apart 20 j" for j
    unfolding m2_def using that by (intro load32_store32_apart) simp
  have t2: "tree_at m2 l" "tree_at m2 r"
    unfolding m2_def using tree_at_new_height [OF ok t1(1)] tree_at_new_height [OF ok t1(2)] by auto
  have h2: "height m2 (root_of l) = Inr (depth l)" "height m2 (root_of r) = Inr (depth r)"
    using height_tree t2 okl len by auto
  have "\<not> depth l - depth r < - 1" "\<not> 1 < depth l - depth r" using bal by linarith+
  then have "balance a m2 = Inr (a, m2)"
    using h2 f2 [of 4] f2 [of 8] f1 [of 4] f1 [of 8] fld(1,2) ac(1,2)
    by (simp add: balance_def balance_factor_def)
  then have "bst_insert_end root off s = Inr (a, s\<lparr>mem := m2\<rparr>)"
    using cell off(1) ac(1,3) up by (simp add: bst_insert_end_def Let_def)
  moreover have "tree_at m2 (Node a l i d r)"
    using t2 f2 [of 4] f2 [of 8] f2 [of 12] f2 [of 16] f1 [of 4] f1 [of 8] f1 [of 12] f1 [of 16] fld by (simp add: m2_def)
  moreover have "same_off (block a 24 \<union> tree_area l \<union> tree_area r) (mem s) m2"
    unfolding m2_def
  proof (intro same_off_store32 same_off_refl)
    show "block c 4 \<subseteq> block a 24 \<union> tree_area l \<union> tree_area r"
      using off(2) by (auto simp: tree_area_def mem_block_iff)
    show "block (a + 20) 4 \<subseteq> block a 24 \<union> tree_area l \<union> tree_area r" "unat (a + 20) + 4 \<le> 2 ^ 32"
      using ac(4) by (auto simp: mem_block_iff unat_add_word)
  qed (use ac(5) in simp)
  ultimately show ?thesis by blast
qed

text \<open>The cell that holds the root pointer, outside the tree and the heap.\<close>

definition root_cell :: "memory \<Rightarrow> addr \<Rightarrow> btree \<Rightarrow> addr set \<Rightarrow> bool" where
  "root_cell m c t A \<longleftrightarrow> mapped c \<and> unat c + 4 \<le> 2 ^ 32 \<and> load32 m c = root_of t
     \<and> block c 4 \<inter> (A \<union> tree_area t) = {}"

lemma insert_new_ok:
  assumes inv: "heap_inv s A" and pl: "0 < pages_left s" and cell: "root_cell (mem s) c Leaf A"
  shows "\<exists>p s' A'. bst_insert_new c e k s = Inr (p, s') \<and> load32 (mem s') c = p \<and> tree_at (mem s') (Node p Leaf k e Leaf)
    \<and> mapped p \<and> unat p + 24 \<le> 2 ^ 32 \<and> block p 24 \<subseteq> A \<and> heap_inv s' A' \<and> A' \<subseteq> A - block p 24
    \<and> same_off (A \<union> block c 4) (mem s) (mem s') \<and> pages_left s \<le> Suc (pages_left s')"
proof -
  have lt: "unat (24 :: u32) < 1024" by simp
  obtain p s1 A1 where q: "kmalloc 24 s = Inr (p, s1)" "mapped p" "block p (Suc (unat (24 :: u32))) \<subseteq> A"
    "same_off A (mem s) (mem s1)" "heap_inv s1 A1" "A1 \<subseteq> A - block p (Suc (unat (24 :: u32)))"
    "pages_left s \<le> Suc (pages_left s1)" "unat p + Suc (unat (24 :: u32)) \<le> 2 ^ 32"
    using kmalloc_cases [OF inv lt] pl by (elim disjE exE conjE) simp_all
  have b: "block p 24 \<subseteq> block p (Suc (unat (24 :: u32)))" by (rule block_mono) simp_all
  have c: "mapped c" "unat c + 4 \<le> 2 ^ 32" "block c 4 \<inter> A = {}" using cell by (auto simp: root_cell_def)
  have "block c 4 \<inter> block p 24 = {}" using c(3) q(3) b by blast
  then have sp: "sep c 4 p 24" using c(2) q(8) by (intro sep_disjoint) simp_all
  have ap: "apart (p + j) c" "apart p c" if "unat j + 4 \<le> 24" for j
    using apart_sep [OF sp, of 0 j] apart_sep [OF sp, of 0 0] that apart_sym by auto
  define m where "m = store32 (store32 (store32 (store32 (store32 (store32 (store32 (mem s1) c p) (p + 12) k)
      (p + 16) e) (p + 20) 0) (p + 8) 0) (p + 4) 0) p 0"
  have ins: "bst_insert_new c e k s = Inr (p, s1\<lparr>mem := m\<rparr>)"
    using q(1,2) mapped_nonzero [OF q(2)] by (simp add: bst_insert_new_def m_def Let_def)
  have so: "same_off (block c 4 \<union> block p 24) (mem s1) m"
    unfolding m_def using q(8) c(2) by (intro same_off_store32 same_off_refl) (auto simp: mem_block_iff unat_add_word)
  then have "same_on A1 (mem s1) m"
    by (rule same_off_on) (use q(6) b c(3) in auto)
  then have inv': "heap_inv (s1\<lparr>mem := m\<rparr>) A1" "pages_left (s1\<lparr>mem := m\<rparr>) = pages_left s1"
    using heap_inv_frame [OF q(5)] pages_left_frame [OF q(5)] by simp_all
  have "load32 m c = p" using ap [of 4] ap [of 8] ap [of 12] ap [of 16] ap [of 20]
    by (simp add: m_def load32_store32_apart)
  moreover have "tree_at m (Node p Leaf k e Leaf)" by (simp add: m_def load32_store32_apart)
  moreover have "same_off (A \<union> block c 4) (mem s) m"
  proof (rule same_off_trans)
    show "same_off (A \<union> block c 4) (mem s) (mem s1)" using q(4) by (rule same_off_mono) blast
    show "same_off (A \<union> block c 4) (mem s1) m" using so by (rule same_off_mono) (use q(3) b in blast)
  qed
  moreover have "block p 24 \<subseteq> A" "A1 \<subseteq> A - block p 24" using q(3,6) b by blast+
  moreover have "unat p + 24 \<le> 2 ^ 32" using q(8) by simp
  ultimately show ?thesis
    using ins inv' q(2,7) by (intro exI [of _ p] exI [of _ "s1\<lparr>mem := m\<rparr>"] exI [of _ A1]) simp
qed

text \<open>
  One recursive call seen from the parent \<open>a\<close>: the child at offset \<open>off\<close> changes from \<open>t\<close> to
  \<open>t'\<close>; the other fields of \<open>a\<close> and the sibling \<open>u\<close> are untouched.
\<close>

lemma sibling_frame:
  assumes ok: "tnodes_ok (a # nodes t @ nodes u) \<or> tnodes_ok (a # nodes u @ nodes t)"
    and out: "(block a 24 \<union> tree_area u) \<inter> A = {}" and off: "unat off + 4 \<le> 24"
    and so: "same_off (A \<union> block (a + off) 4 \<union> tree_area t) m m'"
  shows "same_on (tree_area u) m m'" and "unat j + 4 \<le> 24 \<Longrightarrow> apart off j \<Longrightarrow> load32 m' (a + j) = load32 m (a + j)"
proof -
  have a: "unat a + 24 \<le> 2 ^ 32" "\<forall>y \<in> set (nodes t) \<union> set (nodes u). sep a 24 y 24"
    "\<forall>x \<in> set (nodes t). \<forall>y \<in> set (nodes u). sep x 24 y 24 \<or> sep y 24 x 24"
    using ok by (auto simp: tnodes_ok_Cons tnodes_ok_append)
  have sub: "block (a + i) 4 \<subseteq> block a 24" "unat (a + i) = unat a + unat i" if "unat i + 4 \<le> 24" for i
    using that a(1) unat_add_word [of a i] by (auto simp: mem_block_iff)
  have d1: "block a 24 \<inter> tree_area v = {}" if "v = t \<or> v = u" for v
    using a(2) that sep_block by (fastforce simp: tree_area_def)
  have d2: "tree_area t \<inter> tree_area u = {}"
    using a(3) sep_block by (fastforce simp: tree_area_def)
  show "same_on (tree_area u) m m'"
    using so by (rule same_off_on) (use out sub(1) [OF off] d1 d2 in blast)
  assume j: "unat j + 4 \<le> 24" and ap: "apart off j"
  have "block (a + off) 4 \<inter> block (a + j) 4 = {}"
  proof -
    have "unat off + 4 \<le> unat j \<or> unat j + 4 \<le> unat off"
    proof (rule ccontr)
      assume c: "\<not> ?thesis"
      have "4 \<le> unat (j - off)" "4 \<le> unat (off - j)" using ap by (simp_all add: apart_def word_le_nat_alt)
      then show False using c off j by (auto simp: unat_sub_if' split: if_splits)
    qed
    then show ?thesis using sub(2) [OF off] sub(2) [OF j] by (intro block_disjI) linarith
  qed
  then show "load32 m' (a + j) = load32 m (a + j)"
    using sub [OF j] d1 [of t] out j a(1) by (intro load32_same_off [OF so]) auto
qed

lemma insert_up:
  assumes cell: "root_cell (mem s) c (Node a l i d r) A" and out: "tree_area (Node a l i d r) \<inter> A = {}"
    and so: "same_off (A \<union> block a 24 \<union> tree_area l \<union> tree_area r) (mem s) (mem s1)"
    and off: "load32 (mem s1) (a + off) = ch" "ch \<in> set (nodes l' @ nodes r')"
    and fld: "bst_child1 (mem s1) a = root_of l'" "bst_child2 (mem s1) a = root_of r'" "bst_id (mem s1) a = i" "bst_data (mem s1) a = d"
    and sub: "tree_at (mem s1) l'" "tree_at (mem s1) r'" and ok: "tnodes_ok (a # nodes l' @ nodes r')"
    and len: "length (nodes l') + length (nodes r') < 2 ^ 30" and bal: "\<bar>depth l' - depth r'\<bar> \<le> 1"
    and area: "tree_area l' \<union> tree_area r' \<subseteq> tree_area l \<union> tree_area r \<union> B" "B \<subseteq> A" "A1 \<subseteq> A - B"
    and inv: "heap_inv s1 A1"
  shows "\<exists>m'. bst_insert_end c off s1 = Inr (a, s1\<lparr>mem := m'\<rparr>) \<and> root_cell m' c (Node a l' i d r') A1
    \<and> tree_at m' (Node a l' i d r') \<and> heap_inv (s1\<lparr>mem := m'\<rparr>) A1 \<and> pages_left (s1\<lparr>mem := m'\<rparr>) = pages_left s1
    \<and> same_off (A \<union> block c 4 \<union> tree_area (Node a l i d r)) (mem s) m'"
proof -
  have c: "mapped c" "unat c + 4 \<le> 2 ^ 32" "load32 (mem s) c = a"
    and cd: "block c 4 \<inter> A = {}" "block c 4 \<inter> (block a 24 \<union> tree_area l \<union> tree_area r) = {}"
    using cell by (auto simp: root_cell_def)
  have c1: "load32 (mem s1) c = a"
    using load32_same_off [OF so _ c(2)] cd c(3) by auto
  obtain m' where m': "bst_insert_end c off s1 = Inr (a, s1\<lparr>mem := m'\<rparr>)" "tree_at m' (Node a l' i d r')"
    "same_off (block a 24 \<union> tree_area l' \<union> tree_area r') (mem s1) m'"
    using insert_end_ok [OF c1 off fld sub ok len bal] by blast
  have cd': "block c 4 \<inter> (block a 24 \<union> tree_area l' \<union> tree_area r') = {}" using cd area(1,2) by blast
  then have "load32 m' c = a" using load32_same_off [OF m'(3) _ c(2)] c1 by simp
  then have "root_cell m' c (Node a l' i d r') A1"
    using c(1,2) cd' cd(1) area(3) by (auto simp: root_cell_def)
  moreover have "same_on A1 (mem s1) m'"
  proof (rule same_off_on [OF m'(3)])
    have "(block a 24 \<union> tree_area l \<union> tree_area r) \<inter> A = {}" using out by simp
    then show "(block a 24 \<union> tree_area l' \<union> tree_area r') \<inter> A1 = {}" using area by blast
  qed
  then have "heap_inv (s1\<lparr>mem := m'\<rparr>) A1" "pages_left (s1\<lparr>mem := m'\<rparr>) = pages_left s1"
    using heap_inv_frame [OF inv] pages_left_frame [OF inv] by simp_all
  moreover have "same_off (A \<union> block c 4 \<union> tree_area (Node a l i d r)) (mem s) m'"
  proof (rule same_off_trans)
    show "same_off (A \<union> block c 4 \<union> tree_area (Node a l i d r)) (mem s) (mem s1)"
      using so by (rule same_off_mono) auto
    show "same_off (A \<union> block c 4 \<union> tree_area (Node a l i d r)) (mem s1) m'"
      using m'(3) by (rule same_off_mono) (use area(1,2) in auto)
  qed
  ultimately show ?thesis using m'(1,2) by blast
qed

lemma tree_area_insert: "k \<notin> ids t \<Longrightarrow> tree_area (tree_insert p k e t) = tree_area t \<union> block p 24"
  by (auto simp: tree_area_def nodes_insert)

lemma root_in_nodes: "root_of (tree_insert p k e t) \<in> set (nodes (tree_insert p k e t))"
  by (cases t) auto

lemma fresh_tnodes:
  assumes "tnodes_ok (nodes t)" and "tree_area t \<inter> A = {}" and "block p 24 \<subseteq> A" and "mapped p" and "unat p + 24 \<le> 2 ^ 32"
    and "k \<notin> ids t"
  shows "tnodes_ok (nodes (tree_insert p k e t))"
proof (rule tnodes_ok_insert [OF assms(1,4,5) _ assms(6)], rule ballI)
  fix x assume x: "x \<in> set (nodes t)"
  then have "unat x + 24 \<le> 2 ^ 32" "block p 24 \<inter> block x 24 = {}"
    using assms(1-3) by (auto simp: tnodes_ok_def tree_area_def)
  then show "sep p 24 x 24" using assms(5) by (intro sep_disjoint) simp_all
qed

text \<open>The result of an insertion, for the induction and for the registries built on it.\<close>

definition insert_result :: "'a slab_sys_scheme \<Rightarrow> addr \<Rightarrow> u32 \<Rightarrow> addr \<Rightarrow> btree \<Rightarrow> addr set \<Rightarrow> addr \<Rightarrow> 'a slab_sys_scheme \<Rightarrow> addr set \<Rightarrow> bool" where
  "insert_result s c k e t A p s' A' \<longleftrightarrow> root_cell (mem s') c (tree_insert p k e t) A' \<and> tree_at (mem s') (tree_insert p k e t)
     \<and> mapped p \<and> unat p + 24 \<le> 2 ^ 32 \<and> block p 24 \<subseteq> A \<and> heap_inv s' A' \<and> A' \<subseteq> A - block p 24
     \<and> pages_left s \<le> Suc (pages_left s') \<and> same_off (A \<union> block c 4 \<union> tree_area t) (mem s) (mem s')"

text \<open>What an insertion needs: it holds again for the subtree that the descent enters.\<close>

definition insertable :: "'a slab_sys_scheme \<Rightarrow> addr \<Rightarrow> u32 \<Rightarrow> addr \<Rightarrow> btree \<Rightarrow> addr set \<Rightarrow> bool" where
  "insertable s c k e t A \<longleftrightarrow> heap_inv s A \<and> 0 < pages_left s \<and> root_cell (mem s) c t A \<and> tree_at (mem s) t
     \<and> tnodes_ok (nodes t) \<and> tree_area t \<inter> A = {} \<and> k \<notin> ids t
     \<and> path_balanced k (tree_insert 0 k e t) \<and> length (nodes t) < 2 ^ 29"

lemma insertable_node:
  assumes "insertable s c k e (Node a l i d r) A"
  shows "root_cell (mem s) c (Node a l i d r) A" "tree_area (Node a l i d r) \<inter> A = {}" "mapped c" "load32 (mem s) c = a"
    and "tnodes_ok (a # nodes l @ nodes r)" "mapped a" "a \<noteq> 0" "unat a + 24 \<le> 2 ^ 32" "tnodes_ok (nodes l)" "tnodes_ok (nodes r)"
    and "load32 (mem s) (a + 4) = root_of l" "load32 (mem s) (a + 8) = root_of r"
    and "load32 (mem s) (a + 12) = i" "load32 (mem s) (a + 16) = d"
    and "tree_at (mem s) l" "tree_at (mem s) r" "k \<notin> ids l" "k \<notin> ids r" "k \<notin> ids (Node a l i d r)"
    and "length (nodes l) + length (nodes r) < 2 ^ 29"
  using assms by (auto simp: insertable_def root_cell_def tnodes_ok_Cons tnodes_ok_append)

lemma child_cell:
  assumes "insertable s c k e (Node a l i d r) A" and "u = l \<or> u = r" and "unat j + 4 \<le> 24" and "load32 (mem s) (a + j) = root_of u"
  shows "root_cell (mem s) (a + j) u A"
proof -
  note n = insertable_node [OF assms(1)]
  have v: "unat (a + j) = unat a + unat j" using assms(3) n(8) by (intro unat_add_word) simp
  have "block (a + j) 4 \<subseteq> block a 24" using v assms(3) by (intro block_mono) simp_all
  moreover have "block a 24 \<inter> tree_area u = {}"
    using n(5) assms(2) sep_block by (fastforce simp: tree_area_def tnodes_ok_Cons)
  moreover have "block a 24 \<inter> A = {}" using n(2) by auto
  ultimately show ?thesis using v n(6,8) assms by (auto simp: root_cell_def mapped_def word_le_nat_alt)
qed

lemma insertable_left:
  assumes "insertable s c k e (Node a l i d r) A" and "k < i"
  shows "insertable s (a + 4) k e l A"
  using assms child_cell [OF assms(1), of l 4] insertable_node(9,11) [OF assms(1)] by (auto simp: insertable_def)

lemma insertable_right:
  assumes "insertable s c k e (Node a l i d r) A" and "i < k"
  shows "insertable s (a + 8) k e r A"
proof -
  have "\<not> k < i" using assms(2) by simp
  then show ?thesis
    using assms child_cell [OF assms(1), of r 8] insertable_node(10,12) [OF assms(1)] by (auto simp: insertable_def)
qed

lemma insert_resultD:
  assumes "insert_result s c k e t A p s' A'"
  shows "load32 (mem s') c = root_of (tree_insert p k e t)" "tree_at (mem s') (tree_insert p k e t)"
    and "mapped p" "unat p + 24 \<le> 2 ^ 32" "block p 24 \<subseteq> A" "heap_inv s' A'" "A' \<subseteq> A - block p 24"
    and "pages_left s \<le> Suc (pages_left s')" "same_off (A \<union> block c 4 \<union> tree_area t) (mem s) (mem s')"
  using assms by (auto simp: insert_result_def root_cell_def)

lemma field_block: "unat a + 24 \<le> 2 ^ 32 \<Longrightarrow> unat j + 4 \<le> 24 \<Longrightarrow> block (a + j) 4 \<subseteq> block a 24"
  by (intro block_mono) (simp_all add: unat_add_word)

lemma insert_left:
  assumes pre: "insertable s c k e (Node a l i d r) A" and lt: "k < i"
    and IH: "bst_insert (a + 4) e k s = Some (Inr (n, s1))" "insert_result s (a + 4) k e l A p s1 A1"
  shows "\<exists>s'. bst_insert c e k s = Some (Inr (a, s')) \<and> insert_result s c k e (Node a l i d r) A p s' A1"
proof -
  let ?l = "tree_insert p k e l"
  note n = insertable_node [OF pre] and R = insert_resultD [OF IH(2)]
  have out: "(block a 24 \<union> tree_area r) \<inter> A = {}" using n(2) by auto
  note sf = sibling_frame [OF disjI1 [OF n(5)] out _ R(9)]
  have fl: "load32 (mem s1) (a + j) = load32 (mem s) (a + j)" if "unat j + 4 \<le> 24" "apart 4 j" for j
    using sf(2) [of j] that by simp
  have tr: "tree_at (mem s1) r" using tree_at_frame [OF n(16,10)] sf(1) by simp
  have okn: "tnodes_ok (a # nodes ?l @ nodes r)"
    using fresh_tnodes [of "Node a l i d r", OF _ n(2) R(5,3,4) n(19), of e] n(5) lt by simp
  have so: "same_off (A \<union> block a 24 \<union> tree_area l \<union> tree_area r) (mem s) (mem s1)"
    using R(9) by (rule same_off_mono) (use field_block [OF n(8), of 4] in auto)
  have len: "length (nodes ?l) + length (nodes r) < 2 ^ 30"
    using n(20) length_nodes_insert [OF n(17), of p e] by simp
  have bal: "\<bar>depth ?l - depth r\<bar> \<le> 1"
    using pre lt depth_insert_cong [of p k e l 0] by (simp add: insertable_def)
  obtain m' where m': "bst_insert_end c 4 s1 = Inr (a, s1\<lparr>mem := m'\<rparr>)" "root_cell m' c (Node a ?l i d r) A1"
    "tree_at m' (Node a ?l i d r)" "heap_inv (s1\<lparr>mem := m'\<rparr>) A1" "pages_left (s1\<lparr>mem := m'\<rparr>) = pages_left s1"
    "same_off (A \<union> block c 4 \<union> tree_area (Node a l i d r)) (mem s) m'"
    using insert_up [OF n(1,2) so R(1) _ R(1) _ _ _ R(2) tr okn len bal _ R(5,7,6)]
      fl [of 8] fl [of 12] fl [of 16] n(12-14) root_in_nodes [of p k e l] tree_area_insert [OF n(17), of p e] by auto
  have "bst_insert c e k s = Some (Inr (a, s1\<lparr>mem := m'\<rparr>))"
    using n(3,4,6,7,13) lt IH(1) m'(1) by (subst bst_insert.simps) simp
  moreover have "insert_result s c k e (Node a l i d r) A p (s1\<lparr>mem := m'\<rparr>) A1"
    using m'(2-6) R(3-5,7,8) lt by (simp add: insert_result_def)
  ultimately show ?thesis by blast
qed

lemma insert_right:
  assumes pre: "insertable s c k e (Node a l i d r) A" and gt: "i < k"
    and IH: "bst_insert (a + 8) e k s = Some (Inr (n, s1))" "insert_result s (a + 8) k e r A p s1 A1"
  shows "\<exists>s'. bst_insert c e k s = Some (Inr (a, s')) \<and> insert_result s c k e (Node a l i d r) A p s' A1"
proof -
  let ?r = "tree_insert p k e r"
  note n = insertable_node [OF pre] and R = insert_resultD [OF IH(2)]
  have ng: "\<not> k < i" using gt by simp
  have out: "(block a 24 \<union> tree_area l) \<inter> A = {}" using n(2) by auto
  note sf = sibling_frame [OF disjI2 [OF n(5)] out _ R(9)]
  have fl: "load32 (mem s1) (a + j) = load32 (mem s) (a + j)" if "unat j + 4 \<le> 24" "apart 8 j" for j
    using sf(2) [of j] that by simp
  have tl: "tree_at (mem s1) l" using tree_at_frame [OF n(15,9)] sf(1) by simp
  have okn: "tnodes_ok (a # nodes l @ nodes ?r)"
    using fresh_tnodes [of "Node a l i d r", OF _ n(2) R(5,3,4) n(19), of e] n(5) gt ng by simp
  have so: "same_off (A \<union> block a 24 \<union> tree_area l \<union> tree_area r) (mem s) (mem s1)"
    using R(9) by (rule same_off_mono) (use field_block [OF n(8), of 8] in auto)
  have len: "length (nodes l) + length (nodes ?r) < 2 ^ 30"
    using n(20) length_nodes_insert [OF n(18), of p e] by simp
  have bal: "\<bar>depth l - depth ?r\<bar> \<le> 1"
    using pre gt ng depth_insert_cong [of p k e r 0] by (simp add: insertable_def)
  obtain m' where m': "bst_insert_end c 8 s1 = Inr (a, s1\<lparr>mem := m'\<rparr>)" "root_cell m' c (Node a l i d ?r) A1"
    "tree_at m' (Node a l i d ?r)" "heap_inv (s1\<lparr>mem := m'\<rparr>) A1" "pages_left (s1\<lparr>mem := m'\<rparr>) = pages_left s1"
    "same_off (A \<union> block c 4 \<union> tree_area (Node a l i d r)) (mem s) m'"
    using insert_up [OF n(1,2) so R(1) _ _ R(1) _ _ tl R(2) okn len bal _ R(5,7,6)]
      fl [of 4] fl [of 12] fl [of 16] n(11,13,14) root_in_nodes [of p k e r] tree_area_insert [OF n(18), of p e] by auto
  have "bst_insert c e k s = Some (Inr (a, s1\<lparr>mem := m'\<rparr>))"
    using n(3,4,6,7,13) gt ng IH(1) m'(1) by (subst bst_insert.simps) simp
  moreover have "insert_result s c k e (Node a l i d r) A p (s1\<lparr>mem := m'\<rparr>) A1"
    using m'(2-6) R(3-5,7,8) gt ng by (simp add: insert_result_def)
  ultimately show ?thesis by blast
qed

lemma insert_leaf:
  assumes "insertable s c k e Leaf A"
  shows "\<exists>p s' A'. bst_insert c e k s = Some (Inr (p, s')) \<and> p \<noteq> 0 \<and> insert_result s c k e Leaf A p s' A'"
proof -
  have pre: "heap_inv s A" "0 < pages_left s" "root_cell (mem s) c Leaf A" using assms by (simp_all add: insertable_def)
  then have c: "mapped c" "load32 (mem s) c = 0" "unat c + 4 \<le> 2 ^ 32" "block c 4 \<inter> A = {}" by (auto simp: root_cell_def)
  obtain p s' A' where r: "bst_insert_new c e k s = Inr (p, s')" "load32 (mem s') c = p" "tree_at (mem s') (Node p Leaf k e Leaf)"
    "mapped p" "unat p + 24 \<le> 2 ^ 32" "block p 24 \<subseteq> A" "heap_inv s' A'" "A' \<subseteq> A - block p 24"
    "same_off (A \<union> block c 4) (mem s) (mem s')" "pages_left s \<le> Suc (pages_left s')"
    using insert_new_ok [OF pre, of e k] by auto
  have "bst_insert c e k s = Some (Inr (p, s'))" using c r(1) by (subst bst_insert.simps) simp
  moreover have "insert_result s c k e Leaf A p s' A'"
    using r(2-10) c by (auto simp: insert_result_def root_cell_def)
  ultimately show ?thesis using mapped_nonzero [OF r(4)] by blast
qed

lemma insertable_inserts:
  "insertable s c k e t A \<Longrightarrow> \<exists>p n s' A'. bst_insert c e k s = Some (Inr (n, s')) \<and> n \<noteq> 0 \<and> insert_result s c k e t A p s' A'"
proof (induction t arbitrary: c)
  case Leaf
  then show ?case using insert_leaf by blast
next
  case (Node a l i d r)
  note a = insertable_node(7) [OF Node.prems]
  have "k < i \<or> i < k" using insertable_node(19) [OF Node.prems] by auto
  then show ?case
  proof
    assume lt: "k < i"
    then obtain p n s1 A1 where "bst_insert (a + 4) e k s = Some (Inr (n, s1))" "insert_result s (a + 4) k e l A p s1 A1"
      using Node.IH(1) [OF insertable_left [OF Node.prems]] by blast
    then show ?thesis using insert_left [OF Node.prems lt] a by blast
  next
    assume gt: "i < k"
    then obtain p n s1 A1 where "bst_insert (a + 8) e k s = Some (Inr (n, s1))" "insert_result s (a + 8) k e r A p s1 A1"
      using Node.IH(2) [OF insertable_right [OF Node.prems]] by blast
    then show ?thesis using insert_right [OF Node.prems gt] a by blast
  qed
qed

lemma bst_insert_ok:
  assumes "heap_inv s A" and "0 < pages_left s" and "root_cell (mem s) c t A" and "tree_at (mem s) t"
    and "tnodes_ok (nodes t)" and "tree_area t \<inter> A = {}" and "k \<notin> ids t"
    and "path_balanced k (tree_insert 0 k e t)" and "length (nodes t) < 2 ^ 29"
  shows "\<exists>p n s' A'. bst_insert c e k s = Some (Inr (n, s')) \<and> n \<noteq> 0 \<and> insert_result s c k e t A p s' A'"
  using insertable_inserts [of s c k e t A] assms by (simp add: insertable_def)

section \<open>The tree as a registry\<close>

lemma ids_insert: "ids (tree_insert p k e t) = insert k (ids t)"
  by (induction t) (auto simp: not_less_iff_gr_or_eq)

lemma ordered_insert: "ordered t \<Longrightarrow> ordered (tree_insert p k e t)"
  by (induction t) (auto simp: ids_insert)

lemma find_insert: "find t k = None \<Longrightarrow> find (tree_insert p k e t) = (find t)(k \<mapsto> e)"
proof (rule ext, induction t)
  case (Node a l i d r)
  then show ?case by (auto simp: not_less_iff_gr_or_eq split: if_splits)
qed (auto simp: not_less_iff_gr_or_eq)

text \<open>A root cell, its tree and the heap, each in its own part of the memory.\<close>

definition bst_rep :: "addr \<Rightarrow> 'a slab_sys_scheme \<Rightarrow> btree \<Rightarrow> bool" where
  "bst_rep c s t \<longleftrightarrow> (\<exists>A. heap_inv s A \<and> root_cell (mem s) c t A \<and> tree_area t \<inter> A = {})
     \<and> tree_at (mem s) t \<and> tnodes_ok (nodes t) \<and> ordered t"

definition bst_fits :: "'a slab_sys_scheme \<Rightarrow> btree \<Rightarrow> u32 \<Rightarrow> bool" where
  "bst_fits s t k \<longleftrightarrow> 0 < pages_left s \<and> path_balanced k (tree_insert 0 k 0 t) \<and> length (nodes t) < 2 ^ 29"

definition bst_add :: "addr \<Rightarrow> addr \<Rightarrow> u32 \<Rightarrow> 'a slab_sys_scheme \<Rightarrow> 'a slab_sys_scheme result" where
  "bst_add c data key s = bindE (returns (bst_insert c data key s)) (\<lambda>(n, s'). Inr s')"

definition bst_lookup :: "addr \<Rightarrow> 'a slab_sys_scheme \<Rightarrow> u32 \<Rightarrow> addr result" where
  "bst_lookup c s key = bst_search (mem s) (load32 (mem s) c) key"

lemma path_balanced_data: "path_balanced k (tree_insert p k e t) = path_balanced k (tree_insert q k f t)"
proof -
  have "depth (tree_insert p k e u) = depth (tree_insert q k f u)" for u by (induction u) auto
  then show ?thesis by (induction t) (auto simp: not_less_iff_gr_or_eq)
qed

lemma bst_rep_lookup:
  "bst_rep c s t \<Longrightarrow> bst_lookup c s k = Inr (case find t k of None \<Rightarrow> 0 | Some d \<Rightarrow> d)"
  using bst_search_spec [of "mem s" t k] by (auto simp: bst_rep_def bst_lookup_def root_cell_def)

lemma bst_rep_add:
  assumes rep: "bst_rep c s t" and new: "find t k = None" and fits: "bst_fits s t k"
  shows "\<exists>p s'. bst_add c d k s = Inr s' \<and> bst_rep c s' (tree_insert p k d t) \<and> pages_left s \<le> Suc (pages_left s')"
proof -
  obtain A where A: "heap_inv s A" "root_cell (mem s) c t A" "tree_area t \<inter> A = {}"
    and T: "tree_at (mem s) t" "tnodes_ok (nodes t)" "ordered t"
    using rep by (auto simp: bst_rep_def)
  have k: "k \<notin> ids t" using find_ids [OF T(3)] new by simp
  have f: "0 < pages_left s" "path_balanced k (tree_insert 0 k d t)" "length (nodes t) < 2 ^ 29"
    using fits path_balanced_data [of k 0 d t 0 0] by (simp_all add: bst_fits_def)
  obtain p n s' A' where i: "bst_insert c d k s = Some (Inr (n, s'))" "insert_result s c k d t A p s' A'"
    using bst_insert_ok [OF A(1) f(1) A(2) T(1,2) A(3) k f(2,3)] by blast
  have R: "root_cell (mem s') c (tree_insert p k d t) A'" "tree_at (mem s') (tree_insert p k d t)" "mapped p"
    "unat p + 24 \<le> 2 ^ 32" "block p 24 \<subseteq> A" "heap_inv s' A'" "A' \<subseteq> A - block p 24" "pages_left s \<le> Suc (pages_left s')"
    using i(2) by (simp_all add: insert_result_def)
  have "tree_area (tree_insert p k d t) \<inter> A' = {}" using A(3) R(7) tree_area_insert [OF k, of p d] by auto
  then have "bst_rep c s' (tree_insert p k d t)"
    using R ordered_insert [OF T(3)] fresh_tnodes [OF T(2) A(3) R(5,3,4) k] by (auto simp: bst_rep_def)
  then show ?thesis using i(1) R(8) by (auto simp: bst_add_def)
qed

interpretation bst: registry "bst_add c" "bst_lookup c" "bst_rep c" find bst_fits
  for c
proof
  fix s :: "'a slab_sys_scheme" and t k d
  show "bst_rep c s t \<Longrightarrow> bst_lookup c s k = Inr (case find t k of None \<Rightarrow> 0 | Some d \<Rightarrow> d)"
    by (rule bst_rep_lookup)
  assume "bst_rep c s t" "find t k = None" "bst_fits s t k"
  then show "\<exists>s' t'. bst_add c d k s = Inr s' \<and> bst_rep c s' t' \<and> find t' = (find t)(k \<mapsto> d)"
    using bst_rep_add find_insert by blast
qed

section \<open>Properties of the search tree\<close>

text \<open>
  C30: \<open>bst_search\<close> terminates on every ordered tree in memory and returns exactly the data
  pointer registered under the id, or a null pointer when the tree has no such id.
\<close>

theorem bst_search_correct:
  assumes "tree_at m t" and "tnodes_ok (nodes t)" and "ordered t"
  shows "bst_search m (root_of t) k = Inr (case find t k of None \<Rightarrow> 0 | Some d \<Rightarrow> d)
    \<and> (find t k = None \<longleftrightarrow> k \<notin> ids t)"
  using bst_search_spec [OF assms(1,2)] find_ids [OF assms(3)] by blast

definition small_tree :: btree where
  "small_tree = Node 0xc0001000 Leaf 1 0xc0005000 (Node 0xc0002000 Leaf 2 0xc0006000 Leaf)"

definition small_tree_mem :: memory where
  "small_tree_mem = store32 (store32 (store32 (store32 (store32 (store32 (store32 (store32 (store32 (store32 (\<lambda>_. 0)
     0xc0001004 0) 0xc0001008 0xc0002000) 0xc000100c 1) 0xc0001010 0xc0005000) 0xc0001014 1)
     0xc0002004 0) 0xc0002008 0) 0xc000200c 2) 0xc0002010 0xc0006000) 0xc0002014 0"

lemma small_tree_at: "tree_at small_tree_mem small_tree" "tnodes_ok (nodes small_tree)"
  by (simp_all add: small_tree_def small_tree_mem_def load32_store32_apart tnodes_ok_def sep_def mapped_def)

theorem bst_search_correct_witness:
  "bst_search small_tree_mem 0xc0001000 2 = Inr 0xc0006000 \<and> bst_search small_tree_mem 0xc0001000 7 = Inr 0"
  using bst_search_correct [OF small_tree_at, of 2] bst_search_correct [OF small_tree_at, of 7]
  by (simp add: small_tree_def)

text \<open>
  C13: registering a new id in a tree where no node on its path is out of balance afterwards
  (so that no rotation happens) succeeds, and \<open>bst_search\<close> then finds the new id and finds every
  other id exactly as before: \<open>bst_insert\<close> refines a map update.
\<close>

theorem bst_insert_refines_map:
  assumes "bst_rep c s t" and "find t k = None" and "bst_fits s t k"
  shows "\<exists>n s'. bst_insert c d k s = Some (Inr (n, s')) \<and> bst_lookup c s' k = Inr d
    \<and> (\<forall>j. j \<noteq> k \<longrightarrow> bst_lookup c s' j = bst_lookup c s j)"
proof -
  obtain s' where "bst_add c d k s = Inr s'" "bst_lookup c s' k = Inr d" "\<forall>j. j \<noteq> k \<longrightarrow> bst_lookup c s' j = bst_lookup c s j"
    using bst.add_then_lookup [OF assms] by blast
  then show ?thesis
    by (auto simp: bst_add_def bindE_Inr_iff returns_def split: option.splits)
qed

text \<open>An empty tree whose root cell lies below the heap of the small boot configuration.\<close>

lemma boot_tree:
  "\<exists>s. slab_init boot_slab = Inr s \<and> bst_rep 0xc0000800 (s\<lparr>mem := store32 (mem s) 0xc0000800 0\<rparr>) Leaf
     \<and> 3 \<le> pages_left (s\<lparr>mem := store32 (mem s) 0xc0000800 0\<rparr>)"
proof -
  obtain s A where s: "slab_init boot_slab = Inr s" "heap_inv (s\<lparr>mem := store32 (mem s) 0xc0000800 0\<rparr>) A"
    "3 \<le> pages_left (s\<lparr>mem := store32 (mem s) 0xc0000800 0\<rparr>)" "block 0xc0000800 4 \<inter> A = {}"
    using boot_cell by blast
  have "root_cell (store32 (mem s) 0xc0000800 0) 0xc0000800 Leaf A"
    using s(4) by (simp add: root_cell_def mapped_def)
  then show ?thesis using s by (auto simp: bst_rep_def tnodes_ok_def)
qed

theorem bst_insert_refines_map_witness:
  "\<exists>s n s'. slab_init boot_slab = Inr s
     \<and> bst_insert 0xc0000800 0xc0005000 1 (s\<lparr>mem := store32 (mem s) 0xc0000800 0\<rparr>) = Some (Inr (n, s'))
     \<and> bst_lookup 0xc0000800 s' 1 = Inr 0xc0005000"
proof -
  obtain s where s: "slab_init boot_slab = Inr s" "bst_rep 0xc0000800 (s\<lparr>mem := store32 (mem s) 0xc0000800 0\<rparr>) Leaf"
    "3 \<le> pages_left (s\<lparr>mem := store32 (mem s) 0xc0000800 0\<rparr>)"
    using boot_tree by blast
  then show ?thesis
    using bst_insert_refines_map [OF s(2), of 1 "0xc0005000"] by (fastforce simp: bst_fits_def)
qed

section \<open>The third ascending id\<close>

text \<open>The level of \<open>bst_insert\<close> at which the rotation happens, for a chain \<open>a\<close>, \<open>b\<close>, \<open>p\<close>.\<close>

lemma rotation_end:
  assumes cell: "load32 (mem s) c = a" "mapped c" and ok: "tnodes_ok [a, b, p]"
    and dis: "unat c + 4 \<le> 2 ^ 32" "block c 4 \<inter> (block a 24 \<union> block b 24) = {}"
    and fa: "load32 (mem s) (a + 4) = 0" "load32 (mem s) (a + 8) = b" "load32 (mem s) (a + 12) = i" "load32 (mem s) (a + 16) = d"
    and fb: "load32 (mem s) (b + 4) = 0" "load32 (mem s) (b + 8) = p" "load32 (mem s) (b + 20) = 1"
    and fp: "load32 (mem s) (p + 20) = 0"
  shows "\<exists>m'. bst_insert_end c 8 s = Inr (b, s\<lparr>mem := m'\<rparr>) \<and> load32 m' c = a \<and> tree_at m' (Node a Leaf i d Leaf)"
proof -
  have nd: "mapped a" "a \<noteq> 0" "mapped b" "b \<noteq> 0" "mapped p" "p \<noteq> 0" "unat a + 24 \<le> 2 ^ 32" "unat b + 24 \<le> 2 ^ 32"
    using ok by (auto simp: tnodes_ok_def)
  have sp: "sep a 24 b 24" "sep a 24 p 24" "sep b 24 p 24" using ok by (auto simp: tnodes_ok_def)
  have ab: "apart (a + x) (b + y)" "apart (b + y) (a + x)" if "unat x + 4 \<le> 24" "unat y + 4 \<le> 24" for x y
    using apart_sep [OF sp(1) that] apart_sym by blast+
  have ap: "apart (a + x) (p + y)" if "unat x + 4 \<le> 24" "unat y + 4 \<le> 24" for x y using apart_sep [OF sp(2) that] .
  have bp: "apart (b + x) (p + y)" if "unat x + 4 \<le> 24" "unat y + 4 \<le> 24" for x y using apart_sep [OF sp(3) that] .
  have sc: "sep a 24 c 4" "sep b 24 c 4" using dis nd by (auto intro!: sep_disjoint)
  have ac: "apart (a + x) c" "apart (b + x) c" if "unat x + 4 \<le> 24" for x
    using apart_sep [OF sc(1) that, of 0] apart_sep [OF sc(2) that, of 0] by simp_all
  note b0 = ab [of _ 0, simplified] bp [of 0, simplified] ac(2) [of 0, simplified]
  note aps = load32_store32_apart ab ap bp ac b0
  let ?m1 = "store32 (mem s) b a"
  let ?m2 = "store32 ?m1 (a + 20) 2"
  let ?m4 = "store32 (store32 ?m2 (b + 4) a) (a + 8) 0"
  let ?m6 = "store32 (store32 ?m4 (a + 20) 0) (b + 20) 1"
  have s1: "sint (1 :: u32) = 1" "sint (0 :: u32) = 0" by simp_all
  have u1: "update_height a ?m1 = Inr ?m2"
    using fa fb nd by (simp add: update_height_def height_def aps)
  have "balance_factor ?m2 a = Inr (- 2)" "balance_factor ?m2 (load32 ?m2 (a + 8)) = Inr (- 1)"
    using fa fb fp nd by (simp_all add: balance_factor_def height_def aps)
  moreover have "rotate_left a ?m2 = Inr (b, ?m6)"
    using fa fb fp nd by (simp add: rotate_left_def update_height_def height_def Let_def aps)
  ultimately have "balance a ?m2 = Inr (b, ?m6)" by (simp add: balance_def)
  then have "bst_insert_end c 8 s = Inr (b, s\<lparr>mem := ?m6\<rparr>)"
    using cell fa nd u1 by (simp add: bst_insert_end_def Let_def)
  moreover have "load32 ?m6 c = a" using cell by (simp add: aps)
  moreover have "tree_at ?m6 (Node a Leaf i d Leaf)" using fa by (simp add: aps)
  ultimately show ?thesis by blast
qed

text \<open>
  C39: inserting a third ascending id rotates the tree but leaves the caller's root pointer on
  the old root, so after \<open>bst_insert\<close> both the second and the third id can no longer be found.
\<close>

theorem bst_insert_rotation_loses_nodes:
  assumes "bst_rep c s (Node a Leaf i d (Node b Leaf j e Leaf))" and "0 < pages_left s" and "j < k"
  shows "\<exists>n s'. bst_insert c f k s = Some (Inr (n, s')) \<and> bst_lookup c s' i = Inr d
    \<and> bst_lookup c s' j = Inr 0 \<and> bst_lookup c s' k = Inr 0"
proof -
  let ?t = "Node a Leaf i d (Node b Leaf j e Leaf)" and ?u = "Node b Leaf j e Leaf"
  obtain A where A: "heap_inv s A" "root_cell (mem s) c ?t A" "tree_area ?t \<inter> A = {}"
    and T: "tree_at (mem s) ?t" "tnodes_ok [a, b]" and ij: "i < j"
    using assms(1) by (auto simp: bst_rep_def)
  have nd: "mapped a" "a \<noteq> 0" "unat a + 24 \<le> 2 ^ 32" "tnodes_ok [b]" "sep a 24 b 24" using T(2) by (auto simp: tnodes_ok_def)
  have fa: "load32 (mem s) (a + 4) = 0" "load32 (mem s) (a + 8) = b" "load32 (mem s) (a + 12) = i" "load32 (mem s) (a + 16) = d"
    "tree_at (mem s) ?u" using T(1) by simp_all
  have a8: "unat (a + 8) = unat a + 8" "block (a + 8) 4 \<subseteq> block a 24"
    using nd(3) unat_add_word [of a 8] by (auto simp: mem_block_iff)
  have c8: "root_cell (mem s) (a + 8) ?u A"
    using a8 nd(1,3) fa(2) A(3) sep_block [OF nd(5)] by (auto simp: root_cell_def mapped_def word_le_nat_alt)
  have cu: "tree_area ?u \<inter> A = {}" "k \<notin> ids ?u" "path_balanced k (tree_insert 0 k f ?u)" "length (nodes ?u) < 2 ^ 29"
    using A(3) assms(3) by auto
  obtain p n s1 A1 where I: "bst_insert (a + 8) f k s = Some (Inr (n, s1))" "insert_result s (a + 8) k f ?u A p s1 A1"
    using bst_insert_ok [OF A(1) assms(2) c8 fa(5) _ cu] nd(4) by auto
  have ti: "tree_insert p k f ?u = Node b Leaf j e (Node p Leaf k f Leaf)" using assms(3) by simp
  have R: "tree_at (mem s1) (Node b Leaf j e (Node p Leaf k f Leaf))" "load32 (mem s1) (a + 8) = b" "mapped p"
    "unat p + 24 \<le> 2 ^ 32" "block p 24 \<subseteq> A" "same_off (A \<union> block (a + 8) 4 \<union> tree_area ?u) (mem s) (mem s1)"
    using I(2) unfolding insert_result_def ti by (auto simp: root_cell_def)
  have ok3: "tnodes_ok [a, b, p]"
  proof -
    have ik: "i < k" "\<not> k < i" "k \<noteq> i" "\<not> k < j" "k \<noteq> j" using ij assms(3) by auto
    then show ?thesis using fresh_tnodes [of ?t A p k f] T(2) A(3) R(3-5) assms(3) by simp
  qed
  have sf: "load32 (mem s1) (a + x) = load32 (mem s) (a + x)" if "unat x + 4 \<le> 24" "apart 8 x" for x
    using sibling_frame(2) [of a ?u Leaf A 8 "mem s" "mem s1" x] T(2) A(3) R(6) that by auto
  have cc: "mapped c" "unat c + 4 \<le> 2 ^ 32" "load32 (mem s) c = a" "block c 4 \<inter> A = {}" "block c 4 \<inter> (block a 24 \<union> block b 24) = {}"
    using A(2) by (auto simp: root_cell_def)
  have c1: "load32 (mem s1) c = a"
    using load32_same_off [OF R(6) _ cc(2)] cc(3-5) a8(2) by auto
  obtain m' where m': "bst_insert_end c 8 s1 = Inr (b, s1\<lparr>mem := m'\<rparr>)" "load32 m' c = a" "tree_at m' (Node a Leaf i d Leaf)"
    using rotation_end [OF c1 cc(1) ok3 cc(2,5)] R(1,2) sf [of 4] sf [of 12] sf [of 16] fa by auto
  have "bst_insert c f k s = Some (Inr (b, s1\<lparr>mem := m'\<rparr>))"
    using cc(1,3) nd(1,2) fa(3) I(1) m'(1) ij assms(3) by (subst bst_insert.simps) auto
  moreover have "bst_lookup c (s1\<lparr>mem := m'\<rparr>) x = Inr (case find (Node a Leaf i d Leaf) x of None \<Rightarrow> 0 | Some d \<Rightarrow> d)" for x
    using bst_search_spec [OF m'(3), of x] m'(2) nd(1,3) by (simp add: bst_lookup_def tnodes_ok_def)
  ultimately show ?thesis using ij assms(3) by auto
qed

theorem bst_insert_rotation_loses_nodes_witness:
  "\<exists>s s1 s2 n s3. slab_init boot_slab = Inr s
     \<and> bst_add 0xc0000800 10 1 (s\<lparr>mem := store32 (mem s) 0xc0000800 0\<rparr>) = Inr s1 \<and> bst_add 0xc0000800 20 2 s1 = Inr s2
     \<and> bst_insert 0xc0000800 30 3 s2 = Some (Inr (n, s3)) \<and> bst_lookup 0xc0000800 s3 2 = Inr 0
     \<and> bst_lookup 0xc0000800 s3 3 = Inr 0"
proof -
  obtain s where s: "slab_init boot_slab = Inr s" "bst_rep 0xc0000800 (s\<lparr>mem := store32 (mem s) 0xc0000800 0\<rparr>) Leaf"
    "3 \<le> pages_left (s\<lparr>mem := store32 (mem s) 0xc0000800 0\<rparr>)"
    using boot_tree by blast
  obtain p s1 where p: "bst_add 0xc0000800 10 1 (s\<lparr>mem := store32 (mem s) 0xc0000800 0\<rparr>) = Inr s1"
    "bst_rep 0xc0000800 s1 (Node p Leaf 1 10 Leaf)" "2 \<le> pages_left s1"
    using bst_rep_add [OF s(2), of 1 10] s(3) by (fastforce simp: bst_fits_def)
  obtain q s2 where q: "bst_add 0xc0000800 20 2 s1 = Inr s2" "1 \<le> pages_left s2"
    "bst_rep 0xc0000800 s2 (Node p Leaf 1 10 (Node q Leaf 2 20 Leaf))"
    using bst_rep_add [OF p(2), of 2 20] p(3) by (fastforce simp: bst_fits_def)
  show ?thesis
    using s(1) p(1) q(1,2) bst_insert_rotation_loses_nodes [OF q(3), of 3 30] by auto
qed

end
