(* ===== verification/Char_Tty.thy ===== *)
theory Char_Tty
  imports Mm_Slab_Alloc
begin

text \<open>
  \<open>drivers/char/tty.c\<close>: the text console. Its statics are fields of the record \<open>tty\<close>; the screen
  itself is the byte memory from \<open>tty_VRAM\<close> on, two bytes per cell. A character is a byte; the
  interpreter of escape sequences is a state machine over \<open>command_sequence_status\<close>.
  An \<open>int\<close> expression that could overflow goes through \<open>c_int\<close>. A function that can fall off its
  end returns an option, \<open>None\<close> where the source returns no value.
\<close>

abbreviation (input) VGA_ROW :: int where "VGA_ROW \<equiv> 24"
abbreviation (input) VGA_COLUMN :: int where "VGA_COLUMN \<equiv> 80"
abbreviation (input) DEFAULT_FORE :: u8 where "DEFAULT_FORE \<equiv> 7"
abbreviation (input) DEFAULT_BACK :: u8 where "DEFAULT_BACK \<equiv> 0"
abbreviation (input) CMD_BUF_SZ :: nat where "CMD_BUF_SZ \<equiv> 32"

text \<open>The fields of the boot information block that the kernel reads.\<close>

abbreviation (input) mb_mem_lower :: "memory \<Rightarrow> addr \<Rightarrow> u32" where "mb_mem_lower m p \<equiv> load32 m (p + 4)"
abbreviation (input) mb_mem_upper :: "memory \<Rightarrow> addr \<Rightarrow> u32" where "mb_mem_upper m p \<equiv> load32 m (p + 8)"
abbreviation (input) mb_framebuffer_addr :: "memory \<Rightarrow> addr \<Rightarrow> u32" where "mb_framebuffer_addr m p \<equiv> load32 m (p + 88)"
abbreviation (input) mb_framebuffer_type :: "memory \<Rightarrow> addr \<Rightarrow> u8" where "mb_framebuffer_type m p \<equiv> m (p + 109)"

section \<open>State\<close>

record tty = slab_sys +
  multiboot_config :: addr
  ttys :: "addr list"
  tty_xs :: "int list"
  tty_ys :: "int list"
  fores :: "u32 list"
  backs :: "u32 list"
  curr_tty :: u8
  tty_VRAM :: addr
  tty_x :: int
  tty_y :: int
  tty_fore :: u8
  tty_back :: u8
  command_sequence_status :: int
  command_buf :: "u8 list"
  buf_ptr :: nat

definition ASSEMB_COLOUR :: "'a tty_scheme \<Rightarrow> u8" where
  "ASSEMB_COLOUR s = push_bit 4 (tty_back s) + tty_fore s"

definition jmptable :: "u8 list" where
  "jmptable = [0, 4, 2, 6, 1, 5, 3, 7, 8, 12, 10, 14, 9, 13, 11, 15]"

section \<open>Numbers in escape sequences\<close>

primrec atoi_scan :: "nat \<Rightarrow> nat \<Rightarrow> u8 list \<Rightarrow> u8 \<Rightarrow> nat result" where
  "atoi_scan 0 i dec terminator = Inr i"
| "atoi_scan (Suc n) i dec terminator =
     (if i < length dec
      then if dec ! i = terminator then Inr i else atoi_scan n (Suc i) dec terminator
      else Inl Out_Of_Bounds)"

primrec atoi_sum :: "nat \<Rightarrow> u8 list \<Rightarrow> int \<Rightarrow> int \<Rightarrow> int result" where
  "atoi_sum 0 dec result base = Inr result"
| "atoi_sum (Suc j) dec result base =
     bindE (c_int (base * (sint (dec ! j) - 48))) (\<lambda>v.
     bindE (c_int (result + v)) (\<lambda>result.
     bindE (c_int (base * 10)) (\<lambda>base. atoi_sum j dec result base)))"

text \<open>The pointer argument is the rest of the buffer it points into.\<close>

definition atoi :: "u8 list \<Rightarrow> u8 \<Rightarrow> int result" where
  "atoi dec terminator =
     bindE (atoi_scan 12 0 dec terminator) (\<lambda>i. if 10 < i then Inr (- 1) else atoi_sum i dec 0 1)"

primrec find_comma :: "nat \<Rightarrow> nat \<Rightarrow> u8 list \<Rightarrow> nat option" where
  "find_comma 0 i dec = None"
| "find_comma (Suc n) i dec = (if dec ! i = 0x3b then Some i else find_comma n (Suc i) dec)"

definition atoi_comma :: "u8 list \<Rightarrow> (int \<times> int) result" where
  "atoi_comma dec =
     (case find_comma CMD_BUF_SZ 0 dec of
        Some i \<Rightarrow>
          bindE (atoi dec 0x3b) (\<lambda>result.
          bindE (atoi (drop (i + 1) dec) 0) (\<lambda>second. Inr (result, second)))
      | None \<Rightarrow> bindE (atoi dec 0) (\<lambda>result. Inr (result, - 1)))"

definition is_number_or_comma :: "u8 \<Rightarrow> bool" where
  "is_number_or_comma c \<longleftrightarrow> (0x30 \<le> sint c \<and> sint c \<le> 0x39) \<or> c = 0x3b"

section \<open>Cursor and screen\<close>

definition move_cursor :: "u32 \<Rightarrow> u32 \<Rightarrow> 'a machine_scheme \<Rightarrow> 'a machine_scheme" where
  "move_cursor x y s =
     (if 81 \<le> x \<or> 25 \<le> y then s
      else
        let pos = ucast (y * 80 + x) :: u16;
            s = outb 0x3d4 0x0f s;
            s = outb 0x3d5 (ucast (pos AND 0xff)) s;
            s = outb 0x3d4 0x0e s
        in outb 0x3d5 (ucast (drop_bit 8 pos AND 0xff)) s)"

text \<open>\<open>move_cursor(x, y)\<close> on the current position.\<close>

definition show_cursor :: "'a tty_scheme \<Rightarrow> 'a tty_scheme" where
  "show_cursor s = move_cursor (of_int (tty_x s)) (of_int (tty_y s)) s"

definition step_cursor :: "'a tty_scheme \<Rightarrow> 'a tty_scheme result" where
  "step_cursor s =
     bindE
      (if tty_x s = 79 then
         let s = s\<lparr>tty_x := 0\<rparr> in
         if tty_y s \<noteq> VGA_ROW then bindE (c_int (tty_y s + 1)) (\<lambda>y. Inr (s\<lparr>tty_y := y\<rparr>)) else Inr s
       else bindE (c_int (tty_x s + 1)) (\<lambda>x. Inr (s\<lparr>tty_x := x\<rparr>)))
      (\<lambda>s. Inr (show_cursor s))"

function scrup_loop :: "addr \<Rightarrow> addr \<Rightarrow> addr \<Rightarrow> memory \<Rightarrow> addr \<times> memory" where
  "scrup_loop src fin dst m =
     (if src \<noteq> fin then scrup_loop (src + 1) fin (dst + 1) (m(dst := m src)) else (dst, m))"
  by pat_completeness auto
termination
proof (relation "measure (\<lambda>(src, fin, dst, m). unat (fin - src))", goal_cases)
  case (2 src fin dst m)
  then have "fin - src \<noteq> 0" by simp
  then have "unat (fin - src - 1) < unat (fin - src)"
    using unat_gt_0 [of "fin - src"] by (simp add: unat_minus_one)
  then show ?case by (simp add: algebra_simps)
qed simp

declare scrup_loop.simps [simp del]

text \<open>The loop that \<open>scrup\<close> and \<open>cls\<close> share: \<open>n\<close> blank cells.\<close>

primrec blank_cells :: "nat \<Rightarrow> addr \<Rightarrow> u8 \<Rightarrow> memory \<Rightarrow> memory" where
  "blank_cells 0 dst colour m = m"
| "blank_cells (Suc n) dst colour m = blank_cells n (dst + 2) colour (m(dst := 0, dst + 1 := colour))"

definition scrup :: "'a tty_scheme \<Rightarrow> 'a tty_scheme result" where
  "scrup s = deref (tty_VRAM s)
     (let (dst, m) = scrup_loop (tty_VRAM s + 2 * 80) (tty_VRAM s + 2 * 80 * (24 + 1)) (tty_VRAM s) (mem s)
      in Inr (s\<lparr>mem := blank_cells 80 dst (ASSEMB_COLOUR s) m\<rparr>))"

definition linebreak :: "'a tty_scheme \<Rightarrow> 'a tty_scheme result" where
  "linebreak s =
     (let s = s\<lparr>tty_x := 0\<rparr> in
      bindE (if tty_y s = VGA_ROW then scrup s
             else bindE (c_int (tty_y s + 1)) (\<lambda>y. Inr (s\<lparr>tty_y := y\<rparr>)))
       (\<lambda>s. Inr (show_cursor s)))"

definition cls :: "hardware \<Rightarrow> 'a tty_scheme \<Rightarrow> 'a tty_scheme result" where
  "cls hw s = deref (tty_VRAM s)
     (let s = s\<lparr>mem := blank_cells (80 * (24 + 1)) (tty_VRAM s) (ASSEMB_COLOUR s) (mem s)\<rparr>;
          s = s\<lparr>tty_x := 0, tty_y := 0\<rparr>;
          s = outb_p 0x3d4 0x0a s;
          (v, s) = inb hw 0x3d5 s;
          s = outb_p 0x3d5 ((v AND 0xc0) OR 14) s;
          s = outb_p 0x3d4 0x0b s;
          (v, s) = inb hw 0x3d5 s;
          s = outb_p 0x3d5 ((v AND 0xe0) OR 15) s
      in Inr (move_cursor 0 0 s))"

text \<open>The part of \<open>putchar\<close> after the switch; a tab calls it four times through \<open>putchar('\0')\<close>.\<close>

definition put_cell :: "u8 \<Rightarrow> 'a tty_scheme \<Rightarrow> 'a tty_scheme result" where
  "put_cell c s =
     bindE (c_int (tty_y s * VGA_COLUMN + tty_x s)) (\<lambda>pos.
     bindE (c_int (pos * 2)) (\<lambda>pos.
       let vram = tty_VRAM s in deref (vram + of_int pos)
        (let s = s\<lparr>mem := (mem s)(vram + of_int pos := c, vram + of_int (pos + 1) := ASSEMB_COLOUR s)\<rparr> in
         if tty_y s = VGA_ROW \<and> tty_x s = 79
         then bindE (scrup (s\<lparr>tty_x := 0\<rparr>)) (\<lambda>s. Inr (show_cursor s))
         else step_cursor s)))"

definition putchar :: "hardware \<Rightarrow> u8 \<Rightarrow> 'a tty_scheme \<Rightarrow> 'a tty_scheme result" where
  "putchar hw c s =
     (if c = 7 then Inr s
      else if c = 8 then
        if tty_x s = 0 then
          if tty_y s = 0 then Inr s
          else bindE (c_int (tty_y s - 1)) (\<lambda>y. Inr (show_cursor (s\<lparr>tty_y := y, tty_x := 79\<rparr>)))
        else bindE (c_int (tty_x s - 1)) (\<lambda>x. Inr (show_cursor (s\<lparr>tty_x := x\<rparr>)))
      else if c = 12 then bindE (cls hw s) (\<lambda>s. Inr (show_cursor (s\<lparr>tty_x := 0, tty_y := 0\<rparr>)))
      else if c = 10 then linebreak s
      else if c = 13 then Inr (show_cursor (s\<lparr>tty_x := 0\<rparr>))
      else if c = 9 then
        bindE (put_cell 0 s) (\<lambda>s. bindE (put_cell 0 s) (\<lambda>s. bindE (put_cell 0 s) (put_cell 0)))
      else if c = 11 then
        if tty_y s = VGA_ROW then scrup s
        else bindE (c_int (tty_y s + 1)) (\<lambda>y. Inr (show_cursor (s\<lparr>tty_y := y\<rparr>)))
      else put_cell c s)"

text \<open>The five \<open>clear_*\<close> functions: a \<open>memset\<close> of \<open>len\<close> cells from cell \<open>start\<close>, both \<open>int\<close>.\<close>

definition clear_cells :: "int \<Rightarrow> int \<Rightarrow> 'a tty_scheme \<Rightarrow> 'a tty_scheme result" where
  "clear_cells start len s =
     bindE (c_int start) (\<lambda>start. bindE (c_int len) (\<lambda>len.
       let a = tty_VRAM s + push_bit 1 (of_int start) in
       deref a (Inr (s\<lparr>mem := memset (mem s) a 0 (push_bit 1 (of_int len))\<rparr>))))"

definition clear_from_cursor_2_end :: "'a tty_scheme \<Rightarrow> 'a tty_scheme result" where
  "clear_from_cursor_2_end s =
     (let cur = tty_y s * VGA_COLUMN + tty_x s in clear_cells cur (VGA_COLUMN * (VGA_ROW + 1) - cur) s)"

definition clear_from_beginning_2_cursor :: "'a tty_scheme \<Rightarrow> 'a tty_scheme result" where
  "clear_from_beginning_2_cursor s = clear_cells 0 (tty_y s * VGA_COLUMN + tty_x s) s"

definition clear_line_from_cursor_2_end :: "'a tty_scheme \<Rightarrow> 'a tty_scheme result" where
  "clear_line_from_cursor_2_end s =
     clear_cells (tty_y s * VGA_COLUMN + tty_x s) (VGA_COLUMN - tty_x s) s"

definition clear_line_from_beginning_2_cursor :: "'a tty_scheme \<Rightarrow> 'a tty_scheme result" where
  "clear_line_from_beginning_2_cursor s = clear_cells (tty_y s * VGA_COLUMN) (tty_x s) s"

definition clear_line :: "'a tty_scheme \<Rightarrow> 'a tty_scheme result" where
  "clear_line s = clear_cells (tty_y s * VGA_COLUMN) VGA_COLUMN s"

section \<open>The interpreter of \<open>tty_write\<close>\<close>

text \<open>Writing to minor 0 selects a console: save the screen, cursor and colours, load the other's.\<close>

definition switch_tty :: "u8 \<Rightarrow> 'a tty_scheme \<Rightarrow> 'a tty_scheme result" where
  "switch_tty data s =
     (let c = unat (curr_tty s) in
      if data = 0 \<or> sint data = int c then Inr s
      else if 255 \<le> c then Inl Out_Of_Bounds
      else deref (ttys s ! c)
       (let s = s\<lparr>mem := memcpy (mem s) (ttys s ! c) (tty_VRAM s) (2 * 80 * (24 + 1))\<rparr>;
            s = s\<lparr>tty_xs := (tty_xs s)[c := tty_x s], tty_ys := (tty_ys s)[c := tty_y s],
                  fores := (fores s)[c := scast (tty_fore s)], backs := (backs s)[c := scast (tty_back s)]\<rparr> in
        if sint data < 0 then Inl Out_Of_Bounds
        else
          let d = unat data in
          bindE
           (if ttys s ! d = 0 then
              let (p, s) = palloc ZONE_KERNEL PAGE_SIZE s;
                  s = s\<lparr>ttys := (ttys s)[d := p]\<rparr>
              in deref p (Inr (s\<lparr>mem := memset (mem s) p 0 (2 * 80 * (24 + 1))\<rparr>))
            else Inr s)
           (\<lambda>s. let s = s\<lparr>curr_tty := data, tty_x := tty_xs s ! d, tty_y := tty_ys s ! d,
                        tty_fore := ucast (fores s ! d), tty_back := ucast (backs s ! d)\<rparr>
                in deref (ttys s ! d)
                    (Inr (s\<lparr>mem := memcpy (mem s) (tty_VRAM s) (ttys s ! d) (2 * 80 * (24 + 1))\<rparr>)))))"

text \<open>Clamping as the cases of the switch do it: below by zero, above by the given limit.\<close>

definition move_up :: "int \<Rightarrow> int \<Rightarrow> int result" where
  "move_up v num = (if v < num then Inr 0 else c_int (v - num))"

definition move_down :: "int \<Rightarrow> int \<Rightarrow> int \<Rightarrow> int result" where
  "move_down limit v num = bindE (c_int (v + num)) (\<lambda>v. Inr (if limit < v then limit else v))"

definition clamp :: "int \<Rightarrow> int \<Rightarrow> int" where
  "clamp limit v = (let v = (if v < 0 then 0 else v) in if limit < v then limit else v)"

definition set_colours :: "int \<Rightarrow> int \<Rightarrow> 'a tty_scheme \<Rightarrow> 'a tty_scheme" where
  "set_colours num second s =
     (let s = (if num = 0 then s\<lparr>tty_fore := DEFAULT_FORE, tty_back := DEFAULT_BACK\<rparr> else s);
          s = (if 30 \<le> num \<and> num \<le> 37 then s\<lparr>tty_fore := jmptable ! nat (num - 30)\<rparr> else s);
          s = (if num = 1 \<and> 30 \<le> second \<and> second \<le> 37
               then s\<lparr>tty_fore := jmptable ! nat (second - 30 + 8)\<rparr> else s);
          s = (if 40 \<le> num \<and> num \<le> 47 then s\<lparr>tty_back := jmptable ! nat (num - 40)\<rparr> else s)
      in if num = 1 \<and> 40 \<le> second \<and> second \<le> 47
         then s\<lparr>tty_back := jmptable ! nat (second - 40 + 8)\<rparr> else s)"

text \<open>The switch over the final character: A B C D E F G H f J K S T m.\<close>

definition run_command :: "hardware \<Rightarrow> u8 \<Rightarrow> int \<Rightarrow> int \<Rightarrow> 'a tty_scheme \<Rightarrow> 'a tty_scheme result" where
  "run_command hw data num second s =
     (if data = 0x41 then bindE (move_up (tty_y s) num) (\<lambda>y. Inr (s\<lparr>tty_y := y\<rparr>))
      else if data = 0x42 then bindE (move_down VGA_ROW (tty_y s) num) (\<lambda>y. Inr (s\<lparr>tty_y := y\<rparr>))
      else if data = 0x43 then bindE (move_down VGA_COLUMN (tty_x s) num) (\<lambda>x. Inr (s\<lparr>tty_x := x\<rparr>))
      else if data = 0x44 then bindE (move_up (tty_x s) num) (\<lambda>x. Inr (s\<lparr>tty_x := x\<rparr>))
      else if data = 0x45 then
        bindE (move_down VGA_ROW (tty_y s) num) (\<lambda>y. Inr (s\<lparr>tty_x := 0, tty_y := y\<rparr>))
      else if data = 0x46 then bindE (move_up (tty_y s) num) (\<lambda>y. Inr (s\<lparr>tty_x := 0, tty_y := y\<rparr>))
      else if data = 0x47 then Inr (s\<lparr>tty_x := clamp VGA_COLUMN num\<rparr>)
      else if data = 0x48 \<or> data = 0x66 then
        let s = (if data = 0x48 then s\<lparr>tty_x := 0, tty_y := 0\<rparr> else s)
        in Inr (if second \<noteq> - 1
                then s\<lparr>tty_x := clamp VGA_COLUMN num, tty_y := clamp VGA_ROW second\<rparr> else s)
      else if data = 0x4a then
        if num = 0 then clear_from_cursor_2_end s
        else if num = 1 then clear_from_beginning_2_cursor s
        else if num = 2 then cls hw s else Inr s
      else if data = 0x4b then
        if num = 0 then clear_line_from_cursor_2_end s
        else if num = 1 then clear_line_from_beginning_2_cursor s
        else if num = 2 then clear_line s else Inr s
      else if data = 0x53 \<or> data = 0x54 then cls hw s
      else if data = 0x6d then Inr (set_colours num second s)
      else Inr s)"

text \<open>The label \<open>terminate_sequence\<close>, after which the function returns no value.\<close>

definition terminate_sequence :: "'a tty_scheme \<Rightarrow> (u32 option \<times> 'a tty_scheme) result" where
  "terminate_sequence s =
     Inr (None, s\<lparr>command_sequence_status := 0, buf_ptr := 0, command_buf := replicate CMD_BUF_SZ 0\<rparr>)"

definition tty_write :: "hardware \<Rightarrow> u16 \<Rightarrow> u8 \<Rightarrow> 'a tty_scheme \<Rightarrow> (u32 option \<times> 'a tty_scheme) result" where
  "tty_write hw minor data s =
     (if minor = 0 then bindE (switch_tty data s) (\<lambda>s. Inr (Some 0, s))
      else if data = 0x1b then Inr (Some 0, s\<lparr>command_sequence_status := 1\<rparr>)
      else if data = 0x5b \<and> command_sequence_status s = 1 then
        Inr (Some 0, s\<lparr>command_sequence_status := 2\<rparr>)
      else if command_sequence_status s = 2 then
        if is_number_or_comma data then
          if buf_ptr s < CMD_BUF_SZ
          then Inr (Some 0, s\<lparr>command_buf := (command_buf s)[buf_ptr s := data], buf_ptr := buf_ptr s + 1\<rparr>)
          else Inl Out_Of_Bounds
        else bindE (atoi_comma (command_buf s)) (\<lambda>(num, second).
             bindE (run_command hw data num second s) terminate_sequence)
      else bindE (putchar hw data s) terminate_sequence)"

definition tty_preinit :: "hardware \<Rightarrow> 'a tty_scheme \<Rightarrow> 'a tty_scheme result" where
  "tty_preinit hw s =
     (let info = multiboot_config s in deref info
       (let s = s\<lparr>tty_VRAM := mb_framebuffer_addr (mem s) info + 0xc0000000,
                  tty_fore := DEFAULT_FORE, tty_back := DEFAULT_BACK\<rparr> in
        if mb_framebuffer_type (mem s) info \<noteq> 2 then Inl (Panic ''unsupported graphic mode'')
        else cls hw s))"

end
