(* ===== verification/Char_Tty_Term.thy ===== *)
theory Char_Tty_Term
  imports Char_Tty
begin

text \<open>
  The console as an abstract terminal: 25 rows of 80 cells, a cursor and a colour. Every ordinary
  character that \<open>tty_write\<close> receives outside an escape sequence acts on the memory-mapped screen
  exactly as \<open>term_put\<close> acts on the terminal, and touches no other memory.
\<close>

section \<open>The abstract terminal\<close>

record terminal =
  rows :: "(u8 \<times> u8) list list"
  row :: nat
  col :: nat
  colour :: u8

definition scroll :: "terminal \<Rightarrow> terminal" where
  "scroll t = t\<lparr>rows := tl (rows t) @ [replicate 80 (0, colour t)]\<rparr>"

definition term_cell :: "u8 \<Rightarrow> terminal \<Rightarrow> terminal" where
  "term_cell c t =
     (let t = t\<lparr>rows := (rows t)[row t := (rows t ! row t)[col t := (c, colour t)]]\<rparr> in
      if col t = 79 then if row t = 24 then scroll (t\<lparr>col := 0\<rparr>) else t\<lparr>col := 0, row := row t + 1\<rparr>
      else t\<lparr>col := col t + 1\<rparr>)"

definition term_put :: "u8 \<Rightarrow> terminal \<Rightarrow> terminal" where
  "term_put c t =
     (if c = 7 then t
      else if c = 8 then
        if col t = 0 then if row t = 0 then t else t\<lparr>row := row t - 1, col := 79\<rparr>
        else t\<lparr>col := col t - 1\<rparr>
      else if c = 12 then t\<lparr>rows := replicate 25 (replicate 80 (0, colour t)), row := 0, col := 0\<rparr>
      else if c = 10 then if row t = 24 then scroll (t\<lparr>col := 0\<rparr>) else t\<lparr>row := row t + 1, col := 0\<rparr>
      else if c = 13 then t\<lparr>col := 0\<rparr>
      else if c = 9 then term_cell 0 (term_cell 0 (term_cell 0 (term_cell 0 t)))
      else if c = 11 then if row t = 24 then scroll t else t\<lparr>row := row t + 1\<rparr>
      else term_cell c t)"

definition cell_at :: "memory \<Rightarrow> addr \<Rightarrow> nat \<Rightarrow> nat \<Rightarrow> u8 \<times> u8" where
  "cell_at m v r c = (m (v + of_nat (160 * r + 2 * c)), m (v + of_nat (160 * r + 2 * c + 1)))"

definition screen_rows :: "memory \<Rightarrow> addr \<Rightarrow> (u8 \<times> u8) list list" where
  "screen_rows m v = map (\<lambda>r. map (cell_at m v r) [0..<80]) [0..<25]"

definition term_of :: "'a tty_scheme \<Rightarrow> terminal" where
  "term_of s = \<lparr>rows = screen_rows (mem s) (tty_VRAM s), row = nat (tty_y s), col = nat (tty_x s),
     colour = ASSEMB_COLOUR s\<rparr>"

text \<open>The screen's 4000 bytes, and the invariant of the console between characters.\<close>

definition screen :: "addr \<Rightarrow> addr set" where
  "screen v = block v 4000"

definition tty_ok :: "'a tty_scheme \<Rightarrow> bool" where
  "tty_ok s \<longleftrightarrow> mapped (tty_VRAM s) \<and> unat (tty_VRAM s) + 4000 \<le> 2 ^ 32
     \<and> 0 \<le> tty_x s \<and> tty_x s \<le> 79 \<and> 0 \<le> tty_y s \<and> tty_y s \<le> 24"

section \<open>Loops over the screen\<close>

lemma offset_unat: "i < 2 ^ 32 \<Longrightarrow> unat (v + of_nat i - (v :: addr)) = i"
  by (simp add: unat_of_nat)

lemma offset_inj: "i < 2 ^ 32 \<Longrightarrow> j < 2 ^ 32 \<Longrightarrow> v + of_nat i = (v :: addr) + of_nat j \<longleftrightarrow> i = j"
  by (metis offset_unat)

lemma scrup_loop_spec:
  assumes "k \<le> 3840"
  shows "scrup_loop (v + of_nat (160 + k)) (v + of_nat 4000) (v + of_nat k) m
    = (v + of_nat 3840, \<lambda>a. if k \<le> unat (a - v) \<and> unat (a - v) < 3840 then m (a + 160) else m a)"
  using assms
proof (induction "3840 - k" arbitrary: k m)
  case 0
  then have "k = 3840" by simp
  then show ?case by (subst scrup_loop.simps) (auto simp: fun_eq_iff)
next
  case (Suc n)
  then have k: "k < 3840" and n: "n = 3840 - Suc k" by simp_all
  have ne: "v + of_nat (160 + k) \<noteq> v + of_nat 4000"
    using offset_inj [of "160 + k" 4000 v] k by simp
  have inc: "v + of_nat (160 + k) + 1 = v + of_nat (160 + Suc k)" "v + of_nat k + 1 = v + of_nat (Suc k)"
    by (simp_all add: algebra_simps)
  let ?m = "m(v + of_nat k := m (v + of_nat (160 + k)))"
  have eq: "(\<lambda>a. if Suc k \<le> unat (a - v) \<and> unat (a - v) < 3840 then ?m (a + 160) else ?m a)
      = (\<lambda>a. if k \<le> unat (a - v) \<and> unat (a - v) < 3840 then m (a + 160) else m a)"
  proof
    fix a
    define i where "i = unat (a - v)"
    have a: "a = v + of_nat i" by (simp add: i_def)
    have "a + 160 = v + of_nat (i + 160)" by (simp add: a)
    moreover have "i < 3840 \<Longrightarrow> v + of_nat (i + 160) \<noteq> v + of_nat k \<or> i + 160 = k"
      using offset_inj [of "i + 160" k v] k by simp
    moreover have "a = v + of_nat k \<longleftrightarrow> i = k"
      unfolding a using offset_inj [of i k v] k by (simp add: i_def del: unat_lt add: unat_lt)
    ultimately show "(if Suc k \<le> unat (a - v) \<and> unat (a - v) < 3840 then ?m (a + 160) else ?m a)
      = (if k \<le> unat (a - v) \<and> unat (a - v) < 3840 then m (a + 160) else m a)"
      unfolding i_def [symmetric] using k by (auto simp: algebra_simps)
  qed
  show ?case
    by (subst scrup_loop.simps, simp only: ne not_False_eq_True if_True inc)
      (use Suc(1) [OF n, of ?m] k eq in simp)
qed

lemma blank_cells_spec:
  "n \<le> 2000 \<Longrightarrow> blank_cells n p c m =
     (\<lambda>a. if unat (a - p) < 2 * n then if even (unat (a - p)) then 0 else c else m a)"
proof (induction n arbitrary: p m)
  case (Suc n)
  show ?case
  proof
    fix a
    define i where "i = unat (a - p)"
    have a: "a = p + of_nat i" by (simp add: i_def)
    have lt: "i < 2 ^ 32" by (simp add: i_def)
    have e: "a = p \<longleftrightarrow> i = 0" "a = p + 1 \<longleftrightarrow> i = 1"
      unfolding a using offset_inj [of i 0 p] offset_inj [of i 1 p] lt by simp_all
    have j: "unat (a - (p + 2)) = (if 2 \<le> i then i - 2 else i + 2 ^ 32 - 2)"
    proof -
      have "a - (p + 2) = of_nat i - 2" by (simp add: a)
      moreover have "unat (of_nat i - 2 :: addr) = (if 2 \<le> i then i - 2 else i + 2 ^ 32 - 2)"
        using lt by (simp add: unat_sub_if' unat_of_nat)
      ultimately show ?thesis by (simp only:)
    qed
    show "blank_cells (Suc n) p c m a = (if unat (a - p) < 2 * Suc n then if even (unat (a - p)) then 0 else c else m a)"
      unfolding i_def [symmetric] using Suc(2) lt
      by (simp add: Suc(1) e j) (auto simp: less_2_cases_iff not_le)
  qed
qed auto

section \<open>Screen contents\<close>

lemma screen_offset: "unat v + 4000 \<le> 2 ^ 32 \<Longrightarrow> a \<in> screen v \<longleftrightarrow> unat (a - v) < 4000"
proof
  assume v: "unat v + 4000 \<le> 2 ^ 32" and "unat (a - v) < 4000"
  then have "v + of_nat (unat (a - v)) \<in> screen v" unfolding screen_def by (intro block_add_of_nat) simp_all
  then show "a \<in> screen v" by simp
next
  assume "unat v + 4000 \<le> 2 ^ 32" and "a \<in> screen v"
  then show "unat (a - v) < 4000" by (auto simp: screen_def mem_block_iff unat_sub_if')
qed

lemma screen_rows_eq_iff:
  "screen_rows m v = R \<longleftrightarrow> length R = 25 \<and> (\<forall>r < 25. length (R ! r) = 80 \<and> (\<forall>c < 80. R ! r ! c = cell_at m v r c))"
  by (auto simp: screen_rows_def list_eq_iff_nth_eq)

lemma screen_rows_nth [simp]:
  "length (screen_rows m v) = 25" "r < 25 \<Longrightarrow> length (screen_rows m v ! r) = 80"
  "r < 25 \<Longrightarrow> c < 80 \<Longrightarrow> screen_rows m v ! r ! c = cell_at m v r c"
  by (simp_all add: screen_rows_def)

lemma cell_index:
  assumes "j < 80" and "c < (80 :: nat)"
  shows "160 * i + 2 * j = 160 * r + 2 * c \<longleftrightarrow> i = r \<and> j = c"
    and "160 * i + 2 * j \<noteq> 160 * r + 2 * c + 1"
proof -
  have "(2 * j + 160 * i) div 160 = i" "(2 * c + 160 * r) div 160 = r"
    using assms by (simp_all add: div_mult_self2)
  then show "160 * i + 2 * j = 160 * r + 2 * c \<longleftrightarrow> i = r \<and> j = c" by (metis add.commute add_left_cancel mult_cancel1 zero_neq_numeral)
  have "even (160 * i + 2 * j)" "odd (160 * r + 2 * c + 1)" by simp_all
  then show "160 * i + 2 * j \<noteq> 160 * r + 2 * c + 1" by metis
qed

lemma screen_rows_put:
  assumes "r < 25" and "c < 80"
  shows "screen_rows (m(v + of_nat (160 * r + 2 * c) := ch, v + of_nat (160 * r + 2 * c + 1) := k)) v
    = (screen_rows m v)[r := (screen_rows m v ! r)[c := (ch, k)]]"
proof -
  have "cell_at (m(v + of_nat (160 * r + 2 * c) := ch, v + of_nat (160 * r + 2 * c + 1) := k)) v i j
      = (if i = r \<and> j = c then (ch, k) else cell_at m v i j)" if "i < 25" "j < 80" for i j
  proof -
    have b: "160 * i + 2 * j < 2 ^ 32" "160 * i + 2 * j + 1 < 2 ^ 32" "160 * r + 2 * c < 2 ^ 32" "160 * r + 2 * c + 1 < 2 ^ 32"
      using assms that by simp_all
    have "v + of_nat (160 * i + 2 * j) = v + of_nat (160 * r + 2 * c) \<longleftrightarrow> i = r \<and> j = c"
      using offset_inj [OF b(1,3), of v] cell_index(1) [OF that(2) assms(2)] by (simp only:)
    moreover have "v + of_nat (160 * i + 2 * j + 1) = v + of_nat (160 * r + 2 * c + 1) \<longleftrightarrow> i = r \<and> j = c"
      using offset_inj [OF b(2,4), of v] cell_index(1) [OF that(2) assms(2)] by (simp only: add_right_cancel)
    moreover have "v + of_nat (160 * i + 2 * j) \<noteq> v + of_nat (160 * r + 2 * c + 1)"
      using offset_inj [OF b(1,4), of v] cell_index(2) [OF that(2) assms(2)] by (simp only: not_False_eq_True)
    moreover have "v + of_nat (160 * i + 2 * j + 1) \<noteq> v + of_nat (160 * r + 2 * c)"
      using offset_inj [OF b(2,3), of v] cell_index(2) [OF assms(2) that(2)] by metis
    ultimately show ?thesis unfolding cell_at_def by (simp only: fun_upd_apply) simp
  qed
  then show ?thesis using assms by (auto simp: screen_rows_eq_iff nth_list_update)
qed

lemma screen_rows_scroll:
  assumes "\<And>a. m' a = (if unat (a - v) < 3840 then m (a + 160)
      else if unat (a - v) < 4000 then if even (unat (a - v)) then 0 else k else m a)"
  shows "screen_rows m' v = tl (screen_rows m v) @ [replicate 80 (0, k)]"
proof -
  have o: "m' (v + of_nat i) = (if i < 3840 then m (v + of_nat (i + 160)) else if even i then 0 else k)"
    if "i < 4000" for i
    using that offset_unat [of i v] by (simp add: assms algebra_simps)
  have c: "cell_at m' v r c = (if r < 24 then cell_at m v (Suc r) c else (0, k))" if "r < 25" "c < 80" for r c
  proof -
    have "160 * Suc r + 2 * c = 160 * r + 2 * c + 160" "160 * Suc r + 2 * c + 1 = 160 * r + 2 * c + 1 + 160" by simp_all
    then show ?thesis using that by (simp only: cell_at_def) (subst (1 2) o; auto)
  qed
  show ?thesis
    by (auto simp: screen_rows_eq_iff c nth_append nth_tl less_Suc_eq_le)
qed

section \<open>Every operation keeps the console and follows the terminal\<close>

text \<open>What a console operation may change: the screen, the trace and the cursor.\<close>

definition tty_step :: "'a tty_scheme \<Rightarrow> 'a tty_scheme \<Rightarrow> bool" where
  "tty_step s s' \<longleftrightarrow> tty_ok s' \<and> same_off (screen (tty_VRAM s)) (mem s) (mem s')
     \<and> s' = s\<lparr>mem := mem s', io := io s', tty_x := tty_x s', tty_y := tty_y s'\<rparr>"

lemma tty_step_refl: "tty_ok s \<Longrightarrow> tty_step s s"
  by (simp add: tty_step_def)

lemma tty_stepD:
  assumes "tty_step s s'"
  shows "tty_ok s'" and "tty_VRAM s' = tty_VRAM s" and "ASSEMB_COLOUR s' = ASSEMB_COLOUR s"
    and "command_sequence_status s' = command_sequence_status s" and "command_buf s' = command_buf s"
    and "buf_ptr s' = buf_ptr s"
proof -
  show "tty_ok s'" using assms by (simp add: tty_step_def)
  obtain m i x y where "s' = s\<lparr>mem := m, io := i, tty_x := x, tty_y := y\<rparr>"
    using assms unfolding tty_step_def by blast
  then show "tty_VRAM s' = tty_VRAM s" "ASSEMB_COLOUR s' = ASSEMB_COLOUR s"
    "command_sequence_status s' = command_sequence_status s" "command_buf s' = command_buf s" "buf_ptr s' = buf_ptr s"
    by (simp_all add: ASSEMB_COLOUR_def)
qed

lemma tty_step_trans:
  assumes a: "tty_step s s'" and b: "tty_step s' s''"
  shows "tty_step s s''"
proof -
  obtain m i x y where e: "s' = s\<lparr>mem := m, io := i, tty_x := x, tty_y := y\<rparr>"
    using a unfolding tty_step_def by blast
  have "s'' = s'\<lparr>mem := mem s'', io := io s'', tty_x := tty_x s'', tty_y := tty_y s''\<rparr>"
    using b unfolding tty_step_def by blast
  then have "s'' = s\<lparr>mem := mem s'', io := io s'', tty_x := tty_x s'', tty_y := tty_y s''\<rparr>"
    unfolding e by simp
  moreover have "same_off (screen (tty_VRAM s)) (mem s) (mem s'')"
    using a b tty_stepD(2) [OF a] by (auto simp: tty_step_def intro: same_off_trans)
  ultimately show ?thesis using b by (simp add: tty_step_def)
qed

lemma move_cursor_eq: "move_cursor x y s = s\<lparr>io := io (move_cursor x y s)\<rparr>"
  by (simp add: move_cursor_def io_defs event_def)

lemma show_cursor_eq: "\<exists>i. show_cursor s = s\<lparr>io := i\<rparr>"
  unfolding show_cursor_def using move_cursor_eq by blast

lemma tty_step_show:
  assumes "tty_step s s'"
  shows "tty_step s (show_cursor s')" and "term_of (show_cursor s') = term_of s'"
proof -
  obtain i where i: "show_cursor s' = s'\<lparr>io := i\<rparr>" using show_cursor_eq by blast
  show "term_of (show_cursor s') = term_of s'" by (simp add: i term_of_def ASSEMB_COLOUR_def)
  have "tty_step s' (s'\<lparr>io := i\<rparr>)" using tty_stepD(1) [OF assms] by (simp add: tty_step_def tty_ok_def)
  then show "tty_step s (show_cursor s')" unfolding i by (rule tty_step_trans [OF assms])
qed

lemma tty_step_move:
  assumes "tty_ok s" and "0 \<le> x" "x \<le> 79" "0 \<le> y" "y \<le> 24"
  shows "tty_step s (s\<lparr>tty_x := x, tty_y := y\<rparr>)"
  using assms by (simp add: tty_step_def tty_ok_def)

lemma tty_step_move_x: "tty_ok s \<Longrightarrow> 0 \<le> x \<Longrightarrow> x \<le> 79 \<Longrightarrow> tty_step s (s\<lparr>tty_x := x\<rparr>)"
  by (simp add: tty_step_def tty_ok_def)

lemma tty_xy_swap: "s\<lparr>tty_y := y, tty_x := x\<rparr> = s\<lparr>tty_x := x, tty_y := y\<rparr>"
  by simp

text \<open>A step together with its effect on the terminal.\<close>

definition follows :: "'a tty_scheme result \<Rightarrow> 'a tty_scheme \<Rightarrow> terminal \<Rightarrow> bool" where
  "follows r s t \<longleftrightarrow> (\<exists>s'. r = Inr s' \<and> tty_step s s' \<and> term_of s' = t)"

lemma follows_bind:
  assumes "follows r s t" and "\<And>s'. tty_step s s' \<Longrightarrow> term_of s' = t \<Longrightarrow> follows (f s') s' u"
  shows "follows (bindE r f) s u"
  using assms tty_step_trans unfolding follows_def by (metis bindE_simps(2))

lemma follows_show: "tty_step s s' \<Longrightarrow> term_of s' = t \<Longrightarrow> follows (Inr (show_cursor s')) s t"
  using tty_step_show unfolding follows_def by blast

lemma follows_show_bind: "follows r s t \<Longrightarrow> follows (bindE r (\<lambda>s. Inr (show_cursor s))) s t"
  using tty_step_show unfolding follows_def by fastforce

lemma scrup_follows:
  assumes "tty_ok s"
  shows "follows (scrup s) s (scroll (term_of s))"
proof -
  let ?v = "tty_VRAM s" and ?k = "ASSEMB_COLOUR s"
  have v: "mapped ?v" "unat ?v + 4000 \<le> 2 ^ 32" using assms by (simp_all add: tty_ok_def)
  have loop: "scrup_loop (?v + 2 * 80) (?v + 2 * 80 * (24 + 1)) ?v (mem s)
    = (?v + of_nat 3840, \<lambda>a. if unat (a - ?v) < 3840 then mem s (a + 160) else mem s a)"
    using scrup_loop_spec [of 0 ?v "mem s"] by simp
  define m' where "m' = blank_cells 80 (?v + of_nat 3840) ?k (\<lambda>a. if unat (a - ?v) < 3840 then mem s (a + 160) else mem s a)"
  have m': "m' a = (if unat (a - ?v) < 3840 then mem s (a + 160)
      else if unat (a - ?v) < 4000 then if even (unat (a - ?v)) then 0 else ?k else mem s a)" for a
  proof -
    define i where "i = unat (a - ?v)"
    have lt: "i < 2 ^ 32" by (simp add: i_def)
    have "a - (?v + of_nat 3840) = of_nat i - of_nat 3840" by (simp add: i_def)
    moreover have "unat (of_nat i - of_nat 3840 :: addr) = (if 3840 \<le> i then i - 3840 else i + 2 ^ 32 - 3840)"
      using lt by (simp add: unat_sub_if' unat_of_nat)
    ultimately have "unat (a - (?v + of_nat 3840)) = (if 3840 \<le> i then i - 3840 else i + 2 ^ 32 - 3840)"
      by (simp only:)
    then show ?thesis
      unfolding m'_def i_def [symmetric] by (simp add: blank_cells_spec) (auto simp: i_def)
  qed
  have "scrup s = Inr (s\<lparr>mem := m'\<rparr>)" using v(1) by (simp only: scrup_def loop m'_def deref_mapped) simp
  moreover have "same_off (screen ?v) (mem s) m'" by (auto simp: same_off_def m' screen_offset [OF v(2)])
  then have "tty_step s (s\<lparr>mem := m'\<rparr>)" using assms by (simp add: tty_step_def tty_ok_def)
  moreover have "term_of (s\<lparr>mem := m'\<rparr>) = scroll (term_of s)"
    using screen_rows_scroll [OF m'] by (simp add: term_of_def scroll_def ASSEMB_COLOUR_def)
  ultimately show ?thesis unfolding follows_def by blast
qed

lemma step_cursor_follows:
  assumes "tty_ok s" and "\<not> (tty_y s = 24 \<and> tty_x s = 79)"
  shows "follows (step_cursor s) s (let t = term_of s in
    if col t = 79 then t\<lparr>col := 0, row := row t + 1\<rparr> else t\<lparr>col := col t + 1\<rparr>)"
proof -
  have b: "0 \<le> tty_x s" "tty_x s \<le> 79" "0 \<le> tty_y s" "tty_y s \<le> 24" using assms by (simp_all add: tty_ok_def)
  show ?thesis
  proof (cases "tty_x s = 79")
    case True
    have "tty_step s (s\<lparr>tty_x := 0, tty_y := tty_y s + 1\<rparr>)"
      using b True assms by (intro tty_step_move) auto
    then have "follows (Inr (show_cursor (s\<lparr>tty_x := 0, tty_y := tty_y s + 1\<rparr>))) s
       ((term_of s)\<lparr>col := 0, row := row (term_of s) + 1\<rparr>)"
      using b by (intro follows_show) (simp_all add: term_of_def ASSEMB_COLOUR_def nat_add_distrib)
    moreover have "nat (tty_x s) = 79" using True by simp
    ultimately show ?thesis using True assms b by (simp add: step_cursor_def term_of_def Let_def)
  next
    case False
    have "tty_step s (s\<lparr>tty_x := tty_x s + 1, tty_y := tty_y s\<rparr>)"
      using b False assms by (intro tty_step_move) auto
    then have "follows (Inr (show_cursor (s\<lparr>tty_x := tty_x s + 1\<rparr>))) s ((term_of s)\<lparr>col := col (term_of s) + 1\<rparr>)"
      using b by (intro follows_show) (simp_all add: term_of_def ASSEMB_COLOUR_def nat_add_distrib)
    moreover have "nat (tty_x s) \<noteq> 79" using False b by auto
    ultimately show ?thesis using False b by (simp add: step_cursor_def term_of_def Let_def)
  qed
qed

lemma put_cell_follows:
  assumes "tty_ok s"
  shows "follows (put_cell c s) s (term_cell c (term_of s))"
proof -
  let ?v = "tty_VRAM s" and ?r = "nat (tty_y s)" and ?c = "nat (tty_x s)"
  have b: "mapped ?v" "unat ?v + 4000 \<le> 2 ^ 32" "0 \<le> tty_x s" "tty_x s \<le> 79" "0 \<le> tty_y s" "tty_y s \<le> 24"
    using assms by (simp_all add: tty_ok_def)
  define i where "i = 160 * ?r + 2 * ?c"
  have pos: "(tty_y s * 80 + tty_x s) * 2 = int i" using b by (simp add: i_def)
  have i: "i + 1 < 4000" using b by (simp add: i_def)
  define m where "m = (mem s)(?v + of_nat i := c, ?v + of_nat (i + 1) := ASSEMB_COLOUR s)"
  define s1 where "s1 = s\<lparr>mem := m\<rparr>"
  have mp: "mapped (?v + of_nat i)" using b(1,2) i by (simp add: mapped_def word_le_nat_alt unat_add_of_nat)
  have "?v + of_nat i \<in> screen ?v" "?v + of_nat (i + 1) \<in> screen ?v"
    unfolding screen_def using i b(2) by (intro block_add_of_nat; simp)+
  then have "same_off (screen ?v) (mem s) m"
    unfolding same_off_def m_def by (metis fun_upd_apply)
  then have st: "tty_step s s1" using assms by (simp add: tty_step_def tty_ok_def s1_def)
  have ok: "tty_ok s1" using st by (simp add: tty_step_def)
  have rows1: "screen_rows m ?v = (screen_rows (mem s) ?v)[?r := (screen_rows (mem s) ?v ! ?r)[?c := (c, ASSEMB_COLOUR s)]]"
    unfolding m_def i_def using b by (intro screen_rows_put) auto
  have t1: "term_of s1 = (term_of s)\<lparr>rows := (rows (term_of s))[row (term_of s) :=
      (rows (term_of s) ! row (term_of s))[col (term_of s) := (c, colour (term_of s))]]\<rparr>"
    using rows1 by (simp add: term_of_def s1_def ASSEMB_COLOUR_def)
  have eval: "put_cell c s = (if tty_y s1 = 24 \<and> tty_x s1 = 79
      then bindE (scrup (s1\<lparr>tty_x := 0\<rparr>)) (\<lambda>s. Inr (show_cursor s)) else step_cursor s1)"
    using b pos mp by (simp add: put_cell_def s1_def m_def Let_def add.commute [of "1 :: addr" "of_nat i"])
  show ?thesis
  proof (cases "tty_y s1 = 24 \<and> tty_x s1 = 79")
    case True
    have st2: "tty_step s1 (s1\<lparr>tty_x := 0\<rparr>)" by (rule tty_step_move_x [OF ok]) simp_all
    then have "follows (bindE (scrup (s1\<lparr>tty_x := 0\<rparr>)) (\<lambda>s. Inr (show_cursor s))) (s1\<lparr>tty_x := 0\<rparr>)
       (scroll (term_of (s1\<lparr>tty_x := 0\<rparr>)))"
      by (intro follows_show_bind scrup_follows tty_stepD(1))
    then have "follows (put_cell c s) s (scroll (term_of (s1\<lparr>tty_x := 0\<rparr>)))"
      unfolding eval using True tty_step_trans [OF tty_step_trans [OF st st2]] by (auto simp: follows_def)
    moreover have "term_of (s1\<lparr>tty_x := 0\<rparr>) = (term_of s1)\<lparr>col := 0\<rparr>"
      by (simp add: term_of_def ASSEMB_COLOUR_def)
    moreover have "row (term_of s) = 24" "col (term_of s) = 79" using True by (simp_all add: term_of_def s1_def)
    ultimately show ?thesis by (simp add: term_cell_def t1 Let_def)
  next
    case False
    have "follows (put_cell c s) s (let t = term_of s1 in
        if col t = 79 then t\<lparr>col := 0, row := row t + 1\<rparr> else t\<lparr>col := col t + 1\<rparr>)"
      using step_cursor_follows [OF ok False] False tty_step_trans [OF st] by (auto simp: follows_def eval)
    moreover have "\<not> (row (term_of s) = 24 \<and> col (term_of s) = 79)" using False b by (auto simp: term_of_def s1_def)
    ultimately show ?thesis by (auto simp: term_cell_def t1 Let_def)
  qed
qed

lemma linebreak_follows:
  assumes "tty_ok s"
  shows "follows (linebreak s) s (term_put 10 (term_of s))"
proof -
  have b: "0 \<le> tty_x s" "tty_x s \<le> 79" "0 \<le> tty_y s" "tty_y s \<le> 24" using assms by (simp_all add: tty_ok_def)
  show ?thesis
  proof (cases "tty_y s = 24")
    case True
    have st: "tty_step s (s\<lparr>tty_x := 0\<rparr>)" by (rule tty_step_move_x [OF assms]) simp_all
    have "follows (bindE (scrup (s\<lparr>tty_x := 0\<rparr>)) (\<lambda>s. Inr (show_cursor s))) (s\<lparr>tty_x := 0\<rparr>)
        (scroll (term_of (s\<lparr>tty_x := 0\<rparr>)))"
      by (intro follows_show_bind scrup_follows tty_stepD(1) [OF st])
    then show ?thesis using True tty_step_trans [OF st]
      by (auto simp: follows_def linebreak_def term_put_def term_of_def ASSEMB_COLOUR_def)
  next
    case False
    have "tty_step s (s\<lparr>tty_x := 0, tty_y := tty_y s + 1\<rparr>)" using b False assms by (intro tty_step_move) auto
    then have "follows (Inr (show_cursor (s\<lparr>tty_x := 0, tty_y := tty_y s + 1\<rparr>))) s
        ((term_of s)\<lparr>row := row (term_of s) + 1, col := 0\<rparr>)"
      using b by (intro follows_show) (simp_all add: term_of_def ASSEMB_COLOUR_def nat_add_distrib)
    moreover have "nat (tty_y s) \<noteq> 24" using False b by auto
    ultimately show ?thesis using False b by (simp add: linebreak_def term_put_def term_of_def)
  qed
qed

lemma screen_rows_blank:
  "screen_rows (\<lambda>a. if unat (a - v) < 4000 then if even (unat (a - v)) then 0 else k else m a) v
     = replicate 25 (replicate 80 (0, k))"
proof -
  let ?m = "\<lambda>a. if unat (a - v) < 4000 then if even (unat (a - v)) then 0 else k else m a"
  have o: "?m (v + of_nat i) = (if even i then 0 else k)" if "i < 4000" for i
    using that by (simp add: unat_of_nat)
  have "cell_at ?m v r c = (0, k)" if "r < 25" "c < 80" for r c
    using that o [of "160 * r + 2 * c"] o [of "160 * r + 2 * c + 1"]
    unfolding cell_at_def by (simp del: of_nat_add of_nat_mult)
  then show ?thesis by (auto simp: screen_rows_eq_iff)
qed

lemma cls_follows:
  assumes "tty_ok s"
  shows "follows (cls hw s) s (term_put 12 (term_of s))"
proof -
  let ?v = "tty_VRAM s"
  have v: "mapped ?v" "unat ?v + 4000 \<le> 2 ^ 32" using assms by (simp_all add: tty_ok_def)
  define m where "m = blank_cells 2000 ?v (ASSEMB_COLOUR s) (mem s)"
  have m: "m = (\<lambda>a. if unat (a - ?v) < 4000 then if even (unat (a - ?v)) then 0 else ASSEMB_COLOUR s else mem s a)"
    by (simp add: m_def blank_cells_spec)
  obtain i where i: "cls hw s = Inr (s\<lparr>mem := m, tty_x := 0, tty_y := 0, io := i\<rparr>)"
    using v(1) by (simp add: cls_def m_def io_defs event_def move_cursor_def)
  have "same_off (screen ?v) (mem s) m" by (auto simp: same_off_def m screen_offset [OF v(2)])
  then have "tty_step s (s\<lparr>mem := m, tty_x := 0, tty_y := 0, io := i\<rparr>)"
    using assms by (simp add: tty_step_def tty_ok_def)
  moreover have "term_of (s\<lparr>mem := m, tty_x := 0, tty_y := 0, io := i\<rparr>) = term_put 12 (term_of s)"
    by (simp add: term_of_def term_put_def ASSEMB_COLOUR_def m screen_rows_blank)
  ultimately show ?thesis unfolding follows_def i by blast
qed

lemma putchar_follows:
  assumes "tty_ok s"
  shows "follows (putchar hw c s) s (term_put c (term_of s))"
proof -
  have b: "0 \<le> tty_x s" "tty_x s \<le> 79" "0 \<le> tty_y s" "tty_y s \<le> 24" using assms by (simp_all add: tty_ok_def)
  have mv: "follows (Inr (show_cursor (s\<lparr>tty_x := x, tty_y := y\<rparr>))) s ((term_of s)\<lparr>row := nat y, col := nat x\<rparr>)"
    if "0 \<le> x" "x \<le> 79" "0 \<le> y" "y \<le> 24" for x y
    using tty_step_move [OF assms that] by (intro follows_show) (simp_all add: term_of_def ASSEMB_COLOUR_def)
  consider "c = 7" | "c = 8" | "c = 12" | "c = 10" | "c = 13" | "c = 9" | "c = 11"
    | "c \<notin> {7, 8, 9, 10, 11, 12, 13}" by blast
  then show ?thesis
  proof cases
    case 1
    then show ?thesis using tty_step_refl [OF assms] by (simp add: putchar_def term_put_def follows_def)
  next
    case 2
    show ?thesis
    proof (cases "tty_x s = 0")
      case True
      then show ?thesis using 2 b tty_step_refl [OF assms] mv [of 79 "tty_y s - 1"]
        by (cases "tty_y s = 0") (auto simp: putchar_def term_put_def term_of_def nat_diff_distrib follows_def tty_xy_swap)
    next
      case False
      then show ?thesis using 2 b mv [of "tty_x s - 1" "tty_y s"]
        by (simp add: putchar_def term_put_def term_of_def nat_diff_distrib)
    qed
  next
    case 3
    have "follows (bindE (cls hw s) (\<lambda>s. Inr (show_cursor (s\<lparr>tty_x := 0, tty_y := 0\<rparr>)))) s (term_put 12 (term_of s))"
    proof (rule follows_bind [OF cls_follows [OF assms]])
      fix s' assume "tty_step s s'" and t: "term_of s' = term_put 12 (term_of s)"
      then show "follows (Inr (show_cursor (s'\<lparr>tty_x := 0, tty_y := 0\<rparr>))) s' (term_put 12 (term_of s))"
        by (intro follows_show tty_step_move tty_stepD(1)) (auto simp: term_of_def term_put_def ASSEMB_COLOUR_def)
    qed
    then show ?thesis using 3 by (simp add: putchar_def)
  next
    case 4
    then show ?thesis using linebreak_follows [OF assms] by (simp add: putchar_def)
  next
    case 5
    then show ?thesis using b mv [of 0 "tty_y s"] by (simp add: putchar_def term_put_def term_of_def)
  next
    case 6
    have "follows (bindE (put_cell 0 s) (\<lambda>s. bindE (put_cell 0 s) (\<lambda>s. bindE (put_cell 0 s) (put_cell 0)))) s
        (term_cell 0 (term_cell 0 (term_cell 0 (term_cell 0 (term_of s)))))"
      by (rule follows_bind [OF put_cell_follows [OF assms]],
          rule follows_bind, rule put_cell_follows, erule tty_stepD,
          rule follows_bind, rule put_cell_follows, erule tty_stepD, simp)
        (metis put_cell_follows tty_stepD(1))
    then show ?thesis using 6 by (simp add: putchar_def term_put_def)
  next
    case 7
    then show ?thesis
      using b scrup_follows [OF assms] mv [of "tty_x s" "tty_y s + 1"]
      by (cases "tty_y s = 24") (auto simp: putchar_def term_put_def term_of_def nat_add_distrib)
  next
    case 8
    then show ?thesis using put_cell_follows [OF assms] by (simp add: putchar_def term_put_def)
  qed
qed

section \<open>Plain text\<close>

text \<open>A string written one character at a time, and the console between sequences.\<close>

primrec tty_writes :: "hardware \<Rightarrow> u16 \<Rightarrow> u8 list \<Rightarrow> 'a tty_scheme \<Rightarrow> 'a tty_scheme result" where
  "tty_writes hw minor [] s = Inr s"
| "tty_writes hw minor (c # cs) s = bindE (tty_write hw minor c s) (\<lambda>(r, s). tty_writes hw minor cs s)"

definition tty_idle :: "'a tty_scheme \<Rightarrow> bool" where
  "tty_idle s \<longleftrightarrow> tty_ok s \<and> command_sequence_status s = 0 \<and> buf_ptr s = 0 \<and> command_buf s = replicate CMD_BUF_SZ 0"

lemma tty_write_text:
  assumes "tty_idle s" and "minor \<noteq> 0" and "c \<noteq> 0x1b"
  shows "\<exists>s'. tty_write hw minor c s = Inr (None, s') \<and> tty_idle s' \<and> term_of s' = term_put c (term_of s) \<and> tty_step s s'"
proof -
  have ok: "tty_ok s" and st: "command_sequence_status s = 0" using assms by (simp_all add: tty_idle_def)
  obtain s' where s': "putchar hw c s = Inr s'" "tty_step s s'" "term_of s' = term_put c (term_of s)"
    using putchar_follows [OF ok] unfolding follows_def by blast
  have e: "s'\<lparr>command_sequence_status := 0, buf_ptr := 0, command_buf := replicate CMD_BUF_SZ 0\<rparr> = s'"
    using assms(1) tty_stepD(4-6) [OF s'(2)] by (simp add: tty_idle_def)
  have "tty_write hw minor c s = Inr (None, s')"
    using assms st s'(1) e by (simp add: tty_write_def terminate_sequence_def)
  moreover have "tty_idle s'" using assms(1) tty_stepD [OF s'(2)] by (simp add: tty_idle_def)
  ultimately show ?thesis using s' by blast
qed

lemma tty_writes_text:
  "tty_idle s \<Longrightarrow> minor \<noteq> 0 \<Longrightarrow> 0x1b \<notin> set cs \<Longrightarrow>
     \<exists>s'. tty_writes hw minor cs s = Inr s' \<and> tty_idle s' \<and> term_of s' = fold term_put cs (term_of s) \<and> tty_step s s'"
proof (induction cs arbitrary: s)
  case Nil
  then show ?case by (simp add: tty_step_refl tty_idle_def)
next
  case (Cons c cs)
  obtain s1 where s1: "tty_write hw minor c s = Inr (None, s1)" "tty_idle s1" "term_of s1 = term_put c (term_of s)" "tty_step s s1"
    using tty_write_text [OF Cons.prems(1,2), of c hw] Cons.prems(3) by auto
  obtain s2 where "tty_writes hw minor cs s1 = Inr s2" "tty_idle s2" "term_of s2 = fold term_put cs (term_of s1)" "tty_step s1 s2"
    using Cons.IH [OF s1(2) Cons.prems(2)] Cons.prems(3) by auto
  then show ?case using s1 tty_step_trans [OF s1(4)] by (intro exI [of _ s2]) simp
qed

text \<open>
  C7: text without escape characters, control characters included, always prints without a fault,
  moves and scrolls the screen exactly as the abstract terminal does, keeps the cursor inside the
  25 by 80 screen, leaves the console outside any escape sequence and changes no byte of memory
  outside the 4000 bytes of the screen.
\<close>

theorem tty_text_refines_terminal:
  assumes "tty_idle s" and "minor \<noteq> 0" and "0x1b \<notin> set cs"
  shows "\<exists>s'. tty_writes hw minor cs s = Inr s' \<and> tty_idle s' \<and> term_of s' = fold term_put cs (term_of s)
    \<and> tty_VRAM s' = tty_VRAM s \<and> same_off (block (tty_VRAM s) 4000) (mem s) (mem s')"
  using tty_writes_text [OF assms, of hw] tty_stepD(2) unfolding tty_step_def screen_def by metis

text \<open>A console just after \<open>tty_preinit\<close>, with a blank screen at the usual address.\<close>

definition fresh_tty :: tty where
  "fresh_tty = \<lparr>mem = (\<lambda>_. 0), io = [], memmap_kernel = 0, memmap_user = 0, memmap_end = 0, kernel_mem_pages = 0,
     user_mem_pages = 0, kmem_kmem = 0, quick_alloc_table = [], multiboot_config = 0xc0009500, ttys = replicate 255 0,
     tty_xs = replicate 255 0, tty_ys = replicate 255 0, fores = replicate 255 0, backs = replicate 255 0, curr_tty = 1,
     tty_VRAM = 0xc00b8000, tty_x = 0, tty_y = 0, tty_fore = 7, tty_back = 0, command_sequence_status = 0,
     command_buf = replicate 32 0, buf_ptr = 0\<rparr>"

lemma fresh_tty_idle: "tty_idle fresh_tty"
  by (simp add: tty_idle_def tty_ok_def fresh_tty_def mapped_def)

text \<open>Hardware that reads as zero everywhere.\<close>

definition zero_hw :: hardware where
  "zero_hw = \<lparr>hw_in8 = (\<lambda>_ _. 0), hw_in16 = (\<lambda>_ _. 0), hw_in32 = (\<lambda>_ _. 0), hw_mmio = (\<lambda>_ _. 0), hw_msr = (\<lambda>_ _. (0, 0))\<rparr>"

theorem tty_text_refines_terminal_witness:
  "\<exists>s'. tty_writes zero_hw 1 [0x68, 0x69, 0x0a] fresh_tty = Inr s' \<and> tty_idle s'
    \<and> term_of s' = term_put 0x0a (term_put 0x69 (term_put 0x68 (term_of fresh_tty)))"
  using tty_text_refines_terminal [OF fresh_tty_idle, of 1 "[0x68, 0x69, 0x0a]" zero_hw] by auto

end
