(* ===== verification/Char_Tty_Escape.thy ===== *)
theory Char_Tty_Escape
  imports Char_Tty_Term
begin

text \<open>
  Escape sequences of the console: the decimal parser reads back every number of at most nine
  digits, cursor addressing reaches the cell it names, console switching saves and restores a
  console; and two sequences that corrupt the kernel.
\<close>

section \<open>Decimal numbers\<close>

fun decimal :: "nat \<Rightarrow> u8 list" where
  "decimal n = (if n < 10 then [of_nat (48 + n)] else decimal (n div 10) @ [of_nat (48 + n mod 10)])"

declare decimal.simps [simp del]

definition digit :: "u8 \<Rightarrow> bool" where
  "digit c \<longleftrightarrow> 48 \<le> unat c \<and> unat c \<le> 57"

definition digits_val :: "u8 list \<Rightarrow> nat" where
  "digits_val ds = foldl (\<lambda>v d. 10 * v + (unat d - 48)) 0 ds"

lemma digits_val_simps [simp]: "digits_val [] = 0" "digits_val (ds @ [d]) = 10 * digits_val ds + (unat d - 48)"
  by (simp_all add: digits_val_def)

lemma unat_digit: "n < 10 \<Longrightarrow> unat (of_nat (48 + n) :: u8) = 48 + n"
  by (simp add: unat_of_nat del: of_nat_add)

lemma decimal_val: "digits_val (decimal n) = n"
proof (induction n rule: decimal.induct)
  case (1 n)
  show ?case
  proof (cases "n < 10")
    case True
    then show ?thesis using unat_digit [of n] digits_val_simps(2) [of "[]"] by (simp add: decimal.simps [of n])
  next
    case False
    then show ?thesis using 1 unat_digit [of "n mod 10"]
      by (simp add: decimal.simps [of n] del: of_nat_add)
  qed
qed

lemma decimal_digits: "\<forall>d \<in> set (decimal n). digit d"
proof (induction n rule: decimal.induct)
  case (1 n)
  then show ?case using unat_digit [of n] unat_digit [of "n mod 10"]
    by (subst decimal.simps) (auto simp: digit_def simp del: of_nat_add)
qed

lemma decimal_length: "n < 10 ^ k \<Longrightarrow> 0 < k \<Longrightarrow> length (decimal n) \<le> k \<and> 0 < length (decimal n)"
proof (induction k arbitrary: n)
  case (Suc k)
  show ?case
  proof (cases "n < 10")
    case False
    then have "0 < k" using Suc.prems by (cases k) auto
    moreover have "n div 10 < 10 ^ k" using Suc.prems by (simp add: less_mult_imp_div_less mult.commute)
    ultimately show ?thesis using Suc.IH [of "n div 10"] False by (simp add: decimal.simps [of n])
  qed (simp add: decimal.simps [of n])
qed simp

lemma digit_sint: "digit d \<Longrightarrow> sint d = int (unat d) \<and> 48 \<le> sint d \<and> sint d \<le> 57"
proof -
  assume d: "digit d"
  have u: "int (unat d) = uint d" by simp
  then have "uint d \<le> 57" "48 \<le> uint d" using d unfolding digit_def by linarith+
  then have "sint d = uint d" by (simp add: sint_uint signed_take_bit_int_eq_self_iff)
  with u \<open>uint d \<le> 57\<close> \<open>48 \<le> uint d\<close> show ?thesis by simp
qed

lemma atoi_scan_found:
  "i + k < length dec \<Longrightarrow> dec ! (i + k) = t \<Longrightarrow> \<forall>j < k. dec ! (i + j) \<noteq> t \<Longrightarrow> k < n \<Longrightarrow>
     atoi_scan n i dec t = Inr (i + k)"
proof (induction n arbitrary: i k)
  case (Suc n)
  show ?case
  proof (cases k)
    case (Suc k')
    have "dec ! i \<noteq> t" using Suc.prems(3) Suc by force
    moreover have "\<forall>j < k'. dec ! (Suc i + j) \<noteq> t" using Suc.prems(3) Suc by force
    ultimately show ?thesis using Suc.prems Suc.IH [of "Suc i" k'] Suc by simp
  qed (use Suc.prems in simp)
qed simp

lemma atoi_sum_val:
  "\<forall>i < j. digit (dec ! i) \<Longrightarrow> j \<le> length dec \<Longrightarrow> 0 \<le> r \<Longrightarrow> r < 10 ^ k \<Longrightarrow> j + k \<le> 9 \<Longrightarrow>
     atoi_sum j dec r (10 ^ k) = Inr (r + 10 ^ k * int (digits_val (take j dec)))"
proof (induction j arbitrary: r k)
  case (Suc j)
  let ?d = "unat (dec ! j) - 48"
  have d: "digit (dec ! j)" using Suc.prems by simp
  then have "?d \<le> 9" and s: "sint (dec ! j) - 48 = int ?d" by (auto simp: digit_def digit_sint)
  have k: "(10 :: int) ^ k \<le> 10 ^ 8" using Suc.prems(5) by (intro power_increasing) auto
  have pos: "0 < (10 :: int) ^ k" by simp
  have v: "10 ^ k * int ?d \<le> 9 * 10 ^ k" "0 \<le> 10 ^ k * int ?d" using \<open>?d \<le> 9\<close> by simp_all
  have b: "0 \<le> r + 10 ^ k * int ?d" "r + 10 ^ k * int ?d < 10 ^ Suc k"
    using v Suc.prems(3,4) unfolding power_Suc by linarith+
  have "atoi_sum (Suc j) dec r (10 ^ k) = atoi_sum j dec (r + 10 ^ k * int ?d) (10 ^ Suc k)"
  proof -
    have c: "c_int e = Inr e" if "0 \<le> e" "e \<le> 10 ^ Suc k" for e
    proof -
      have "e \<le> 1000000000" using that(2) k by (simp add: le_trans)
      with that(1) show ?thesis by (intro c_int_ok) simp_all
    qed
    show ?thesis using c [OF v(2)] c [OF b(1)] c [of "10 ^ k * 10"] v(1) b(2) pos
      by (simp add: s mult.commute [of "10 ^ k" 10])
  qed
  also have "\<dots> = Inr (r + 10 ^ k * int ?d + 10 ^ Suc k * int (digits_val (take j dec)))"
    using Suc.prems b by (intro Suc.IH) auto
  also have "\<dots> = Inr (r + 10 ^ k * int (digits_val (take (Suc j) dec)))"
    using Suc.prems(2) by (simp add: take_Suc_conv_app_nth algebra_simps)
  finally show ?case .
qed simp

lemma atoi_digits:
  assumes "\<forall>d \<in> set ds. digit d" and "length ds \<le> 9" and "\<not> digit t"
  shows "atoi (ds @ t # rest) t = Inr (int (digits_val ds))"
proof -
  have nt: "\<forall>j < length ds. (ds @ t # rest) ! (0 + j) \<noteq> t"
    using assms(1,3) by (auto simp: nth_append)
  have "atoi_scan 12 0 (ds @ t # rest) t = Inr (0 + length ds)"
    using assms(2) nt by (intro atoi_scan_found) (auto simp: nth_append)
  moreover have "atoi_sum (length ds) (ds @ t # rest) 0 (10 ^ 0) = Inr (0 + 10 ^ 0 * int (digits_val (take (length ds) (ds @ t # rest))))"
    using assms(1,2) by (intro atoi_sum_val) (auto simp: nth_append)
  ultimately show ?thesis using assms(2) by (simp add: atoi_def)
qed

text \<open>
  C33: the parser of escape-sequence parameters reads back the decimal notation of every number
  below a billion, whatever follows its terminator.
\<close>

theorem atoi_decimal_roundtrip:
  assumes "n < 10 ^ 9" and "\<not> digit t"
  shows "atoi (decimal n @ t # rest) t = Inr (int n)"
  using atoi_digits [OF decimal_digits _ assms(2), of n rest] decimal_length [OF assms(1)] by (simp add: decimal_val)

theorem atoi_decimal_roundtrip_witness: "atoi (decimal 123456 @ 0x3b # [0x31]) 0x3b = Inr 123456"
  using atoi_decimal_roundtrip [of 123456 "0x3b" "[0x31]"] by (simp add: digit_def)

section \<open>Cursor addressing\<close>

text \<open>Parameter characters go to the command buffer, as long as it has room.\<close>

definition param :: "u8 \<Rightarrow> bool" where
  "param c \<longleftrightarrow> digit c \<or> c = 0x3b"

lemma param_number_or_comma: "param c \<Longrightarrow> is_number_or_comma c \<and> c \<noteq> 0x1b \<and> c \<noteq> 0x5b"
  using digit_sint [of c] by (auto simp: param_def is_number_or_comma_def digit_def)

lemma tty_writes_append:
  "tty_writes hw minor (as @ bs) s = bindE (tty_writes hw minor as s) (tty_writes hw minor bs)"
  by (induction as arbitrary: s) (simp_all add: bindE_assoc split_def)

lemma tty_writes_params:
  "minor \<noteq> 0 \<Longrightarrow> \<forall>c \<in> set ps. param c \<Longrightarrow> command_sequence_status s = 2 \<Longrightarrow> length qs + length ps \<le> 32 \<Longrightarrow>
     command_buf s = qs @ replicate (32 - length qs) 0 \<Longrightarrow> buf_ptr s = length qs \<Longrightarrow>
     tty_writes hw minor ps s = Inr (s\<lparr>command_buf := qs @ ps @ replicate (32 - length qs - length ps) 0,
       buf_ptr := length qs + length ps\<rparr>)"
proof (induction ps arbitrary: s qs)
  case (Cons c ps)
  have c: "is_number_or_comma c" "c \<noteq> 0x1b" "c \<noteq> 0x5b" using param_number_or_comma [of c] Cons.prems(2) by simp_all
  have "0 < 32 - length qs" using Cons.prems(4) by simp
  then obtain d where d: "32 - length qs = Suc d" by (cases "32 - length qs") auto
  have buf: "(command_buf s)[length qs := c] = (qs @ [c]) @ replicate (32 - length (qs @ [c])) 0"
    using d by (simp add: Cons.prems(5) list_update_append)
  let ?s = "s\<lparr>command_buf := (command_buf s)[length qs := c], buf_ptr := Suc (length qs)\<rparr>"
  have "tty_write hw minor c s = Inr (Some 0, ?s)"
    using Cons.prems c by (simp add: tty_write_def)
  moreover have "tty_writes hw minor ps ?s = Inr (?s\<lparr>command_buf := (qs @ [c]) @ ps @ replicate (32 - length (qs @ [c]) - length ps) 0,
      buf_ptr := length (qs @ [c]) + length ps\<rparr>)"
    using Cons.prems buf by (intro Cons.IH) auto
  ultimately show ?case by simp
qed simp

lemma find_comma_found:
  "i + k < length dec \<Longrightarrow> dec ! (i + k) = 0x3b \<Longrightarrow> \<forall>j < k. dec ! (i + j) \<noteq> 0x3b \<Longrightarrow> k < n \<Longrightarrow>
     find_comma n i dec = Some (i + k)"
proof (induction n arbitrary: i k)
  case (Suc n)
  show ?case
  proof (cases k)
    case (Suc k')
    have "dec ! i \<noteq> 0x3b" "\<forall>j < k'. dec ! (Suc i + j) \<noteq> 0x3b" using Suc.prems(3) Suc by force+
    then show ?thesis using Suc.prems Suc.IH [of "Suc i" k'] Suc by simp
  qed (use Suc.prems in simp)
qed simp

lemma atoi_comma_pair:
  assumes "a < 10 ^ 9" and "b < 10 ^ 9" and "0 < k"
  shows "atoi_comma (decimal a @ 0x3b # decimal b @ replicate k 0) = Inr (int a, int b)"
proof -
  let ?buf = "decimal a @ 0x3b # decimal b @ replicate k 0"
  obtain k' where k: "replicate k 0 = (0 :: u8) # replicate k' 0" using assms(3) by (cases k) auto
  have la: "length (decimal a) \<le> 9" using decimal_length [OF assms(1)] by simp
  have "find_comma 32 0 ?buf = Some (0 + length (decimal a))"
    using la decimal_digits [of a] by (intro find_comma_found) (auto simp: nth_append digit_def dest!: nth_mem)
  moreover have "atoi ?buf 0x3b = Inr (int a)"
    using atoi_digits [OF decimal_digits la, of "0x3b"] by (simp add: digit_def decimal_val)
  moreover have "atoi (decimal b @ replicate k 0) 0 = Inr (int b)"
    using atoi_digits [OF decimal_digits [of b], of 0] decimal_length [OF assms(2)] unfolding k
    by (simp add: digit_def decimal_val)
  ultimately show ?thesis by (simp add: atoi_comma_def)
qed

lemma tty_writes_escape:
  assumes "tty_idle s" and "minor \<noteq> 0" and "\<forall>c \<in> set ps. param c" and "length ps \<le> 32"
  shows "tty_writes hw minor (0x1b # 0x5b # ps) s = Inr (s\<lparr>command_sequence_status := 2,
    command_buf := ps @ replicate (32 - length ps) 0, buf_ptr := length ps\<rparr>)"
  using assms tty_writes_params [of minor ps "s\<lparr>command_sequence_status := 2\<rparr>" "[]" hw]
  by (simp add: tty_write_def tty_idle_def)

lemma terminate_idle:
  assumes "tty_idle s"
  shows "terminate_sequence (s\<lparr>command_sequence_status := 2, command_buf := b, buf_ptr := n, tty_x := x, tty_y := y\<rparr>)
    = Inr (None, s\<lparr>tty_x := x, tty_y := y\<rparr>)"
proof -
  have "s\<lparr>command_sequence_status := 0, buf_ptr := 0, command_buf := replicate 32 0\<rparr> = s"
    using assms by (simp add: tty_idle_def)
  then show ?thesis by (simp add: terminate_sequence_def) (cases s; simp)
qed

text \<open>
  C32: \<open>ESC [ a ; b H\<close> puts the cursor on column \<open>a\<close> of row \<open>b\<close>, the column limited to 80 and the row
  to 24, for all numbers below a billion; the screen, the colours and all other memory stay
  as they were and the console is outside any sequence again. (The first parameter is the
  column here; ANSI terminals read the row first.)
\<close>

theorem tty_cursor_position:
  assumes "tty_idle s" and "minor \<noteq> 0" and "a < 10 ^ 9" and "b < 10 ^ 9"
  shows "tty_writes hw minor ([0x1b, 0x5b] @ decimal a @ [0x3b] @ decimal b @ [0x48]) s
    = Inr (s\<lparr>tty_x := min (int a) 80, tty_y := min (int b) 24\<rparr>)"
proof -
  let ?ps = "decimal a @ 0x3b # decimal b"
  have len: "length ?ps \<le> 19" using decimal_length [OF assms(3)] decimal_length [OF assms(4)] by simp
  have "\<forall>c \<in> set ?ps. param c" using decimal_digits [of a] decimal_digits [of b] by (auto simp: param_def)
  then have w: "tty_writes hw minor (0x1b # 0x5b # ?ps) s = Inr (s\<lparr>command_sequence_status := 2,
      command_buf := ?ps @ replicate (32 - length ?ps) 0, buf_ptr := length ?ps\<rparr>)"
    using len by (intro tty_writes_escape [OF assms(1,2)]) auto
  let ?s = "s\<lparr>command_sequence_status := 2, command_buf := ?ps @ replicate (32 - length ?ps) 0, buf_ptr := length ?ps\<rparr>"
  have p: "atoi_comma (?ps @ replicate (32 - length ?ps) 0) = Inr (int a, int b)"
    using atoi_comma_pair [OF assms(3,4), of "32 - length ?ps"] len by simp
  have c: "clamp 80 (int a) = min (int a) 80" "clamp 24 (int b) = min (int b) 24" by (simp_all add: clamp_def)
  have "tty_write hw minor 0x48 ?s = Inr (None, s\<lparr>tty_x := min (int a) 80, tty_y := min (int b) 24\<rparr>)"
    using assms(2) p c terminate_idle [OF assms(1)] by (simp add: tty_write_def is_number_or_comma_def run_command_def)
  then show ?thesis
    using tty_writes_append [of hw minor "0x1b # 0x5b # ?ps" "[0x48]" s] by (simp only: w bindE_simps) simp
qed

theorem tty_cursor_position_witness:
  "tty_writes zero_hw 1 ([0x1b, 0x5b] @ decimal 10 @ [0x3b] @ decimal 5 @ [0x48]) fresh_tty
    = Inr (fresh_tty\<lparr>tty_x := 10, tty_y := 5\<rparr>)"
  using tty_cursor_position [OF fresh_tty_idle, of 1 10 5 zero_hw] by simp

section \<open>Sequences that corrupt memory\<close>

text \<open>
  A sequence with more than 32 parameter characters writes past the end of \<open>command_buf\<close>: the
  test of the buffer limit stands after a \<open>return\<close> and never runs.
\<close>

theorem tty_command_buf_overflow:
  assumes "tty_idle s" and "minor \<noteq> 0" and "\<forall>c \<in> set ps. param c" and "32 < length ps"
  shows "tty_writes hw minor ([0x1b, 0x5b] @ ps) s = Inl Out_Of_Bounds"
proof -
  let ?as = "take 32 ps"
  obtain c cs where d: "drop 32 ps = c # cs" using assms(4) by (cases "drop 32 ps") auto
  have ps: "ps = ?as @ c # cs" using append_take_drop_id [of 32 ps] d by simp
  have pc: "param c" using assms(3) ps by (metis in_set_conv_decomp)
  have w: "tty_writes hw minor (0x1b # 0x5b # ?as) s = Inr (s\<lparr>command_sequence_status := 2,
      command_buf := ?as @ replicate (32 - length ?as) 0, buf_ptr := length ?as\<rparr>)"
    using assms(3,4) by (intro tty_writes_escape [OF assms(1,2)]) (auto dest: in_set_takeD)
  have "tty_write hw minor c (s\<lparr>command_sequence_status := 2,
      command_buf := ?as @ replicate (32 - length ?as) 0, buf_ptr := length ?as\<rparr>) = Inl Out_Of_Bounds"
    using assms(2,4) param_number_or_comma [OF pc] by (simp add: tty_write_def)
  then have "tty_writes hw minor ((0x1b # 0x5b # ?as) @ c # cs) s = Inl Out_Of_Bounds"
    unfolding tty_writes_append w bindE_simps by simp
  then show ?thesis using ps by (metis append_Cons append_Nil)
qed

theorem tty_command_buf_overflow_witness:
  "tty_writes zero_hw 1 ([0x1b, 0x5b] @ replicate 33 0x31) fresh_tty = Inl Out_Of_Bounds"
proof -
  have "\<forall>c \<in> set (replicate 33 (0x31 :: u8)). param c" by (simp add: param_def digit_def)
  then show ?thesis using tty_command_buf_overflow [OF fresh_tty_idle, of 1 "replicate 33 0x31" zero_hw] by simp
qed

lemma minus_unat: "unat (d :: addr) = 4294967294 \<longleftrightarrow> d = - 2" "unat d = 4294967295 \<longleftrightarrow> d = - 1"
proof -
  have "unat (- 2 :: addr) = 4294967294" "unat (- 1 :: addr) = 4294967295"
    by (simp_all add: unsigned_minus_1_eq_mask mask_eq_exp_minus_1)
  then show "unat d = 4294967294 \<longleftrightarrow> d = - 2" "unat d = 4294967295 \<longleftrightarrow> d = - 1" by (metis word_unat_eq_iff)+
qed

lemma rep_stosb_wrap:
  "n \<le> 2 ^ 32 \<Longrightarrow> rep_stosb n p v m x = (if unat (x - p) < n then v else m x)"
proof (induction n arbitrary: p m)
  case (Suc n)
  define i where "i = unat (x - p)"
  have lt: "i < 2 ^ 32" by (simp add: i_def)
  have x: "x = p + of_nat i" by (simp add: i_def)
  have e: "x = p \<longleftrightarrow> i = 0" unfolding x using offset_inj [of i 0 p] lt by simp
  have "x - (p + 1) = of_nat i - 1" by (simp add: x)
  moreover have "unat (of_nat i - 1 :: addr) = (if 1 \<le> i then i - 1 else i + 2 ^ 32 - 1)"
    using lt by (simp add: unat_sub_if' unat_of_nat)
  ultimately have "unat (x - (p + 1)) = (if 1 \<le> i then i - 1 else i + 2 ^ 32 - 1)" by (simp only:)
  then show ?case unfolding i_def [symmetric] using Suc e lt by auto
qed simp

lemma tty_line_end:
  assumes "tty_idle s" and "minor \<noteq> 0"
  shows "tty_writes hw minor [0x1b, 0x5b, 0x38, 0x30, 0x43] s = Inr (s\<lparr>tty_x := 80\<rparr>)"
proof -
  have b: "0 \<le> tty_x s" "tty_x s \<le> 79" using assms(1) by (simp_all add: tty_idle_def tty_ok_def)
  let ?buf = "[0x38, 0x30] @ replicate 30 0"
  have w: "tty_writes hw minor (0x1b # 0x5b # [0x38, 0x30]) s = Inr (s\<lparr>command_sequence_status := 2, command_buf := ?buf, buf_ptr := 2\<rparr>)"
    using tty_writes_escape [OF assms, of "[0x38, 0x30]" hw] by (simp add: param_def digit_def)
  have "atoi_comma ?buf = Inr (80, - 1)" by code_simp
  then have "tty_write hw minor 0x43 (s\<lparr>command_sequence_status := 2, command_buf := ?buf, buf_ptr := 2\<rparr>) = Inr (None, s\<lparr>tty_x := 80\<rparr>)"
    using assms b terminate_idle [OF assms(1), where b = ?buf and n = 2 and x = 80 and y = "tty_y s"]
    by (simp add: tty_write_def is_number_or_comma_def run_command_def move_down_def)
  then show ?thesis using tty_writes_append [of hw minor "0x1b # 0x5b # [0x38, 0x30]" "[0x43]" s]
    by (simp only: w bindE_simps) simp
qed

text \<open>
  \<open>ESC [ 80 C\<close>, one printed character and \<open>ESC [ K\<close> erase the kernel: the cursor column becomes
  80 and then 81, one past what \<open>move_cursor\<close> accepts, so the number of cells to clear is -1 and
  \<open>memset\<close> zeroes the whole address space but the two bytes before its start.
\<close>

theorem tty_clear_line_erases_memory:
  assumes "tty_idle s" and "minor \<noteq> 0" and "unat (tty_VRAM s) + 4096 \<le> 2 ^ 32"
  shows "\<exists>s' p. tty_writes hw minor [0x1b, 0x5b, 0x38, 0x30, 0x43, 0x61, 0x1b, 0x5b, 0x4b] s = Inr s'
    \<and> (\<forall>a. a \<noteq> p \<longrightarrow> a \<noteq> p + 1 \<longrightarrow> mem s' a = 0)"
proof -
  let ?v = "tty_VRAM s"
  have b: "mapped ?v" "0 \<le> tty_y s" "tty_y s \<le> 24" using assms(1) by (simp_all add: tty_idle_def tty_ok_def)
  define r where "r = nat (tty_y s)"
  have y: "tty_y s = int r" and r: "r \<le> 24" using b by (simp_all add: r_def)
  define s1 where "s1 = s\<lparr>tty_x := 80\<rparr>"
  have mp: "mapped (?v + of_nat n)" if "n < 4096" for n
    using b(1) assms(3) that by (simp add: mapped_def word_le_nat_alt unat_add_of_nat)
  obtain m where p1: "putchar hw 0x61 s1 = Inr (s1\<lparr>mem := m, tty_x := 81\<rparr>)"
    using mp [of "160 * r + 160"] r
    by (simp add: putchar_def put_cell_def s1_def y step_cursor_def show_cursor_def move_cursor_def Let_def)
  define s2 where "s2 = s\<lparr>mem := m, tty_x := 81\<rparr>"
  have st: "command_sequence_status s = 0" "buf_ptr s = 0" "command_buf s = replicate 32 0"
    using assms(1) by (simp_all add: tty_idle_def)
  have "s1\<lparr>mem := m, tty_x := 81\<rparr> = s2" by (simp add: s1_def s2_def)
  moreover have "s2\<lparr>command_sequence_status := 0, buf_ptr := 0, command_buf := replicate 32 0\<rparr> = s2"
    using st by (simp add: s2_def)
  ultimately have w2: "tty_write hw minor 0x61 s1 = Inr (None, s2)"
    using assms(2) st p1 by (simp add: tty_write_def terminate_sequence_def s1_def)
  let ?q = "?v + of_nat (160 * r + 162)"
  have k: "tty_writes hw minor [0x1b, 0x5b, 0x4b] s2 = Inr (s2\<lparr>mem := memset m ?q 0 (- 2)\<rparr>)"
  proof -
    have a: "atoi_comma (replicate 32 0) = Inr (0, - 1)" by code_simp
    have "clear_line_from_cursor_2_end (s2\<lparr>command_sequence_status := 2\<rparr>)
        = Inr (s2\<lparr>command_sequence_status := 2, mem := memset m ?q 0 (- 2)\<rparr>)"
      using mp [of "160 * r + 162"] r
      by (simp add: clear_line_from_cursor_2_end_def clear_cells_def s2_def y Let_def push_bit_eq_mult algebra_simps)
    then show ?thesis using assms(2) st a
      by (simp add: tty_write_def s2_def is_number_or_comma_def run_command_def terminate_sequence_def)
  qed
  have "tty_writes hw minor ([0x1b, 0x5b, 0x38, 0x30, 0x43] @ 0x61 # [0x1b, 0x5b, 0x4b]) s = Inr (s2\<lparr>mem := memset m ?q 0 (- 2)\<rparr>)"
    unfolding tty_writes_append tty_line_end [OF assms(1,2)] bindE_simps tty_writes.simps(2) [of hw minor "0x61"] s1_def [symmetric] w2
    by (simp add: k del: tty_writes.simps)
  moreover have "memset m ?q 0 (- 2) a = 0" if "a \<noteq> ?q - 2" "a \<noteq> ?q - 2 + 1" for a
  proof -
    have lt: "unat (a - ?q) < 4294967296" by (rule unat_lt)
    have "a - ?q \<noteq> - 2" "a - ?q \<noteq> - 1"
      using that unfolding diff_eq_eq by (simp_all add: algebra_simps)
    then have "unat (a - ?q) \<noteq> 4294967294" "unat (a - ?q) \<noteq> 4294967295"
      using minus_unat by metis+
    with lt have "unat (a - ?q) < 4294967294" by linarith
    moreover have "unat (- 2 :: u32) = 4294967294" by simp
    ultimately show ?thesis using rep_stosb_wrap [of 4294967294 ?q 0 m a] by (simp add: memset_def)
  qed
  ultimately show ?thesis by (intro exI [of _ "s2\<lparr>mem := memset m ?q 0 (- 2)\<rparr>"] exI [of _ "?q - 2"]) auto
qed

theorem tty_clear_line_erases_memory_witness:
  "\<exists>s' p. tty_writes zero_hw 1 [0x1b, 0x5b, 0x38, 0x30, 0x43, 0x61, 0x1b, 0x5b, 0x4b] fresh_tty = Inr s'
    \<and> (mem s' 0xc0100000 = 0 \<or> p = 0xc0100000 \<or> p + 1 = 0xc0100000)"
proof -
  have "unat (tty_VRAM fresh_tty) + 4096 \<le> 2 ^ 32" by (simp add: fresh_tty_def)
  then obtain s' p where "tty_writes zero_hw 1 [0x1b, 0x5b, 0x38, 0x30, 0x43, 0x61, 0x1b, 0x5b, 0x4b] fresh_tty = Inr s'"
    and "\<forall>a. a \<noteq> p \<longrightarrow> a \<noteq> p + 1 \<longrightarrow> mem s' a = 0"
    using tty_clear_line_erases_memory [OF fresh_tty_idle, of 1 zero_hw] by auto
  then show ?thesis by metis
qed

section \<open>Switching consoles\<close>

text \<open>
  A console with an allocated save page, apart from the screen; and what the tables hold for it.
\<close>

definition save_page_ok :: "'a tty_scheme \<Rightarrow> nat \<Rightarrow> bool" where
  "save_page_ok s d \<longleftrightarrow> mapped (ttys s ! d) \<and> sep (ttys s ! d) 4000 (tty_VRAM s) 4000"

definition tables_ok :: "'a tty_scheme \<Rightarrow> bool" where
  "tables_ok s \<longleftrightarrow> length (ttys s) = 255 \<and> length (tty_xs s) = 255 \<and> length (tty_ys s) = 255
     \<and> length (fores s) = 255 \<and> length (backs s) = 255"

lemma switch_tty_eq:
  assumes "tables_ok s" and "unat (curr_tty s) < 128" and "save_page_ok s (unat (curr_tty s))"
    and "unat d < 128" and "d \<noteq> 0" and "d \<noteq> curr_tty s" and "mapped (ttys s ! unat d)"
  shows "switch_tty d s = (let c = unat (curr_tty s); k = unat d;
      m = memcpy (mem s) (ttys s ! c) (tty_VRAM s) 4000 in
    Inr (s\<lparr>mem := memcpy m (tty_VRAM s) (ttys s ! k) 4000, tty_xs := (tty_xs s)[c := tty_x s], tty_ys := (tty_ys s)[c := tty_y s],
      fores := (fores s)[c := scast (tty_fore s)], backs := (backs s)[c := scast (tty_back s)], curr_tty := d,
      tty_x := tty_xs s ! k, tty_y := tty_ys s ! k, tty_fore := ucast (fores s ! k), tty_back := ucast (backs s ! k)\<rparr>))"
proof -
  have "uint d < 128" using assms(4) by (metis of_nat_less_iff of_nat_numeral uint_nat)
  then have sd: "sint d = uint d" by (simp add: sint_uint signed_take_bit_int_eq_self_iff order_trans [of _ 0])
  have ne: "unat d \<noteq> unat (curr_tty s)" using assms(6) by (simp add: word_unat_eq_iff)
  then have "sint d \<noteq> int (unat (curr_tty s))" unfolding sd by (metis nat_int unat_eq_nat_uint)
  moreover have "0 \<le> sint d" by (simp add: sd)
  moreover have "ttys s ! unat d \<noteq> 0" using assms(7) by auto
  ultimately show ?thesis
    using assms ne by (simp add: switch_tty_def save_page_ok_def Let_def not_less)
qed

lemma ucast_scast_u8: "ucast (scast (v :: u8) :: u32) = v"
proof (rule bit_word_eqI)
  fix n assume "n < LENGTH(8)"
  then consider "n < 7" | "n = 7" by fastforce
  then show "bit (ucast (scast v :: u32) :: u8) n = bit v n" by cases (simp_all add: bit_simps)
qed

lemma memcpy_frame:
  assumes "sep p 4000 q 4000"
  shows "same_off (block p 4000) m (memcpy m p q 4000)" and "bytes_at (memcpy m p q 4000) p 4000 = bytes_at m q 4000"
  using memcpy_spec [of p 4000 q m] assms by simp_all

text \<open>The four copies of two switches bring the screen back.\<close>

lemma screen_swap:
  fixes v pc pd :: addr
  assumes cv: "sep pc 4000 v 4000" and dv: "sep pd 4000 v 4000" and cd: "sep pc 4000 pd 4000"
    and m: "m1 = memcpy m pc v 4000" "m2 = memcpy m1 v pd 4000" "m3 = memcpy m2 pd v 4000" "m4 = memcpy m3 v pc 4000"
  shows "bytes_at m2 v 4000 = bytes_at m pd 4000" and "bytes_at m4 v 4000 = bytes_at m v 4000"
proof -
  have bnd: "unat pc + 4000 \<le> 2 ^ 32" "unat pd + 4000 \<le> 2 ^ 32" using cv cd by (simp_all add: sep_def)
  have "bytes_at m2 v 4000 = bytes_at m1 pd 4000"
    unfolding m(2) by (rule memcpy_frame(2) [OF sep_sym [OF dv]])
  also have "\<dots> = bytes_at m pd 4000"
    unfolding m(1) using memcpy_frame(1) [OF cv] sep_block [OF cd] bnd by (intro bytes_at_same_on same_off_on) auto
  finally show "bytes_at m2 v 4000 = bytes_at m pd 4000" .
  have "bytes_at m4 v 4000 = bytes_at m3 pc 4000"
    unfolding m(4) by (rule memcpy_frame(2) [OF sep_sym [OF cv]])
  also have "\<dots> = bytes_at m2 pc 4000"
    unfolding m(3) using memcpy_frame(1) [OF dv] sep_block [OF sep_sym [OF cd]] bnd
    by (intro bytes_at_same_on same_off_on) auto
  also have "\<dots> = bytes_at m1 pc 4000"
    unfolding m(2) using memcpy_frame(1) [OF sep_sym [OF dv]] sep_block [OF sep_sym [OF cv]] bnd
    by (intro bytes_at_same_on same_off_on) auto
  also have "\<dots> = bytes_at m v 4000" unfolding m(1) by (rule memcpy_frame(2) [OF cv])
  finally show "bytes_at m4 v 4000 = bytes_at m v 4000" .
qed

text \<open>
  C29: switching to another console whose save page exists and back again restores the screen,
  the cursor and the colours, for any two different consoles whose save pages and the screen do
  not overlap.
\<close>

theorem tty_switch_roundtrip:
  assumes "tables_ok s" and "unat (curr_tty s) < 128" and "curr_tty s \<noteq> 0" and "unat d < 128" and "d \<noteq> 0" and "d \<noteq> curr_tty s"
    and "save_page_ok s (unat (curr_tty s))" and "save_page_ok s (unat d)"
    and "sep (ttys s ! unat (curr_tty s)) 4000 (ttys s ! unat d) 4000"
  shows "\<exists>s1 s2. tty_write hw 0 d s = Inr (Some 0, s1) \<and> curr_tty s1 = d
    \<and> bytes_at (mem s1) (tty_VRAM s) 4000 = bytes_at (mem s) (ttys s ! unat d) 4000
    \<and> tty_write hw 0 (curr_tty s) s1 = Inr (Some 0, s2) \<and> curr_tty s2 = curr_tty s
    \<and> bytes_at (mem s2) (tty_VRAM s) 4000 = bytes_at (mem s) (tty_VRAM s) 4000
    \<and> tty_x s2 = tty_x s \<and> tty_y s2 = tty_y s \<and> tty_fore s2 = tty_fore s \<and> tty_back s2 = tty_back s"
proof -
  let ?c = "unat (curr_tty s)" and ?d = "unat d" and ?v = "tty_VRAM s"
  let ?pc = "ttys s ! ?c" and ?pd = "ttys s ! ?d"
  have cv: "sep ?pc 4000 ?v 4000" and dv: "sep ?pd 4000 ?v 4000" and cd: "sep ?pc 4000 ?pd 4000"
    and mp: "mapped ?pc" "mapped ?pd" using assms by (simp_all add: save_page_ok_def)
  define m1 where "m1 = memcpy (mem s) ?pc ?v 4000"
  define m2 where "m2 = memcpy m1 ?v ?pd 4000"
  define m3 where "m3 = memcpy m2 ?pd ?v 4000"
  define m4 where "m4 = memcpy m3 ?v ?pc 4000"
  define s1 where "s1 = s\<lparr>mem := m2, tty_xs := (tty_xs s)[?c := tty_x s], tty_ys := (tty_ys s)[?c := tty_y s],
      fores := (fores s)[?c := scast (tty_fore s)], backs := (backs s)[?c := scast (tty_back s)], curr_tty := d,
      tty_x := tty_xs s ! ?d, tty_y := tty_ys s ! ?d, tty_fore := ucast (fores s ! ?d), tty_back := ucast (backs s ! ?d)\<rparr>"
  have ne: "?d \<noteq> ?c" using assms(6) by (simp add: word_unat_eq_iff)
  have e1: "switch_tty d s = Inr s1"
    using switch_tty_eq [OF assms(1,2,7,4,5,6) mp(2)] by (simp add: s1_def m1_def m2_def Let_def)
  have "tables_ok s1" "unat (curr_tty s1) < 128" "save_page_ok s1 (unat (curr_tty s1))" "curr_tty s \<noteq> curr_tty s1" "mapped (ttys s1 ! ?c)"
    using assms mp by (simp_all add: s1_def tables_ok_def save_page_ok_def)
  note e2 = switch_tty_eq [OF this(1-3) assms(2,3) this(4,5)]
  obtain s2 where s2: "switch_tty (curr_tty s) s1 = Inr s2" "mem s2 = m4" "curr_tty s2 = curr_tty s"
    "tty_x s2 = tty_xs s1 ! ?c" "tty_y s2 = tty_ys s1 ! ?c" "tty_fore s2 = ucast (fores s1 ! ?c)" "tty_back s2 = ucast (backs s1 ! ?c)"
    unfolding e2 by (simp add: Let_def s1_def m3_def m4_def)
  have "?c < length (tty_xs s)" "?c < length (tty_ys s)" "?c < length (fores s)" "?c < length (backs s)"
    using assms(1,2) by (simp_all add: tables_ok_def)
  then have rest: "tty_x s2 = tty_x s" "tty_y s2 = tty_y s" "tty_fore s2 = tty_fore s" "tty_back s2 = tty_back s"
    unfolding s2 by (simp_all add: s1_def ucast_scast_u8)
  note b = screen_swap [OF cv dv cd m1_def m2_def m3_def m4_def]
  have "bytes_at (mem s2) ?v 4000 = bytes_at (mem s) ?v 4000" using b(2) by (simp add: s2)
  moreover have "mem s1 = m2" "curr_tty s1 = d" by (simp_all add: s1_def)
  ultimately show ?thesis using e1 s2(1,3) b(1) rest
    by (intro exI [of _ s1] exI [of _ s2]) (simp add: tty_write_def)
qed

text \<open>The second console has its save page at 0xc0300000, the first at 0xc0200000.\<close>

definition two_ttys :: tty where
  "two_ttys = fresh_tty\<lparr>ttys := (replicate 255 0)[1 := 0xc0200000, 2 := 0xc0300000]\<rparr>"

theorem tty_switch_roundtrip_witness:
  "\<exists>s1 s2. tty_write zero_hw 0 2 two_ttys = Inr (Some 0, s1) \<and> curr_tty s1 = 2
    \<and> tty_write zero_hw 0 1 s1 = Inr (Some 0, s2) \<and> curr_tty s2 = 1
    \<and> bytes_at (mem s2) 0xc00b8000 4000 = bytes_at (mem two_ttys) 0xc00b8000 4000"
proof -
  have d: "curr_tty two_ttys = 1" "tty_VRAM two_ttys = 0xc00b8000" "ttys two_ttys ! 1 = 0xc0200000" "ttys two_ttys ! 2 = 0xc0300000"
    by (simp_all add: two_ttys_def fresh_tty_def)
  then have "tables_ok two_ttys" "unat (curr_tty two_ttys) < 128" "curr_tty two_ttys \<noteq> 0" "unat (2 :: u8) < 128" "(2 :: u8) \<noteq> 0"
    "2 \<noteq> curr_tty two_ttys" "save_page_ok two_ttys (unat (curr_tty two_ttys))" "save_page_ok two_ttys (unat (2 :: u8))"
    "sep (ttys two_ttys ! unat (curr_tty two_ttys)) 4000 (ttys two_ttys ! unat (2 :: u8)) 4000"
    by (simp_all add: save_page_ok_def sep_def mapped_def) (simp add: tables_ok_def two_ttys_def fresh_tty_def)
  from tty_switch_roundtrip [OF this, of zero_hw] show ?thesis unfolding d by blast
qed

end
