(* ===== verification/Kernel_Printk.thy ===== *)
theory Kernel_Printk
  imports Char_Tty_Escape
begin

text \<open>
  \<open>kernel/printk.c\<close>: formatted output to the console. The conversion functions call nothing but
  \<open>putchar\<close>, so each is given by the characters it puts, in order; \<open>printk\<close> walks the format
  string in memory and takes its arguments from a list, where a missing one is undefined
  behaviour. \<open>prints\<close> specifies the output of a format string; the theorems show that \<open>printk\<close>
  terminates with exactly that output on the terminal.
\<close>

section \<open>Conversions\<close>

definition puthex :: "u8 \<Rightarrow> u8 list" where
  "puthex hex = (if 0xf < hex then [] else if hex < 0xa then [hex + 0x30] else [hex - 0xa + 0x61])"

definition putheX :: "u8 \<Rightarrow> u8 list" where
  "putheX hex = (if 0xf < hex then [] else if hex < 0xa then [hex + 0x30] else [hex - 0xa + 0x41])"

text \<open>The first loop of \<open>x\<close> and \<open>X\<close>: the number of significant digits and the first of them.\<close>

definition top_digit :: "u32 \<Rightarrow> u32" where
  "top_digit val = drop_bit 28 (val AND 0xf0000000)"

primrec hex_scan :: "nat \<Rightarrow> nat \<Rightarrow> u32 \<Rightarrow> bool \<Rightarrow> nat \<Rightarrow> nat \<Rightarrow> nat \<times> nat" where
  "hex_scan 0 i val first digcount startdig = (digcount, startdig)"
| "hex_scan (Suc n) i val first digcount startdig =
     (let (first, startdig) = (if top_digit val \<noteq> 0 \<and> \<not> first then (True, i) else (first, startdig));
          digcount = (if first then digcount + 1 else digcount)
      in hex_scan n (Suc i) (push_bit 4 val) first digcount startdig)"

text \<open>The second loop: the digits from \<open>startdig\<close> on.\<close>

primrec hex_digits :: "(u8 \<Rightarrow> u8 list) \<Rightarrow> nat \<Rightarrow> nat \<Rightarrow> u32 \<Rightarrow> nat \<Rightarrow> u8 list" where
  "hex_digits put 0 i val2 startdig = []"
| "hex_digits put (Suc n) i val2 startdig =
     (if startdig \<le> i then put (ucast (top_digit val2 AND 0xf)) else [])
     @ hex_digits put n (Suc i) (push_bit 4 val2) startdig"

definition hex_out :: "(u8 \<Rightarrow> u8 list) \<Rightarrow> u32 \<Rightarrow> nat \<Rightarrow> u8 list" where
  "hex_out put val padding =
     (if val = 0 then
        if padding = 0 then put 0 else concat (replicate padding (put 0))
      else
        let (digcount, startdig) = hex_scan 8 0 val False 0 0
        in (if digcount < padding then concat (replicate (padding - digcount) (put 0)) else [])
           @ hex_digits put 8 0 val startdig)"

definition printk_x :: "u32 \<Rightarrow> nat \<Rightarrow> u8 list" where
  "printk_x = hex_out puthex"

definition printk_X :: "u32 \<Rightarrow> nat \<Rightarrow> u8 list" where
  "printk_X = hex_out putheX"

primrec pointer_digits :: "nat \<Rightarrow> u32 \<Rightarrow> u8 list" where
  "pointer_digits 0 val = []"
| "pointer_digits (Suc n) val = puthex (ucast (top_digit val)) @ pointer_digits n (push_bit 4 val)"

definition printk_p :: "u32 \<Rightarrow> u8 list" where
  "printk_p val = pointer_digits 8 val"

text \<open>The digit loop of \<open>d\<close> and \<open>u\<close> on a non-negative value, into a buffer of ten characters.\<close>

function dec_loop :: "nat \<Rightarrow> nat \<Rightarrow> u8 list \<Rightarrow> (nat \<times> u8 list) result" where
  "dec_loop val i buf =
     (if val \<noteq> 0 then
        if i < 10 then dec_loop (val div 10) (i + 1) (buf[i := of_nat (val mod 10) + 0x30]) else Inl Out_Of_Bounds
      else Inr (i, buf))"
  by pat_completeness auto
termination by (relation "measure (\<lambda>(val, i, buf). val)") auto

declare dec_loop.simps [simp del]

definition put_dec :: "nat \<Rightarrow> u8 list result" where
  "put_dec val = bindE (dec_loop val 0 (replicate 10 0)) (\<lambda>(i, buf). Inr (rev (take i buf)))"

definition printk_u :: "u32 \<Rightarrow> u8 list result" where
  "printk_u val = (if val = 0 then Inr [0x30] else put_dec (unat val))"

definition printk_d :: "u32 \<Rightarrow> u8 list result" where
  "printk_d val =
     (if val = 0 then Inr [0x30]
      else if sint val < 0 then
        bindE (c_int (- sint val)) (\<lambda>v. bindE (put_dec (nat v)) (\<lambda>ds. Inr (0x2d # ds)))
      else put_dec (nat (sint val)))"

section \<open>The format loop\<close>

text \<open>\<open>putchar\<close> of this file writes to minor 1.\<close>

definition printk_puts :: "hardware \<Rightarrow> u8 list \<Rightarrow> 'a tty_scheme \<Rightarrow> 'a tty_scheme result" where
  "printk_puts hw cs s = tty_writes hw 1 cs s"

definition IS_NUM :: "u8 \<Rightarrow> bool" where
  "IS_NUM num \<longleftrightarrow> 0x30 \<le> sint num \<and> sint num \<le> 0x39"

text \<open>
  One conversion other than \<open>%s\<close>: the characters it puts, how far the format pointer moves and
  the remaining arguments. An unknown letter is put as it stands.
\<close>

definition conversion :: "u8 \<Rightarrow> u8 \<Rightarrow> u32 list \<Rightarrow> (u8 list \<times> u32 \<times> u32 list) result" where
  "conversion c follow args =
     (if c = 0x64 \<or> c = 0x69 then
        (case args of [] \<Rightarrow> Inl Undefined | a # args \<Rightarrow> bindE (printk_d a) (\<lambda>cs. Inr (cs, 2, args)))
      else if c = 0x75 then
        (case args of [] \<Rightarrow> Inl Undefined | a # args \<Rightarrow> bindE (printk_u a) (\<lambda>cs. Inr (cs, 2, args)))
      else if c = 0x78 then
        (case args of [] \<Rightarrow> Inl Undefined
         | a # args \<Rightarrow> Inr (if IS_NUM follow then (printk_x a (nat (sint follow - 0x30)), 3, args) else (printk_x a 0, 2, args)))
      else if c = 0x58 then
        (case args of [] \<Rightarrow> Inl Undefined | a # args \<Rightarrow> Inr (printk_X a 0, 2, args))
      else if c = 0x63 then
        (case args of [] \<Rightarrow> Inl Undefined | a # args \<Rightarrow> Inr ([ucast a], 2, args))
      else if c = 0x70 then
        (case args of [] \<Rightarrow> Inl Undefined | a # args \<Rightarrow> Inr (printk_p a, 2, args))
      else Inr ([c], 2, args))"

text \<open>\<open>%s\<close> calls \<open>printk\<close> on its argument, as a format string without arguments.\<close>

partial_function (option) printk_loop ::
  "hardware \<Rightarrow> addr \<Rightarrow> u32 list \<Rightarrow> 'a tty_scheme \<Rightarrow> 'a tty_scheme result option" where
  "printk_loop hw fmt args s =
     (if \<not> mapped fmt then Some (Inl (Page_Fault fmt))
      else if mem s fmt = 0 then Some (Inr s)
      else if mem s fmt = 0x25 \<and> mem s (fmt + 1) = 0x73 then
        (if args = [] then Some (Inl Undefined)
         else Option.bind (printk_loop hw (hd args) [] s) (\<lambda>r.
           case r of Inl e \<Rightarrow> Some (Inl e) | Inr s \<Rightarrow> printk_loop hw (fmt + 2) (tl args) s))
      else if mem s fmt = 0x25 then
        (case conversion (mem s (fmt + 1)) (mem s (fmt + 2)) args of
           Inl e \<Rightarrow> Some (Inl e)
         | Inr (cs, n, args) \<Rightarrow>
             (case printk_puts hw cs s of Inl e \<Rightarrow> Some (Inl e) | Inr s \<Rightarrow> printk_loop hw (fmt + n) args s))
      else
        (case printk_puts hw [mem s fmt] s of
           Inl e \<Rightarrow> Some (Inl e) | Inr s \<Rightarrow> printk_loop hw (fmt + 1) args s))"

definition printk :: "hardware \<Rightarrow> addr \<Rightarrow> u32 list \<Rightarrow> 'a tty_scheme \<Rightarrow> 'a tty_scheme result" where
  "printk hw fmt args s = returns (printk_loop hw fmt args s)"

section \<open>Decimal output\<close>

lemma decimal_Suc: "0 < n \<Longrightarrow> decimal n = (if n div 10 = 0 then [] else decimal (n div 10)) @ [of_nat (n mod 10) + 0x30]"
  by (subst decimal.simps) (auto simp: add.commute)

lemma dec_loop_spec:
  "length buf = 10 \<Longrightarrow> val < 10 ^ (10 - i) \<Longrightarrow> i \<le> 10 \<Longrightarrow>
     \<exists>j buf'. dec_loop val i buf = Inr (j, buf') \<and> i \<le> j \<and> j \<le> 10 \<and> length buf' = 10
       \<and> take j buf' = take i buf @ (if val = 0 then [] else rev (decimal val))"
proof (induction val i buf rule: dec_loop.induct)
  case (1 val i buf)
  show ?case
  proof (cases "val = 0")
    case True
    then show ?thesis using 1 by (simp add: dec_loop.simps)
  next
    case False
    then have i: "i < 10" using 1(3,4) by (cases "i = 10") auto
    have "10 - i = Suc (9 - i)" using i by simp
    then have "val < 10 * 10 ^ (9 - i)" using 1(3) by (simp only: power_Suc)
    then have "val div 10 < 10 ^ (10 - (i + 1))" by (simp add: less_mult_imp_div_less mult.commute)
    then obtain j buf' where j: "dec_loop (val div 10) (i + 1) (buf[i := of_nat (val mod 10) + 0x30]) = Inr (j, buf')"
      "i + 1 \<le> j" "j \<le> 10" "length buf' = 10"
      "take j buf' = take (i + 1) (buf[i := of_nat (val mod 10) + 0x30]) @ (if val div 10 = 0 then [] else rev (decimal (val div 10)))"
      using 1(1) [OF False i] 1(2) i by auto
    have "take (i + 1) (buf[i := of_nat (val mod 10) + 0x30]) = take i buf @ [of_nat (val mod 10) + 0x30]"
      using i 1(2) by (simp add: take_Suc_conv_app_nth)
    then have "take j buf' = take i buf @ rev (decimal val)"
      using j(5) False by (simp add: decimal_Suc)
    then show ?thesis using j False i by (subst dec_loop.simps) simp
  qed
qed

lemma put_dec_spec: "0 < val \<Longrightarrow> val < 10 ^ 10 \<Longrightarrow> put_dec val = Inr (decimal val)"
  using dec_loop_spec [of "replicate 10 0" val 0] by (auto simp: put_dec_def)

lemma printk_dec_values:
  "printk_u v = Inr (decimal (unat v))
   \<and> printk_d v = (if v = 0x80000000 then Inl Undefined
       else if sint v < 0 then Inr (0x2d # decimal (nat (- sint v))) else Inr (decimal (nat (sint v))))"
proof
  have "unat v < 10 ^ 10" by (rule less_trans [OF unat_lt]) simp
  then show "printk_u v = Inr (decimal (unat v))"
    using put_dec_spec [of "unat v"] by (auto simp: printk_u_def decimal.simps [of 0] unat_gt_0)
  have r: "- (2 ^ 31) \<le> sint v" "sint v < 2 ^ 31"
    using sint_ge [of v] sint_lt [of v] by simp_all
  have m: "v = 0x80000000 \<longleftrightarrow> sint v = - (2 ^ 31)"
  proof -
    have "sint (0x80000000 :: u32) = - (2 ^ 31)" by simp
    then show ?thesis by (metis signed_word_eqI)
  qed
  show "printk_d v = (if v = 0x80000000 then Inl Undefined
       else if sint v < 0 then Inr (0x2d # decimal (nat (- sint v))) else Inr (decimal (nat (sint v))))"
  proof (cases "sint v = - (2 ^ 31)")
    case True
    then have "v \<noteq> 0" by auto
    then show ?thesis using True m by (simp add: printk_d_def c_int_def)
  next
    case False
    have "v = 0 \<longleftrightarrow> sint v = 0" by (metis sint_0 signed_word_eqI)
    then consider "v = 0" | "0 < sint v" "v \<noteq> 0" | "sint v < 0" "v \<noteq> 0" by fastforce
    then show ?thesis
    proof cases
      case 1
      then show ?thesis by (simp add: printk_d_def decimal.simps)
    next
      case 2
      then show ?thesis using False m r put_dec_spec [of "nat (sint v)"] by (simp add: printk_d_def)
    next
      case 3
      then show ?thesis using False m r put_dec_spec [of "nat (- sint v)"] by (simp add: printk_d_def)
    qed
  qed
qed

text \<open>
  C22: \<open>%u\<close> and \<open>%d\<close> put the decimal notation of their argument, with a minus sign where it is
  negative, for every 32-bit value but the least negative one, whose negation overflows; the
  ten-character buffer is never exceeded.
\<close>

theorem printk_decimal:
  "printk_u v = Inr (decimal (unat v))
   \<and> printk_d v = (if v = 0x80000000 then Inl Undefined
       else if sint v < 0 then Inr (0x2d # decimal (nat (- sint v))) else Inr (decimal (nat (sint v))))"
  by (rule printk_dec_values)

section \<open>Hexadecimal output\<close>

definition hexval :: "u8 \<Rightarrow> nat" where
  "hexval c = (if unat c \<le> 57 then unat c - 48 else if 97 \<le> unat c then unat c - 87 else unat c - 55)"

definition hex_read :: "nat \<Rightarrow> u8 list \<Rightarrow> nat" where
  "hex_read = foldl (\<lambda>v c. 16 * v + hexval c)"

definition hex_put :: "(u8 \<Rightarrow> u8 list) \<Rightarrow> bool" where
  "hex_put put \<longleftrightarrow> (\<forall>h < 16. \<exists>c. put (of_nat h) = [c] \<and> hexval c = h)"

lemma hex_put_ok: "hex_put puthex" "hex_put putheX"
proof -
  have "\<forall>h \<in> set [0..<16]. case puthex (of_nat h) of [c] \<Rightarrow> hexval c = h | _ \<Rightarrow> False"
    and "\<forall>h \<in> set [0..<16]. case putheX (of_nat h) of [c] \<Rightarrow> hexval c = h | _ \<Rightarrow> False" by code_simp+
  then show "hex_put puthex" "hex_put putheX"
    unfolding hex_put_def by (auto split: list.splits) (metis atLeastLessThan_iff list.exhaust zero_le)+
qed

lemma unat_top_digit: "unat (top_digit w) = unat w div 2 ^ 28"
proof -
  have m: "(0xf0000000 :: u32) = NOT (mask 28)" by (simp add: mask_eq_exp_minus_1)
  have "top_digit w = drop_bit 28 w"
    unfolding top_digit_def m by (intro bit_word_eqI) (auto simp: bit_simps dest: bit_imp_le_length)
  then show ?thesis by (simp add: unat_drop_bit_eq drop_bit_eq_div unat_div)
qed

lemma top_digit_put:
  assumes "hex_put put"
  shows "\<exists>c. put (ucast (top_digit w)) = [c] \<and> hexval c = unat w div 2 ^ 28"
    and "\<exists>c. put (ucast (top_digit w AND 0xf)) = [c] \<and> hexval c = unat w div 2 ^ 28"
proof -
  have lt: "unat w div 2 ^ 28 < 16" using unat_lt [of w] by (simp add: less_mult_imp_div_less del: unat_lt)
  have "ucast (top_digit w) = (of_nat (unat w div 2 ^ 28) :: u8)"
    unfolding unat_top_digit [symmetric] by simp
  then show *: "\<exists>c. put (ucast (top_digit w)) = [c] \<and> hexval c = unat w div 2 ^ 28"
    using assms lt by (simp add: hex_put_def)
  have "top_digit w < 16" using lt by (simp add: word_less_nat_alt unat_top_digit)
  then have "take_bit 4 (top_digit w) = top_digit w" by (simp add: take_bit_eq_mod mod_word_less)
  then have "top_digit w AND 0xf = top_digit w" by (simp add: take_bit_eq_mask mask_eq_exp_minus_1)
  then show "\<exists>c. put (ucast (top_digit w AND 0xf)) = [c] \<and> hexval c = unat w div 2 ^ 28" using * by simp
qed

lemma unat_push4: "unat (push_bit 4 w :: u32) = 16 * (unat w mod 2 ^ 28)"
proof -
  have "unat (push_bit 4 w) = (16 * unat w) mod (16 * 2 ^ 28)"
    by (simp add: push_bit_eq_mult unat_word_ariths mult.commute)
  then show ?thesis by (simp only: mult_mod_right)
qed

text \<open>Reading the digits of \<open>n\<close> rounds gives the \<open>n\<close> top digits of the value.\<close>

lemma top_digits_arith:
  assumes "n < 8"
  shows "w div 2 ^ 28 * 16 ^ n + 16 * (w mod 2 ^ 28) div 2 ^ (32 - 4 * n) = (w :: nat) div 2 ^ (32 - 4 * Suc n)"
proof -
  have e: "32 - 4 * n = Suc (Suc (Suc (Suc (28 - 4 * n))))" "32 - 4 * Suc n = 28 - 4 * n" using assms by simp_all
  define b :: nat where "b = 2 ^ (28 - 4 * n)"
  have b: "0 < b" by (simp add: b_def)
  have "(16 :: nat) ^ n = 2 ^ (4 * n)" by (simp add: power_mult)
  then have p: "2 ^ 28 = 16 ^ n * b" using assms by (simp add: b_def flip: power_add)
  have "w = 16 ^ n * b * (w div (16 ^ n * b)) + w mod (16 ^ n * b)" by simp
  then have "w div b = (w mod (16 ^ n * b) + 16 ^ n * (w div (16 ^ n * b)) * b) div b" by (simp add: algebra_simps)
  then have "w div b = w mod (16 ^ n * b) div b + 16 ^ n * (w div (16 ^ n * b))" using b by simp
  moreover have "16 * (w mod 2 ^ 28) div 2 ^ (32 - 4 * n) = w mod 2 ^ 28 div b"
  proof -
    have "2 ^ (32 - 4 * n) = 16 * b" by (simp add: e(1) b_def)
    then show ?thesis by simp
  qed
  ultimately show ?thesis by (simp only: e(2) b_def [symmetric] p) (simp add: mult.commute)
qed

lemma hex_read_Cons [simp]: "hex_read v [] = v" "hex_read v (c # cs) = hex_read (16 * v + hexval c) cs"
  and hex_read_append: "hex_read v (cs @ ds) = hex_read (hex_read v cs) ds"
  by (simp_all add: hex_read_def)

lemma pointer_digits_read:
  "n \<le> 8 \<Longrightarrow> length (pointer_digits n w) = n \<and> hex_read v (pointer_digits n w) = v * 16 ^ n + unat w div 2 ^ (32 - 4 * n)"
proof (induction n arbitrary: v w)
  case (Suc n)
  obtain c where c: "puthex (ucast (top_digit w)) = [c]" "hexval c = unat w div 2 ^ 28"
    using top_digit_put(1) [OF hex_put_ok(1)] by blast
  have "hex_read v (pointer_digits (Suc n) w) = (16 * v + unat w div 2 ^ 28) * 16 ^ n + 16 * (unat w mod 2 ^ 28) div 2 ^ (32 - 4 * n)"
    using Suc by (simp add: c unat_push4 del: power_Suc)
  also have "\<dots> = v * 16 ^ Suc n + unat w div 2 ^ (32 - 4 * Suc n)"
    using top_digits_arith [of n "unat w"] Suc.prems by (simp add: algebra_simps)
  finally show ?case using Suc by (simp add: c)
qed simp

lemma hex_digits_read:
  assumes "hex_put put"
  shows "n \<le> 8 \<Longrightarrow> sd \<le> i \<Longrightarrow> length (hex_digits put n i w sd) = n
    \<and> hex_read v (hex_digits put n i w sd) = v * 16 ^ n + unat w div 2 ^ (32 - 4 * n)"
proof (induction n arbitrary: i v w)
  case (Suc n)
  obtain c where c: "put (ucast (top_digit w AND 0xf)) = [c]" "hexval c = unat w div 2 ^ 28"
    using top_digit_put(2) [OF assms] by blast
  have "hex_read v (hex_digits put (Suc n) i w sd) = (16 * v + unat w div 2 ^ 28) * 16 ^ n + 16 * (unat w mod 2 ^ 28) div 2 ^ (32 - 4 * n)"
    using Suc by (simp add: c unat_push4 del: power_Suc)
  also have "\<dots> = v * 16 ^ Suc n + unat w div 2 ^ (32 - 4 * Suc n)"
    using top_digits_arith [of n "unat w"] Suc.prems by (simp add: algebra_simps)
  finally show ?case using Suc by (simp add: c)
qed simp

lemma hex_scan_first: "hex_scan n i w True d sd = (d + n, sd)"
  by (induction n arbitrary: i w d) simp_all

text \<open>The scan finds the first significant digit; the digits printed from there have the whole value.\<close>

lemma hex_scan_digits:
  assumes "hex_put put"
  shows "n \<le> 8 \<Longrightarrow> w \<noteq> 0 \<Longrightarrow> unat w mod 2 ^ (32 - 4 * n) = 0 \<Longrightarrow>
    \<exists>k < n. hex_scan n i w False 0 0 = (n - k, i + k) \<and> length (hex_digits put n i w (i + k)) = n - k
      \<and> hex_read 0 (hex_digits put n i w (i + k)) = unat w div 2 ^ (32 - 4 * n)
      \<and> 16 ^ (n - k - 1) \<le> unat w div 2 ^ (32 - 4 * n)"
proof (induction n arbitrary: i w)
  case (Suc n)
  show ?case
  proof (cases "top_digit w = 0")
    case False
    then have nz: "0 < unat w div 2 ^ 28" unfolding unat_top_digit [symmetric] by (simp add: unat_gt_0)
    have "16 ^ n \<le> unat w div 2 ^ 28 * 16 ^ n" using nz by (metis mult_le_mono1 nat_mult_1 Suc_leI One_nat_def)
    then have "16 ^ n \<le> unat w div 2 ^ (32 - 4 * Suc n)"
      using top_digits_arith [of n "unat w"] Suc.prems(1) by linarith
    moreover have "length (hex_digits put (Suc n) i w i) = Suc n
        \<and> hex_read 0 (hex_digits put (Suc n) i w i) = 0 * 16 ^ Suc n + unat w div 2 ^ (32 - 4 * Suc n)"
      using Suc.prems(1) by (intro hex_digits_read [OF assms]) simp_all
    ultimately show ?thesis using False by (intro exI [of _ 0]) (simp add: hex_scan_first del: hex_digits.simps)
  next
    case True
    then have z: "unat w div 2 ^ 28 = 0" unfolding unat_top_digit [symmetric] by simp
    then have lt: "unat w < 2 ^ 28" by (simp add: div_eq_0_iff)
    have u: "unat (push_bit 4 w) = 16 * unat w" using lt by (simp add: unat_push4)
    have w0: "0 < unat w" using Suc.prems(2) by (simp add: unat_gt_0)
    have n0: "0 < n"
    proof (rule ccontr)
      assume "\<not> 0 < n"
      then have "unat w mod 2 ^ 28 = 0" using Suc.prems(3) by simp
      then show False using lt w0 by simp
    qed
    have e: "2 ^ (32 - 4 * n) = 16 * (2 :: nat) ^ (32 - 4 * Suc n)"
    proof -
      have "32 - 4 * n = 4 + (32 - 4 * Suc n)" using Suc.prems(1) by simp
      then show ?thesis by (simp only: power_add) simp
    qed
    have q: "unat (push_bit 4 w) div 2 ^ (32 - 4 * n) = unat w div 2 ^ (32 - 4 * Suc n)"
      and "unat (push_bit 4 w) mod 2 ^ (32 - 4 * n) = 0"
      using Suc.prems(3) unfolding u e by (simp_all flip: mult_mod_right)
    moreover have "push_bit 4 w \<noteq> 0" using u w0 by (metis mult_eq_0_iff neq0_conv unat_0 zero_neq_numeral)
    ultimately obtain k where k: "k < n" "hex_scan n (Suc i) (push_bit 4 w) False 0 0 = (n - k, Suc i + k)"
      "length (hex_digits put n (Suc i) (push_bit 4 w) (Suc i + k)) = n - k"
      "hex_read 0 (hex_digits put n (Suc i) (push_bit 4 w) (Suc i + k)) = unat w div 2 ^ (32 - 4 * Suc n)"
      "16 ^ (n - k - 1) \<le> unat w div 2 ^ (32 - 4 * Suc n)"
      using Suc.IH [of "push_bit 4 w" "Suc i"] Suc.prems(1) unfolding q by auto
    then show ?thesis using True by (intro exI [of _ "Suc k"]) simp
  qed
qed (simp add: unsigned_eq_0_iff)

lemma hex_read_zeros: "hex_put put \<Longrightarrow> hex_read 0 (concat (replicate n (put 0)) @ cs) = hex_read 0 cs
    \<and> length (concat (replicate n (put 0))) = n"
proof (induction n)
  case (Suc n)
  obtain c where "put 0 = [c]" "hexval c = 0" using Suc.prems by (force simp: hex_put_def)
  then show ?case using Suc by simp
qed simp

lemma hex_out_correct:
  assumes "hex_put put"
  shows "hex_read 0 (hex_out put v pad) = unat v \<and> pad \<le> length (hex_out put v pad)
    \<and> (length (hex_out put v pad) = max pad 1 \<or> 16 ^ (length (hex_out put v pad) - 1) \<le> unat v)"
proof (cases "v = 0")
  case True
  then show ?thesis using hex_read_zeros [OF assms, of pad "[]"] hex_read_zeros [OF assms, of 1 "[]"]
    by (cases "pad = 0") (simp_all add: hex_out_def)
next
  case False
  obtain k where k: "k < 8" "hex_scan 8 0 v False 0 0 = (8 - k, 0 + k)" "length (hex_digits put 8 0 v (0 + k)) = 8 - k"
    "hex_read 0 (hex_digits put 8 0 v (0 + k)) = unat v" "16 ^ (8 - k - 1) \<le> unat v"
    using hex_scan_digits [OF assms, of 8 v 0] False by auto
  let ?z = "concat (replicate (pad - (8 - k)) (put 0))" and ?ds = "hex_digits put 8 0 v k"
  have o: "hex_out put v pad = (if 8 - k < pad then ?z else []) @ ?ds"
    using False k(2) by (simp add: hex_out_def del: hex_digits.simps)
  show ?thesis
    using k hex_read_zeros [OF assms, of "pad - (8 - k)" ?ds] unfolding o by (auto simp del: hex_digits.simps)
qed


section \<open>Whole format strings\<close>

text \<open>
  The output of a format string. Strings lie outside the region \<open>A\<close> that printing changes. A
  percent sign needs a conversion behind it, and an argument where the conversion takes one.
\<close>

definition cstr_off :: "memory \<Rightarrow> addr set \<Rightarrow> addr \<Rightarrow> u8 list \<Rightarrow> bool" where
  "cstr_off m A p cs \<longleftrightarrow> cstr m p cs \<and> mapped p \<and> unat p + Suc (length cs) \<le> 2 ^ 32 \<and> block p (Suc (length cs)) \<inter> A = {}"

text \<open>
  What a conversion other than \<open>%s\<close> and \<open>%x\<close> with a width puts, and the arguments it leaves:
  decimal and hexadecimal notation, a character, a pointer, or the letter itself.
\<close>

definition converts :: "u8 \<Rightarrow> u8 \<Rightarrow> u32 list \<Rightarrow> u8 list \<Rightarrow> u32 list \<Rightarrow> bool" where
  "converts c d args cs args' \<longleftrightarrow> \<not> (c = 0x78 \<and> IS_NUM d) \<and>
     (if c \<in> {0x64, 0x69, 0x75, 0x78, 0x58, 0x63, 0x70} then \<exists>a. args = a # args' \<and>
        (if c \<in> {0x64, 0x69} then a \<noteq> 0x80000000
           \<and> cs = (if sint a < 0 then 0x2d # decimal (nat (- sint a)) else decimal (nat (sint a)))
         else if c = 0x75 then cs = decimal (unat a)
         else if c = 0x78 then cs = printk_x a 0
         else if c = 0x58 then cs = printk_X a 0
         else if c = 0x63 then cs = [ucast a]
         else cs = printk_p a)
      else cs = [c] \<and> args' = args)"

lemma conversion_converts:
  "conversion c d args = Inr (cs, 2, args') \<longleftrightarrow> converts c d args cs args'"
proof -
  have u: "printk_u v = Inr (decimal (unat v))"
    and dd: "printk_d v = (if v = 0x80000000 then Inl Undefined
       else if sint v < 0 then Inr (0x2d # decimal (nat (- sint v))) else Inr (decimal (nat (sint v))))" for v
    using printk_dec_values [of v] by blast+
  show ?thesis
    by (cases args) (auto simp: conversion_def converts_def u dd)
qed

inductive prints :: "memory \<Rightarrow> addr set \<Rightarrow> u8 list \<Rightarrow> u32 list \<Rightarrow> u8 list \<Rightarrow> bool" for m A where
  prints_end: "prints m A [] args []"
| prints_char: "c \<noteq> 0x25 \<Longrightarrow> prints m A f args out \<Longrightarrow> prints m A (c # f) args (c # out)"
| prints_conv: "c \<noteq> 0x73 \<Longrightarrow> converts c d args cs args' \<Longrightarrow> d = (case f of [] \<Rightarrow> 0 | d # _ \<Rightarrow> d) \<Longrightarrow>
    prints m A f args' out \<Longrightarrow> prints m A (0x25 # c # f) args (cs @ out)"
| prints_hex: "IS_NUM d \<Longrightarrow> prints m A f args out \<Longrightarrow>
    prints m A (0x25 # 0x78 # d # f) (a # args) (printk_x a (nat (sint d - 0x30)) @ out)"
| prints_str: "cstr_off m A a t \<Longrightarrow> prints m A t [] out1 \<Longrightarrow> prints m A f args out2 \<Longrightarrow>
    prints m A (0x25 # 0x73 # f) (a # args) (out1 @ out2)"

lemma prints_frame:
  assumes "same_off A m m'"
  shows "prints m A f args out \<Longrightarrow> prints m' A f args out"
proof (induction rule: prints.induct)
  case (prints_str a t out1 f args out2)
  have "same_on (block a (Suc (length t))) m m'"
    using prints_str(1) by (intro same_off_on [OF assms]) (force simp: cstr_off_def mem_block_iff)
  then have "cstr_off m' A a t"
    using prints_str(1) by (auto simp: cstr_off_def cstr_same_on)
  then show ?case using prints_str by (intro prints.prints_str)
qed (auto intro: prints.intros)

lemma cstr_off_frame:
  assumes "same_off A m m'" and "cstr_off m A p cs"
  shows "cstr_off m' A p cs"
proof -
  have "same_on (block p (Suc (length cs))) m m'"
    using assms(2) by (intro same_off_on [OF assms(1)]) (force simp: cstr_off_def mem_block_iff)
  then show ?thesis using assms(2) by (auto simp: cstr_off_def cstr_same_on)
qed

lemma cstr_off_Cons:
  assumes "cstr_off m A p (c # cs)"
  shows "mapped p" and "m p = c" and "c \<noteq> 0" and "cstr_off m A (p + 1) cs"
proof -
  show "mapped p" "m p = c" "c \<noteq> 0" using assms by (simp_all add: cstr_off_def)
  have u: "unat (p + 1) = Suc (unat p)" using assms by (intro unat_inc) (simp add: cstr_off_def)
  have "mapped (p + 1)" using \<open>mapped p\<close> u by (simp add: mapped_def word_le_nat_alt)
  moreover have "block (p + 1) (Suc (length cs)) \<subseteq> block p (Suc (length (c # cs)))"
    using u by (intro block_mono) simp_all
  ultimately show "cstr_off m A (p + 1) cs" using assms u by (auto simp: cstr_off_def)
qed

lemma cstr_off_Nil: "cstr_off m A p [] \<Longrightarrow> mapped p \<and> m p = 0"
  by (simp add: cstr_off_def)

text \<open>What the loop achieves from a state: it ends, and the terminal has taken the output.\<close>

definition printed :: "hardware \<Rightarrow> 'a tty_scheme result option \<Rightarrow> 'a tty_scheme \<Rightarrow> u8 list \<Rightarrow> bool" where
  "printed hw r s out \<longleftrightarrow> (\<exists>s'. r = Some (Inr s') \<and> printk_puts hw out s = Inr s' \<and> tty_idle s' \<and> tty_step s s'
     \<and> term_of s' = fold term_put out (term_of s))"

lemma printk_puts_append: "printk_puts hw (as @ bs) s = bindE (printk_puts hw as s) (printk_puts hw bs)"
  by (simp add: printk_puts_def tty_writes_append) (auto simp: printk_puts_def [abs_def])

lemma printed_puts:
  assumes "tty_idle s" and "0x1b \<notin> set cs"
    and "\<And>s'. tty_idle s' \<Longrightarrow> tty_step s s' \<Longrightarrow> printed hw (k s') s' out"
  shows "printed hw (case printk_puts hw cs s of Inl e \<Rightarrow> Some (Inl e) | Inr s \<Rightarrow> k s) s (cs @ out)"
proof -
  obtain s1 where s1: "printk_puts hw cs s = Inr s1" "tty_idle s1" "term_of s1 = fold term_put cs (term_of s)" "tty_step s s1"
    using tty_writes_text [OF assms(1), of 1 cs hw] assms(2) by (auto simp: printk_puts_def)
  then obtain s2 where "k s1 = Some (Inr s2)" "printk_puts hw out s1 = Inr s2" "tty_idle s2" "tty_step s1 s2"
    "term_of s2 = fold term_put out (term_of s1)"
    using assms(3) [OF s1(2,4)] unfolding printed_def by blast
  then show ?thesis using s1 tty_step_trans [OF s1(4)] by (auto simp: printed_def printk_puts_append)
qed

lemma tty_step_same_off:
  assumes "tty_step s s'" and "same_off (screen v) m (mem s)" and "tty_VRAM s = v"
  shows "same_off (screen v) m (mem s')" and "tty_VRAM s' = v"
  using assms tty_stepD(2) [OF assms(1)] by (auto simp: tty_step_def intro: same_off_trans)

text \<open>One round of the loop that sends \<open>cs\<close> to the console and goes on behind it.\<close>

lemma printed_round:
  fixes s :: "'a tty_scheme"
  assumes idle: "tty_idle s" and v: "tty_VRAM s = v" and m: "same_off (screen v) m (mem s)" and esc: "0x1b \<notin> set (cs @ out)"
    and go: "printk_loop hw fmt args s = (case printk_puts hw cs s of Inl e \<Rightarrow> Some (Inl e) | Inr s \<Rightarrow> printk_loop hw fmt' args' s)"
    and rest: "\<And>s' :: 'a tty_scheme. tty_idle s' \<Longrightarrow> tty_VRAM s' = v \<Longrightarrow> same_off (screen v) m (mem s') \<Longrightarrow> printed hw (printk_loop hw fmt' args' s') s' out"
  shows "printed hw (printk_loop hw fmt args s) s (cs @ out)"
  unfolding go
proof (rule printed_puts [OF idle])
  show "0x1b \<notin> set cs" using esc by simp
  fix s' assume s': "tty_idle s'" "tty_step s s'"
  show "printed hw (printk_loop hw fmt' args' s') s' out"
    using tty_step_same_off [OF s'(2) m v] by (intro rest s'(1)) simp_all
qed

lemma printk_loop_prints:
  "prints m (screen v) f args out \<Longrightarrow> tty_idle s \<Longrightarrow> tty_VRAM s = v \<Longrightarrow> same_off (screen v) m (mem s) \<Longrightarrow>
     cstr_off m (screen v) fmt f \<Longrightarrow> 0x1b \<notin> set out \<Longrightarrow> printed hw (printk_loop hw fmt args s) s out"
proof (induction arbitrary: s fmt rule: prints.induct)
  case (prints_end args)
  have "mapped fmt" "mem s fmt = 0" using cstr_off_Nil [OF cstr_off_frame [OF prints_end(3,4)]] by simp_all
  then show ?case using prints_end tty_step_refl [of s]
    by (subst printk_loop.simps) (simp add: printed_def tty_idle_def printk_puts_def)
next
  case (prints_char c f args out)
  note c = cstr_off_Cons [OF cstr_off_frame [OF prints_char.prems(3,4)]]
  have "printk_loop hw fmt args s = (case printk_puts hw [c] s of Inl e \<Rightarrow> Some (Inl e) | Inr s \<Rightarrow> printk_loop hw (fmt + 1) args s)"
    using c prints_char.hyps by (subst printk_loop.simps) simp
  from printed_round [OF prints_char.prems(1-3) _ this, of out]
  show ?case using prints_char.IH prints_char.prems(5) cstr_off_Cons(4) [OF prints_char.prems(4)] by simp
next
  case (prints_conv c d args cs args' f out)
  note c = cstr_off_Cons [OF cstr_off_frame [OF prints_conv.prems(3,4)]]
  note c1 = cstr_off_Cons [OF c(4)]
  have two: "fmt + 1 + 1 = fmt + 2" by simp
  have "mem s (fmt + 2) = d"
    using c1(4) prints_conv.hyps(3) cstr_off_Nil [of "mem s"] cstr_off_Cons(2) [of "mem s"] unfolding two
    by (cases f) fastforce+
  then have "printk_loop hw fmt args s = (case printk_puts hw cs s of Inl e \<Rightarrow> Some (Inl e) | Inr s \<Rightarrow> printk_loop hw (fmt + 2) args' s)"
    using c c1 prints_conv.hyps conversion_converts [of c d args cs args'] by (subst printk_loop.simps) simp
  from printed_round [OF prints_conv.prems(1-3,5) this] show ?case
    using prints_conv.IH prints_conv.prems(5) cstr_off_Cons(4) [OF cstr_off_Cons(4) [OF prints_conv.prems(4)]] unfolding two by simp
next
  case (prints_hex d f args out a)
  note c = cstr_off_Cons [OF cstr_off_frame [OF prints_hex.prems(3,4)]]
  note c1 = cstr_off_Cons [OF c(4)]
  note c2 = cstr_off_Cons [OF c1(4)]
  have two: "fmt + 1 + 1 = fmt + 2" and three: "fmt + 2 + 1 = fmt + 3" by simp_all
  have "conversion 0x78 d (a # args) = Inr (printk_x a (nat (sint d - 0x30)), 3, args)"
    using prints_hex.hyps by (simp add: conversion_def)
  then have "printk_loop hw fmt (a # args) s = (case printk_puts hw (printk_x a (nat (sint d - 0x30))) s of Inl e \<Rightarrow> Some (Inl e)
      | Inr s \<Rightarrow> printk_loop hw (fmt + 3) args s)"
    using c c1 c2(2) unfolding two by (subst printk_loop.simps) simp
  from printed_round [OF prints_hex.prems(1-3,5) this] show ?case
    using prints_hex.IH prints_hex.prems(5) cstr_off_Cons(4) [OF cstr_off_Cons(4) [OF cstr_off_Cons(4) [OF prints_hex.prems(4)]]]
    unfolding two three by simp
next
  case (prints_str a t out1 f args out2)
  note c = cstr_off_Cons [OF cstr_off_frame [OF prints_str.prems(3,4)]]
  note c1 = cstr_off_Cons [OF c(4)]
  have two: "fmt + 1 + 1 = fmt + 2" by simp
  have "printed hw (printk_loop hw a [] s) s out1"
    using prints_str.prems prints_str.hyps(1) by (intro prints_str.IH(1)) auto
  then obtain s1 where s1: "printk_loop hw a [] s = Some (Inr s1)" "tty_idle s1" "tty_step s s1" "term_of s1 = fold term_put out1 (term_of s)"
    "printk_puts hw out1 s = Inr s1"
    unfolding printed_def by blast
  have "printed hw (printk_loop hw (fmt + 2) args s1) s1 out2"
    using prints_str.prems s1(2) tty_step_same_off [OF s1(3) prints_str.prems(3,2)]
      cstr_off_Cons(4) [OF cstr_off_Cons(4) [OF prints_str.prems(4)]] unfolding two
    by (intro prints_str.IH(2)) auto
  then show ?case using c c1(2) s1 tty_step_trans [OF s1(3)]
    by (subst printk_loop.simps) (auto simp: printed_def printk_puts_append)
qed

text \<open>
  C8: \<open>printk\<close> on a format string that specifies an output (\<open>prints\<close>): literal text and complete
  conversions \<open>%d %i %u %x %X %c %p %s %%\<close>, an argument for each, none of them the least integer for
  \<open>%d\<close>, strings outside the screen, no escape character in the output. For each of these it ends
  without a fault, the terminal then shows exactly that output, the console is idle, and memory
  outside the screen is unchanged. A format that ends in a lone percent sign specifies none:
  \<open>printk_lone_percent\<close> shows that it is read past its end.
\<close>

theorem printk_correct:
  assumes "tty_idle s" and "cstr_off (mem s) (screen (tty_VRAM s)) fmt f"
    and "prints (mem s) (screen (tty_VRAM s)) f args out" and "0x1b \<notin> set out"
  shows "\<exists>s'. printk hw fmt args s = Inr s' \<and> tty_idle s' \<and> term_of s' = fold term_put out (term_of s)
    \<and> same_off (screen (tty_VRAM s)) (mem s) (mem s')"
  using printk_loop_prints [OF assms(3) assms(1) refl same_off_refl assms(2,4), of hw]
  by (auto simp: printed_def printk_def tty_step_def)

text \<open>
  A percent sign at the end of the format: the terminating zero is taken for the letter of a
  conversion, put on the console, and the scan goes on behind it.
\<close>

theorem printk_lone_percent:
  assumes "mapped fmt" and "mem s fmt = 0x25" and "mem s (fmt + 1) = 0"
  shows "printk_loop hw fmt args s
    = (case printk_puts hw [0] s of Inl e \<Rightarrow> Some (Inl e) | Inr s \<Rightarrow> printk_loop hw (fmt + 2) args s)"
  using assms by (subst printk_loop.simps) (simp add: conversion_def)

definition hello_tty :: tty where
  "hello_tty = fresh_tty\<lparr>mem := (\<lambda>_. 0)(0xc0100000 := 0x6e, 0xc0100001 := 0x25, 0xc0100002 := 0x64)\<rparr>"

theorem printk_correct_witness:
  "\<exists>s'. printk zero_hw 0xc0100000 [0xfffffff9] hello_tty = Inr s' \<and> tty_idle s'
    \<and> term_of s' = fold term_put [0x6e, 0x2d, 0x37] (term_of hello_tty)"
proof -
  have i: "tty_idle hello_tty" using fresh_tty_idle by (simp add: hello_tty_def tty_idle_def tty_ok_def)
  have m: "mem hello_tty = (\<lambda>_. 0)(0xc0100000 := 0x6e, 0xc0100001 := 0x25, 0xc0100002 := 0x64)" "tty_VRAM hello_tty = 0xc00b8000"
    by (simp_all add: hello_tty_def fresh_tty_def)
  have c: "cstr_off (mem hello_tty) (screen (tty_VRAM hello_tty)) 0xc0100000 [0x6e, 0x25, 0x64]"
    unfolding m cstr_off_def screen_def by (auto simp: mapped_def mem_block_iff)
  have "conversion 0x64 0 [0xfffffff9] = Inr ([0x2d, 0x37], 2, [])" by code_simp
  then have "converts 0x64 0 [0xfffffff9] [0x2d, 0x37] []" by (simp add: conversion_converts)
  then have "prints (mem hello_tty) (screen (tty_VRAM hello_tty)) ([0x25, 0x64]) [0xfffffff9] ([0x2d, 0x37] @ [])"
    by (intro prints_conv [OF _ _ _ prints_end]) simp_all
  then have "prints (mem hello_tty) (screen (tty_VRAM hello_tty)) [0x6e, 0x25, 0x64] [0xfffffff9] [0x6e, 0x2d, 0x37]"
    by (intro prints_char) simp_all
  from printk_correct [OF i c this, of zero_hw] show ?thesis by auto
qed

end
