(* ===== verification/Kernel_Printk_Lit.thy ===== *)
theory Kernel_Printk_Lit
  imports Kernel_Printk
begin

text \<open>
  Calls of \<open>printk\<close> whose format is a string literal. The address the linker gives a literal
  carries no information, so a call is modelled by the characters of the literal: \<open>lit_out\<close> computes
  what such a call puts. \<open>printk_literal\<close> shows that this is what \<open>printk\<close> does wherever the literal
  (and every string argument) lies in memory outside the screen.
\<close>

definition ascii :: "string \<Rightarrow> u8 list" where
  "ascii cs = map of_char cs"

datatype karg = Num u32 | Str "u8 list"

definition num_arg :: "karg list \<Rightarrow> u32 list" where
  "num_arg args = (case args of Num v # _ \<Rightarrow> [v] | _ \<Rightarrow> [])"

primrec arg_size :: "karg \<Rightarrow> nat" where
  "arg_size (Num v) = 0"
| "arg_size (Str t) = length t"

lemma sum_list_tl_le: "sum_list (map g (tl ys)) \<le> sum_list (map (g :: 'b \<Rightarrow> nat) ys)"
  by (cases ys) auto

function lit_out :: "u8 list \<Rightarrow> karg list \<Rightarrow> u8 list result" where
  "lit_out [] args = Inr []"
| "lit_out (c # f) args =
     (if c \<noteq> 0x25 then bindE (lit_out f args) (\<lambda>out. Inr (c # out))
      else if f = [] then Inl Undefined
      else if hd f = 0x73 then
        (case args of
           Str t # args' \<Rightarrow> bindE (lit_out t []) (\<lambda>out1. bindE (lit_out (tl f) args') (\<lambda>out2. Inr (out1 @ out2)))
         | _ \<Rightarrow> Inl Undefined)
      else
        bindE (conversion (hd f) (case tl f of [] \<Rightarrow> 0 | d # _ \<Rightarrow> d) (num_arg args)) (\<lambda>(cs, n, r).
          bindE (lit_out (if n = 3 then tl (tl f) else tl f) (if r = num_arg args then args else tl args))
            (\<lambda>out. Inr (cs @ out))))"
  by pat_completeness auto
termination
proof (relation "measure (\<lambda>(f, args). length f + sum_list (map arg_size args))", goal_cases)
  case (5 c f args)
  then show ?case using sum_list_tl_le [of arg_size args] by auto
qed auto

definition printk_lit :: "hardware \<Rightarrow> string \<Rightarrow> karg list \<Rightarrow> 'a tty_scheme \<Rightarrow> 'a tty_scheme result" where
  "printk_lit hw fmt args s = bindE (lit_out (ascii fmt) args) (\<lambda>cs. printk_puts hw cs s)"

text \<open>The machine arguments of a call: numbers as they are, strings by an address.\<close>

definition arg_at :: "memory \<Rightarrow> addr set \<Rightarrow> karg \<Rightarrow> u32 \<Rightarrow> bool" where
  "arg_at m A k a = (case k of Num v \<Rightarrow> a = v | Str t \<Rightarrow> cstr_off m A a t)"

lemma conversion_args:
  assumes "conversion c d (num_arg ks) = Inr (cs, n, r)" and "list_all2 (arg_at m A) ks args" and "c \<noteq> 0x73"
  shows "\<exists>args'. conversion c d args = Inr (cs, n, args') \<and> list_all2 (arg_at m A) (if r = num_arg ks then ks else tl ks) args'
    \<and> (n = 2 \<or> n = 3 \<and> c = 0x78 \<and> IS_NUM d \<and> (\<exists>a. args = a # args' \<and> cs = printk_x a (nat (sint d - 0x30))))"
proof (cases ks)
  case Nil
  then show ?thesis using assms by (auto simp: num_arg_def conversion_def split: if_splits)
next
  case (Cons k ks')
  then obtain a as where args: "args = a # as" "arg_at m A k a" "list_all2 (arg_at m A) ks' as"
    using assms(2) by (auto simp: list_all2_Cons1)
  show ?thesis
  proof (cases k)
    case (Num v)
    then have "a = v" using args(2) by (simp add: arg_at_def)
    then show ?thesis using assms args Cons Num
      by (auto simp: num_arg_def conversion_def bindE_Inr_iff split: if_splits)
  next
    case (Str t)
    then show ?thesis using assms Cons by (auto simp: num_arg_def conversion_def split: if_splits)
  qed
qed

lemma lit_out_prints:
  "lit_out f ks = Inr out \<Longrightarrow> list_all2 (arg_at m A) ks args \<Longrightarrow> prints m A f args out"
proof (induction f ks arbitrary: out args rule: lit_out.induct)
  case (1 ks)
  then show ?case by (auto intro: prints_end)
next
  case (2 c f ks)
  consider "c \<noteq> 0x25" | "c = 0x25" "f \<noteq> []" "hd f = 0x73" | "c = 0x25" "f \<noteq> []" "hd f \<noteq> 0x73"
    using 2(5) by (auto split: if_splits)
  then show ?case
  proof cases
    case 1
    then show ?thesis using 2 by (auto simp: bindE_Inr_iff intro!: prints_char)
  next
    case 2
    then obtain t ks' where ks: "ks = Str t # ks'"
      using "2.prems"(1) by (auto split: list.splits karg.splits)
    then obtain out1 out2 where o: "lit_out t [] = Inr out1" "lit_out (tl f) ks' = Inr out2" "out = out1 @ out2"
      using 2 "2.prems"(1) by (auto simp: bindE_Inr_iff)
    obtain a as where args: "args = a # as" "cstr_off m A a t" "list_all2 (arg_at m A) ks' as"
      using "2.prems"(2) by (auto simp: ks list_all2_Cons1 arg_at_def [of m A "Str t"])
    have "prints m A t [] out1" "prints m A (tl f) as out2"
      using "2.IH"(2,3) 2 ks o args(3) by auto
    then have "prints m A (0x25 # 0x73 # tl f) (a # as) (out1 @ out2)" using args(2) by (rule prints_str [rotated])
    then show ?thesis using 2 args(1) o(3) by (cases f) auto
  next
    case 3
    let ?d = "case tl f of [] \<Rightarrow> 0 | d # _ \<Rightarrow> d"
    obtain cs n r out1 where o: "conversion (hd f) ?d (num_arg ks) = Inr (cs, n, r)" "out = cs @ out1"
      "lit_out (if n = 3 then tl (tl f) else tl f) (if r = num_arg ks then ks else tl ks) = Inr out1"
      using 3 "2.prems"(1) by (auto simp: bindE_Inr_iff)
    obtain args' where a: "conversion (hd f) ?d args = Inr (cs, n, args')" "list_all2 (arg_at m A) (if r = num_arg ks then ks else tl ks) args'"
      "n = 2 \<or> n = 3 \<and> hd f = 0x78 \<and> IS_NUM ?d \<and> (\<exists>a. args = a # args' \<and> cs = printk_x a (nat (sint ?d - 0x30)))"
      using conversion_args [OF o(1) "2.prems"(2) 3(3)] by blast
    have p: "prints m A (if n = 3 then tl (tl f) else tl f) args' out1"
      using "2.IH"(4) 3 o(1,3) a(2) by force
    from a(3) show ?thesis
    proof
      assume n: "n = 2"
      then have "prints m A (0x25 # hd f # tl f) args (cs @ out1)" using a(1) p 3 by (intro prints_conv) (auto simp: conversion_converts [symmetric])
      then show ?thesis using 3 o(2) by simp
    next
      assume n: "n = 3 \<and> hd f = 0x78 \<and> IS_NUM ?d \<and> (\<exists>a. args = a # args' \<and> cs = printk_x a (nat (sint ?d - 0x30)))"
      then have "tl f \<noteq> []" by (auto simp: IS_NUM_def)
      then obtain e g where f: "f = 0x78 # e # g" using n 3 by (cases f; cases "tl f") auto
      then obtain a where "args = a # args'" "cs = printk_x a (nat (sint e - 0x30))" "IS_NUM e" using n by auto
      then show ?thesis using p n f 3 o(2) by (auto intro: prints_hex)
    qed
  qed
qed

text \<open>
  Wherever the linker puts a format literal, and whatever addresses its string arguments have,
  the call is the same as writing the characters computed by \<open>lit_out\<close>, as long as these strings
  lie outside the screen and the output has no escape character.
\<close>

theorem printk_literal:
  assumes "tty_idle s" and "cstr_off (mem s) (screen (tty_VRAM s)) fmt (ascii f)"
    and "list_all2 (arg_at (mem s) (screen (tty_VRAM s))) ks args" and "lit_out (ascii f) ks = Inr out" and "0x1b \<notin> set out"
  shows "printk hw fmt args s = printk_lit hw f ks s"
  using printk_loop_prints [OF lit_out_prints [OF assms(4,3)] assms(1) refl same_off_refl assms(2,5), of hw] assms(4)
  by (auto simp: printed_def printk_def printk_lit_def)

theorem printk_literal_witness:
  "printk zero_hw 0xc0100000 [0xfffffff9] hello_tty = printk_lit zero_hw ''n%d'' [Num 0xfffffff9] hello_tty"
proof -
  have i: "tty_idle hello_tty" using fresh_tty_idle by (simp add: hello_tty_def tty_idle_def tty_ok_def)
  have m: "mem hello_tty = (\<lambda>_. 0)(0xc0100000 := 0x6e, 0xc0100001 := 0x25, 0xc0100002 := 0x64)" "tty_VRAM hello_tty = 0xc00b8000"
    by (simp_all add: hello_tty_def fresh_tty_def)
  have a: "ascii ''n%d'' = [0x6e, 0x25, 0x64]" by code_simp
  have c: "cstr_off (mem hello_tty) (screen (tty_VRAM hello_tty)) 0xc0100000 (ascii ''n%d'')"
    unfolding m cstr_off_def screen_def a by (auto simp: mapped_def mem_block_iff)
  have l: "lit_out (ascii ''n%d'') [Num 0xfffffff9] = Inr [0x6e, 0x2d, 0x37]" by code_simp
  have g: "list_all2 (arg_at (mem hello_tty) (screen (tty_VRAM hello_tty))) [Num 0xfffffff9] [0xfffffff9]"
    by (simp add: arg_at_def)
  from printk_literal [OF i c g l, of zero_hw] show ?thesis by simp
qed

end
