(* ===== verification/Kernel_Acpi.thy ===== *)
theory Kernel_Acpi
  imports Kernel_Printk_Lit
begin

text \<open>
  \<open>kernel/acpi.c\<close>: finding the firmware tables that name the interrupt controllers and the timer.
  The tables are packed structs in memory, reached through the offsets below. The three string
  literals the code compares with are fields of the state that hold their linker addresses. The
  local variable \<open>i\<close> of \<open>acpi_init\<close> is never initialised; what its storage holds is the argument \<open>i0\<close>.
\<close>

abbreviation (input) rsdp_revision :: "memory \<Rightarrow> addr \<Rightarrow> u8" where "rsdp_revision m p \<equiv> m (p + 15)"
abbreviation (input) rsdp_rsdt_address :: "memory \<Rightarrow> addr \<Rightarrow> addr" where "rsdp_rsdt_address m p \<equiv> load32 m (p + 16)"
abbreviation (input) xsdt_length :: "memory \<Rightarrow> addr \<Rightarrow> u32" where "xsdt_length m p \<equiv> load32 m (p + 4)"
abbreviation (input) madt_lapic_addr :: "memory \<Rightarrow> addr \<Rightarrow> u32" where "madt_lapic_addr m p \<equiv> load32 m (p + 36)"
abbreviation (input) madt_entries :: "addr \<Rightarrow> addr" where "madt_entries p \<equiv> p + 44"

record acpi_sys = tty +
  acpi_rsdp :: addr
  acpi_rsdt :: addr
  acpi_madt :: addr
  apic_addr :: addr
  ioapic_addr :: addr
  hpet_addr :: addr
  lit_rsd_ptr :: addr
  lit_apic :: addr
  lit_hpet :: addr

section \<open>Operations\<close>

primrec acpi_sum :: "nat \<Rightarrow> addr \<Rightarrow> u32 \<Rightarrow> memory \<Rightarrow> u32 result" where
  "acpi_sum 0 head acc m = Inr acc"
| "acpi_sum (Suc n) head acc m = deref head (acpi_sum n (head + 1) (acc + scast (m head)) m)"

definition acpi_checksum :: "addr \<Rightarrow> u32 \<Rightarrow> memory \<Rightarrow> bool result" where
  "acpi_checksum head len m = bindE (acpi_sum (unat len) head 0 m) (\<lambda>acc. Inr (acc AND 0xff = 0))"

text \<open>
  \<open>((*p) + 0xC0000000)->signature\<close> scales its offset by the 36 bytes of a header; the product is a
  multiple of \<open>2 ^ 32\<close> and vanishes, and the second addition makes the address linear.
\<close>

primrec find_xsdt_loop :: "nat \<Rightarrow> addr \<Rightarrow> addr \<Rightarrow> memory \<Rightarrow> addr result" where
  "find_xsdt_loop 0 p signature m = Inr 0"
| "find_xsdt_loop (Suc n) p signature m =
     deref p
      (let table = load32 m p + 36 * 0xc0000000 + 0xc0000000 in
       deref table
        (if strncmp m table signature 4 = 0 then Inr (phy2lin (load32 m p))
         else find_xsdt_loop n (p + 4) signature m))"

definition find_xsdt :: "addr \<Rightarrow> 'a acpi_sys_scheme \<Rightarrow> addr result" where
  "find_xsdt signature s =
     deref (acpi_rsdt s)
      (find_xsdt_loop (unat ((xsdt_length (mem s) (acpi_rsdt s) - 36) div 4)) (acpi_rsdt s + 36) signature (mem s))"

function rsdp_search :: "addr \<Rightarrow> addr \<Rightarrow> memory \<Rightarrow> addr" where
  "rsdp_search p lit m =
     (if p < phy2lin 0xfffff then if memcmp m p lit 8 = 0 then p else rsdp_search (p + 16) lit m else p)"
  by pat_completeness auto
termination
proof (relation "measure (\<lambda>(p, lit, m). 0xc0100010 - unat p)", goal_cases)
  case (2 p lit m)
  then have "unat p < 0xc00fffff" by (simp add: phy2lin_def word_less_nat_alt)
  then show ?case using unat_add_word [of p 16] by simp
qed simp

declare rsdp_search.simps [simp del]

text \<open>The walk over the interrupt controller entries; an entry of length zero repeats forever.\<close>

partial_function (option) madt_walk :: "memory \<Rightarrow> addr \<Rightarrow> u32 \<Rightarrow> addr option result option" where
  "madt_walk m madt i =
     (if i < xsdt_length m madt - 36 then
        (let e = madt_entries madt + i in
         if \<not> mapped e then Some (Inl (Page_Fault e))
         else if m e \<noteq> 1 then madt_walk m madt (i + ucast (m (e + 1)))
         else Some (Inr (Some (phy2lin (load32 m (e + 4))))))
      else Some (Inr None))"

definition acpi_init :: "u32 \<Rightarrow> 'a acpi_sys_scheme \<Rightarrow> 'a acpi_sys_scheme result" where
  "acpi_init i0 s =
     (let s = s\<lparr>acpi_rsdp := rsdp_search (phy2lin 0xe0000) (lit_rsd_ptr s) (mem s)\<rparr> in
      bindE (acpi_checksum (acpi_rsdp s) 20 (mem s)) (\<lambda>ok.
      if \<not> ok then Inl (Panic ''bad rsdp checksum'')
      else if rsdp_revision (mem s) (acpi_rsdp s) \<noteq> 0 then Inl (Panic ''unsupported acpi version'')
      else
        let s = s\<lparr>acpi_rsdt := phy2lin (rsdp_rsdt_address (mem s) (acpi_rsdp s))\<rparr> in
        deref (acpi_rsdt s)
         (bindE (acpi_checksum (acpi_rsdt s) (xsdt_length (mem s) (acpi_rsdt s)) (mem s)) (\<lambda>ok.
          if \<not> ok then Inl (Panic ''bad rsdt checksum'')
          else
            bindE (find_xsdt (lit_apic s) s) (\<lambda>madt.
              let s = s\<lparr>acpi_madt := madt\<rparr> in
              deref madt
               (let s = s\<lparr>apic_addr := phy2lin (madt_lapic_addr (mem s) madt)\<rparr> in
                bindE (returns (madt_walk (mem s) madt i0)) (\<lambda>r.
                  let s = (case r of None \<Rightarrow> s | Some a \<Rightarrow> s\<lparr>ioapic_addr := a\<rparr>) in
                  bindE (find_xsdt (lit_hpet s) s) (\<lambda>hpet_head.
                    deref hpet_head (Inr (s\<lparr>hpet_addr := phy2lin (load32 (mem s) (hpet_head + 44))\<rparr>))))))))))"

section \<open>The interrupt controller entries\<close>

text \<open>Consecutive entries from \<open>p\<close> on, each given by its type and its length in bytes.\<close>

primrec entries_at :: "memory \<Rightarrow> addr \<Rightarrow> (u8 \<times> u8) list \<Rightarrow> bool" where
  "entries_at m p [] \<longleftrightarrow> True"
| "entries_at m p (e # es) \<longleftrightarrow> m p = fst e \<and> m (p + 1) = snd e \<and> 2 \<le> unat (snd e) \<and> entries_at m (p + ucast (snd e)) es"

definition entries_len :: "(u8 \<times> u8) list \<Rightarrow> nat" where
  "entries_len es = sum_list (map (\<lambda>e. unat (snd e)) es)"

lemma unat_ucast_u8: "unat (ucast (v :: u8) :: u32) = unat v"
proof -
  have "unat v < 256" using unsigned_less [of v, where 'a = nat] by simp
  then show ?thesis by (simp add: unsigned_ucast_eq take_bit_nat_eq_self_iff)
qed

lemma madt_walk_skip:
  "entries_at m (madt_entries madt + i) (es @ rest) \<Longrightarrow> \<forall>e \<in> set es. fst e \<noteq> 1 \<Longrightarrow>
     unat i + entries_len es \<le> unat (xsdt_length m madt - 36) \<Longrightarrow> mapped madt \<Longrightarrow>
     unat madt + 44 + unat (xsdt_length m madt - 36) \<le> 2 ^ 32 \<Longrightarrow>
     madt_walk m madt i = madt_walk m madt (i + of_nat (entries_len es))
       \<and> entries_at m (madt_entries madt + (i + of_nat (entries_len es))) rest"
proof (induction es arbitrary: i)
  case Nil
  then show ?case by (simp add: entries_len_def)
next
  case (Cons e es)
  let ?L = "unat (xsdt_length m madt - 36)" and ?p = "madt_entries madt + i"
  have e: "m ?p = fst e" "m (?p + 1) = snd e" "2 \<le> unat (snd e)" "entries_at m (?p + ucast (snd e)) (es @ rest)" "fst e \<noteq> 1"
    using Cons.prems(1,2) by simp_all
  have len: "entries_len (e # es) = unat (snd e) + entries_len es" by (simp add: entries_len_def)
  have lt: "unat i + unat (snd e) \<le> ?L" using Cons.prems(3) len by linarith
  have "?L < 4294967296" by (rule unat_lt)
  then have u: "unat (i + ucast (snd e)) = unat i + unat (snd e)"
    using lt unat_add_word [of i "ucast (snd e)"] by (simp add: unat_ucast_u8 del: unat_lt)
  have "unat ?p = unat madt + 44 + unat i"
    using Cons.prems(5) lt e(3) unat_add_word [of "madt + 44" i] unat_add_word [of madt 44] by simp
  then have mp: "mapped ?p" using Cons.prems(4) by (simp add: mapped_def word_le_nat_alt)
  have "i < xsdt_length m madt - 36" using lt e(3) by (simp add: word_less_nat_alt)
  then have "madt_walk m madt i = madt_walk m madt (i + ucast (snd e))"
    using e mp by (subst madt_walk.simps) (simp add: Let_def)
  moreover have "madt_walk m madt (i + ucast (snd e)) = madt_walk m madt (i + ucast (snd e) + of_nat (entries_len es))
      \<and> entries_at m (madt_entries madt + (i + ucast (snd e) + of_nat (entries_len es))) rest"
    using Cons.prems e(4) u len by (intro Cons.IH) (simp_all add: add.assoc)
  moreover have "i + ucast (snd e) + of_nat (entries_len es) = i + of_nat (entries_len (e # es))"
    by (simp add: len add.assoc)
  ultimately show ?case by simp
qed

text \<open>
  C34: when the walk starts at the first entry, it ends at the first I/O APIC entry (type 1) of
  the table, past any number of entries of other types, and yields the linear address of the
  controller that entry names.
\<close>

theorem madt_walk_finds_ioapic:
  assumes "mapped madt" and "unat madt + 44 + unat (xsdt_length m madt - 36) \<le> 2 ^ 32"
    and "entries_at m (madt_entries madt) (es @ (1, l) # rest)" and "\<forall>e \<in> set es. fst e \<noteq> 1"
    and "entries_len es < unat (xsdt_length m madt - 36)"
  shows "madt_walk m madt 0 = Some (Inr (Some (phy2lin (load32 m (madt_entries madt + of_nat (entries_len es) + 4)))))"
proof -
  let ?i = "of_nat (entries_len es) :: u32" and ?L = "unat (xsdt_length m madt - 36)"
  have "?L < 4294967296" by (rule unat_lt)
  then have ui: "unat ?i = entries_len es" using assms(5) by (simp add: unat_of_nat del: unat_lt)
  have s: "madt_walk m madt 0 = madt_walk m madt ?i" "entries_at m (madt_entries madt + ?i) ((1, l) # rest)"
    using madt_walk_skip [of m madt 0 es "(1, l) # rest"] assms by simp_all
  have "unat (madt_entries madt + ?i) = unat madt + 44 + entries_len es"
    using assms(2,5) ui unat_add_word [of "madt + 44" ?i] unat_add_word [of madt 44] by simp
  then have "mapped (madt_entries madt + ?i)" using assms(1) by (simp add: mapped_def word_le_nat_alt)
  moreover have "?i < xsdt_length m madt - 36" using assms(5) ui by (simp add: word_less_nat_alt)
  ultimately show ?thesis using s by (subst s(1), subst madt_walk.simps) (simp add: Let_def add.assoc)
qed

text \<open>A table of 64 bytes: a processor entry, then an I/O APIC entry for 0xfec00000.\<close>

definition madt_mem :: memory where
  "madt_mem = store32 (store32 (\<lambda>_. 0) 0xc0200004 64) 0xc0200038 0xfec00000"

definition madt_mem2 :: memory where
  "madt_mem2 = madt_mem(0xc020002d := 8, 0xc0200034 := 1, 0xc0200035 := 12)"

theorem madt_walk_finds_ioapic_witness:
  "madt_walk madt_mem2 0xc0200000 0 = Some (Inr (Some 0xbec00000))"
proof -
  have len: "xsdt_length madt_mem2 0xc0200000 = 64" and a: "load32 madt_mem2 0xc0200038 = 0xfec00000"
    by (simp_all add: madt_mem2_def madt_mem_def load32_def store32_def)
  have e: "entries_at madt_mem2 (madt_entries 0xc0200000) ([(0, 8)] @ (1, 12) # [])"
    by (simp add: madt_mem2_def madt_mem_def store32_def)
  show ?thesis
    using madt_walk_finds_ioapic [of "0xc0200000" madt_mem2 "[(0, 8)]" 12 "[]"] e len a
    by (simp add: mapped_def entries_len_def phy2lin_def)
qed

end
