(* ===== verification/Kernel_Apic.thy ===== *)
theory Kernel_Apic
  imports Kernel_Acpi
begin

text \<open>
  \<open>kernel/apic.c\<close>: programming the local and the I/O interrupt controllers through their memory
  mapped registers. The I/O controller is reached through an index register at offset 0 and a
  data register at offset 16; \<open>redirections\<close> reads back from the trace what each of its registers
  holds.
\<close>

definition ioapic_read :: "hardware \<Rightarrow> u32 \<Rightarrow> 'a acpi_sys_scheme \<Rightarrow> (u32 \<times> 'a acpi_sys_scheme) result" where
  "ioapic_read hw reg s =
     bindE (mmio_write (ioapic_addr s) (reg AND 0xff) s) (\<lambda>s. mmio_read hw (ioapic_addr s + 16) s)"

definition ioapic_write :: "u32 \<Rightarrow> u32 \<Rightarrow> 'a acpi_sys_scheme \<Rightarrow> 'a acpi_sys_scheme result" where
  "ioapic_write reg data s =
     bindE (mmio_write (ioapic_addr s) (reg AND 0xff) s) (\<lambda>s. mmio_write (ioapic_addr s + 16) data s)"

definition lapic_read :: "hardware \<Rightarrow> u32 \<Rightarrow> 'a acpi_sys_scheme \<Rightarrow> (u32 \<times> 'a acpi_sys_scheme) result" where
  "lapic_read hw offset s = mmio_read hw (apic_addr s + 4 * drop_bit 2 offset) s"

definition lapic_write :: "u32 \<Rightarrow> u32 \<Rightarrow> 'a acpi_sys_scheme \<Rightarrow> 'a acpi_sys_scheme result" where
  "lapic_write offset data s = mmio_write (apic_addr s + 4 * drop_bit 2 offset) data s"

definition eoi_apic :: "'a acpi_sys_scheme \<Rightarrow> 'a acpi_sys_scheme result" where
  "eoi_apic s = lapic_write 0xB0 0 s"

definition ioapic_enable :: "u8 \<Rightarrow> u8 \<Rightarrow> 'a acpi_sys_scheme \<Rightarrow> 'a acpi_sys_scheme result" where
  "ioapic_enable target_vector pin s =
     bindE (ioapic_write (0x10 + 2 * ucast pin) (ucast target_vector) s) (\<lambda>s.
       ioapic_write (0x10 + 2 * ucast pin + 1) 0 s)"

definition ioapic_disable :: "hardware \<Rightarrow> u8 \<Rightarrow> 'a acpi_sys_scheme \<Rightarrow> 'a acpi_sys_scheme result" where
  "ioapic_disable hw pin s =
     bindE (ioapic_read hw (0x10 + 2 * ucast pin) s) (\<lambda>(v, s).
     bindE (ioapic_write (0x10 + 2 * ucast pin) (push_bit 16 1 OR v) s) (\<lambda>s.
       ioapic_write (0x10 + 2 * ucast pin + 1) 0 s))"

definition apic_init :: "hardware \<Rightarrow> 'a acpi_sys_scheme \<Rightarrow> 'a acpi_sys_scheme result" where
  "apic_init hw s =
     (let s = outb 0x21 0xff s;
          s = outb 0xa1 0xff s;
          ((eax, edx), s) = rdmsr hw 0x1B s;
          eax = eax OR 0x800;
          s = wrmsr 0x1B eax edx s
      in bindE (lapic_read hw 0xf0 s) (\<lambda>(v, s). lapic_write 0xf0 (v OR 0x100) s))"

section \<open>The registers of the I/O controller\<close>

text \<open>
  The state of the controller after a trace (newest event first): the selected register and the
  value last written to each register.
\<close>

fun ioapic_regs :: "addr \<Rightarrow> io_event list \<Rightarrow> u32 option \<times> (u32 \<Rightarrow> u32 option)" where
  "ioapic_regs base [] = (None, (\<lambda>_. None))"
| "ioapic_regs base (e # es) =
     (case e of
        Mmio_Write a v \<Rightarrow>
          (let (sel, regs) = ioapic_regs base es in
           if a = base then (Some v, regs)
           else if a = base + 16 then (sel, case sel of None \<Rightarrow> regs | Some r \<Rightarrow> regs(r \<mapsto> v))
           else (sel, regs))
      | _ \<Rightarrow> ioapic_regs base es)"

text \<open>The redirection entry of a pin: its low and high half.\<close>

definition redirection :: "addr \<Rightarrow> io_event list \<Rightarrow> nat \<Rightarrow> (u32 option \<times> u32 option)" where
  "redirection base es pin = (let regs = snd (ioapic_regs base es) in (regs (0x10 + 2 * of_nat pin), regs (0x10 + 2 * of_nat pin + 1)))"

lemma ioapic_write_regs:
  assumes "mapped (ioapic_addr s)" and "mapped (ioapic_addr s + 16)"
  shows "\<exists>s'. ioapic_write reg data s = Inr s' \<and> ioapic_addr s' = ioapic_addr s \<and> mem s' = mem s
    \<and> snd (ioapic_regs (ioapic_addr s) (io s')) = (snd (ioapic_regs (ioapic_addr s) (io s)))(reg AND 0xff \<mapsto> data)"
  using assms by (simp add: ioapic_write_def mmio_write_def event_def split_def)

lemma pin_register:
  assumes "pin < 24"
  shows "(0x10 + 2 * ucast (of_nat pin :: u8) :: u32) = of_nat (16 + 2 * pin)"
    and "(of_nat (16 + 2 * pin) AND 0xff :: u32) = of_nat (16 + 2 * pin)"
    and "(of_nat (16 + 2 * pin) + 1 AND 0xff :: u32) = of_nat (16 + 2 * pin + 1)"
proof -
  have m: "(0xff :: u32) = mask 8" by (simp add: mask_eq_exp_minus_1)
  have t: "(of_nat n AND 0xff :: u32) = of_nat n" if "n < 256" for n
  proof -
    have "take_bit 8 n = n" using that by (simp add: take_bit_nat_eq_self_iff)
    then show ?thesis unfolding m take_bit_eq_mask [symmetric] by (simp add: take_bit_of_nat)
  qed
  have "(ucast (of_nat pin :: u8) :: u32) = of_nat pin"
    using assms by (simp add: word_unat_eq_iff unat_ucast_u8 unat_of_nat)
  then show "(0x10 + 2 * ucast (of_nat pin :: u8) :: u32) = of_nat (16 + 2 * pin)" by simp
  show "(of_nat (16 + 2 * pin) AND 0xff :: u32) = of_nat (16 + 2 * pin)"
    using t [of "16 + 2 * pin"] assms by simp
  show "(of_nat (16 + 2 * pin) + 1 AND 0xff :: u32) = of_nat (16 + 2 * pin + 1)"
    using t [of "16 + 2 * pin + 1"] assms by (simp add: add.commute)
qed

lemma ioapic_enable_redirects:
  assumes "mapped (ioapic_addr s)" and "mapped (ioapic_addr s + 16)" and "pin < 24" and "q < 24"
  shows "\<exists>s'. ioapic_enable v (of_nat pin) s = Inr s' \<and> mem s' = mem s \<and> ioapic_addr s' = ioapic_addr s
    \<and> redirection (ioapic_addr s) (io s') q = (if q = pin then (Some (ucast v), Some 0) else redirection (ioapic_addr s) (io s) q)"
proof -
  let ?b = "ioapic_addr s" and ?r = "of_nat (16 + 2 * pin) :: u32"
  obtain s1 where s1: "ioapic_write ?r (ucast v) s = Inr s1" "ioapic_addr s1 = ?b" "mem s1 = mem s"
    "snd (ioapic_regs ?b (io s1)) = (snd (ioapic_regs ?b (io s)))(?r AND 0xff \<mapsto> ucast v)"
    using ioapic_write_regs [OF assms(1,2)] by blast
  obtain s2 where s2: "ioapic_write (?r + 1) 0 s1 = Inr s2" "mem s2 = mem s1" "ioapic_addr s2 = ?b"
    "snd (ioapic_regs ?b (io s2)) = (snd (ioapic_regs ?b (io s1)))(?r + 1 AND 0xff \<mapsto> 0)"
    using ioapic_write_regs [of s1 "?r + 1" 0] assms(1,2) s1(2) by auto
  note pr = pin_register [OF assms(3)]
  have e: "ioapic_enable v (of_nat pin) s = Inr s2"
    unfolding ioapic_enable_def pr using s1(1) s2(1) by simp
  have inj: "(of_nat a :: u32) = of_nat b \<longleftrightarrow> a = b" if "a < 256" "b < 256" for a b
    using that by (simp add: word_unat_eq_iff unat_of_nat)
  have g: "0x10 + 2 * of_nat q = (of_nat (16 + 2 * q) :: u32)" "0x10 + 2 * of_nat q + 1 = (of_nat (16 + 2 * q + 1) :: u32)" by simp_all
  have "16 + 2 * q + 1 \<noteq> 16 + 2 * pin" "16 + 2 * q \<noteq> 16 + 2 * pin + 1" by presburger+
  then have d: "(of_nat (16 + 2 * q) :: u32) = of_nat (16 + 2 * pin) \<longleftrightarrow> q = pin"
    "(of_nat (16 + 2 * q + 1) :: u32) = of_nat (16 + 2 * pin + 1) \<longleftrightarrow> q = pin"
    "(of_nat (16 + 2 * q + 1) :: u32) \<noteq> of_nat (16 + 2 * pin)" "(of_nat (16 + 2 * q) :: u32) \<noteq> of_nat (16 + 2 * pin + 1)"
    using assms(3,4) inj [of "16 + 2 * q" "16 + 2 * pin"] inj [of "16 + 2 * q + 1" "16 + 2 * pin + 1"]
      inj [of "16 + 2 * q + 1" "16 + 2 * pin"] inj [of "16 + 2 * q" "16 + 2 * pin + 1"]
    by (simp_all del: of_nat_add of_nat_mult)
  have dq: "0x10 + 2 * of_nat q = ?r \<longleftrightarrow> q = pin" "0x10 + 2 * of_nat q \<noteq> (of_nat (16 + 2 * pin + 1) :: u32)"
    by (simp_all only: g(1) d not_False_eq_True)
  have dq1: "0x10 + 2 * of_nat q + 1 = (of_nat (16 + 2 * pin + 1) :: u32) \<longleftrightarrow> q = pin" "0x10 + 2 * of_nat q + 1 \<noteq> ?r"
    by (simp_all only: g(2) d not_False_eq_True)
  have "redirection ?b (io s2) q = (if q = pin then (Some (ucast v), Some 0) else redirection ?b (io s) q)"
    unfolding redirection_def Let_def s2(4) s1(4) pr(2,3) fun_upd_apply using dq dq1 by (simp only: if_False if_True) simp
  then show ?thesis using e s1(3) s2(2,3) by simp
qed

text \<open>
  C35: \<open>ioapic_enable\<close> routes the pin to the vector, unmasked, and leaves the redirection entry of
  every other pin as it was.
\<close>

theorem ioapic_enable_routes:
  assumes "mapped (ioapic_addr s)" and "mapped (ioapic_addr s + 16)" and "pin < 24" and "q < 24"
  shows "\<exists>s'. ioapic_enable v (of_nat pin) s = Inr s' \<and> mem s' = mem s
    \<and> redirection (ioapic_addr s) (io s') q = (if q = pin then (Some (ucast v), Some 0) else redirection (ioapic_addr s) (io s) q)"
  using ioapic_enable_redirects [OF assms] by blast

definition apic_state :: acpi_sys where
  "apic_state = tty.extend fresh_tty \<lparr>acpi_rsdp = 0, acpi_rsdt = 0, acpi_madt = 0, apic_addr = 0xbee00000,
     ioapic_addr = 0xbec00000, hpet_addr = 0, lit_rsd_ptr = 0, lit_apic = 0, lit_hpet = 0\<rparr>"

theorem ioapic_enable_routes_witness:
  "\<exists>s'. ioapic_enable 32 (of_nat 2) apic_state = Inr s' \<and> redirection 0xbec00000 (io s') 2 = (Some 32, Some 0)"
proof -
  have "ioapic_addr apic_state = 0xbec00000" by (simp add: apic_state_def tty.extend_def)
  then show ?thesis using ioapic_enable_routes [of apic_state 2 2 32] by (auto simp: mapped_def)
qed

end
