(* ===== verification/Mm_Mmap.thy ===== *)
theory Mm_Mmap
  imports Mm_Slab_Alloc
begin

text \<open>
  The paging part of \<open>mm/mmap.c\<close> and the bit-field structs of \<open>include/cpu.h\<close> it fills in. A struct
  of bit-fields is one 32-bit word; assigning a field is \<open>put_field\<close>, reading it \<open>get_field\<close>.
  \<open>translate\<close> is the processor's page walk, the meaning of the tables. The functions return no
  value on success, \<open>None\<close> in the model.
\<close>

section \<open>Bit-fields\<close>

definition get_field :: "nat \<Rightarrow> nat \<Rightarrow> u32 \<Rightarrow> u32" where
  "get_field lo w e = take_bit w (drop_bit lo e)"

definition put_field :: "nat \<Rightarrow> nat \<Rightarrow> u32 \<Rightarrow> u32 \<Rightarrow> u32" where
  "put_field lo w v e = (e AND NOT (push_bit lo (mask w))) OR push_bit lo (take_bit w v)"

text \<open>A sequence of assignments to fields: position, width, value.\<close>

primrec put_fields :: "(nat \<times> nat \<times> u32) list \<Rightarrow> u32 \<Rightarrow> u32" where
  "put_fields [] e = e"
| "put_fields (f # fs) e = (case f of (lo, w, v) \<Rightarrow> put_fields fs (put_field lo w v e))"

abbreviation (input) pg_present :: "u32 \<Rightarrow> u32" where "pg_present e \<equiv> get_field 0 1 e"
abbreviation (input) pg_pse :: "u32 \<Rightarrow> u32" where "pg_pse e \<equiv> get_field 7 1 e"
abbreviation (input) pde_addr :: "u32 \<Rightarrow> u32" where "pde_addr e \<equiv> get_field 12 20 e"
abbreviation (input) pte_addr :: "u32 \<Rightarrow> u32" where "pte_addr e \<equiv> get_field 12 20 e"
abbreviation (input) huge_addr :: "u32 \<Rightarrow> u32" where "huge_addr e \<equiv> get_field 22 10 e"
abbreviation (input) KERNEL_BASE :: u32 where "KERNEL_BASE \<equiv> 0xc0000000"

section \<open>Operations\<close>

definition map_page ::
  "addr \<Rightarrow> addr \<Rightarrow> addr \<Rightarrow> u8 \<Rightarrow> u8 \<Rightarrow> 'a buddy_scheme \<Rightarrow> (u32 option \<times> 'a buddy_scheme) result" where
  "map_page pdbr phy virt perm rw s =
     (let pde_index = drop_bit 22 virt;
          pte_index = drop_bit 12 virt AND 0xfff;
          pde = pdbr + 4 * pde_index in
      deref pde
       (if pg_pse (load32 (mem s) pde) = 1 then Inr (Some (- 1), s)
        else
          bindE
           (if pg_present (load32 (mem s) pde) = 0 then
              let (pte_base, s) = palloc ZONE_KERNEL PAGE_SIZE s in deref pte_base
               (let m = memset (mem s) pte_base 0 PAGE_SIZE;
                    e = put_fields [(0, 1, 1), (1, 1, 1), (2, 1, 1), (3, 1, 0), (4, 1, 0), (5, 1, 0), (6, 1, 0),
                          (7, 1, 0), (8, 4, 0), (12, 20, drop_bit 12 (pte_base - KERNEL_BASE))] (load32 m pde)
                in Inr (pte_base, s\<lparr>mem := store32 m pde e\<rparr>))
            else Inr (push_bit 12 (pde_addr (load32 (mem s) pde)), s))
           (\<lambda>(pte_base, s). let pte = pte_base + 4 * pte_index in
             deref pte
              (if pg_present (load32 (mem s) pte) = 1 then Inr (Some (- 1), s)
               else
                 let e = put_fields [(0, 1, 1), (1, 1, ucast rw), (2, 1, ucast perm), (3, 1, 0), (4, 1, 0), (5, 1, 0),
                       (6, 1, 0), (7, 1, 0), (8, 1, 0), (9, 3, 0), (12, 20, drop_bit 12 phy)] (load32 (mem s) pte)
                 in Inr (None, flush_cr3 (s\<lparr>mem := store32 (mem s) pte e\<rparr>))))))"

definition map_huge_page ::
  "addr \<Rightarrow> addr \<Rightarrow> addr \<Rightarrow> u8 \<Rightarrow> u8 \<Rightarrow> 'a machine_scheme \<Rightarrow> (u32 option \<times> 'a machine_scheme) result" where
  "map_huge_page pdbr phy virt perm rw s =
     (let pde = pdbr + 4 * drop_bit 22 virt in
      deref pde
       (if pg_present (load32 (mem s) pde) = 1 then Inr (Some (- 1), s)
        else
          let e = put_fields [(0, 1, 1), (1, 1, ucast rw), (2, 1, ucast perm), (3, 1, 0), (4, 1, 0), (5, 1, 0),
                (6, 1, 0), (7, 1, 1), (9, 3, 0), (12, 10, 0), (22, 10, drop_bit 22 phy)] (load32 (mem s) pde)
          in Inr (None, flush_cr3 (s\<lparr>mem := store32 (mem s) pde e\<rparr>))))"

text \<open>The loop of \<open>unmap_page\<close>: is any of \<open>n\<close> entries present?\<close>

primrec any_present :: "nat \<Rightarrow> addr \<Rightarrow> memory \<Rightarrow> bool" where
  "any_present 0 p m \<longleftrightarrow> False"
| "any_present (Suc n) p m \<longleftrightarrow> pg_present (load32 m p) = 1 \<or> any_present n (p + 4) m"

definition unmap_page :: "addr \<Rightarrow> addr \<Rightarrow> 'a buddy_scheme \<Rightarrow> 'a buddy_scheme result" where
  "unmap_page pdbr virt s =
     (let pde_index = drop_bit 22 virt;
          pte_index = drop_bit 12 virt AND 0xfff;
          pde = pdbr + 4 * pde_index in
      deref pde
       (if pg_pse (load32 (mem s) pde) = 1 then
          Inr (s\<lparr>mem := store32 (mem s) pde (put_field 0 1 0 (load32 (mem s) pde))\<rparr>)
        else
          let pte_base = push_bit 12 (pde_addr (load32 (mem s) pde)) + KERNEL_BASE;
              pte = pte_base + 4 * pte_index in
          deref pte (deref pte_base
           (let s = s\<lparr>mem := store32 (mem s) pte (put_field 0 1 0 (load32 (mem s) pte))\<rparr> in
            if any_present 1024 pte_base (mem s) then Inr s
            else
              let s = pfree pte_base 1 ZONE_KERNEL s
              in Inr (s\<lparr>mem := store32 (mem s) pde (put_field 0 1 0 (load32 (mem s) pde))\<rparr>)))))"

section \<open>The page walk\<close>

definition translate :: "memory \<Rightarrow> addr \<Rightarrow> addr \<Rightarrow> addr option" where
  "translate m pdbr virt =
     (let pde = load32 m (pdbr + 4 * drop_bit 22 virt) in
      if pg_present pde = 0 then None
      else if pg_pse pde = 1 then Some (push_bit 22 (huge_addr pde) OR take_bit 22 virt)
      else
        let pte = load32 m (push_bit 12 (pde_addr pde) + KERNEL_BASE + 4 * take_bit 10 (drop_bit 12 virt)) in
        if pg_present pte = 0 then None
        else Some (push_bit 12 (pte_addr pte) OR take_bit 12 virt))"

section \<open>Fields\<close>

lemma bit_put_field:
  "n < 32 \<Longrightarrow> bit (put_field lo w v e) n \<longleftrightarrow> (if lo \<le> n \<and> n < lo + w then bit v (n - lo) else bit e n)"
  by (auto simp: put_field_def bit_simps)

lemma get_put_same: "lo + w \<le> 32 \<Longrightarrow> get_field lo w (put_field lo w v e) = take_bit w v"
  unfolding get_field_def
  by (rule bit_word_eqI) (auto simp: bit_simps bit_put_field dest: bit_imp_le_length)

lemma get_put_other:
  "lo + w \<le> 32 \<Longrightarrow> lo + w \<le> lo' \<or> lo' + w' \<le> lo \<Longrightarrow> get_field lo w (put_field lo' w' v e) = get_field lo w e"
  unfolding get_field_def
  by (rule bit_word_eqI) (auto simp: bit_simps bit_put_field dest: bit_imp_le_length)

lemmas field_simps_put = get_put_same get_put_other

lemma get_field_1: "get_field lo 1 e = 0 \<or> get_field lo 1 e = 1"
  unfolding get_field_def by (cases "bit e lo") (auto simp: take_bit_Suc odd_iff_mod_2_eq_one bit_iff_odd drop_bit_eq_div)

section \<open>Entries of the directory\<close>

lemma unat_drop22: "unat (drop_bit 22 (v :: addr)) < 1024"
  using unat_lt [of v] by (simp add: drop_bit_eq_div unat_div less_mult_imp_div_less del: unat_lt)

lemma unat_mult4: "unat (i :: addr) < 0x10000000 \<Longrightarrow> unat (4 * i) = 4 * unat i"
  by (simp add: unat_word_ariths)

lemma unat_entry:
  assumes "page_aligned p"
  shows "unat (p + 4 * drop_bit 22 (v :: addr)) = unat p + 4 * unat (drop_bit 22 v)"
    and "unat (p + 4 * drop_bit 22 v) + 4 \<le> unat p + 4096"
proof -
  have "unat (drop_bit 22 v) < 1024" by (rule unat_drop22)
  moreover from this have "unat (4 * drop_bit 22 v) = 4 * unat (drop_bit 22 v)" by (intro unat_mult4) simp
  ultimately show "unat (p + 4 * drop_bit 22 v) = unat p + 4 * unat (drop_bit 22 v)"
    "unat (p + 4 * drop_bit 22 v) + 4 \<le> unat p + 4096"
    using page_aligned_bound [OF assms] by (simp_all add: unat_add_word)
qed

lemma entry_mapped: "page_aligned p \<Longrightarrow> mapped p \<Longrightarrow> mapped (p + 4 * drop_bit 22 (v :: addr))"
  using unat_entry(1) [of p v] by (simp add: mapped_def word_le_nat_alt)

lemma take_bit_field [simp]:
  "take_bit 10 (drop_bit 22 (x :: addr)) = drop_bit 22 x" "take_bit 20 (drop_bit 12 x) = drop_bit 12 x"
  by (rule bit_word_eqI; auto simp: bit_simps dest: bit_imp_le_length)+

text \<open>The entry that \<open>map_huge_page\<close> writes, whatever the entry held before.\<close>

definition huge_entry :: "addr \<Rightarrow> u8 \<Rightarrow> u8 \<Rightarrow> u32 \<Rightarrow> u32" where
  "huge_entry phy perm rw e = put_fields [(0, 1, 1), (1, 1, ucast rw), (2, 1, ucast perm), (3, 1, 0), (4, 1, 0), (5, 1, 0),
     (6, 1, 0), (7, 1, 1), (9, 3, 0), (12, 10, 0), (22, 10, drop_bit 22 phy)] e"

lemma huge_entry_fields:
  "pg_present (huge_entry phy perm rw e) = 1" "pg_pse (huge_entry phy perm rw e) = 1"
  "huge_addr (huge_entry phy perm rw e) = drop_bit 22 phy"
  by (simp_all add: huge_entry_def field_simps_put)

lemma map_huge_page_eq:
  assumes "page_aligned pdbr" and "mapped pdbr" and "pg_present (load32 (mem s) (pdbr + 4 * drop_bit 22 virt)) = 0"
  shows "map_huge_page pdbr phy virt perm rw s = Inr (None, flush_cr3 (s\<lparr>mem := store32 (mem s) (pdbr + 4 * drop_bit 22 virt)
    (huge_entry phy perm rw (load32 (mem s) (pdbr + 4 * drop_bit 22 virt)))\<rparr>))"
  using assms entry_mapped [OF assms(1,2), of virt] by (simp add: map_huge_page_def huge_entry_def Let_def)

lemma translate_huge_entry:
  assumes "load32 m (pdbr + 4 * drop_bit 22 a) = huge_entry phy perm rw e"
  shows "translate m pdbr a = Some (push_bit 22 (drop_bit 22 phy) OR take_bit 22 a)"
  using assms by (simp add: translate_def Let_def huge_entry_fields huge_entry_fields [unfolded One_nat_def])

text \<open>
  C26: \<open>map_huge_page\<close> on a directory entry that is not present makes the page walk translate every
  address of that 4 MB region into the given physical region, and writes only that entry; on a
  present entry it returns -1 and changes nothing.
\<close>

theorem map_huge_page_maps:
  assumes "page_aligned pdbr" and "mapped pdbr"
  shows "if pg_present (load32 (mem s) (pdbr + 4 * drop_bit 22 virt)) = 0
    then \<exists>s'. map_huge_page pdbr phy virt perm rw s = Inr (None, s')
      \<and> (\<forall>a. drop_bit 22 a = drop_bit 22 virt \<longrightarrow> translate (mem s') pdbr a = Some (push_bit 22 (drop_bit 22 phy) OR take_bit 22 a))
      \<and> same_off (block (pdbr + 4 * drop_bit 22 virt) 4) (mem s) (mem s')
    else map_huge_page pdbr phy virt perm rw s = Inr (Some (- 1), s)"
proof (cases "pg_present (load32 (mem s) (pdbr + 4 * drop_bit 22 virt)) = 0")
  case True
  let ?pde = "pdbr + 4 * drop_bit 22 virt"
  let ?m = "store32 (mem s) ?pde (huge_entry phy perm rw (load32 (mem s) ?pde))"
  have "\<forall>a. drop_bit 22 a = drop_bit 22 virt \<longrightarrow> translate ?m pdbr a = Some (push_bit 22 (drop_bit 22 phy) OR take_bit 22 a)"
    using translate_huge_entry [of ?m pdbr _ phy perm rw "load32 (mem s) ?pde"] by simp
  moreover have "same_off (block ?pde 4) (mem s) ?m"
    using unat_entry(2) [OF assms(1), of virt] page_aligned_bound [OF assms(1)] by (intro store32_same_off) linarith
  ultimately show ?thesis using True map_huge_page_eq [OF assms True, of phy perm rw] by simp
next
  case False
  then have "pg_present (load32 (mem s) (pdbr + 4 * drop_bit 22 virt)) = 1" using get_field_1 by blast
  then show ?thesis using entry_mapped [OF assms, of virt] False by (simp add: map_huge_page_def)
qed

theorem map_huge_page_maps_witness:
  "\<exists>s'. map_huge_page 0xc0000000 0xfee00000 0xbee00000 0 1 \<lparr>mem = (\<lambda>_. 0), io = []\<rparr> = Inr (None, s')
    \<and> translate (mem s') 0xc0000000 0xbee00020 = Some 0xfee00020"
proof -
  have a: "page_aligned 0xc0000000" "mapped 0xc0000000" by (simp_all add: page_aligned_def mapped_def)
  have z: "load32 (\<lambda>_. 0) p = 0" for p by (simp add: load32_def)
  have d: "drop_bit 22 (0xbee00020 :: addr) = drop_bit 22 0xbee00000" by simp
  have "push_bit 22 (drop_bit 22 (0xfee00000 :: addr)) OR take_bit 22 0xbee00020 = 0xfee00020" by simp
  then show ?thesis
    using map_huge_page_maps [OF a, of "\<lparr>mem = (\<lambda>_. 0), io = []\<rparr>" "0xbee00000" "0xfee00000" 0 1] d
    by (auto simp: z get_field_def)
qed

section \<open>Small pages\<close>

text \<open>A directory entry that points to a page table, and the table entry \<open>map_page\<close> writes.\<close>

definition table_entry :: "addr \<Rightarrow> u32" where
  "table_entry P = put_fields [(0, 1, 1), (1, 1, 1), (2, 1, 1), (3, 1, 0), (4, 1, 0), (5, 1, 0), (6, 1, 0),
     (7, 1, 0), (8, 4, 0), (12, 20, drop_bit 12 (P - KERNEL_BASE))] 0"

definition page_entry :: "addr \<Rightarrow> u8 \<Rightarrow> u8 \<Rightarrow> u32" where
  "page_entry phy perm rw = put_fields [(0, 1, 1), (1, 1, ucast rw), (2, 1, ucast perm), (3, 1, 0), (4, 1, 0), (5, 1, 0),
     (6, 1, 0), (7, 1, 0), (8, 1, 0), (9, 3, 0), (12, 20, drop_bit 12 phy)] 0"

lemma put_field_old:
  assumes "\<And>n. n < 32 \<Longrightarrow> \<not> (lo \<le> n \<and> n < lo + w) \<Longrightarrow> bit e n = bit e' n"
  shows "put_field lo w v e = put_field lo w v e'"
  by (rule bit_word_eqI) (use assms in \<open>auto simp: bit_put_field\<close>)

text \<open>Every bit of the entry is assigned, so the old value does not matter.\<close>

lemma bit_put_fields:
  "n < 32 \<Longrightarrow> (\<exists>f \<in> set fs. fst f \<le> n \<and> n < fst f + fst (snd f)) \<or> bit e n = bit e' n \<Longrightarrow>
     bit (put_fields fs e) n = bit (put_fields fs e') n"
proof (induction fs arbitrary: e e')
  case (Cons f fs)
  obtain lo w v where f: "f = (lo, w, v)" by (cases f)
  show ?case
    unfolding f put_fields.simps prod.case
    by (rule Cons.IH) (use Cons.prems in \<open>auto simp: f bit_put_field\<close>)
qed simp

lemma full_entry:
  assumes "\<And>n. n < 32 \<Longrightarrow> \<exists>f \<in> set fs. fst f \<le> n \<and> n < fst f + fst (snd f)"
  shows "put_fields fs e = put_fields fs 0"
  by (rule bit_word_eqI) (use assms in \<open>auto intro!: bit_put_fields\<close>)

lemma table_entry_eq:
  "put_fields [(0, 1, 1), (1, 1, 1), (2, 1, 1), (3, 1, 0), (4, 1, 0), (5, 1, 0), (6, 1, 0),
     (7, 1, 0), (8, 4, 0), (12, 20, drop_bit 12 (P - KERNEL_BASE))] e = table_entry P"
  and page_entry_eq:
  "put_fields [(0, 1, 1), (1, 1, ucast rw), (2, 1, ucast perm), (3, 1, 0), (4, 1, 0), (5, 1, 0),
     (6, 1, 0), (7, 1, 0), (8, 1, 0), (9, 3, 0), (12, 20, drop_bit 12 phy)] e = page_entry phy perm rw"
  unfolding table_entry_def page_entry_def by (rule full_entry; simp; presburger)+

lemma table_entry_fields:
  "pg_present (table_entry P) = 1" "pg_pse (table_entry P) = 0" "pde_addr (table_entry P) = drop_bit 12 (P - KERNEL_BASE)"
  "pg_present (page_entry phy perm rw) = 1" "pte_addr (page_entry phy perm rw) = drop_bit 12 phy"
  by (simp_all add: table_entry_def page_entry_def field_simps_put)

lemma table_address:
  assumes "page_aligned P"
  shows "push_bit 12 (drop_bit 12 (P - KERNEL_BASE)) + KERNEL_BASE = P"
proof -
  have "page_aligned (P - KERNEL_BASE)"
  proof -
    have "4096 dvd unat (P - 0xc0000000)"
      using assms by (auto simp: page_aligned_def unat_sub_if' intro: dvd_diff_nat)
    then show ?thesis by (simp add: page_aligned_def)
  qed
  then have "take_bit 12 (P - KERNEL_BASE + of_nat 0) = of_nat 0" by (intro page_take_bit) simp_all
  then have "push_bit 12 (drop_bit 12 (P - KERNEL_BASE)) = P - KERNEL_BASE"
    using bits_ident [of 12 "P - KERNEL_BASE"] by simp
  then show ?thesis by simp
qed

lemma memset_page_zero:
  assumes "page_aligned P" and "unat o' + 4 \<le> 4096"
  shows "load32 (memset m P 0 PAGE_SIZE) (P + o') = 0"
proof -
  have "memset m P 0 PAGE_SIZE (P + o' + i) = 0" if "unat i < 4" for i
  proof -
    have "unat (o' + i) < 4096" using assms(2) that by (simp add: unat_add_word)
    then have "P + (o' + i) \<in> block P 4096" using page_aligned_bound [OF assms(1)] by (intro block_add_word)
    then show ?thesis using page_aligned_bound [OF assms(1)] by (simp add: memset_spec add.assoc)
  qed
  from this [of 0] this [of 1] this [of 2] this [of 3] show ?thesis by (simp add: load32_def)
qed

text \<open>
  A region of 4 MB with no page table yet: its directory entry is absent, and the kernel zone has
  its first \<open>k\<close> pages in use and a further one for the table, which lies behind the directory.
\<close>

definition fresh_region :: "addr \<Rightarrow> addr \<Rightarrow> nat \<Rightarrow> 'a buddy_scheme \<Rightarrow> bool" where
  "fresh_region pdbr virt k s \<longleftrightarrow> page_aligned pdbr \<and> mapped pdbr \<and> 0 < k \<and> k < unat (kernel_mem_pages s)
     \<and> used_prefix (mem s) (memmap_kernel s) (unat (kernel_mem_pages s)) k \<and> unat (kernel_mem_pages s) + 4 \<le> 0x40000
     \<and> unat pdbr + 4096 \<le> 0xc0000000 + 4096 * (k - 1)
     \<and> load32 (mem s) (pdbr + 4 * drop_bit 22 virt) = 0"

lemma map_page_fresh:
  assumes "fresh_region pdbr virt k s"
  shows "\<exists>m s1. mem s1 = store32 (memset m (kernel_page (k - 1)) 0 PAGE_SIZE) (pdbr + 4 * drop_bit 22 virt) (table_entry (kernel_page (k - 1)))
    \<and> used_prefix m (memmap_kernel s) (unat (kernel_mem_pages s)) (Suc k)
    \<and> same_off (block (memmap_kernel s) (unat (kernel_mem_pages s))) (mem s) m
    \<and> map_page pdbr phy virt perm rw s = (let pte = kernel_page (k - 1) + 4 * (drop_bit 12 virt AND 0xfff) in
        deref pte (if pg_present (load32 (mem s1) pte) = 1 then Inr (Some (- 1), s1)
          else Inr (None, flush_cr3 (s1\<lparr>mem := store32 (mem s1) pte (page_entry phy perm rw)\<rparr>))))"
proof -
  let ?P = "kernel_page (k - 1)" and ?pde = "pdbr + 4 * drop_bit 22 virt"
  have f: "page_aligned pdbr" "mapped pdbr" "0 < k" "k < unat (kernel_mem_pages s)" "unat (kernel_mem_pages s) \<le> 0x40000"
    "used_prefix (mem s) (memmap_kernel s) (unat (kernel_mem_pages s)) k" "load32 (mem s) ?pde = 0"
    using assms by (simp_all add: fresh_region_def)
  obtain m where pa: "palloc ZONE_KERNEL PAGE_SIZE s = (?P, s\<lparr>mem := m\<rparr>)"
    and m: "used_prefix m (memmap_kernel s) (unat (kernel_mem_pages s)) (Suc k)"
      "same_off (block (memmap_kernel s) (unat (kernel_mem_pages s))) (mem s) m"
    using palloc_page [OF f(6,3,4,5)] by blast
  have mp: "mapped ?P" using f by (simp add: mapped_def word_le_nat_alt unat_kernel_page)
  have z: "get_field lo w 0 = 0" for lo w by (simp add: get_field_def)
  show ?thesis
    by (rule exI [of _ m], rule exI [of _ "s\<lparr>mem := store32 (memset m ?P 0 PAGE_SIZE) ?pde (table_entry ?P)\<rparr>"])
      (use entry_mapped [OF f(1,2), of virt] f(7) mp pa m in
        \<open>simp add: map_page_def z table_entry_eq [unfolded One_nat_def] page_entry_eq [unfolded One_nat_def] Let_def del: put_fields.simps\<close>)
qed

text \<open>The index the code computes keeps two bits too many.\<close>

lemma pte_index:
  "unat (drop_bit 12 virt AND 0xfff :: addr) = unat (take_bit 10 (drop_bit 12 virt)) + 1024 * unat (take_bit 2 (drop_bit 22 virt))"
  "unat (take_bit 10 (drop_bit 12 virt)) < 1024" "unat (take_bit 2 (drop_bit 22 (virt :: addr))) < 4"
proof -
  have m: "(0xfff :: addr) = mask 12" by (simp add: mask_eq_exp_minus_1)
  have d: "drop_bit 22 virt = drop_bit 10 (drop_bit 12 virt)" by simp
  define x where "x = unat (drop_bit 12 virt)"
  have "unat (drop_bit 12 virt AND 0xfff) = x mod 4096"
    unfolding m take_bit_eq_mask [symmetric] by (simp add: x_def unsigned_take_bit_eq) (simp add: take_bit_eq_mod)
  moreover have "unat (take_bit 10 (drop_bit 12 virt)) = x mod 1024"
    by (simp add: x_def unsigned_take_bit_eq) (simp add: take_bit_eq_mod)
  moreover have "unat (take_bit 2 (drop_bit 22 virt)) = x div 1024 mod 4"
    unfolding d by (simp add: x_def unsigned_take_bit_eq unsigned_drop_bit_eq) (simp add: take_bit_eq_mod drop_bit_eq_div flip: div_mult2_eq)
  moreover have "x mod 4096 = x mod 1024 + 1024 * (x div 1024 mod 4)" using mod_mult2_eq [of x 1024 4] by simp
  ultimately show "unat (drop_bit 12 virt AND 0xfff) = unat (take_bit 10 (drop_bit 12 virt)) + 1024 * unat (take_bit 2 (drop_bit 22 virt))"
    "unat (take_bit 10 (drop_bit 12 virt)) < 1024" "unat (take_bit 2 (drop_bit 22 virt)) < 4" by simp_all
qed

lemma translate_table:
  assumes "load32 m (pdbr + 4 * drop_bit 22 virt) = table_entry P" and "page_aligned P"
  shows "translate m pdbr virt = (let pte = load32 m (P + 4 * take_bit 10 (drop_bit 12 virt)) in
    if pg_present pte = 0 then None else Some (push_bit 12 (pte_addr pte) OR take_bit 12 virt))"
  using assms table_address [OF assms(2)]
  by (simp add: translate_def Let_def table_entry_fields table_entry_fields [unfolded One_nat_def])

lemma unat_index: "unat (i :: addr) < 4096 \<Longrightarrow> unat P + 4 * 4096 \<le> 2 ^ 32 \<Longrightarrow> unat (P + 4 * i) = unat P + 4 * unat i"
  by (simp add: unat_add_word unat_mult4)

text \<open>
  C27: in a 4 MB region without a page table whose directory index is a multiple of four, \<open>map_page\<close>
  takes the next free kernel page for the table and marks it as used in the page map, clears it,
  enters it into the directory and makes the page walk translate the virtual page to the physical
  page; it writes nothing but the page map, that page and the one directory entry. The page map
  may overlap neither the directory nor the page. For the other directory indexes
  \<open>map_page_index_overflow\<close> below shows that the page stays unmapped.
\<close>

theorem map_page_first_maps:
  assumes "fresh_region pdbr virt k s" and "take_bit 2 (drop_bit 22 virt) = 0"
    and "sep (memmap_kernel s) (unat (kernel_mem_pages s)) (kernel_page (k - 1)) 4096"
    and "sep (memmap_kernel s) (unat (kernel_mem_pages s)) pdbr 4096"
  shows "\<exists>s'. map_page pdbr phy virt perm rw s = Inr (None, s')
    \<and> translate (mem s') pdbr virt = Some (push_bit 12 (drop_bit 12 phy) OR take_bit 12 virt)
    \<and> used_prefix (mem s') (memmap_kernel s) (unat (kernel_mem_pages s)) (Suc k)
    \<and> same_off (block (memmap_kernel s) (unat (kernel_mem_pages s)) \<union> block (kernel_page (k - 1)) 4096
        \<union> block (pdbr + 4 * drop_bit 22 virt) 4) (mem s) (mem s')"
proof -
  let ?P = "kernel_page (k - 1)" and ?pde = "pdbr + 4 * drop_bit 22 virt" and ?i = "take_bit 10 (drop_bit 12 virt)"
    and ?M = "block (memmap_kernel s) (unat (kernel_mem_pages s))"
  have k: "0 < k" "k < 0x3fffc" "page_aligned pdbr" "unat pdbr + 4096 \<le> 0xc0000000 + 4096 * (k - 1)"
    using assms(1) by (simp_all add: fresh_region_def)
  have uP: "unat ?P = 0xc0000000 + (k - 1) * 4096" and aP: "page_aligned ?P"
    using k by (simp_all add: unat_kernel_page kernel_page_aligned)
  have lim: "unat ?P + 16384 \<le> 4294967296" using uP k by simp
  have i: "drop_bit 12 virt AND 0xfff = ?i" "unat ?i < 1024"
    using pte_index [of virt] assms(2) by (simp_all add: word_unat_eq_iff)
  have ut: "unat (?P + 4 * ?i) = unat ?P + 4 * unat ?i" using i k uP by (intro unat_index) simp_all
  obtain m s1 where m: "mem s1 = store32 (memset m ?P 0 PAGE_SIZE) ?pde (table_entry ?P)"
    and pm: "used_prefix m (memmap_kernel s) (unat (kernel_mem_pages s)) (Suc k)" "same_off ?M (mem s) m"
    and e: "map_page pdbr phy virt perm rw s = (let pte = ?P + 4 * ?i in
        deref pte (if pg_present (load32 (mem s1) pte) = 1 then Inr (Some (- 1), s1)
          else Inr (None, flush_cr3 (s1\<lparr>mem := store32 (mem s1) pte (page_entry phy perm rw)\<rparr>))))"
    using map_page_fresh [OF assms(1)] unfolding i by blast
  note ue = unat_entry(2) [OF k(3), of virt]
  have ap: "apart ?pde (?P + 4 * ?i)" using ue k(4) uP ut i(2) lim by (intro apart_nat) simp_all
  have z: "load32 (mem s1) (?P + 4 * ?i) = 0"
    unfolding m using ap aP i(2) by (simp add: load32_store32_apart memset_page_zero unat_mult4)
  have mp: "mapped (?P + 4 * ?i)" using ut uP by (simp add: mapped_def word_le_nat_alt)
  let ?m = "store32 (mem s1) (?P + 4 * ?i) (page_entry phy perm rw)"
  have "load32 ?m ?pde = table_entry ?P" using apart_sym [OF ap] by (simp add: load32_store32_apart m)
  then have tr: "translate ?m pdbr virt = Some (push_bit 12 (drop_bit 12 phy) OR take_bit 12 virt)"
    using aP by (simp add: translate_table Let_def table_entry_fields table_entry_fields [unfolded One_nat_def])
  have "same_off (block ?P 4096 \<union> block ?pde 4) m (memset m ?P 0 PAGE_SIZE)"
    using lim by (simp add: same_off_def memset_spec)
  then have off: "same_off (block ?P 4096 \<union> block ?pde 4) m ?m"
    unfolding m using ue k(4) uP ut i(2) lim by (intro same_off_store32) (auto simp: mem_block_iff)
  have "(block ?P 4096 \<union> block ?pde 4) \<inter> ?M = {}"
    using sep_block [OF assms(3)] sep_block [OF assms(4)] block_mono [of pdbr ?pde 4 4096] ue unat_entry(1) [OF k(3), of virt] by auto
  then have "used_prefix ?m (memmap_kernel s) (unat (kernel_mem_pages s)) (Suc k)"
    by (rule used_prefix_same_on [OF same_off_on [OF off] pm(1)])
  moreover have "same_off (?M \<union> block ?P 4096 \<union> block ?pde 4) (mem s) ?m"
    by (rule same_off_trans [OF same_off_mono [OF pm(2)] same_off_mono [OF off]]) auto
  ultimately show ?thesis using e z mp tr by (simp add: get_field_def)
qed

text \<open>Eight kernel pages, two of them in use, and an empty directory at 0xc0000000.\<close>

definition mmap_buddy :: buddy where
  "mmap_buddy = tiny_buddy\<lparr>mem := (\<lambda>x. if x < 0xc0100000 then 0 else tiny_map x)\<rparr>"

lemma mmap_buddy_fresh:
  "fresh_region 0xc0000000 0x40000000 2 mmap_buddy" "fresh_region 0xc0000000 0x40400000 2 mmap_buddy"
proof -
  have "unat (0xc0100000 + of_nat i :: addr) = 0xc0100000 + i" if "i < 8" for i
    using that unat_add_of_nat [of "0xc0100000" i] by simp
  then have "used_prefix (mem mmap_buddy) 0xc0100000 8 2"
    by (auto simp: used_prefix_def mmap_buddy_def tiny_map_def word_less_nat_alt)
  then show "fresh_region 0xc0000000 0x40000000 2 mmap_buddy" "fresh_region 0xc0000000 0x40400000 2 mmap_buddy"
    by (simp_all add: fresh_region_def page_aligned_def mapped_def mmap_buddy_def tiny_buddy_def load32_def)
qed

theorem map_page_first_maps_witness:
  "\<exists>s'. map_page 0xc0000000 0x123000 0x40000000 0 1 mmap_buddy = Inr (None, s')
    \<and> translate (mem s') 0xc0000000 0x40000000 = Some 0x123000 \<and> used_prefix (mem s') 0xc0100000 8 3"
proof -
  have m: "memmap_kernel mmap_buddy = 0xc0100000" "unat (kernel_mem_pages mmap_buddy) = 8"
    by (simp_all add: mmap_buddy_def tiny_buddy_def)
  show ?thesis
    using map_page_first_maps [OF mmap_buddy_fresh(1), of "0x123000" 0 1] unfolding m by (auto simp: sep_def kernel_page_def)
qed

text \<open>
  When the directory index is not a multiple of four, \<open>map_page\<close> puts the table entry one to
  three pages behind the table it allocated (the index is masked with 0xfff, not 0x3ff): the
  virtual page stays unmapped whatever the function returns.
\<close>

theorem map_page_index_overflow:
  assumes "fresh_region pdbr virt k s" and "take_bit 2 (drop_bit 22 virt) \<noteq> 0"
  shows "\<exists>r s'. map_page pdbr phy virt perm rw s = Inr (r, s') \<and> translate (mem s') pdbr virt = None"
proof -
  let ?P = "kernel_page (k - 1)" and ?pde = "pdbr + 4 * drop_bit 22 virt" and ?i = "take_bit 10 (drop_bit 12 virt)"
  let ?j = "drop_bit 12 virt AND 0xfff"
  have k: "0 < k" "k < 0x3fffc" "page_aligned pdbr" "unat pdbr + 4096 \<le> 0xc0000000 + 4096 * (k - 1)"
    using assms(1) by (simp_all add: fresh_region_def)
  have uP: "unat ?P = 0xc0000000 + (k - 1) * 4096" and aP: "page_aligned ?P"
    using k by (simp_all add: unat_kernel_page kernel_page_aligned)
  have lim: "unat ?P + 16384 \<le> 4294967296" using uP k by simp
  have "0 < unat (take_bit 2 (drop_bit 22 virt))" using assms(2) by (simp add: unat_gt_0)
  then have j: "1024 \<le> unat ?j" "unat ?j < 4096" and i: "unat ?i < 1024" using pte_index [of virt] by linarith+
  have ui: "unat (?P + 4 * ?i) = unat ?P + 4 * unat ?i" using i k uP by (intro unat_index) simp_all
  have uj: "unat (?P + 4 * ?j) = unat ?P + 4 * unat ?j" using j(2) k uP by (intro unat_index) simp_all
  obtain m s1 where m: "mem s1 = store32 (memset m ?P 0 PAGE_SIZE) ?pde (table_entry ?P)"
    and e: "map_page pdbr phy virt perm rw s = (let pte = ?P + 4 * ?j in
        deref pte (if pg_present (load32 (mem s1) pte) = 1 then Inr (Some (- 1), s1)
          else Inr (None, flush_cr3 (s1\<lparr>mem := store32 (mem s1) pte (page_entry phy perm rw)\<rparr>))))"
    using map_page_fresh [OF assms(1)] by blast
  note b = unat_entry(2) [OF k(3), of virt] k uP
  have ap: "apart ?pde (?P + 4 * ?i)" using b ui i lim by (intro apart_nat) simp_all
  have ap2: "apart ?pde (?P + 4 * ?j)" using b uj j lim by (intro apart_nat) simp_all
  have ap3: "apart (?P + 4 * ?i) (?P + 4 * ?j)" using ui uj i j lim by (intro apart_nat) simp_all
  have z: "load32 (mem s1) (?P + 4 * ?i) = 0" "load32 (mem s1) ?pde = table_entry ?P"
    unfolding m using ap aP i by (simp_all add: load32_store32_apart memset_page_zero unat_mult4)
  have t: "translate m' pdbr virt = None" if "load32 m' (?P + 4 * ?i) = 0" "load32 m' ?pde = table_entry ?P" for m'
    using translate_table [OF that(2) aP] that(1) by (simp add: get_field_def)
  have mp: "mapped (?P + 4 * ?j)" using uj uP by (simp add: mapped_def word_le_nat_alt)
  show ?thesis
    using e mp t [OF z] t [of "store32 (mem s1) (?P + 4 * ?j) (page_entry phy perm rw)"] z ap2 ap3
    by (auto simp: Let_def load32_store32_apart apart_sym)
qed

theorem map_page_index_overflow_witness:
  "\<exists>r s'. map_page 0xc0000000 0x123000 0x40400000 0 1 mmap_buddy = Inr (r, s')
    \<and> translate (mem s') 0xc0000000 0x40400000 = None"
  using map_page_index_overflow [OF mmap_buddy_fresh(2), of "0x123000" 0 1] by simp

text \<open>
  A second \<open>map_page\<close> in a 4 MB region that already has a page table always faults: the
  branch for an existing table uses its physical address, which is not mapped, as a pointer.
\<close>

theorem map_page_second_faults:
  assumes "page_aligned pdbr" and "mapped pdbr" and "load32 (mem s) (pdbr + 4 * drop_bit 22 virt) = e"
    and "pg_present e = 1" and "pg_pse e = 0" and "unat (pde_addr e) < 0x40000"
  shows "\<exists>a. map_page pdbr phy virt perm rw s = Inl (Page_Fault a)"
proof -
  let ?j = "drop_bit 12 virt AND 0xfff" and ?b = "push_bit 12 (pde_addr e)"
  have ub: "unat ?b = 4096 * unat (pde_addr e)"
    using assms(6) by (simp add: push_bit_eq_mult unat_word_ariths mult.commute)
  have j: "unat ?j < 4096" using pte_index [of virt] by linarith
  have "unat (?b + 4 * ?j) = unat ?b + 4 * unat ?j" using j assms(6) ub by (intro unat_index) simp_all
  then have "\<not> mapped (?b + 4 * ?j)" using ub assms(6) j by (simp add: mapped_def word_le_nat_alt)
  then show ?thesis
    using assms(3-5) entry_mapped [OF assms(1,2), of virt] by (simp add: map_page_def Let_def)
qed

theorem map_page_second_faults_witness:
  "\<exists>a. map_page 0xc0000000 0x124000 0x40001000 0 1 (tiny_buddy\<lparr>mem := store32 (mem tiny_buddy) 0xc0000400 (table_entry 0xc0001000)\<rparr>)
    = Inl (Page_Fault a)"
proof -
  have "page_aligned 0xc0000000" "mapped 0xc0000000" by (simp_all add: page_aligned_def mapped_def)
  moreover have "load32 (mem (tiny_buddy\<lparr>mem := store32 (mem tiny_buddy) 0xc0000400 (table_entry 0xc0001000)\<rparr>))
      (0xc0000000 + 4 * drop_bit 22 0x40001000) = table_entry 0xc0001000" by simp
  moreover have "unat (pde_addr (table_entry 0xc0001000)) < 0x40000" by (simp add: table_entry_fields)
  ultimately show ?thesis using map_page_second_faults table_entry_fields(1,2) by blast
qed

section \<open>Removing a mapping\<close>

text \<open>
  \<open>unmap_page\<close> of an address in a mapped 4 MB page makes the whole region absent, and
  \<open>map_huge_page\<close> can then map it again: the pair restores the translation.
\<close>

theorem unmap_huge_page_roundtrip:
  assumes "page_aligned pdbr" and "mapped pdbr" and "pg_present (load32 (mem s) (pdbr + 4 * drop_bit 22 virt)) = 0"
    and "map_huge_page pdbr phy virt perm rw s = Inr (None, s1)"
  shows "\<exists>s2 s3. unmap_page pdbr virt s1 = Inr s2 \<and> translate (mem s2) pdbr virt = None
    \<and> map_huge_page pdbr phy virt perm rw s2 = Inr (None, s3) \<and> translate (mem s3) pdbr virt = translate (mem s1) pdbr virt"
proof -
  let ?pde = "pdbr + 4 * drop_bit 22 virt"
  let ?e = "huge_entry phy perm rw (load32 (mem s) ?pde)"
  have l1: "load32 (mem s1) ?pde = ?e" using assms map_huge_page_eq [OF assms(1-3), of phy perm rw] by auto
  let ?s2 = "s1\<lparr>mem := store32 (mem s1) ?pde (put_field 0 1 0 ?e)\<rparr>"
  have u: "unmap_page pdbr virt s1 = Inr ?s2"
    using entry_mapped [OF assms(1,2), of virt] l1 huge_entry_fields(2) by (simp add: unmap_page_def Let_def)
  have p: "pg_present (load32 (mem ?s2) ?pde) = 0" by (simp add: get_put_same)
  then have "translate (mem ?s2) pdbr virt = None" by (simp add: translate_def)
  moreover obtain s3 where s3: "map_huge_page pdbr phy virt perm rw ?s2 = Inr (None, s3)"
    "load32 (mem s3) ?pde = huge_entry phy perm rw (load32 (mem ?s2) ?pde)"
    using map_huge_page_eq [OF assms(1,2) p, of phy perm rw] by simp
  ultimately show ?thesis
    using u translate_huge_entry [OF l1] translate_huge_entry [OF s3(2)] by auto
qed

theorem unmap_huge_page_roundtrip_witness:
  "\<exists>s1 s2. map_huge_page 0xc0000000 0xc0000000 0x80000000 0 1 tiny_buddy = Inr (None, s1)
    \<and> unmap_page 0xc0000000 0x80000000 s1 = Inr s2 \<and> translate (mem s2) 0xc0000000 0x80000000 = None"
proof -
  have a: "page_aligned 0xc0000000" "mapped 0xc0000000" by (simp_all add: page_aligned_def mapped_def)
  have p: "pg_present (load32 (mem tiny_buddy) (0xc0000000 + 4 * drop_bit 22 0x80000000)) = 0"
    by (simp add: tiny_buddy_def tiny_map_def load32_def get_field_def)
  show ?thesis
    using unmap_huge_page_roundtrip [OF a p map_huge_page_eq [OF a p]] map_huge_page_eq [OF a p] by blast
qed

end
