(* ===== verification/Kernel_Cpu.thy ===== *)
theory Kernel_Cpu
  imports Kernel_Apic Mm_Mmap
begin

text \<open>
  \<open>kernel/cpu.c\<close> and the gate helpers of \<open>include/cpu.h\<close>: feature check, segment and interrupt
  descriptor tables, and \<open>arch_init\<close>, which maps the device memory. The descriptors are packed
  structs in memory; their one-byte bit-fields are assigned with \<open>put8\<close>. What the processor
  answers to \<open>cpuid\<close> (a compiler builtin) is the argument \<open>cpuid\<close>, and the addresses of the
  assembler entry points are the argument \<open>isr\<close>, by exception number, 15 for \<open>reserved\<close>.
\<close>

record cpu_sys = acpi_sys +
  cpu_gdt :: addr
  cpu_gdtr :: addr
  cpu_idt :: addr
  cpu_idtr :: addr

abbreviation (input) INTR_GATE :: u8 where "INTR_GATE \<equiv> 0xe"
abbreviation (input) TRAP_GATE :: u8 where "TRAP_GATE \<equiv> 0xf"

definition put8 :: "nat \<Rightarrow> nat \<Rightarrow> u8 \<Rightarrow> u8 \<Rightarrow> u8" where
  "put8 lo w v e = (e AND NOT (push_bit lo (mask w))) OR push_bit lo (take_bit w v)"

definition get8 :: "nat \<Rightarrow> nat \<Rightarrow> u8 \<Rightarrow> u8" where
  "get8 lo w e = take_bit w (drop_bit lo e)"

section \<open>Descriptor tables\<close>

text \<open>One round of the loop of \<open>setup_gdt\<close>.\<close>

definition fill_segment :: "addr \<Rightarrow> memory \<Rightarrow> memory" where
  "fill_segment p m =
     (let m = store16 m p 0xffff;
          m = store16 m (p + 2) 0;
          m = m(p + 4 := 0);
          m = m(p + 5 := put8 4 1 1 (m (p + 5)));
          m = m(p + 5 := put8 7 1 1 (m (p + 5)));
          m = m(p + 6 := put8 0 4 0xf (m (p + 6)));
          m = m(p + 6 := put8 4 4 0xc (m (p + 6)))
      in m(p + 7 := 0))"

definition set_segment :: "addr \<Rightarrow> u8 \<Rightarrow> u8 \<Rightarrow> memory \<Rightarrow> memory" where
  "set_segment p type dpl m = m(p + 5 := put8 5 2 dpl (put8 0 4 type (m (p + 5))))"

definition setup_gdt :: "'a cpu_sys_scheme \<Rightarrow> 'a cpu_sys_scheme" where
  "setup_gdt s =
     (let gdt = cpu_gdt s;
          m = store16 (mem s) (cpu_gdtr s) (6 * 8);
          m = store32 m (cpu_gdtr s + 2) gdt;
          m = store32 m gdt 0;
          m = store32 m (gdt + 4) 0;
          m = fill_segment (gdt + 8) m;
          m = fill_segment (gdt + 16) m;
          m = fill_segment (gdt + 24) m;
          m = fill_segment (gdt + 32) m;
          m = set_segment (gdt + 8) 0xa 0 m;
          m = set_segment (gdt + 16) 0x2 0 m;
          m = set_segment (gdt + 24) 0xa 3 m;
          m = set_segment (gdt + 32) 0x2 3 m
      in flush_segment (1 * 8) (2 * 8) (lgdt (cpu_gdtr s) (s\<lparr>mem := m\<rparr>)))"

definition setup_idt :: "'a cpu_sys_scheme \<Rightarrow> 'a cpu_sys_scheme" where
  "setup_idt s =
     (let m = store16 (mem s) (cpu_idtr s) (256 * 8);
          m = store32 m (cpu_idtr s + 2) (cpu_idt s)
      in lidt (cpu_idtr s) (s\<lparr>mem := m\<rparr>))"

text \<open>\<open>register_intr\<close> and \<open>register_trap\<close> differ in the gate type only.\<close>

definition register_gate :: "u8 \<Rightarrow> u8 \<Rightarrow> addr \<Rightarrow> u16 \<Rightarrow> u8 \<Rightarrow> 'a cpu_sys_scheme \<Rightarrow> 'a cpu_sys_scheme" where
  "register_gate type num ISR segment dpl s =
     (let p = cpu_idt s + 8 * ucast num;
          m = store16 (mem s) p (ucast (ISR AND 0xffff));
          m = store16 m (p + 2) segment;
          m = m(p + 4 := 0);
          m = m(p + 5 := put8 0 4 type (m (p + 5)));
          m = m(p + 5 := put8 5 2 dpl (m (p + 5)));
          m = m(p + 5 := put8 7 1 1 (m (p + 5)))
      in s\<lparr>mem := store16 m (p + 6) (ucast (drop_bit 16 ISR AND 0xffff))\<rparr>)"

definition register_intr :: "u8 \<Rightarrow> addr \<Rightarrow> u16 \<Rightarrow> u8 \<Rightarrow> 'a cpu_sys_scheme \<Rightarrow> 'a cpu_sys_scheme" where
  "register_intr = register_gate INTR_GATE"

definition register_trap :: "u8 \<Rightarrow> addr \<Rightarrow> u16 \<Rightarrow> u8 \<Rightarrow> 'a cpu_sys_scheme \<Rightarrow> 'a cpu_sys_scheme" where
  "register_trap = register_gate TRAP_GATE"

definition set_int_gate :: "u8 \<Rightarrow> addr \<Rightarrow> 'a cpu_sys_scheme \<Rightarrow> 'a cpu_sys_scheme" where
  "set_int_gate num ISR = register_intr num ISR (1 * 8) 0"

definition set_system_gate :: "u8 \<Rightarrow> addr \<Rightarrow> 'a cpu_sys_scheme \<Rightarrow> 'a cpu_sys_scheme" where
  "set_system_gate num ISR = register_intr num ISR (1 * 8) 3"

definition set_irq_gate :: "u8 \<Rightarrow> addr \<Rightarrow> 'a cpu_sys_scheme \<Rightarrow> 'a cpu_sys_scheme" where
  "set_irq_gate irq ISR = register_intr (irq + 0x20) ISR (1 * 8) 0"

section \<open>Feature check\<close>

definition cpuid_feat_c :: "string list" where
  "cpuid_feat_c = [''sse3'', ''pclmul'', ''dtes64'', ''monitor'', ''ds_cpl'', ''vmx'', ''smx'', ''est'',
     ''tm2'', ''ssse3'', ''cid'', ''sdbg'', ''fma'', ''cx16'', ''xtpr'', ''pdcm'', ''pcid'', ''dca'', ''sse4_1'',
     ''sse4_2'', ''x2apic'', ''movbe'', ''popcnt'', ''tsc'', ''aes'', ''xsave'', ''osxsave'', ''avx'', ''f16c'',
     ''rdrand'', ''hypervisor'']"

definition cpuid_feat_d :: "string list" where
  "cpuid_feat_d = [''fpu'', ''vme'', ''de'', ''*pse'', ''tsc'', ''*msr'', ''*pae'', ''mce'', ''cx8'', ''*apic'',
     ''sep'', ''mtrr'', ''pge'', ''mca'', ''cmov'', ''pat'', ''pse36'', ''psn'', ''clflush'', ''ds'', ''acpi'', ''mmx'',
     ''fxsr'', ''sse'', ''sse2'', ''ss'', ''htt'', ''tm'', ''ia64'', ''pbe'']"

primrec print_uppercase :: "hardware \<Rightarrow> u8 list \<Rightarrow> 'a tty_scheme \<Rightarrow> 'a tty_scheme result" where
  "print_uppercase hw [] s = Inr s"
| "print_uppercase hw (c # cs) s =
     bindE (printk_lit hw ''%s'' [Str [if 0x61 \<le> c \<and> c \<le> 0x7a then c - 32 else c]] s) (print_uppercase hw cs)"

text \<open>The loop over a table of feature names, from bit \<open>i\<close> on.\<close>

primrec check_features :: "hardware \<Rightarrow> string list \<Rightarrow> nat \<Rightarrow> u32 \<Rightarrow> 'a tty_scheme \<Rightarrow> 'a tty_scheme result" where
  "check_features hw [] i reg s = Inr s"
| "check_features hw (f # fs) i reg s =
     bindE
      (if reg AND push_bit i 1 \<noteq> push_bit i 1 then
         if hd f = CHR ''*'' then
           bindE (printk_lit hw (CHR 0x0a # ''cpu lack of feature %s'' @ [CHR 0x0a]) [Str (ascii (tl f))] s)
             (\<lambda>s. Inl (Panic ''unsupported cpu''))
         else printk_lit hw ''%s '' [Str (ascii f)] s
       else
         bindE (print_uppercase hw (ascii (if hd f = CHR ''*'' then tl f else f)) s) (\<lambda>s. printk_lit hw '' '' [] s))
      (check_features hw fs (Suc i) reg)"

definition word_bytes :: "u32 \<Rightarrow> u8 list" where
  "word_bytes v = [ucast v, ucast (drop_bit 8 v), ucast (drop_bit 16 v), ucast (drop_bit 24 v)]"

definition check_cpu ::
  "hardware \<Rightarrow> (u32 \<Rightarrow> u32 \<times> u32 \<times> u32 \<times> u32) \<Rightarrow> 'a tty_scheme \<Rightarrow> 'a tty_scheme result" where
  "check_cpu hw cpuid s =
     (let (_, b, c, d) = cpuid 0;
          vendor_buf = takeWhile (\<lambda>x. x \<noteq> 0) (word_bytes b @ word_bytes d @ word_bytes c);
          (_, _, ecx, edx) = cpuid 1 in
      bindE (printk_lit hw (''vendor_id: %s'' @ [CHR 0x0a]) [Str vendor_buf] s) (\<lambda>s.
      bindE (printk_lit hw ''flags: '' [] s) (\<lambda>s.
      bindE (check_features hw cpuid_feat_c 0 ecx s) (\<lambda>s.
      bindE (printk_lit hw '' '' [] s) (\<lambda>s.
      bindE (check_features hw cpuid_feat_d 0 edx s) (\<lambda>s.
        printk_lit hw [CHR 0x0a] [] s))))))"

section \<open>Initialisation\<close>

text \<open>The gates of the processor exceptions, then \<open>reserved\<close> for all other vectors.\<close>

definition exception_gates :: "(nat \<Rightarrow> addr) \<Rightarrow> 'a cpu_sys_scheme \<Rightarrow> 'a cpu_sys_scheme" where
  "exception_gates isr s =
     (let s = set_int_gate 0 (isr 0) s;
          s = set_int_gate 1 (isr 1) s;
          s = set_int_gate 2 (isr 2) s;
          s = set_system_gate 3 (isr 3) s;
          s = set_system_gate 4 (isr 4) s;
          s = set_system_gate 5 (isr 5) s;
          s = set_int_gate 6 (isr 6) s;
          s = set_int_gate 7 (isr 7) s;
          s = set_int_gate 8 (isr 8) s;
          s = set_int_gate 9 (isr 9) s;
          s = set_int_gate 10 (isr 10) s;
          s = set_int_gate 11 (isr 11) s;
          s = set_int_gate 12 (isr 12) s;
          s = set_int_gate 13 (isr 13) s
      in set_int_gate 14 (isr 14) s)"

primrec reserved_gates :: "nat \<Rightarrow> nat \<Rightarrow> addr \<Rightarrow> 'a cpu_sys_scheme \<Rightarrow> 'a cpu_sys_scheme" where
  "reserved_gates 0 i ISR s = s"
| "reserved_gates (Suc n) i ISR s = reserved_gates n (Suc i) ISR (set_int_gate (of_nat i) ISR s)"

primrec map_mmio :: "nat \<Rightarrow> nat \<Rightarrow> 'a machine_scheme \<Rightarrow> 'a machine_scheme result" where
  "map_mmio 0 i s = Inr s"
| "map_mmio (Suc n) i s =
     bindE (map_huge_page 0xC0000000 (0xC0000000 + of_nat i * 0x400000) (0x80000000 + of_nat i * 0x400000) 0 1 s)
       (\<lambda>(r, s). map_mmio n (Suc i) s)"

definition arch_init ::
  "hardware \<Rightarrow> (u32 \<Rightarrow> u32 \<times> u32 \<times> u32 \<times> u32) \<Rightarrow> (nat \<Rightarrow> addr) \<Rightarrow> u32 \<Rightarrow> 'a cpu_sys_scheme \<Rightarrow> 'a cpu_sys_scheme result" where
  "arch_init hw cpuid isr i0 s =
     bindE (check_cpu hw cpuid s) (\<lambda>s.
       let s = setup_gdt s;
           s = setup_idt s;
           s = exception_gates isr s;
           s = reserved_gates 241 15 (isr 15) s
       in bindE (map_mmio 0x100 0 s) (\<lambda>s. bindE (acpi_init i0 s) (apic_init hw)))"

section \<open>Device memory\<close>

lemma mmio_index:
  assumes "i < 256"
  shows "drop_bit 22 (0x80000000 + of_nat i * 0x400000 :: addr) = of_nat (0x200 + i)"
    and "0xC0000000 + 4 * of_nat (0x200 + i) = (0xC0000800 + of_nat (4 * i) :: addr)"
    and "push_bit 22 (drop_bit 22 (0xC0000000 + of_nat i * 0x400000 :: addr)) = 0xC0000000 + of_nat i * 0x400000"
proof -
  have e: "(b + of_nat i * 0x400000 :: addr) = push_bit 22 (drop_bit 22 b + of_nat i)" if "push_bit 22 (drop_bit 22 b) = b" for b
  proof -
    have "push_bit 22 (drop_bit 22 b + of_nat i) = push_bit 22 (drop_bit 22 b) + push_bit 22 (of_nat i :: addr)" by (rule push_bit_add)
    also have "\<dots> = b + of_nat i * 0x400000" unfolding that by (simp add: push_bit_eq_mult)
    finally show ?thesis by simp
  qed
  have d: "drop_bit 22 (push_bit 22 (of_nat n)) = (of_nat n :: addr)" if "n < 1024" for n
  proof -
    have "take_bit 10 n = n" using that by (simp add: take_bit_nat_eq_self_iff)
    then have "take_bit 10 (of_nat n) = (of_nat n :: addr)" by (simp add: take_bit_of_nat)
    moreover have "drop_bit 22 (push_bit 22 w) = take_bit 10 w" for w :: addr
      by (rule bit_word_eqI) (auto simp: bit_simps)
    ultimately show ?thesis by simp
  qed
  show "drop_bit 22 (0x80000000 + of_nat i * 0x400000 :: addr) = of_nat (0x200 + i)"
    using e [of "0x80000000"] d [of "0x200 + i"] assms by simp
  show "0xC0000000 + 4 * of_nat (0x200 + i) = (0xC0000800 + of_nat (4 * i) :: addr)" by simp
  show "push_bit 22 (drop_bit 22 (0xC0000000 + of_nat i * 0x400000 :: addr)) = 0xC0000000 + of_nat i * 0x400000"
    using e [of "0xC0000000"] d [of "0x300 + i"] assms by simp
qed

text \<open>The directory entry of the \<open>i\<close>th device region.\<close>

definition mmio_entry :: "nat \<Rightarrow> addr" where
  "mmio_entry i = 0xC0000800 + of_nat (4 * i)"

lemma unat_mmio_entry: "i < 256 \<Longrightarrow> unat (mmio_entry i) = 0xC0000800 + 4 * i"
  using unat_add_of_nat [of "0xC0000800" "4 * i"] by (simp add: mmio_entry_def del: of_nat_mult)

lemma mmio_entry_apart: "i < 256 \<Longrightarrow> j < 256 \<Longrightarrow> i \<noteq> j \<Longrightarrow> apart (mmio_entry i) (mmio_entry j)"
  by (cases "i < j") (auto simp: unat_mmio_entry intro: apart_nat apart_sym [OF apart_nat])

lemma map_mmio_step:
  assumes "i < 256" and "pg_present (load32 (mem s) (mmio_entry i)) = 0"
  shows "map_mmio (Suc n) i s = map_mmio n (Suc i) (flush_cr3 (s\<lparr>mem := store32 (mem s) (mmio_entry i)
    (huge_entry (0xC0000000 + of_nat i * 0x400000) 0 1 (load32 (mem s) (mmio_entry i)))\<rparr>))"
proof -
  have "page_aligned 0xC0000000" "mapped 0xC0000000" by (simp_all add: page_aligned_def mapped_def)
  moreover have e: "0xC0000000 + 4 * drop_bit 22 (0x80000000 + of_nat i * 0x400000 :: addr) = mmio_entry i"
    unfolding mmio_index(1) [OF assms(1)] mmio_index(2) [OF assms(1)] mmio_entry_def ..
  ultimately show ?thesis
    using map_huge_page_eq [of "0xC0000000" s "0x80000000 + of_nat i * 0x400000" "0xC0000000 + of_nat i * 0x400000" 0 1] assms(2)
    unfolding e by simp
qed

lemma map_mmio_entries:
  "i + n \<le> 256 \<Longrightarrow> \<forall>j. i \<le> j \<longrightarrow> j < i + n \<longrightarrow> pg_present (load32 (mem s) (mmio_entry j)) = 0 \<Longrightarrow>
     \<exists>s'. map_mmio n i s = Inr s' \<and> machine.more s' = machine.more s \<and> same_off (block 0xC0000800 1024) (mem s) (mem s')
       \<and> (\<forall>j < 256. if i \<le> j \<and> j < i + n then \<exists>e. load32 (mem s') (mmio_entry j) = huge_entry (0xC0000000 + of_nat j * 0x400000) 0 1 e
            else load32 (mem s') (mmio_entry j) = load32 (mem s) (mmio_entry j))"
proof (induction n arbitrary: i s)
  case (Suc n)
  let ?e = "huge_entry (0xC0000000 + of_nat i * 0x400000) 0 1 (load32 (mem s) (mmio_entry i))"
  let ?s = "flush_cr3 (s\<lparr>mem := store32 (mem s) (mmio_entry i) ?e\<rparr>)"
  have i: "i < 256" using Suc.prems(1) by simp
  have o: "load32 (mem ?s) (mmio_entry j) = (if j = i then ?e else load32 (mem s) (mmio_entry j))" if "j < 256" for j
    using mmio_entry_apart [OF i that] by (simp add: load32_store32_apart)
  have "map_mmio (Suc n) i s = map_mmio n (Suc i) ?s" using Suc.prems by (intro map_mmio_step i) simp
  moreover obtain s' where s': "map_mmio n (Suc i) ?s = Inr s'" "machine.more s' = machine.more ?s" "same_off (block 0xC0000800 1024) (mem ?s) (mem s')"
    "\<forall>j < 256. if Suc i \<le> j \<and> j < Suc i + n then \<exists>e. load32 (mem s') (mmio_entry j) = huge_entry (0xC0000000 + of_nat j * 0x400000) 0 1 e
            else load32 (mem s') (mmio_entry j) = load32 (mem ?s) (mmio_entry j)"
    using Suc.IH [of "Suc i" ?s] Suc.prems o by (auto simp: less_Suc_eq_le)
  moreover have "same_off (block 0xC0000800 1024) (mem s) (mem ?s)"
    using i unat_mmio_entry [OF i] by (auto simp: mem_block_iff intro!: same_off_store32)
  then have "same_off (block 0xC0000800 1024) (mem s) (mem s')" using s'(3) by (rule same_off_trans)
  moreover have "\<forall>j < 256. if i \<le> j \<and> j < i + Suc n then \<exists>e. load32 (mem s') (mmio_entry j) = huge_entry (0xC0000000 + of_nat j * 0x400000) 0 1 e
            else load32 (mem s') (mmio_entry j) = load32 (mem s) (mmio_entry j)"
  proof (intro allI impI)
    fix j :: nat assume j: "j < 256"
    show "if i \<le> j \<and> j < i + Suc n then \<exists>e. load32 (mem s') (mmio_entry j) = huge_entry (0xC0000000 + of_nat j * 0x400000) 0 1 e
            else load32 (mem s') (mmio_entry j) = load32 (mem s) (mmio_entry j)"
      using s'(4) [rule_format, OF j] o [OF j] by (cases "j = i") auto
  qed
  ultimately show ?case by (simp add: flush_cr3_def del: map_mmio.simps)
qed auto

lemma region_or_offset:
  assumes "push_bit 22 (drop_bit 22 x) = (x :: addr)"
  shows "x + take_bit 22 y = x OR take_bit 22 y"
proof (rule disjunctive_add_eq_or, rule bit_word_eqI)
  fix n
  have "bit x n \<longleftrightarrow> bit (push_bit 22 (drop_bit 22 x)) n" by (simp only: assms)
  then show "bit (x AND take_bit 22 y) n = bit 0 n" by (auto simp: bit_simps)
qed

text \<open>
  C25: the last loop of \<open>arch_init\<close>, run on a directory whose entries for the third gigabyte are
  absent, makes the page walk agree with \<open>lin2phy\<close> on every linear address of that gigabyte: device
  memory appears where \<open>phy2lin\<close> says. Nothing but these 256 directory entries is written.
\<close>

theorem map_mmio_translation:
  assumes "\<forall>j < 256. pg_present (load32 (mem s) (mmio_entry j)) = 0"
  shows "\<exists>s'. map_mmio 256 0 s = Inr s' \<and> same_off (block 0xC0000800 1024) (mem s) (mem s')
    \<and> (\<forall>lin. 0x80000000 \<le> lin \<and> lin < 0xC0000000 \<longrightarrow> translate (mem s') 0xC0000000 lin = Some (lin2phy lin))"
proof -
  obtain s' where s': "map_mmio 256 0 s = Inr s'" "same_off (block 0xC0000800 1024) (mem s) (mem s')"
    "\<And>j. j < 256 \<Longrightarrow> \<exists>e. load32 (mem s') (mmio_entry j) = huge_entry (0xC0000000 + of_nat j * 0x400000) 0 1 e"
    using map_mmio_entries [of 0 256 s] assms by auto
  have "translate (mem s') 0xC0000000 lin = Some (lin2phy lin)" if "0x80000000 \<le> lin" "lin < 0xC0000000" for lin :: addr
  proof -
    define j where "j = unat lin div 2 ^ 22 - 0x200"
    have u: "0x80000000 \<le> unat lin" "unat lin < 0xC0000000" using that by (simp_all add: word_le_nat_alt word_less_nat_alt)
    then have j: "j < 256" "unat lin div 2 ^ 22 = 0x200 + j"
      by (simp_all add: j_def less_mult_imp_div_less)
    have "unat (drop_bit 22 lin) = 0x200 + j" using j(2) by (simp add: drop_bit_eq_div unat_div)
    then have d: "drop_bit 22 lin = of_nat (0x200 + j)" by (rule eq_of_unat)
    have "0xC0000000 + 4 * drop_bit 22 lin = mmio_entry j" unfolding d mmio_index(2) [OF j(1)] mmio_entry_def ..
    then obtain e where "load32 (mem s') (0xC0000000 + 4 * drop_bit 22 lin) = huge_entry (0xC0000000 + of_nat j * 0x400000) 0 1 e"
      using s'(3) [OF j(1)] by auto
    then have t: "translate (mem s') 0xC0000000 lin = Some ((0xC0000000 + of_nat j * 0x400000) OR take_bit 22 lin)"
      using translate_huge_entry mmio_index(3) [OF j(1)] by metis
    have "push_bit 22 (drop_bit 22 lin) = 0x80000000 + of_nat j * 0x400000" unfolding d by (simp add: push_bit_eq_mult)
    then have "lin = 0x80000000 + of_nat j * 0x400000 + take_bit 22 lin" using bits_ident [of 22 lin] by simp
    then have "lin + 0x40000000 = (0xC0000000 + of_nat j * 0x400000) + take_bit 22 lin" by (simp add: algebra_simps)
    also have "\<dots> = (0xC0000000 + of_nat j * 0x400000) OR take_bit 22 lin"
      by (rule region_or_offset [OF mmio_index(3) [OF j(1)]])
    finally have sum: "lin + 0x40000000 = (0xC0000000 + of_nat j * 0x400000) OR take_bit 22 lin" .
    have "\<not> 0xC0000000 \<le> lin" using that(2) by simp
    then show ?thesis using t that sum by (simp add: lin2phy_def)
  qed
  then show ?thesis using s' by blast
qed

theorem map_mmio_translation_witness:
  "\<exists>s'. map_mmio 256 0 \<lparr>mem = (\<lambda>_. 0), io = []\<rparr> = Inr s' \<and> translate (mem s') 0xC0000000 0xBEE00020 = Some 0xFEE00020"
proof -
  have "\<forall>j < 256. pg_present (load32 (mem \<lparr>mem = (\<lambda>_. 0), io = []\<rparr>) (mmio_entry j)) = 0"
    by (simp add: load32_def get_field_def)
  from map_mmio_translation [OF this] show ?thesis by (auto simp: lin2phy_def)
qed

section \<open>Gates\<close>

text \<open>What the processor reads from a gate: handler, segment, type, privilege level and presence.\<close>

definition gate_at :: "memory \<Rightarrow> addr \<Rightarrow> addr \<times> u16 \<times> u8 \<times> u8 \<times> bool" where
  "gate_at m p = (ucast (load16 m p) OR push_bit 16 (ucast (load16 m (p + 6))), load16 m (p + 2),
     get8 0 4 (m (p + 5)), get8 5 2 (m (p + 5)), get8 7 1 (m (p + 5)) = 1)"

definition gate_addr :: "'a cpu_sys_scheme \<Rightarrow> nat \<Rightarrow> addr" where
  "gate_addr s i = cpu_idt s + of_nat (8 * i)"

lemma bit_put8: "n < 8 \<Longrightarrow> bit (put8 lo w v e) n \<longleftrightarrow> (if lo \<le> n \<and> n < lo + w then bit v (n - lo) else bit e n)"
  by (auto simp: put8_def bit_simps)

lemma get8_put8: "lo + w \<le> 8 \<Longrightarrow> get8 lo w (put8 lo w v e) = take_bit w v"
  "lo + w \<le> 8 \<Longrightarrow> lo + w \<le> lo' \<or> lo' + w' \<le> lo \<Longrightarrow> get8 lo w (put8 lo' w' v e) = get8 lo w e"
  unfolding get8_def by (rule bit_word_eqI, auto simp: bit_simps bit_put8 dest: bit_imp_le_length)+

lemma halves: "ucast (ucast (v AND 0xffff) :: u16) OR push_bit 16 (ucast (ucast (drop_bit 16 v AND 0xffff) :: u16)) = (v :: u32)"
proof -
  have m: "(0xffff :: u32) = mask 16" by (simp add: mask_eq_exp_minus_1)
  show ?thesis unfolding m
    by (rule bit_word_eqI) (auto simp: bit_simps not_less dest: bit_imp_le_length)
qed

lemma gate_at_cong:
  assumes "\<And>i. i < 8 \<Longrightarrow> m' (p + of_nat i) = m (p + of_nat i)"
  shows "gate_at m' p = gate_at m p"
  using assms [of 0] assms [of 1] assms [of 2] assms [of 3] assms [of 5] assms [of 6] assms [of 7]
  by (simp add: gate_at_def load16_def add.assoc)

lemma load16_other:
  "a \<noteq> b \<Longrightarrow> a \<noteq> b + 1 \<Longrightarrow> load16 (m(a := v)) b = load16 m b"
  "a \<noteq> b \<Longrightarrow> a + 1 \<noteq> b \<Longrightarrow> a \<noteq> b + 1 \<Longrightarrow> load16 (store16 m a u) b = load16 m b"
  by (simp_all add: load16_def store16_def)

lemma store16_other: "x \<noteq> a \<Longrightarrow> x \<noteq> a + 1 \<Longrightarrow> store16 m a u x = m x"
  by (simp add: store16_def)

lemma register_gate_mem:
  "\<exists>m'. register_gate type num ISR segment dpl s = s\<lparr>mem := m'\<rparr> \<and> (\<forall>a. (\<forall>i < 8. a \<noteq> cpu_idt s + 8 * ucast num + of_nat i) \<longrightarrow> m' a = mem s a)
    \<and> gate_at m' (cpu_idt s + 8 * ucast num) = (ISR, segment, take_bit 4 type, take_bit 2 dpl, True)"
proof -
  define p where "p = cpu_idt s + 8 * ucast num"
  define m' where "m' = mem (register_gate type num ISR segment dpl s)"
  have e: "register_gate type num ISR segment dpl s = s\<lparr>mem := m'\<rparr>"
    by (simp add: m'_def register_gate_def Let_def)
  have frame: "m' a = mem s a" if "\<forall>i < 8. a \<noteq> p + of_nat i" for a
    using that [rule_format, of 0] that [rule_format, of 1] that [rule_format, of 2] that [rule_format, of 3]
      that [rule_format, of 4] that [rule_format, of 5] that [rule_format, of 6] that [rule_format, of 7]
    by (simp add: m'_def register_gate_def Let_def p_def [symmetric] store16_def add.assoc)
  have "gate_at m' p = (ISR, segment, take_bit 4 type, take_bit 2 dpl, True)"
  proof -
    have l: "load16 m' p = ucast (ISR AND 0xffff)" "load16 m' (p + 2) = segment"
      "load16 m' (p + 6) = ucast (drop_bit 16 ISR AND 0xffff)" and
      b: "m' (p + 5) = put8 7 1 1 (put8 5 2 dpl (put8 0 4 type (mem s (p + 5))))"
      by (simp_all add: m'_def register_gate_def Let_def p_def [symmetric] load16_other store16_other add.assoc)
    show ?thesis unfolding gate_at_def l b halves by (simp add: get8_put8)
  qed
  then show ?thesis using e frame unfolding p_def by blast
qed

lemma ucast_vector: "i < 256 \<Longrightarrow> (8 * ucast (of_nat i :: u8) :: addr) = of_nat (8 * i)"
proof -
  assume "i < 256"
  then have "unat (ucast (of_nat i :: u8) :: addr) = i" by (simp add: unat_ucast_u8 unat_of_nat)
  then have "(ucast (of_nat i :: u8) :: addr) = of_nat i" by (rule eq_of_unat)
  then show ?thesis by simp
qed

lemma register_gate_table:
  assumes "i < 256" and "v < 256"
  shows "gate_at (mem (register_gate type (of_nat i) ISR segment dpl s)) (gate_addr s v)
    = (if v = i then (ISR, segment, take_bit 4 type, take_bit 2 dpl, True) else gate_at (mem s) (gate_addr s v))"
proof -
  have p: "cpu_idt s + 8 * ucast (of_nat i :: u8) = gate_addr s i"
    unfolding ucast_vector [OF assms(1)] gate_addr_def ..
  obtain m' where m': "register_gate type (of_nat i) ISR segment dpl s = s\<lparr>mem := m'\<rparr>"
    "\<forall>a. (\<forall>k < 8. a \<noteq> gate_addr s i + of_nat k) \<longrightarrow> m' a = mem s a"
    "gate_at m' (gate_addr s i) = (ISR, segment, take_bit 4 type, take_bit 2 dpl, True)"
    using register_gate_mem [of type "of_nat i" ISR segment dpl s] unfolding p by blast
  show ?thesis
  proof (cases "v = i")
    case False
    have "m' (gate_addr s v + of_nat k) = mem s (gate_addr s v + of_nat k)" if k: "k < 8" for k
    proof -
      have "gate_addr s v + of_nat k \<noteq> gate_addr s i + of_nat l" if "l < 8" for l
      proof -
        have "gate_addr s v + of_nat k = cpu_idt s + of_nat (8 * v + k)" "gate_addr s i + of_nat l = cpu_idt s + of_nat (8 * i + l)"
          by (simp_all add: gate_addr_def)
        moreover have "8 * v + k \<noteq> 8 * i + l" using False k that by presburger
        ultimately show ?thesis using offset_inj [of "8 * v + k" "8 * i + l" "cpu_idt s"] assms k that by simp
      qed
      then show ?thesis using m'(2) by blast
    qed
    then have "gate_at m' (gate_addr s v) = gate_at (mem s) (gate_addr s v)" by (rule gate_at_cong)
    then show ?thesis using False m'(1) by simp
  qed (use m' in simp)
qed

lemma register_gate_idt [simp]:
  "gate_addr (set_int_gate num ISR s) = gate_addr s" "gate_addr (set_system_gate num ISR s) = gate_addr s"
  by (simp_all add: set_int_gate_def set_system_gate_def register_intr_def register_gate_def gate_addr_def fun_eq_iff Let_def)

lemma set_gate_table:
  assumes "i < 256" and "v < 256"
  shows "gate_at (mem (set_int_gate (of_nat i) ISR s)) (gate_addr s v) = (if v = i then (ISR, 8, 0xe, 0, True) else gate_at (mem s) (gate_addr s v))"
    and "gate_at (mem (set_system_gate (of_nat i) ISR s)) (gate_addr s v) = (if v = i then (ISR, 8, 0xe, 3, True) else gate_at (mem s) (gate_addr s v))"
  using register_gate_table [OF assms, where type = "0xe" and ISR = ISR and segment = 8 and dpl = 0 and s = s]
    register_gate_table [OF assms, where type = "0xe" and ISR = ISR and segment = 8 and dpl = 3 and s = s]
  by (simp_all add: set_int_gate_def set_system_gate_def register_intr_def)

lemma set_gate_num:
  assumes "v < 256" and "gate_addr s' = gate_addr s"
  shows "gate_at (mem (set_int_gate num ISR s')) (gate_addr s v) = (if v = unat num then (ISR, 8, 0xe, 0, True) else gate_at (mem s') (gate_addr s v))"
    and "gate_at (mem (set_system_gate num ISR s')) (gate_addr s v) = (if v = unat num then (ISR, 8, 0xe, 3, True) else gate_at (mem s') (gate_addr s v))"
proof -
  have "unat num < 256" using unsigned_less [of num, where 'a = nat] by simp
  then show "gate_at (mem (set_int_gate num ISR s')) (gate_addr s v) = (if v = unat num then (ISR, 8, 0xe, 0, True) else gate_at (mem s') (gate_addr s v))"
    "gate_at (mem (set_system_gate num ISR s')) (gate_addr s v) = (if v = unat num then (ISR, 8, 0xe, 3, True) else gate_at (mem s') (gate_addr s v))"
    using set_gate_table [of "unat num" v ISR s'] assms by simp_all
qed

lemma reserved_gates_table:
  "i + n \<le> 256 \<Longrightarrow> v < 256 \<Longrightarrow> gate_addr (reserved_gates n i ISR s) = gate_addr s
    \<and> gate_at (mem (reserved_gates n i ISR s)) (gate_addr s v)
      = (if i \<le> v \<and> v < i + n then (ISR, 8, 0xe, 0, True) else gate_at (mem s) (gate_addr s v))"
proof (induction n arbitrary: i s)
  case (Suc n)
  have "gate_addr (reserved_gates n (Suc i) ISR (set_int_gate (of_nat i) ISR s)) = gate_addr s
    \<and> gate_at (mem (reserved_gates n (Suc i) ISR (set_int_gate (of_nat i) ISR s))) (gate_addr s v)
      = (if Suc i \<le> v \<and> v < Suc i + n then (ISR, 8, 0xe, 0, True) else gate_at (mem (set_int_gate (of_nat i) ISR s)) (gate_addr s v))"
    using Suc.IH [of "Suc i" "set_int_gate (of_nat i) ISR s"] Suc.prems by simp
  then show ?case using set_gate_table(1) [of i v ISR s] Suc.prems by auto
qed auto

text \<open>
  C24: after the gate setup of \<open>arch_init\<close> every one of the 256 vectors has a present interrupt
  gate in the kernel code segment: the fifteen processor exceptions lead to their own handlers,
  all others to \<open>reserved\<close>, and only breakpoint, overflow and bounds (3, 4, 5) may be raised from
  user mode.
\<close>

theorem interrupt_table_complete:
  assumes "v < 256"
  shows "gate_at (mem (reserved_gates 241 15 (isr 15) (exception_gates isr s))) (gate_addr s v)
    = (isr (min v 15), 8, 0xe, (if v \<in> {3, 4, 5} then 3 else 0), True)"
proof -
  have e: "gate_addr (exception_gates isr s) = gate_addr s"
    by (simp add: exception_gates_def Let_def)
  have g: "gate_at (mem (reserved_gates 241 15 (isr 15) (exception_gates isr s))) (gate_addr s v)
      = (if 15 \<le> v then (isr 15, 8, 0xe, 0, True) else gate_at (mem (exception_gates isr s)) (gate_addr s v))"
    using reserved_gates_table [of 15 241 v "isr 15" "exception_gates isr s"] assms unfolding e by simp
  show ?thesis
  proof (cases "15 \<le> v")
    case True
    then show ?thesis using g by (auto simp: min_def)
  next
    case False
    then have "v = 0 \<or> v = 1 \<or> v = 2 \<or> v = 3 \<or> v = 4 \<or> v = 5 \<or> v = 6 \<or> v = 7 \<or> v = 8 \<or> v = 9 \<or> v = 10 \<or> v = 11 \<or> v = 12 \<or> v = 13 \<or> v = 14"
      by presburger
    moreover have "gate_at (mem (exception_gates isr s)) (gate_addr s v) = (isr v, 8, 0xe, (if v \<in> {3, 4, 5} then 3 else 0), True)"
      unfolding exception_gates_def Let_def using calculation by (elim disjE) (simp_all add: set_gate_num)
    ultimately show ?thesis using g False by (simp add: min_def)
  qed
qed

definition cpu_state :: cpu_sys where
  "cpu_state = acpi_sys.extend apic_state \<lparr>cpu_gdt = 0xc0104000, cpu_gdtr = 0xc0104100, cpu_idt = 0xc0105000, cpu_idtr = 0xc0104110\<rparr>"

theorem interrupt_table_complete_witness:
  "gate_at (mem (reserved_gates 241 15 0xc0101000 (exception_gates (\<lambda>n. if n = 15 then 0xc0101000 else 0xc0100000 + of_nat n) cpu_state)))
     (gate_addr cpu_state 14) = (0xc010000e, 8, 0xe, 0, True)"
  using interrupt_table_complete [of 14 "\<lambda>n. if n = 15 then 0xc0101000 else 0xc0100000 + of_nat n" cpu_state] by simp

section \<open>Mandatory features\<close>

text \<open>Characters that are neither a conversion nor an escape.\<close>

definition plain :: "u8 list \<Rightarrow> bool" where
  "plain cs \<longleftrightarrow> 0x25 \<notin> set cs \<and> 0x1b \<notin> set cs"

lemma lit_out_plain: "0x25 \<notin> set t \<Longrightarrow> lit_out t ks = Inr t"
  by (induction t) auto

lemma printk_lit_ok:
  assumes "tty_idle s" and "lit_out (ascii f) ks = Inr out" and "0x1b \<notin> set out"
  shows "\<exists>s'. printk_lit hw f ks s = Inr s' \<and> tty_idle s' \<and> tty_step s s'"
  using tty_writes_text [OF assms(1), of 1 out hw] assms(2,3) by (auto simp: printk_lit_def printk_puts_def)

lemma ascii_formats:
  "ascii ''%s'' = [0x25, 0x73]" "ascii ''%s '' = [0x25, 0x73, 0x20]" "ascii '' '' = [0x20]" "ascii [CHR 0x0a] = [0x0a]"
  by code_simp+

lemma printk_one:
  assumes "tty_idle s" and "plain [c]"
  shows "\<exists>s'. printk_lit hw ''%s'' [Str [c]] s = Inr s' \<and> tty_idle s' \<and> tty_step s s'"
  using assms by (intro printk_lit_ok [where out = "[c]"]) (auto simp: ascii_formats plain_def lit_out_plain)

lemma print_uppercase_ok:
  "tty_idle s \<Longrightarrow> plain cs \<Longrightarrow> \<exists>s'. print_uppercase hw cs s = Inr s' \<and> tty_idle s' \<and> tty_step s s'"
proof (induction cs arbitrary: s)
  case Nil
  then show ?case by (auto simp: tty_idle_def intro: tty_step_refl)
next
  case (Cons c cs)
  let ?c = "if 0x61 \<le> c \<and> c \<le> 0x7a then c - 32 else c"
  have "plain [?c]"
  proof (cases "0x61 \<le> c \<and> c \<le> 0x7a")
    case True
    then have "unat (c - 32) = unat c - 32" "97 \<le> unat c" by (simp_all add: word_le_nat_alt unat_sub_if')
    then have "c - 32 \<noteq> 0x25" "c - 32 \<noteq> 0x1b" by (auto simp: word_unat_eq_iff)
    then show ?thesis using True by (simp add: plain_def)
  next
    case False
    then show ?thesis using Cons.prems(2) by (auto simp: plain_def)
  qed
  then obtain s1 where s1: "printk_lit hw ''%s'' [Str [?c]] s = Inr s1" "tty_idle s1" "tty_step s s1"
    using printk_one [OF Cons.prems(1)] by blast
  obtain s2 where "print_uppercase hw cs s1 = Inr s2" "tty_idle s2" "tty_step s1 s2"
    using Cons.IH [OF s1(2)] Cons.prems(2) by (auto simp: plain_def)
  then show ?case using s1 tty_step_trans by (auto simp del: if_split)
qed

lemma test_bit_and: "i < 32 \<Longrightarrow> (reg AND push_bit i 1 \<noteq> push_bit i 1) \<longleftrightarrow> \<not> bit (reg :: u32) i"
proof -
  assume i: "i < 32"
  have p: "bit (push_bit i 1 :: u32) n \<longleftrightarrow> n = i" for n
    using i by (auto simp: push_bit_eq_mult bit_exp_iff possible_bit_def)
  have "reg AND push_bit i 1 = push_bit i 1 \<longleftrightarrow> bit reg i"
  proof
    assume "reg AND push_bit i 1 = push_bit i 1"
    then have "bit (reg AND push_bit i 1) i" using p by simp
    then show "bit reg i" by (simp add: bit_and_iff)
  next
    assume "bit reg i"
    then show "reg AND push_bit i 1 = push_bit i 1" 
      by (intro bit_word_eqI) (simp only: bit_and_iff p, blast)
  qed
  then show ?thesis by simp
qed

definition features_ok :: "string list \<Rightarrow> nat \<Rightarrow> u32 \<Rightarrow> bool" where
  "features_ok fs i reg \<longleftrightarrow> (\<forall>k < length fs. hd (fs ! k) = CHR ''*'' \<longrightarrow> bit reg (i + k))"

lemma features_ok_Cons:
  "features_ok (f # fs) i reg \<longleftrightarrow> (hd f = CHR ''*'' \<longrightarrow> bit reg i) \<and> features_ok fs (Suc i) reg"
  by (auto simp: features_ok_def nth_Cons less_Suc_eq_0_disj split: nat.splits)

lemma plain_tl: "plain (ascii f) \<Longrightarrow> plain (ascii (tl f))"
  by (cases f) (auto simp: plain_def ascii_def)

lemma check_features_ok:
  "tty_idle s \<Longrightarrow> \<forall>f \<in> set fs. plain (ascii f) \<Longrightarrow> i + length fs \<le> 32 \<Longrightarrow>
     if features_ok fs i reg then \<exists>s'. check_features hw fs i reg s = Inr s' \<and> tty_idle s' \<and> tty_step s s'
     else check_features hw fs i reg s = Inl (Panic ''unsupported cpu'')"
proof (induction fs arbitrary: s i)
  case Nil
  then show ?case by (auto simp: features_ok_def tty_idle_def intro: tty_step_refl)
next
  case (Cons f fs)
  have f: "plain (ascii f)" "plain (ascii (tl f))" using Cons.prems(2) plain_tl by auto
  have t: "(reg AND push_bit i 1 \<noteq> push_bit i 1) \<longleftrightarrow> \<not> bit reg i" using Cons.prems(3) by (intro test_bit_and) simp
  have step: "if features_ok fs (Suc i) reg then \<exists>s'. check_features hw fs (Suc i) reg s1 = Inr s' \<and> tty_idle s' \<and> tty_step s s'
     else check_features hw fs (Suc i) reg s1 = Inl (Panic ''unsupported cpu'')" if "tty_idle s1" "tty_step s s1" for s1
    using Cons.IH [OF that(1), of "Suc i"] Cons.prems(2,3) tty_step_trans [OF that(2)] by (auto split: if_splits)
  show ?case
  proof (cases "bit reg i")
    case True
    have "plain (ascii (if hd f = CHR ''*'' then tl f else f))" using f by simp
    then obtain s1 where s1: "print_uppercase hw (ascii (if hd f = CHR ''*'' then tl f else f)) s = Inr s1" "tty_idle s1" "tty_step s s1"
      using print_uppercase_ok [OF Cons.prems(1)] by blast
    obtain s2 where s2: "printk_lit hw '' '' [] s1 = Inr s2" "tty_idle s2" "tty_step s1 s2"
      using printk_lit_ok [OF s1(2), of "'' ''" "[]" "[0x20]" hw] by (auto simp: ascii_formats)
    have "check_features hw (f # fs) i reg s = check_features hw fs (Suc i) reg s2"
      using True t s1(1) s2(1) by (simp split del: if_split)
    then show ?thesis using True step [OF s2(2) tty_step_trans [OF s1(3) s2(3)]] by (simp add: features_ok_Cons)
  next
    case False
    show ?thesis
    proof (cases "hd f = CHR ''*''")
      case True
      let ?m = "CHR 0x0a # ''cpu lack of feature %s'' @ [CHR 0x0a]"
      have "\<exists>out. lit_out (ascii ?m) [Str (ascii (tl f))] = Inr out \<and> 0x1b \<notin> set out"
      proof -
        have a: "ascii ?m = ascii (CHR 0x0a # ''cpu lack of feature '') @ [0x25, 0x73, 0x0a]" by code_simp
        have "lit_out (xs @ [0x25, 0x73, 0x0a]) [Str t] = Inr (xs @ t @ [0x0a])" if "plain xs" "plain t" for xs t
          using that by (induction xs) (auto simp: plain_def lit_out_plain)
        moreover have "plain (ascii (CHR 0x0a # ''cpu lack of feature ''))" by code_simp
        ultimately show ?thesis unfolding a using f(2) by (auto simp: plain_def)
      qed
      then obtain s1 where "printk_lit hw ?m [Str (ascii (tl f))] s = Inr s1" using printk_lit_ok [OF Cons.prems(1)] by blast
      then show ?thesis using True False t by (simp add: features_ok_Cons)
    next
      case no: False
      obtain s1 where "printk_lit hw ''%s '' [Str (ascii f)] s = Inr s1" "tty_idle s1" "tty_step s s1"
        using printk_lit_ok [OF Cons.prems(1), of "''%s ''" "[Str (ascii f)]" "ascii f @ [0x20]" hw] f(1)
        by (auto simp: ascii_formats plain_def lit_out_plain)
      moreover from this(1) have "check_features hw (f # fs) i reg s = check_features hw fs (Suc i) reg s1"
        using False no t by simp
      ultimately show ?thesis using False no step [of s1] by (simp add: features_ok_Cons)
    qed
  qed
qed

lemma feature_tables:
  "\<forall>f \<in> set cpuid_feat_c. plain (ascii f) \<and> hd f \<noteq> CHR ''*''" "\<forall>f \<in> set cpuid_feat_d. plain (ascii f)"
  "length cpuid_feat_c = 31" "length cpuid_feat_d = 30"
  by code_simp+

lemma features_c: "features_ok cpuid_feat_c 0 reg"
  using feature_tables(1) by (auto simp: features_ok_def)

lemma features_d: "features_ok cpuid_feat_d 0 reg \<longleftrightarrow> bit reg 3 \<and> bit reg 5 \<and> bit reg 6 \<and> bit reg 9"
proof -
  have "\<forall>k \<in> set [0..<30]. hd (cpuid_feat_d ! k) = CHR ''*'' \<longleftrightarrow> k = 3 \<or> k = 5 \<or> k = 6 \<or> k = 9" by code_simp
  then have "\<And>k. k < 30 \<Longrightarrow> hd (cpuid_feat_d ! k) = CHR ''*'' \<longleftrightarrow> k = 3 \<or> k = 5 \<or> k = 6 \<or> k = 9" by simp
  then show ?thesis unfolding features_ok_def feature_tables(4)
    by (intro iffI) (auto dest: spec [of _ 3] spec [of _ 5] spec [of _ 6] spec [of _ 9])
qed

text \<open>The vendor string \<open>check_cpu\<close> prints.\<close>

definition vendor_of :: "(u32 \<Rightarrow> u32 \<times> u32 \<times> u32 \<times> u32) \<Rightarrow> u8 list" where
  "vendor_of cpuid = (let (_, b, c, d) = cpuid 0 in takeWhile (\<lambda>x. x \<noteq> 0) (word_bytes b @ word_bytes d @ word_bytes c))"

text \<open>
  C28: \<open>check_cpu\<close> lets exactly those processors boot that have page size extensions, model specific
  registers, physical address extension and a local APIC (bits 3, 5, 6 and 9 of \<open>edx\<close>); on any
  other it ends in a panic. It prints on the screen only. The vendor string must not contain
  percent or escape characters, since it is printed as a format.
\<close>

theorem check_cpu_mandatory:
  assumes "tty_idle s" and "plain (vendor_of cpuid)" and "cpuid 1 = (a, b, c, d)"
  shows "if bit d 3 \<and> bit d 5 \<and> bit d 6 \<and> bit d 9
    then \<exists>s'. check_cpu hw cpuid s = Inr s' \<and> tty_idle s' \<and> same_off (screen (tty_VRAM s)) (mem s) (mem s')
    else check_cpu hw cpuid s = Inl (Panic ''unsupported cpu'')"
proof -
  have a: "ascii (''vendor_id: %s'' @ [CHR 0x0a]) = ascii ''vendor_id: '' @ [0x25, 0x73, 0x0a]" by code_simp
  have "lit_out (xs @ [0x25, 0x73, 0x0a]) [Str t] = Inr (xs @ t @ [0x0a])" if "plain xs" "plain t" for xs t
    using that by (induction xs) (auto simp: plain_def lit_out_plain)
  moreover have "plain (ascii ''vendor_id: '')" "plain (ascii ''flags: '')" by code_simp+
  ultimately obtain s1 where s1: "printk_lit hw (''vendor_id: %s'' @ [CHR 0x0a]) [Str (vendor_of cpuid)] s = Inr s1" "tty_idle s1" "tty_step s s1"
    using printk_lit_ok [OF assms(1), of "''vendor_id: %s'' @ [CHR 0x0a]" "[Str (vendor_of cpuid)]" "ascii ''vendor_id: '' @ vendor_of cpuid @ [0x0a]" hw] assms(2)
    unfolding a by (auto simp: plain_def)
  obtain s2 where s2: "printk_lit hw ''flags: '' [] s1 = Inr s2" "tty_idle s2" "tty_step s1 s2"
    using printk_lit_ok [OF s1(2), of "''flags: ''" "[]" "ascii ''flags: ''" hw] \<open>plain (ascii ''flags: '')\<close>
    by (auto simp: lit_out_plain plain_def)
  obtain s3 where s3: "check_features hw cpuid_feat_c 0 c s2 = Inr s3" "tty_idle s3" "tty_step s2 s3"
    using check_features_ok [OF s2(2), of cpuid_feat_c 0 c hw] features_c feature_tables by auto
  obtain s4 where s4: "printk_lit hw '' '' [] s3 = Inr s4" "tty_idle s4" "tty_step s3 s4"
    using printk_lit_ok [OF s3(2), of "'' ''" "[]" "[0x20]" hw] by (auto simp: ascii_formats)
  note st = tty_step_trans [OF tty_step_trans [OF tty_step_trans [OF s1(3) s2(3)] s3(3)] s4(3)]
  have u: "check_cpu hw cpuid s = bindE (check_features hw cpuid_feat_d 0 d s4) (printk_lit hw [CHR 0x0a] [])"
    using s1(1) s2(1) s3(1) s4(1) unfolding check_cpu_def vendor_of_def assms(3)
    by (cases "cpuid 0") (simp add: Let_def split_def)
  have f: "if features_ok cpuid_feat_d 0 d then \<exists>s'. check_features hw cpuid_feat_d 0 d s4 = Inr s' \<and> tty_idle s' \<and> tty_step s4 s'
     else check_features hw cpuid_feat_d 0 d s4 = Inl (Panic ''unsupported cpu'')"
    using feature_tables by (intro check_features_ok [OF s4(2)]) auto
  show ?thesis
  proof (cases "features_ok cpuid_feat_d 0 d")
    case True
    then obtain s5 where s5: "check_features hw cpuid_feat_d 0 d s4 = Inr s5" "tty_idle s5" "tty_step s4 s5" using f by auto
    obtain s6 where s6: "printk_lit hw [CHR 0x0a] [] s5 = Inr s6" "tty_idle s6" "tty_step s5 s6"
      using printk_lit_ok [OF s5(2), of "[CHR 0x0a]" "[]" "[0x0a]" hw] by (auto simp: ascii_formats)
    have "tty_step s s6" by (rule tty_step_trans [OF tty_step_trans [OF st s5(3)] s6(3)])
    then show ?thesis using True s5(1) s6 by (simp add: u features_d tty_step_def)
  next
    case False
    then show ?thesis using f by (auto simp: u features_d)
  qed
qed

theorem check_cpu_mandatory_witness:
  "\<exists>s'. check_cpu zero_hw (\<lambda>n. if n = 0 then (0, 0x756e6547, 0x6c65746e, 0x49656e69) else (0, 0, 0, 0x268)) fresh_tty = Inr s' \<and> tty_idle s'"
proof -
  let ?c = "\<lambda>n :: u32. if n = 0 then (0, 0x756e6547, 0x6c65746e, 0x49656e69) else (0, 0, 0, 0x268) :: u32 \<times> u32 \<times> u32 \<times> u32"
  have "plain (vendor_of ?c)" by code_simp
  moreover have "bit (0x268 :: u32) 3 \<and> bit (0x268 :: u32) 5 \<and> bit (0x268 :: u32) 6 \<and> bit (0x268 :: u32) 9" by code_simp
  ultimately show ?thesis using check_cpu_mandatory [OF fresh_tty_idle, of ?c 0 0 0 "0x268" zero_hw] by auto
qed

end
