(* ===== verification/Drivers_Pci.thy ===== *)
theory Drivers_Pci
  imports Kernel_Cpu Lib_List
begin

text \<open>
  \<open>drivers/pci.c\<close>: configuration space access, the bus scan that builds the device list, and the
  two lookups over it. A device is a 36-byte struct from \<open>kmalloc\<close>, reached through the offsets
  below; \<open>pci_device_list\<close> is the address of the static list head.
\<close>

abbreviation (input) pci_bus :: "memory \<Rightarrow> addr \<Rightarrow> u8" where "pci_bus m p \<equiv> m p"
abbreviation (input) pci_device :: "memory \<Rightarrow> addr \<Rightarrow> u8" where "pci_device m p \<equiv> m (p + 1)"
abbreviation (input) pci_function :: "memory \<Rightarrow> addr \<Rightarrow> u8" where "pci_function m p \<equiv> m (p + 2)"
abbreviation (input) pci_classcode :: "memory \<Rightarrow> addr \<Rightarrow> u8" where "pci_classcode m p \<equiv> m (p + 8)"
abbreviation (input) pci_subclass :: "memory \<Rightarrow> addr \<Rightarrow> u8" where "pci_subclass m p \<equiv> m (p + 9)"

record pci_sys = cpu_sys +
  pci_device_list :: addr
  swap1 :: addr
  bus_swap :: u8
  device_swap :: u8
  function_swap :: u8
  classcode_swap :: u8
  subclass_swap :: u8
  bufsz_swap :: int
  buf_swap :: addr
  index_swap :: int

definition pci_classes :: "string list" where
  "pci_classes = [''Unclassified'', ''Mass Storage Controller'', ''Network Controller'',
     ''Display Controller'', ''Multimedia Controller'', ''Memory Controller'', ''Bridge'',
     ''Simple Communication Controller'', ''Base System Peripheral'', ''Input Device Controller'',
     ''Docking Station'', ''Processor'', ''Serial Bus Controller'', ''Wireless Controller'',
     ''Intelligent Controller'', ''Satellite Communication Controller'', ''Encryption Controller'',
     ''Signal Processing Controller'', ''Processing Accelerator'', ''Non-Essential Instrumentation'']"

definition mass_storage :: "string list" where
  "mass_storage = [''SCSI Bus Controller'', ''IDE Controller'', ''Floppy Disk Controller'',
     ''IPI Bus Controller'', ''RAID Controller'', ''ATA Controller'', ''Serial ATA Controller'',
     ''Serial Attached SCSI Controller'', ''Non-Volatile Memory Controller'']"

section \<open>Configuration space\<close>

definition pci_address :: "u8 \<Rightarrow> u8 \<Rightarrow> u8 \<Rightarrow> u8 \<Rightarrow> u32" where
  "pci_address bus dev func offset =
     push_bit 16 (ucast bus) OR push_bit 11 (ucast dev) OR push_bit 8 (ucast func) OR (ucast offset AND 0xFC) OR 0x80000000"

definition read_pci_data ::
  "hardware \<Rightarrow> u8 \<Rightarrow> u8 \<Rightarrow> u8 \<Rightarrow> u8 \<Rightarrow> 'a machine_scheme \<Rightarrow> u32 \<times> 'a machine_scheme" where
  "read_pci_data hw bus dev func offset s = inl hw 0xCFC (outl 0xCF8 (pci_address bus dev func offset) s)"

definition read_pci_word ::
  "hardware \<Rightarrow> u8 \<Rightarrow> u8 \<Rightarrow> u8 \<Rightarrow> u8 \<Rightarrow> 'a machine_scheme \<Rightarrow> u16 \<times> 'a machine_scheme" where
  "read_pci_word hw bus dev func offset s =
     (let (v, s) = read_pci_data hw bus dev func offset s
      in (ucast (drop_bit (unat (offset AND 2) * 8) v AND 0xFFFF), s))"

definition read_pci_byte ::
  "hardware \<Rightarrow> u8 \<Rightarrow> u8 \<Rightarrow> u8 \<Rightarrow> u8 \<Rightarrow> 'a machine_scheme \<Rightarrow> u8 \<times> 'a machine_scheme" where
  "read_pci_byte hw bus dev func offset s =
     (let (v, s) = read_pci_word hw bus dev func offset s
      in (ucast (drop_bit (unat (offset AND 1) * 8) v AND 0xFF), s))"

definition check_device :: "hardware \<Rightarrow> u8 \<Rightarrow> u8 \<Rightarrow> u8 \<Rightarrow> 'a machine_scheme \<Rightarrow> bool \<times> 'a machine_scheme" where
  "check_device hw bus dev func s =
     (let (v, s) = read_pci_word hw bus dev func 0 s in (v \<noteq> 0xFFFF, s))"

section \<open>The scan\<close>

primrec read_bars :: "hardware \<Rightarrow> nat \<Rightarrow> nat \<Rightarrow> addr \<Rightarrow> u8 \<Rightarrow> u8 \<Rightarrow> u8 \<Rightarrow> 'a machine_scheme \<Rightarrow> 'a machine_scheme" where
  "read_bars hw 0 j device bus dev func s = s"
| "read_bars hw (Suc n) j device bus dev func s =
     (let (v, s) = read_pci_data hw bus dev func (0x10 + 4 * of_nat j) s
      in read_bars hw n (Suc j) device bus dev func (s\<lparr>mem := store32 (mem s) (device + 12 + 4 * of_nat j) v\<rparr>))"

text \<open>The class name: \<open>classes\<close> has 256 entries of which the last 236 are null.\<close>

definition print_class :: "hardware \<Rightarrow> u8 \<Rightarrow> u8 \<Rightarrow> u8 \<Rightarrow> 'a tty_scheme \<Rightarrow> 'a tty_scheme result" where
  "print_class hw classcode subclass progif s =
     (if unat classcode < length pci_classes then
        bindE
         (if classcode = 1 then
            if unat subclass < length mass_storage then
              bindE (printk_lit hw ''%s'' [Str (ascii (mass_storage ! unat subclass))] s) (\<lambda>s.
                if subclass = 1 then printk_lit hw '' [PI %x2]'' [Num (ucast progif)] s else Inr s)
            else Inl Out_Of_Bounds
          else printk_lit hw ''%s'' [Str (ascii (pci_classes ! unat classcode))] s)
         (\<lambda>s. printk_lit hw [CHR 0x0a] [] s)
      else printk_lit hw (''unknown device'' @ [CHR 0x0a]) [] s)"

definition classfy_device :: "hardware \<Rightarrow> u8 \<Rightarrow> u8 \<Rightarrow> u8 \<Rightarrow> 'a pci_sys_scheme \<Rightarrow> 'a pci_sys_scheme result" where
  "classfy_device hw bus dev func s =
     (let (device_id, s) = read_pci_data hw bus dev func 0x0 s;
          (dev_id, s) = read_pci_data hw bus dev func 0x8 s;
          classcode = ucast (drop_bit 24 dev_id AND 0xFF);
          subclass = ucast (drop_bit 16 dev_id AND 0xFF);
          progif = ucast (drop_bit 8 dev_id AND 0xFF) in
      bindE (kmalloc 36 s) (\<lambda>(device, s).
      bindE (list_insert (pci_device_list s) device s) (\<lambda>(node, s).
      deref device
       (let m = mem s;
            m = m(device := bus);
            m = m(device + 8 := classcode);
            m = m(device + 1 := dev);
            m = store16 m (device + 4) (ucast (drop_bit 16 device_id AND 0xFFFF));
            m = store16 m (device + 6) (ucast (device_id AND 0xFFFF));
            m = m(device + 2 := func);
            m = m(device + 10 := progif);
            m = m(device + 9 := subclass);
            s = read_bars hw 6 0 device bus dev func (s\<lparr>mem := m\<rparr>)
        in bindE (printk_lit hw ''%x2:%x2.%x1 %x4:%x4 [%x2%x2] ''
             [Num (ucast bus), Num (ucast dev), Num (ucast func), Num (ucast (load16 (mem s) (device + 4))),
              Num (ucast (load16 (mem s) (device + 6))), Num (ucast classcode), Num (ucast subclass)] s)
             (print_class hw classcode subclass progif)))))"

text \<open>All bus, device and function numbers in the order of the three nested loops.\<close>

definition pci_slots :: "(nat \<times> nat \<times> nat) list" where
  "pci_slots = List.concat (map (\<lambda>bus. List.concat (map (\<lambda>dev. map (\<lambda>func. (bus, dev, func)) [0..<8]) [0..<32])) [0..<256])"

primrec scan_slots :: "hardware \<Rightarrow> (nat \<times> nat \<times> nat) list \<Rightarrow> 'a pci_sys_scheme \<Rightarrow> 'a pci_sys_scheme result" where
  "scan_slots hw [] s = Inr s"
| "scan_slots hw (x # xs) s =
     (case x of (bus, dev, func) \<Rightarrow>
       let (present, s) = check_device hw (of_nat bus) (of_nat dev) (of_nat func) s in
       bindE (if present then classfy_device hw (of_nat bus) (of_nat dev) (of_nat func) s else Inr s)
         (scan_slots hw xs))"

definition pci_init :: "hardware \<Rightarrow> 'a pci_sys_scheme \<Rightarrow> 'a pci_sys_scheme result" where
  "pci_init hw s =
     (let (present, s) = check_device hw 0 0 0 s in
      if \<not> present then printk_lit hw (''no pci exist'' @ [CHR 0x0a]) [] s
      else bindE (printk_lit hw (''scanning pci'' @ [CHR 0x0a]) [] s) (scan_slots hw pci_slots))"

section \<open>Lookups\<close>

definition callback1 :: "'a pci_sys_scheme callback" where
  "callback1 node s =
     deref node
      (let dev = node_data (mem s) node in
       deref dev
        (if pci_bus (mem s) dev = bus_swap s \<and> pci_device (mem s) dev = device_swap s \<and> pci_function (mem s) dev = function_swap s
         then Inr (1, s\<lparr>swap1 := dev\<rparr>) else Inr (0, s)))"

definition get_device_by_id :: "u8 \<Rightarrow> u8 \<Rightarrow> u8 \<Rightarrow> 'a pci_sys_scheme \<Rightarrow> (addr \<times> 'a pci_sys_scheme) result" where
  "get_device_by_id bus device function s =
     (let s = s\<lparr>swap1 := 0, bus_swap := bus, device_swap := device, function_swap := function\<rparr> in
      bindE (list_iter (load32 (mem s) (pci_device_list s)) callback1 s) (\<lambda>s. Inr (swap1 s, s)))"

definition callback2 :: "'a pci_sys_scheme callback" where
  "callback2 node s =
     deref node
      (let dev = node_data (mem s) node in
       deref dev
        (if pci_classcode (mem s) dev = classcode_swap s \<and> pci_subclass (mem s) dev = subclass_swap s
            \<and> (bufsz_swap s = 0 \<or> index_swap s < bufsz_swap s)
         then
           let p = buf_swap s + 4 * of_int (index_swap s) in
           deref p (Inr (1, s\<lparr>mem := store32 (mem s) p dev, index_swap := index_swap s + 1\<rparr>))
         else Inr (0, s)))"

definition get_device_by_class ::
  "u8 \<Rightarrow> u8 \<Rightarrow> addr \<Rightarrow> int \<Rightarrow> 'a pci_sys_scheme \<Rightarrow> (int \<times> 'a pci_sys_scheme) result" where
  "get_device_by_class classcode subclass buf bufsz s =
     (let s = s\<lparr>index_swap := 0, classcode_swap := classcode, subclass_swap := subclass, buf_swap := buf, bufsz_swap := bufsz\<rparr> in
      bindE (list_iter (load32 (mem s) (pci_device_list s)) callback2 s) (\<lambda>s. Inr (index_swap s, s)))"

section \<open>Properties\<close>

text \<open>The fields of a configuration address, as the bus decodes them.\<close>

lemma high_bit_clear: "unat (x :: u8) < 2 ^ k \<Longrightarrow> k \<le> n \<Longrightarrow> \<not> bit x n"
proof
  assume x: "unat x < 2 ^ k" "k \<le> n" "bit x n"
  have "take_bit k (unat x) = unat x" using x(1) by (simp add: take_bit_nat_eq_self_iff)
  moreover have "bit (unat x) n" using x(3) by (simp add: bit_unsigned_iff)
  ultimately show False using x(2) by (metis bit_take_bit_iff not_le)
qed

lemma byte_bits: "8 \<le> n \<Longrightarrow> \<not> bit (x :: u8) n"
  by (auto dest: bit_imp_le_length)

lemma offset_mask: "(0xFC :: u32) = push_bit 2 (mask 6)" "(0xFC :: u8) = push_bit 2 (mask 6)"
  by (simp_all add: mask_eq_exp_minus_1)

lemma bit_enable: "bit (0x80000000 :: u32) n \<longleftrightarrow> n = 31"
proof -
  have "(0x80000000 :: u32) = 2 ^ 31" by simp
  then show ?thesis by (simp only: bit_exp_iff) (auto simp: possible_bit_def)
qed

lemma bit_pci_address:
  assumes "unat dev < 32" and "unat func < 8"
  shows "bit (pci_address bus dev func offset) n \<longleftrightarrow> n < 32 \<and> (n = 31 \<or> 16 \<le> n \<and> n < 24 \<and> bit bus (n - 16)
      \<or> 11 \<le> n \<and> n < 16 \<and> bit dev (n - 11) \<or> 8 \<le> n \<and> n < 11 \<and> bit func (n - 8) \<or> 2 \<le> n \<and> n < 8 \<and> bit offset n)"
proof -
  have sh: "bit (push_bit k (ucast x :: u32)) n \<longleftrightarrow> n < 32 \<and> k \<le> n \<and> bit x (n - k)" for k and x :: u8
    by (auto simp: bit_push_bit_iff bit_ucast_iff)
  have lo: "bit (ucast offset AND push_bit 2 (mask 6) :: u32) n \<longleftrightarrow> 2 \<le> n \<and> n < 8 \<and> bit offset n"
    by (auto simp: bit_and_iff bit_push_bit_iff bit_ucast_iff bit_mask_iff)
  have "16 \<le> n \<and> bit bus (n - 16) \<longleftrightarrow> 16 \<le> n \<and> n < 24 \<and> bit bus (n - 16)"
    using byte_bits [of "n - 16" bus] by linarith
  moreover have "11 \<le> n \<and> bit dev (n - 11) \<longleftrightarrow> 11 \<le> n \<and> n < 16 \<and> bit dev (n - 11)"
    using high_bit_clear [of dev 5 "n - 11"] assms(1) by force
  moreover have "8 \<le> n \<and> bit func (n - 8) \<longleftrightarrow> 8 \<le> n \<and> n < 11 \<and> bit func (n - 8)"
    using high_bit_clear [of func 3 "n - 8"] assms(2) by force
  moreover have "n = 31 \<Longrightarrow> n < 32" "n < 8 \<Longrightarrow> n < 32" by simp_all
  ultimately show ?thesis unfolding pci_address_def offset_mask(1) bit_or_iff sh lo bit_enable by argo
qed

lemma pci_address_fields:
  assumes "unat dev < 32" and "unat func < 8"
  shows "take_bit 8 (drop_bit 16 (pci_address bus dev func offset)) = ucast bus"
    and "take_bit 5 (drop_bit 11 (pci_address bus dev func offset)) = ucast dev"
    and "take_bit 3 (drop_bit 8 (pci_address bus dev func offset)) = ucast func"
    and "take_bit 8 (pci_address bus dev func offset) = ucast (offset AND 0xFC)"
    and "bit (pci_address bus dev func offset) 31"
proof -
  note b = bit_pci_address [OF assms] and bits = bit_take_bit_iff bit_drop_bit_eq bit_ucast_iff
  have d: "\<not> bit dev n" if "5 \<le> n" for n using high_bit_clear [of dev 5 n] assms(1) that by simp
  have f: "\<not> bit func n" if "3 \<le> n" for n using high_bit_clear [of func 3 n] assms(2) that by simp
  show "take_bit 8 (drop_bit 16 (pci_address bus dev func offset)) = ucast bus"
  proof (rule bit_word_eqI)
    fix n show "bit (take_bit 8 (drop_bit 16 (pci_address bus dev func offset))) n = bit (ucast bus :: u32) n"
      by (cases "n < 8") (simp_all add: bits b byte_bits)
  qed
  show "take_bit 5 (drop_bit 11 (pci_address bus dev func offset)) = ucast dev"
  proof (rule bit_word_eqI)
    fix n show "bit (take_bit 5 (drop_bit 11 (pci_address bus dev func offset))) n = bit (ucast dev :: u32) n"
      by (cases "n < 5") (simp_all add: bits b d)
  qed
  show "take_bit 3 (drop_bit 8 (pci_address bus dev func offset)) = ucast func"
  proof (rule bit_word_eqI)
    fix n show "bit (take_bit 3 (drop_bit 8 (pci_address bus dev func offset))) n = bit (ucast func :: u32) n"
      by (cases "n < 3") (simp_all add: bits b f)
  qed
  show "take_bit 8 (pci_address bus dev func offset) = ucast (offset AND 0xFC)"
    unfolding offset_mask
  proof (rule bit_word_eqI)
    fix n show "bit (take_bit 8 (pci_address bus dev func offset)) n = bit (ucast (offset AND push_bit 2 (mask 6)) :: u32) n"
      by (cases "n < 8") (auto simp: bits bit_and_iff bit_push_bit_iff bit_mask_iff b byte_bits)
  qed
  show "bit (pci_address bus dev func offset) 31" by (simp add: b)
qed

text \<open>A well-formed device list: every node's data pointer is a mapped device.\<close>

definition devices_ok :: "'a pci_sys_scheme \<Rightarrow> addr list \<Rightarrow> bool" where
  "devices_ok s xs \<longleftrightarrow> list_at (mem s) (pci_device_list s) xs \<and> (\<forall>x \<in> set xs. mapped (node_data (mem s) x))"

definition id_matches :: "memory \<Rightarrow> u8 \<Rightarrow> u8 \<Rightarrow> u8 \<Rightarrow> addr \<Rightarrow> bool" where
  "id_matches m bus device function x \<longleftrightarrow> (let dev = node_data m x in
     pci_bus m dev = bus \<and> pci_device m dev = device \<and> pci_function m dev = function)"

lemma callback1_mem: "callback1 u s = Inr (r, s') \<Longrightarrow> mem s' = mem s"
  by (auto simp: callback1_def Let_def deref_def split: if_splits)

lemma iter_callback1:
  "\<forall>x \<in> set xs. mapped x \<and> mapped (node_data (mem s) x) \<Longrightarrow>
     iter_list callback1 xs s = Inr (case List.find (id_matches (mem s) (bus_swap s) (device_swap s) (function_swap s)) xs of
       None \<Rightarrow> s | Some x \<Rightarrow> s\<lparr>swap1 := node_data (mem s) x\<rparr>)"
  by (induction xs) (auto simp: callback1_def id_matches_def Let_def)

lemma get_device_by_id_found:
  assumes "devices_ok s xs"
  shows "\<exists>s'. get_device_by_id bus device function s = Inr
      (case List.find (id_matches (mem s) bus device function) xs of None \<Rightarrow> 0 | Some x \<Rightarrow> node_data (mem s) x, s')
    \<and> mem s' = mem s"
proof -
  define s0 where "s0 = s\<lparr>swap1 := 0, bus_swap := bus, device_swap := device, function_swap := function\<rparr>"
  have f0: "mem s0 = mem s" "bus_swap s0 = bus" "device_swap s0 = device" "function_swap s0 = function" by (simp_all add: s0_def)
  have at: "list_at (mem s) (pci_device_list s) xs" using assms by (simp add: devices_ok_def)
  have "list_iter (load32 (mem s0) (pci_device_list s0)) callback1 s0 = iter_list callback1 xs s0"
    using at by (intro list_iter_spec) (auto simp: list_at_def s0_def dest!: callback1_mem)
  also have "\<dots> = Inr (case List.find (id_matches (mem s) bus device function) xs of None \<Rightarrow> s0 | Some x \<Rightarrow> s0\<lparr>swap1 := node_data (mem s) x\<rparr>)"
    using assms iter_callback1 [of xs s0] unfolding f0 by (simp add: devices_ok_def list_at_def dll_def nodes_ok_def)
  finally have "list_iter (load32 (mem s0) (pci_device_list s0)) callback1 s0
    = Inr (case List.find (id_matches (mem s) bus device function) xs of None \<Rightarrow> s0 | Some x \<Rightarrow> s0\<lparr>swap1 := node_data (mem s) x\<rparr>)" .
  then show ?thesis
    unfolding get_device_by_id_def Let_def s0_def [symmetric]
    by (cases "List.find (id_matches (mem s) bus device function) xs") (auto simp: s0_def)
qed

text \<open>
  \<open>get_device_by_id\<close> ends on every well-formed device list and returns the first device with
  the given bus, device and function number, or a null pointer when there is none; it changes
  no memory.
\<close>

theorem get_device_by_id_correct:
  assumes "devices_ok s xs"
  shows "\<exists>s'. get_device_by_id bus device function s = Inr
      (case List.find (id_matches (mem s) bus device function) xs of None \<Rightarrow> 0 | Some x \<Rightarrow> node_data (mem s) x, s')
    \<and> mem s' = mem s"
  using get_device_by_id_found [OF assms] .

definition class_matches :: "memory \<Rightarrow> u8 \<Rightarrow> u8 \<Rightarrow> addr \<Rightarrow> bool" where
  "class_matches m classcode subclass x \<longleftrightarrow> (let dev = node_data m x in pci_classcode m dev = classcode \<and> pci_subclass m dev = subclass)"

lemma callback2_mem: "callback2 u s = Inr (0, s') \<Longrightarrow> mem s' = mem s"
  by (auto simp: callback2_def Let_def deref_def split: if_splits)

lemma iter_callback2:
  "\<lbrakk>\<forall>x \<in> set xs. mapped x \<and> mapped (node_data (mem s) x); index_swap s = 0; 0 \<le> bufsz_swap s; mapped (buf_swap s)\<rbrakk> \<Longrightarrow>
     iter_list callback2 xs s = Inr (case List.find (class_matches (mem s) (classcode_swap s) (subclass_swap s)) xs of
       None \<Rightarrow> s | Some x \<Rightarrow> s\<lparr>mem := store32 (mem s) (buf_swap s) (node_data (mem s) x), index_swap := 1\<rparr>)"
  by (induction xs) (auto simp: callback2_def class_matches_def Let_def)

text \<open>
  \<open>get_device_by_class\<close> never reports more than one device: its callback asks the iteration to
  stop at the first match, so only the first device of the class is stored, in the first cell of
  the caller's buffer, and the result is 1 however many devices of the class are listed and
  however large the buffer is.
\<close>

theorem get_device_by_class_first_only:
  assumes "devices_ok s xs" and "mapped buf" and "0 \<le> bufsz"
  shows "\<exists>s'. get_device_by_class classcode subclass buf bufsz s = Inr
      (if \<exists>x \<in> set xs. class_matches (mem s) classcode subclass x then 1 else 0, s')
    \<and> mem s' = (case List.find (class_matches (mem s) classcode subclass) xs of
        None \<Rightarrow> mem s | Some x \<Rightarrow> store32 (mem s) buf (node_data (mem s) x))"
proof -
  define s0 where "s0 = s\<lparr>index_swap := 0, classcode_swap := classcode, subclass_swap := subclass, buf_swap := buf, bufsz_swap := bufsz\<rparr>"
  have f0: "mem s0 = mem s" "classcode_swap s0 = classcode" "subclass_swap s0 = subclass" "buf_swap s0 = buf"
    "bufsz_swap s0 = bufsz" "index_swap s0 = 0" by (simp_all add: s0_def)
  have at: "list_at (mem s) (pci_device_list s) xs" using assms by (simp add: devices_ok_def)
  have "list_iter (load32 (mem s0) (pci_device_list s0)) callback2 s0 = iter_list callback2 xs s0"
    using at by (intro list_iter_spec) (auto simp: list_at_def s0_def dest!: callback2_mem)
  also have "\<dots> = Inr (case List.find (class_matches (mem s) classcode subclass) xs of
      None \<Rightarrow> s0 | Some x \<Rightarrow> s0\<lparr>mem := store32 (mem s) buf (node_data (mem s) x), index_swap := 1\<rparr>)"
    using assms iter_callback2 [of xs s0] unfolding f0 by (simp add: devices_ok_def list_at_def dll_def nodes_ok_def)
  finally have r: "list_iter (load32 (mem s0) (pci_device_list s0)) callback2 s0
    = Inr (case List.find (class_matches (mem s) classcode subclass) xs of
        None \<Rightarrow> s0 | Some x \<Rightarrow> s0\<lparr>mem := store32 (mem s) buf (node_data (mem s) x), index_swap := 1\<rparr>)" .
  show ?thesis
  proof (cases "List.find (class_matches (mem s) classcode subclass) xs")
    case None
    then have "\<not> (\<exists>x \<in> set xs. class_matches (mem s) classcode subclass x)" by (auto simp: find_None_iff)
    then show ?thesis using r None unfolding get_device_by_class_def Let_def s0_def [symmetric] by (auto simp: f0)
  next
    case (Some x)
    then have "\<exists>x \<in> set xs. class_matches (mem s) classcode subclass x" by (auto simp: find_Some_iff)
    then show ?thesis using r Some unfolding get_device_by_class_def Let_def s0_def [symmetric] by (auto simp: f0)
  qed
qed

text \<open>A ring of two disk controllers, functions 0 and 1 of device 3 on bus 0.\<close>

definition two_devices_mem :: memory where
  "two_devices_mem =
     store32 (store32 (store32 (store32 (store32 (store32 (store32
       ((\<lambda>_. 0)(0xc0002001 := 3, 0xc0002008 := 1, 0xc0002009 := 1, 0xc0002041 := 3, 0xc0002042 := 1, 0xc0002048 := 1, 0xc0002049 := 1))
       0xc0000800 0xc0001000) 0xc0001000 0xc0001010) 0xc0001004 0xc0001010) 0xc0001008 0xc0002000)
       0xc0001010 0xc0001000) 0xc0001014 0xc0001000) 0xc0001018 0xc0002040"

definition two_devices :: pci_sys where
  "two_devices = cpu_sys.extend (cpu_state\<lparr>mem := two_devices_mem\<rparr>)
     \<lparr>pci_device_list = 0xc0000800, swap1 = 0, bus_swap = 0, device_swap = 0, function_swap = 0, classcode_swap = 0,
      subclass_swap = 0, bufsz_swap = 0, buf_swap = 0, index_swap = 0\<rparr>"

lemma two_devices_mem_simps [simp]:
  "load32 two_devices_mem 0xc0000800 = 0xc0001000" "load32 two_devices_mem 0xc0001008 = 0xc0002000"
  "load32 two_devices_mem 0xc0001018 = 0xc0002040" "load32 two_devices_mem 0xc0001000 = 0xc0001010"
  "load32 two_devices_mem 0xc0001004 = 0xc0001010" "load32 two_devices_mem 0xc0001010 = 0xc0001000" "load32 two_devices_mem 0xc0001014 = 0xc0001000"
  by (simp_all add: two_devices_mem_def load32_store32_apart)

lemma two_devices_bytes [simp]:
  "two_devices_mem 0xc0002000 = 0" "two_devices_mem 0xc0002001 = 3" "two_devices_mem 0xc0002002 = 0"
  "two_devices_mem 0xc0002008 = 1" "two_devices_mem 0xc0002009 = 1" "two_devices_mem 0xc0002040 = 0"
  "two_devices_mem 0xc0002041 = 3" "two_devices_mem 0xc0002042 = 1" "two_devices_mem 0xc0002048 = 1" "two_devices_mem 0xc0002049 = 1"
  by (simp_all add: two_devices_mem_def store32_other)

lemma two_devices_mem_eq [simp]: "mem two_devices = two_devices_mem"
  by (simp add: two_devices_def cpu_sys.defs)

lemma two_devices_ok: "devices_ok two_devices [0xc0001000, 0xc0001010]"
  by (simp add: devices_ok_def two_devices_def cpu_sys.defs list_at_def dll_def nodes_ok_def sep_def mapped_def)

theorem get_device_by_id_correct_witness:
  "\<exists>s'. get_device_by_id 0 3 1 two_devices = Inr (0xc0002040, s') \<and> mem s' = mem two_devices"
  using get_device_by_id_correct [OF two_devices_ok, of 0 3 1] by (simp add: id_matches_def)

theorem get_device_by_class_first_only_witness:
  "\<exists>s'. get_device_by_class 1 1 0xc0003000 8 two_devices = Inr (1, s')
    \<and> mem s' = store32 two_devices_mem 0xc0003000 0xc0002000"
  using get_device_by_class_first_only [OF two_devices_ok, of "0xc0003000" 8 1 1] by (simp add: class_matches_def mapped_def)

end
