(* ===== verification/Kernel_Sched.thy ===== *)
theory Kernel_Sched
  imports Drivers_Pci
begin

text \<open>
  \<open>kernel/sched.c\<close> and \<open>kernel/time.c\<close>: the task table, the round-robin scheduler run by the
  timer interrupt, and the timer itself. A task is a 72-byte struct of the static array
  \<open>tss_list\<close>; \<open>esp_swap\<close> is the cell of the interrupt entry code that holds the interrupted
  stack pointer. The addresses of \<open>init\<close>, of the literal \<open>"/"\<close> and of \<open>pit_int\<close> are fields of
  the state.
\<close>

abbreviation (input) task_pid :: "memory \<Rightarrow> addr \<Rightarrow> u32" where "task_pid m t \<equiv> load32 m t"
abbreviation (input) task_kernel_stack :: "memory \<Rightarrow> addr \<Rightarrow> addr" where "task_kernel_stack m t \<equiv> load32 m (t + 4)"
abbreviation (input) task_int_stack :: "addr \<Rightarrow> addr" where "task_int_stack t \<equiv> t + 8"
abbreviation (input) task_generic_stack :: "addr \<Rightarrow> addr" where "task_generic_stack t \<equiv> t + 20"
abbreviation (input) task_status :: "memory \<Rightarrow> addr \<Rightarrow> u32" where "task_status m t \<equiv> load32 m (t + 64)"
abbreviation (input) task_pwd :: "memory \<Rightarrow> addr \<Rightarrow> addr" where "task_pwd m t \<equiv> load32 m (t + 68)"

abbreviation (input) RUNNABLE :: u32 where "RUNNABLE \<equiv> 1"
abbreviation (input) RUNNING :: u32 where "RUNNING \<equiv> 2"
abbreviation (input) NEW :: u32 where "NEW \<equiv> 4"
abbreviation (input) MAX_TASK :: u32 where "MAX_TASK \<equiv> 256"

abbreviation (input) PIT_DATA0 :: u16 where "PIT_DATA0 \<equiv> 0x40"
abbreviation (input) PIT_CMD :: u16 where "PIT_CMD \<equiv> 0x43"
abbreviation (input) PIT_VECTOR :: u8 where "PIT_VECTOR \<equiv> 32"
abbreviation (input) PIT_PIN :: u8 where "PIT_PIN \<equiv> 2"
abbreviation (input) DIVISOR :: u32 where "DIVISOR \<equiv> 1193180 div 100"

record sched_sys = pci_sys +
  tss_list :: addr
  used_index :: u32
  curr_index :: u32
  curr_task :: addr
  worker_stack_top :: addr
  next_pid :: u32
  esp_swap :: addr
  jeffies :: u32
  lit_slash :: addr
  init_entry :: addr
  pit_int :: addr

section \<open>Operations\<close>

definition task_at :: "'a sched_sys_scheme \<Rightarrow> u32 \<Rightarrow> addr" where
  "task_at s i = tss_list s + 72 * i"

definition new_tss :: "addr \<Rightarrow> 'a sched_sys_scheme \<Rightarrow> (addr \<times> 'a sched_sys_scheme) result" where
  "new_tss entry s =
     (if used_index s > MAX_TASK - 1 then Inl (Panic ''tss full'')
      else let new = task_at s (used_index s) in
       deref new
        (let m = memset (mem s) new 0 72;
             m = store32 m new (next_pid s);
             m = store32 m (new + 68) (lit_slash s);
             m = store32 m (new + 64) NEW;
             m = store32 m (task_int_stack new + 4) (push_bit 2 2);
             m = store32 m (task_int_stack new + 8) 0x282;
             m = store32 m (task_int_stack new) entry;
             (page, s) = palloc ZONE_KERNEL 4096 (s\<lparr>mem := m, next_pid := next_pid s + 1\<rparr>);
             m = store32 (mem s) (new + 4) (page + 0xfff);
             m = store32 m (task_generic_stack new) 0;
             m = store16 m (task_generic_stack new + 14) (push_bit 3 2);
             m = store16 m (task_generic_stack new + 12) (push_bit 3 2);
             m = store16 m (task_generic_stack new + 10) (push_bit 3 2);
             m = store16 m (task_generic_stack new + 8) (push_bit 3 2);
             m = store16 m (task_generic_stack new + 6) (push_bit 3 2)
         in Inr (new, s\<lparr>mem := m, used_index := used_index s + 1\<rparr>)))"

text \<open>The loop of \<open>sched_init\<close>, from task \<open>i\<close> on.\<close>

primrec clear_tasks :: "nat \<Rightarrow> addr \<Rightarrow> memory \<Rightarrow> memory" where
  "clear_tasks 0 p m = m"
| "clear_tasks (Suc n) p m = clear_tasks n (p + 72) (memset m p 0 72)"

definition sched_init :: "'a sched_sys_scheme \<Rightarrow> 'a sched_sys_scheme result" where
  "sched_init s =
     (let s = s\<lparr>mem := clear_tasks 256 (tss_list s) (mem s)\<rparr> in
      bindE (new_tss (init_entry s) s) (\<lambda>(_, s).
      let (page, s) = palloc ZONE_KERNEL 4096 s in Inr (s\<lparr>worker_stack_top := page + 0xfff\<rparr>)))"

definition save_to :: "addr \<Rightarrow> addr \<Rightarrow> 'a sched_sys_scheme \<Rightarrow> 'a sched_sys_scheme result" where
  "save_to stack_frame tss s =
     deref tss (deref (esp_swap s) (deref stack_frame
      (let m = memcpy (mem s) (task_int_stack tss) (esp_swap s) 12;
           m = memcpy m (task_generic_stack tss) stack_frame 44
       in Inr (s\<lparr>mem := store32 m (tss + 4) (esp_swap s)\<rparr>))))"

definition switch_to :: "addr \<Rightarrow> addr \<Rightarrow> 'a sched_sys_scheme \<Rightarrow> 'a sched_sys_scheme result" where
  "switch_to stack_frame tss s =
     deref tss (deref (esp_swap s) (deref stack_frame
      (let m = memcpy (mem s) (esp_swap s) (task_int_stack tss) 12;
           m = memcpy m stack_frame (task_generic_stack tss) 44
       in Inr (s\<lparr>mem := m, esp_swap := task_kernel_stack m tss\<rparr>))))"

definition switch_to_new :: "addr \<Rightarrow> addr \<Rightarrow> 'a sched_sys_scheme \<Rightarrow> 'a sched_sys_scheme result" where
  "switch_to_new stack_frame tss s =
     deref tss (deref stack_frame
      (let m = memcpy (mem s) stack_frame (task_generic_stack tss) 44;
           new_kernel_stack = task_kernel_stack m tss - 12 in
       deref new_kernel_stack
        (let m = memcpy m new_kernel_stack (task_int_stack tss) 12
         in Inr (s\<lparr>mem := store32 m (tss + 4) new_kernel_stack, esp_swap := new_kernel_stack\<rparr>))))"

definition do_sched :: "addr \<Rightarrow> 'a sched_sys_scheme \<Rightarrow> 'a sched_sys_scheme result" where
  "do_sched stack_frame s =
     (let last = task_at s (curr_index s);
          next_index = curr_index s + 1;
          next_index = (if next_index > MAX_TASK - 1 \<or> task_pid (mem s) (task_at s next_index) = 0 then 0 else next_index);
          s = s\<lparr>curr_index := next_index\<rparr>;
          next = task_at s next_index in
      bindE (if task_status (mem s) last \<noteq> NEW
             then bindE (save_to stack_frame last s) (\<lambda>s. Inr (s\<lparr>mem := store32 (mem s) (last + 64) RUNNABLE\<rparr>))
             else Inr s) (\<lambda>s.
      bindE (if task_status (mem s) next = NEW then switch_to_new stack_frame next s else Inr s) (\<lambda>s.
      bindE (if task_status (mem s) next = RUNNABLE then switch_to stack_frame next s else Inr s) (\<lambda>s.
      Inr (s\<lparr>mem := store32 (mem s) (next + 64) RUNNING, curr_task := next\<rparr>)))))"

definition pit_init :: "'a sched_sys_scheme \<Rightarrow> 'a sched_sys_scheme result" where
  "pit_init s =
     bindE (ioapic_enable PIT_VECTOR PIT_PIN (set_int_gate PIT_VECTOR (pit_int s) s)) (\<lambda>s.
     let s = outb PIT_CMD (push_bit 6 0 OR push_bit 4 3 OR push_bit 1 2) s;
         s = outb PIT_DATA0 (ucast (DIVISOR AND 0xff)) s
     in Inr (outb PIT_DATA0 (ucast (drop_bit 8 DIVISOR AND 0xff)) s))"

definition do_pit_int :: "addr \<Rightarrow> 'a sched_sys_scheme \<Rightarrow> 'a sched_sys_scheme result" where
  "do_pit_int stack_frame s =
     bindE (do_sched stack_frame (s\<lparr>jeffies := jeffies s + 1\<rparr>)) eoi_apic"

end
