(* ===== verification/Kernel_Sched_Inv.thy ===== *)
theory Kernel_Sched_Inv
  imports Kernel_Sched
begin

text \<open>
  The scheduler invariant: which slots of the task table are in use, the state each task is in,
  and that the processor is handed round in table order. A tick is one call of \<open>do_sched\<close> with
  the interrupted stack in \<open>esp_swap\<close>; between two ticks the tasks may change any memory outside
  the table.
\<close>

definition table_ok :: "'a sched_sys_scheme \<Rightarrow> bool" where
  "table_ok s \<longleftrightarrow> mapped (tss_list s) \<and> unat (tss_list s) + 18432 \<le> 2 ^ 32"

definition off_table :: "'a sched_sys_scheme \<Rightarrow> addr \<Rightarrow> nat \<Rightarrow> bool" where
  "off_table s p k \<longleftrightarrow> mapped p \<and> sep p k (tss_list s) 18432"

definition task :: "'a sched_sys_scheme \<Rightarrow> nat \<Rightarrow> addr" where
  "task s i = task_at s (of_nat i)"

definition pid_of :: "'a sched_sys_scheme \<Rightarrow> nat \<Rightarrow> u32" where
  "pid_of s i = task_pid (mem s) (task s i)"

definition status_of :: "'a sched_sys_scheme \<Rightarrow> nat \<Rightarrow> u32" where
  "status_of s i = task_status (mem s) (task s i)"

definition stack_of :: "'a sched_sys_scheme \<Rightarrow> nat \<Rightarrow> addr" where
  "stack_of s i = task_kernel_stack (mem s) (task s i)"

text \<open>The registers and the return frame in the record of a task.\<close>

definition regs_of :: "'a sched_sys_scheme \<Rightarrow> nat \<Rightarrow> u8 list" where
  "regs_of s i = bytes_at (mem s) (task_generic_stack (task s i)) 44"

definition frame_of :: "'a sched_sys_scheme \<Rightarrow> nat \<Rightarrow> u8 list" where
  "frame_of s i = bytes_at (mem s) (task_int_stack (task s i)) 12"

text \<open>The first \<open>n\<close> slots are tasks, the others are free; at most the current task is running.\<close>

definition sched_ok :: "nat \<Rightarrow> 'a sched_sys_scheme \<Rightarrow> bool" where
  "sched_ok n s \<longleftrightarrow> table_ok s \<and> n \<le> 256 \<and> unat (curr_index s) < n
     \<and> (\<forall>i < 256. pid_of s i = 0 \<longleftrightarrow> n \<le> i)
     \<and> (\<forall>i < n. status_of s i \<in> {RUNNABLE, RUNNING, NEW}
          \<and> (status_of s i = NEW \<longrightarrow> off_table s (stack_of s i - 12) 12)
          \<and> (status_of s i = RUNNING \<longrightarrow> i = unat (curr_index s)))"

section \<open>Frames over the task table\<close>

lemma task_update [simp]:
  "task (s\<lparr>mem := m\<rparr>) i = task s i" "task (s\<lparr>esp_swap := e\<rparr>) i = task s i"
  "task (s\<lparr>curr_index := c\<rparr>) i = task s i" "task (s\<lparr>curr_task := t\<rparr>) i = task s i"
  by (simp_all add: task_def task_at_def)

lemma task_addr:
  assumes "table_ok s" and "i < 256" and "unat k < 72"
  shows "unat (task s i + k) = unat (tss_list s) + 72 * i + unat k"
proof -
  have "task s i = tss_list s + of_nat (72 * i)" by (simp add: task_def task_at_def)
  then have "unat (task s i) = unat (tss_list s) + 72 * i"
    using assms by (simp add: table_ok_def unat_add_of_nat del: of_nat_mult)
  then show ?thesis using assms by (simp add: table_ok_def unat_add_word)
qed

lemmas task_addr0 = task_addr [where k = 0, simplified]

lemma task_mapped:
  assumes "table_ok s" and "i < 256"
  shows "mapped (task s i)"
  using assms task_addr0 [OF assms] by (simp add: table_ok_def mapped_def word_le_nat_alt)

text \<open>Process ids and states of all tasks are kept, and so are the stacks of the tasks outside \<open>J\<close>.\<close>

definition task_frame :: "'a sched_sys_scheme \<Rightarrow> nat set \<Rightarrow> memory \<Rightarrow> memory \<Rightarrow> bool" where
  "task_frame s J m m' \<longleftrightarrow> (\<forall>j < 256. load32 m' (task s j) = load32 m (task s j)
     \<and> load32 m' (task s j + 64) = load32 m (task s j + 64)
     \<and> (j \<notin> J \<longrightarrow> load32 m' (task s j + 4) = load32 m (task s j + 4)))"

lemma task_frame_refl [simp]: "task_frame s J m m"
  by (simp add: task_frame_def)

lemma task_frame_trans: "task_frame s J m m' \<Longrightarrow> task_frame s J m' m'' \<Longrightarrow> task_frame s J m m''"
  by (simp add: task_frame_def)

lemma task_frame_mono: "task_frame s J m m' \<Longrightarrow> J \<subseteq> K \<Longrightarrow> task_frame s K m m'"
  by (auto simp: task_frame_def)

lemma task_frame_off:
  assumes "table_ok s" and "sep p k (tss_list s) 18432" and "same_off (block p k) m m'"
  shows "task_frame s J m m'"
  unfolding task_frame_def
proof (intro allI impI conjI)
  fix j :: nat assume j: "j < 256"
  note a = task_addr0 [OF assms(1) j] task_addr [OF assms(1) j]
  show "load32 m' (task s j) = load32 m (task s j)"
    using assms(2) j by (intro load32_frame [OF assms(3)]) (simp_all add: a sep_def, linarith)
  show "load32 m' (task s j + 64) = load32 m (task s j + 64)"
    using assms(2) j by (intro load32_frame [OF assms(3)]) (simp_all add: a sep_def, linarith)
  show "load32 m' (task s j + 4) = load32 m (task s j + 4)"
    using assms(2) j by (intro load32_frame [OF assms(3)]) (simp_all add: a sep_def, linarith)
qed

text \<open>A write to the saved context of task \<open>i\<close>, between its process id and its state.\<close>

lemma task_frame_context:
  assumes "table_ok s" and "i < 256" and "same_off (block (task s i + 4) 60) m m'"
  shows "task_frame s {i} m m'"
  unfolding task_frame_def
proof (intro allI impI conjI)
  fix j :: nat assume j: "j < 256"
  note a = task_addr0 [OF assms(1) j] task_addr [OF assms(1) j] task_addr [OF assms(1,2)]
  have t: "unat (tss_list s) + 18432 \<le> 2 ^ 32" using assms(1) by (simp add: table_ok_def)
  have c: "j = i \<or> 72 * j + 72 \<le> 72 * i \<or> 72 * i + 72 \<le> 72 * j" by arith
  show "load32 m' (task s j) = load32 m (task s j)"
    using t j c by (intro load32_frame [OF assms(3)]) (simp_all add: a, auto)
  show "load32 m' (task s j + 64) = load32 m (task s j + 64)"
    using t j c by (intro load32_frame [OF assms(3)]) (simp_all add: a, auto)
  show "load32 m' (task s j + 4) = load32 m (task s j + 4)" if "j \<notin> {i}"
    using t j c that by (intro load32_frame [OF assms(3)]) (simp_all add: a, auto)
qed

section \<open>The three context moves\<close>

lemma task_part_sep:
  assumes "table_ok s" and "i < 256" and "sep p n (tss_list s) 18432" and "unat k + l \<le> 72" and "0 < l"
  shows "sep p n (task s i + k) l"
  using assms task_addr [OF assms(1,2), of k] by (auto simp: sep_def)

lemma task_part_block:
  assumes "table_ok s" and "i < 256" and "4 \<le> unat k" and "unat k + l \<le> 64" and "0 < l"
  shows "block (task s i + k) l \<subseteq> block (task s i + 4) 60"
  using assms task_addr [OF assms(1,2), of k] task_addr [OF assms(1,2), of 4] by (intro block_mono) simp_all

lemma save_to_eq:
  assumes "table_ok s" and "i < 256" and "off_table s (esp_swap s) 12" and "off_table s stack_frame 44"
  shows "\<exists>m'. save_to stack_frame (task s i) s = Inr (s\<lparr>mem := m'\<rparr>)
    \<and> same_off (block (task s i + 4) 60) (mem s) m'
    \<and> bytes_at m' (task_int_stack (task s i)) 12 = bytes_at (mem s) (esp_swap s) 12
    \<and> bytes_at m' (task_generic_stack (task s i)) 44 = bytes_at (mem s) stack_frame 44
    \<and> task_kernel_stack m' (task s i) = esp_swap s"
proof -
  let ?t = "task s i"
  define m1 where "m1 = memcpy (mem s) (?t + 8) (esp_swap s) 12"
  define m2 where "m2 = memcpy m1 (?t + 20) stack_frame 44"
  note a = task_addr [OF assms(1,2)]
  have t: "unat (tss_list s) + 18432 \<le> 2 ^ 32" using assms(1) by (simp add: table_ok_def)
  have e: "mapped (esp_swap s)" "sep (?t + 8) 12 (esp_swap s) 12"
    and f: "mapped stack_frame" "sep (?t + 20) 44 stack_frame 44" "sep stack_frame 44 (?t + 8) 12"
    using assms(3,4) by (simp_all add: off_table_def task_part_sep [OF assms(1,2)] sep_sym [OF task_part_sep [OF assms(1,2)]])
  have m1: "same_off (block (?t + 8) 12) (mem s) m1" "bytes_at m1 (?t + 8) 12 = bytes_at (mem s) (esp_swap s) 12"
    unfolding m1_def using memcpy_spec [of "?t + 8" 12 "esp_swap s"] e(2) by simp_all
  have m2: "same_off (block (?t + 20) 44) m1 m2" "bytes_at m2 (?t + 20) 44 = bytes_at m1 stack_frame 44"
    unfolding m2_def using memcpy_spec [of "?t + 20" 44 stack_frame] f(2) by simp_all
  let ?m = "store32 m2 (?t + 4) (esp_swap s)"
  have m3: "same_off (block (?t + 4) 4) m2 ?m" using assms(2) t by (intro store32_same_off) (simp add: a)
  have "save_to stack_frame ?t s = Inr (s\<lparr>mem := ?m\<rparr>)"
    using e f task_mapped [OF assms(1,2)] by (simp add: save_to_def Let_def m1_def m2_def)
  moreover have "same_off (block (?t + 4) 60) (mem s) ?m"
    by (rule same_off_trans [OF same_off_trans [OF same_off_mono [OF m1(1)] same_off_mono [OF m2(1)]] same_off_mono [OF m3]])
      (rule task_part_block [OF assms(1,2)]; simp)+
  moreover have "bytes_at ?m (?t + 8) 12 = bytes_at m2 (?t + 8) 12"
    by (intro bytes_at_same_on same_off_on [OF m3] block_disjI) (use assms(2) t in \<open>simp_all add: a\<close>)
  moreover have "bytes_at m2 (?t + 8) 12 = bytes_at m1 (?t + 8) 12"
    by (intro bytes_at_same_on same_off_on [OF m2(1)] block_disjI) (use assms(2) t in \<open>simp_all add: a\<close>)
  moreover have "bytes_at ?m (?t + 20) 44 = bytes_at m2 (?t + 20) 44"
    by (intro bytes_at_same_on same_off_on [OF m3] block_disjI) (use assms(2) t in \<open>simp_all add: a\<close>)
  moreover have "bytes_at m1 stack_frame 44 = bytes_at (mem s) stack_frame 44"
    using f(3) by (intro bytes_at_same_on same_off_on [OF m1(1)] sep_block [THEN Int_commute [THEN trans]])
      (auto simp: sep_def)
  ultimately show ?thesis using m1(2) m2(2) by (intro exI [of _ ?m]) simp
qed

lemma same_off_table:
  assumes "table_ok s" and "same_off (block p k) m m'" and "sep p k (tss_list s) 18432"
  shows "same_on (block (tss_list s) 18432) m m'"
  by (rule same_off_on [OF assms(2) sep_block [OF assms(3)]])

lemma task_part_bytes:
  assumes "table_ok s" and "i < 256" and "same_on (block (tss_list s) 18432) m m'" and "unat k + l \<le> 72" and "0 < l"
  shows "bytes_at m' (task s i + k) l = bytes_at m (task s i + k) l"
proof (rule bytes_at_same_on)
  have "block (task s i + k) l \<subseteq> block (tss_list s) 18432"
    using assms task_addr [OF assms(1,2), of k] by (intro block_mono) simp_all
  then show "same_on (block (task s i + k) l) m m'" by (rule same_on_mono [OF assms(3)])
  show "unat (task s i + k) + l \<le> 2 ^ 32"
    using assms task_addr [OF assms(1,2), of k] by (simp add: table_ok_def)
qed

lemma bytes_at_sep:
  assumes "same_off (block p k) m m'" and "sep p k q l"
  shows "bytes_at m' q l = bytes_at m q l"
  using assms(2) by (intro bytes_at_same_on same_off_on [OF assms(1)] sep_block) (simp_all add: sep_def)

lemma switch_to_eq:
  assumes "table_ok s" and "i < 256" and "off_table s (esp_swap s) 12" and "off_table s stack_frame 44"
    and "sep (esp_swap s) 12 stack_frame 44"
  shows "\<exists>m'. switch_to stack_frame (task s i) s = Inr (s\<lparr>mem := m', esp_swap := stack_of s i\<rparr>)
    \<and> same_on (block (tss_list s) 18432) (mem s) m' \<and> task_frame s {} (mem s) m'
    \<and> same_off (block (esp_swap s) 12 \<union> block stack_frame 44) (mem s) m'
    \<and> bytes_at m' (esp_swap s) 12 = bytes_at (mem s) (task_int_stack (task s i)) 12
    \<and> bytes_at m' stack_frame 44 = bytes_at (mem s) (task_generic_stack (task s i)) 44"
proof -
  let ?t = "task s i"
  define m1 where "m1 = memcpy (mem s) (esp_swap s) (?t + 8) 12"
  define m2 where "m2 = memcpy m1 stack_frame (?t + 20) 44"
  have e: "mapped (esp_swap s)" "sep (esp_swap s) 12 (tss_list s) 18432" "sep (esp_swap s) 12 (?t + 8) 12"
    and f: "mapped stack_frame" "sep stack_frame 44 (tss_list s) 18432" "sep stack_frame 44 (?t + 20) 44"
    using assms(3,4) by (simp_all add: off_table_def task_part_sep [OF assms(1,2)])
  have m1: "same_off (block (esp_swap s) 12) (mem s) m1" "bytes_at m1 (esp_swap s) 12 = bytes_at (mem s) (?t + 8) 12"
    unfolding m1_def using memcpy_spec [of "esp_swap s" 12 "?t + 8"] e(3) by simp_all
  have m2: "same_off (block stack_frame 44) m1 m2" "bytes_at m2 stack_frame 44 = bytes_at m1 (?t + 20) 44"
    unfolding m2_def using memcpy_spec [of stack_frame 44 "?t + 20"] f(3) by simp_all
  have on1: "same_on (block (tss_list s) 18432) (mem s) m1" and on: "same_on (block (tss_list s) 18432) (mem s) m2"
    using same_off_table [OF assms(1) m1(1) e(2)] same_off_table [OF assms(1) m2(1) f(2)] by (auto intro: same_on_trans)
  have fr: "task_frame s {} (mem s) m2"
    by (rule task_frame_trans [OF task_frame_off [OF assms(1) e(2) m1(1)] task_frame_off [OF assms(1) f(2) m2(1)]])
  have "switch_to stack_frame ?t s = Inr (s\<lparr>mem := m2, esp_swap := stack_of s i\<rparr>)"
    using e f task_mapped [OF assms(1,2)] fr assms(2) by (simp add: switch_to_def Let_def m1_def m2_def task_frame_def stack_of_def)
  moreover have "same_off (block (esp_swap s) 12 \<union> block stack_frame 44) (mem s) m2"
    by (rule same_off_trans [OF same_off_mono [OF m1(1)] same_off_mono [OF m2(1)]]) auto
  moreover have "bytes_at m2 (esp_swap s) 12 = bytes_at m1 (esp_swap s) 12"
    by (rule bytes_at_sep [OF m2(1) sep_sym [OF assms(5)]])
  moreover have "bytes_at m1 (?t + 20) 44 = bytes_at (mem s) (?t + 20) 44"
    by (rule task_part_bytes [OF assms(1,2) on1]) simp_all
  ultimately show ?thesis using m1(2) m2(2) on fr by (intro exI [of _ m2]) simp
qed

lemma switch_to_new_eq:
  assumes "table_ok s" and "i < 256" and "off_table s stack_frame 44" and "off_table s (stack_of s i - 12) 12"
    and "sep (stack_of s i - 12) 12 stack_frame 44"
  shows "\<exists>m'. switch_to_new stack_frame (task s i) s = Inr (s\<lparr>mem := m', esp_swap := stack_of s i - 12\<rparr>)
    \<and> task_frame s {i} (mem s) m' \<and> task_kernel_stack m' (task s i) = stack_of s i - 12
    \<and> same_off (block (task s i + 4) 4 \<union> (block stack_frame 44 \<union> block (stack_of s i - 12) 12)) (mem s) m'
    \<and> bytes_at m' (stack_of s i - 12) 12 = bytes_at (mem s) (task_int_stack (task s i)) 12
    \<and> bytes_at m' stack_frame 44 = bytes_at (mem s) (task_generic_stack (task s i)) 44"
proof -
  let ?t = "task s i" and ?k = "stack_of s i - 12"
  define m1 where "m1 = memcpy (mem s) stack_frame (?t + 20) 44"
  define m2 where "m2 = memcpy m1 ?k (?t + 8) 12"
  note a = task_addr [OF assms(1,2)]
  have t: "unat (tss_list s) + 18432 \<le> 2 ^ 32" using assms(1) by (simp add: table_ok_def)
  have f: "mapped stack_frame" "sep stack_frame 44 (tss_list s) 18432" "sep stack_frame 44 (?t + 20) 44"
    and k: "mapped ?k" "sep ?k 12 (tss_list s) 18432" "sep ?k 12 (?t + 8) 12"
    and st: "sep (?t + 4) 4 ?k 12" "sep (?t + 4) 4 stack_frame 44"
    using assms(3,4) by (simp_all add: off_table_def task_part_sep [OF assms(1,2)] sep_sym [OF task_part_sep [OF assms(1,2)]])
  have m1: "same_off (block stack_frame 44) (mem s) m1" "bytes_at m1 stack_frame 44 = bytes_at (mem s) (?t + 20) 44"
    unfolding m1_def using memcpy_spec [of stack_frame 44 "?t + 20"] f(3) by simp_all
  have m2: "same_off (block ?k 12) m1 m2" "bytes_at m2 ?k 12 = bytes_at m1 (?t + 8) 12"
    unfolding m2_def using memcpy_spec [of ?k 12 "?t + 8"] k(3) by simp_all
  let ?m = "store32 m2 (?t + 4) ?k"
  have m3: "same_off (block (?t + 4) 4) m2 ?m" using assms(2) t by (intro store32_same_off) (simp add: a)
  have fr1: "task_frame s {i} (mem s) m1" by (rule task_frame_off [OF assms(1) f(2) m1(1)])
  have fr0: "task_frame s {} (mem s) m1" by (rule task_frame_off [OF assms(1) f(2) m1(1)])
  have fr: "task_frame s {i} (mem s) ?m"
    by (rule task_frame_trans [OF fr1 task_frame_trans [OF task_frame_off [OF assms(1) k(2) m2(1)]]],
        rule task_frame_context [OF assms(1,2)], rule same_off_mono [OF m3], rule task_part_block [OF assms(1,2)]) simp_all
  have "load32 m1 (?t + 4) = stack_of s i" using fr0 assms(2) by (simp add: task_frame_def stack_of_def)
  then have "switch_to_new stack_frame ?t s = Inr (s\<lparr>mem := ?m, esp_swap := ?k\<rparr>)"
    using f k task_mapped [OF assms(1,2)] by (simp add: switch_to_new_def Let_def m1_def [symmetric] m2_def)
  moreover have "bytes_at ?m ?k 12 = bytes_at m2 ?k 12" by (rule bytes_at_sep [OF m3 st(1)])
  moreover have "bytes_at ?m stack_frame 44 = bytes_at m2 stack_frame 44" by (rule bytes_at_sep [OF m3 st(2)])
  moreover have "bytes_at m2 stack_frame 44 = bytes_at m1 stack_frame 44" by (rule bytes_at_sep [OF m2(1) assms(5)])
  moreover have "bytes_at m1 (?t + 8) 12 = bytes_at (mem s) (?t + 8) 12"
    by (rule task_part_bytes [OF assms(1,2) same_off_table [OF assms(1) m1(1) f(2)]]) simp_all
  moreover have "same_off (block (?t + 4) 4 \<union> (block stack_frame 44 \<union> block ?k 12)) (mem s) ?m"
    by (rule same_off_trans [OF same_off_trans [OF same_off_mono [OF m1(1)] same_off_mono [OF m2(1)]] same_off_mono [OF m3]]) auto
  ultimately show ?thesis using m1(2) m2(2) fr by (intro exI [of _ ?m]) simp
qed

section \<open>One tick\<close>

text \<open>The saved context of every task survives a write to a stack pointer or a state in the table and off the table.\<close>

lemma record_kept:
  assumes "table_ok s" and "i < 256" and "j < 256"
    and off: "same_off (block (task s i + 4) 4 \<union> block (task s i + 64) 4 \<union> B) m m'" and B: "B \<inter> block (tss_list s) 18432 = {}"
    and k: "8 \<le> unat k" "unat k + l \<le> 64" "0 < l"
  shows "bytes_at m' (task s j + k) l = bytes_at m (task s j + k) l"
proof -
  note a = task_addr [OF assms(1,3), of k] task_addr [OF assms(1,2), of 4] task_addr [OF assms(1,2), of 64]
  have T: "unat (tss_list s) + 18432 \<le> 2 ^ 32" using assms(1) by (simp add: table_ok_def)
  have c: "j = i \<or> 72 * j + 72 \<le> 72 * i \<or> 72 * i + 72 \<le> 72 * j" by arith
  have "block (task s i + 4) 4 \<inter> block (task s j + k) l = {}" "block (task s i + 64) 4 \<inter> block (task s j + k) l = {}"
    using a k c by (intro block_disjI; auto)+
  moreover have "block (task s j + k) l \<subseteq> block (tss_list s) 18432" using a k assms(3) by (intro block_mono) simp_all
  ultimately show ?thesis
    using a k assms(3) T B by (intro bytes_at_same_on same_off_on [OF off]) (auto simp: Int_Un_distrib2)
qed

lemma status_off:
  assumes "table_ok s" and "i < 256"
  shows "same_off (block (task s i + 64) 4) m (store32 m (task s i + 64) v)"
  using assms task_addr [OF assms, of 64] by (intro store32_same_off) (simp add: table_ok_def)

lemma status_record_kept:
  assumes "table_ok s" and "i < 256" and "j < 256" and "8 \<le> unat k" "unat k + l \<le> 64" "0 < l"
  shows "bytes_at (store32 m (task s i + 64) v) (task s j + k) l = bytes_at m (task s j + k) l"
  by (rule record_kept [OF assms(1-3) same_off_mono [OF status_off [OF assms(1,2)]], of "{}"]) (use assms(4-6) in auto)

lemma store_status:
  assumes "table_ok s" and "i < 256" and "j < 256"
  shows "load32 (store32 m (task s i + 64) v) (task s j) = load32 m (task s j)"
    and "load32 (store32 m (task s i + 64) v) (task s j + 4) = load32 m (task s j + 4)"
    and "load32 (store32 m (task s i + 64) v) (task s j + 64) = (if j = i then v else load32 m (task s j + 64))"
proof -
  note a = task_addr0 [OF assms(1,3)] task_addr [OF assms(1,3)] task_addr [OF assms(1,2)]
  have t: "unat (tss_list s) + 18432 \<le> 2 ^ 32" using assms(1) by (simp add: table_ok_def)
  have c: "j = i \<or> 72 * j + 72 \<le> 72 * i \<or> 72 * i + 72 \<le> 72 * j" by arith
  have off: "same_off (block (task s i + 64) 4) m (store32 m (task s i + 64) v)"
    using t assms(2) by (intro store32_same_off) (simp add: a)
  show "load32 (store32 m (task s i + 64) v) (task s j) = load32 m (task s j)"
    using t assms(3) c by (intro load32_frame [OF off]) (simp_all add: a, auto)
  show "load32 (store32 m (task s i + 64) v) (task s j + 4) = load32 m (task s j + 4)"
    using t assms(3) c by (intro load32_frame [OF off]) (simp_all add: a, auto)
  have "load32 (store32 m (task s i + 64) v) (task s j + 64) = load32 m (task s j + 64)" if "j \<noteq> i"
    using t assms(3) c that by (intro load32_frame [OF off]) (simp_all add: a, auto)
  then show "load32 (store32 m (task s i + 64) v) (task s j + 64) = (if j = i then v else load32 m (task s j + 64))"
    by simp
qed

lemma context_other_task:
  assumes "table_ok s" and "i < 256" and "j < 256" and "j \<noteq> i" and "same_off (block (task s i + 4) 60) m m'"
    and "unat k + l \<le> 72" and "0 < l"
  shows "bytes_at (store32 m' (task s i + 64) v) (task s j + k) l = bytes_at m (task s j + k) l"
proof -
  have t: "unat (tss_list s) + 18432 \<le> 2 ^ 32" using assms(1) by (simp add: table_ok_def)
  have "same_off (block (task s i + 4) 64) m' (store32 m' (task s i + 64) v)"
    using t assms(2) task_addr [OF assms(1,2)] by (intro same_off_store32) (auto simp: mem_block_iff)
  moreover have "same_off (block (task s i + 4) 64) m m'"
    by (rule same_off_mono [OF assms(5)]) (auto simp: mem_block_iff)
  ultimately have off: "same_off (block (task s i + 4) 64) m (store32 m' (task s i + 64) v)" by (blast intro: same_off_trans)
  have c: "72 * j + 72 \<le> 72 * i \<or> 72 * i + 72 \<le> 72 * j" using assms(4) by arith
  show ?thesis
    using t assms(2,3,6,7) c task_addr [OF assms(1,2), of 4] task_addr [OF assms(1,3), of k]
    by (intro bytes_at_same_on same_off_on [OF off] block_disjI) auto
qed

text \<open>The record of task \<open>j\<close> once the interrupted task has been saved: a task that has run gets the context of the interrupt.\<close>

definition saved_stack :: "'a sched_sys_scheme \<Rightarrow> nat \<Rightarrow> addr" where
  "saved_stack s j = (if j = unat (curr_index s) \<and> status_of s j \<noteq> NEW then esp_swap s else stack_of s j)"

definition saved_regs :: "addr \<Rightarrow> 'a sched_sys_scheme \<Rightarrow> nat \<Rightarrow> u8 list" where
  "saved_regs stack_frame s j = (if j = unat (curr_index s) \<and> status_of s j \<noteq> NEW then bytes_at (mem s) stack_frame 44 else regs_of s j)"

definition saved_frame :: "'a sched_sys_scheme \<Rightarrow> nat \<Rightarrow> u8 list" where
  "saved_frame s j = (if j = unat (curr_index s) \<and> status_of s j \<noteq> NEW then bytes_at (mem s) (esp_swap s) 12 else frame_of s j)"

lemmas saved_defs = saved_stack_def saved_regs_def saved_frame_def regs_of_def frame_of_def

text \<open>The first half of \<open>do_sched\<close>: the interrupted task is saved unless it has never run.\<close>

lemma retire_task:
  assumes "table_ok s" and "i < 256" and "off_table s (esp_swap s) 12" and "off_table s stack_frame 44"
  shows "\<exists>m. (if task_status (mem s) (task s i) \<noteq> NEW
       then bindE (save_to stack_frame (task s i) s) (\<lambda>s'. Inr (s'\<lparr>mem := store32 (mem s') (task s i + 64) RUNNABLE\<rparr>))
       else Inr s) = Inr (s\<lparr>mem := m\<rparr>)
    \<and> (\<forall>j < 256. load32 m (task s j) = pid_of s j
        \<and> load32 m (task s j + 64) = (if j = i \<and> status_of s i \<noteq> NEW then RUNNABLE else status_of s j)
        \<and> load32 m (task s j + 4) = (if j = i \<and> status_of s i \<noteq> NEW then esp_swap s else stack_of s j)
        \<and> bytes_at m (task_generic_stack (task s j)) 44
            = (if j = i \<and> status_of s i \<noteq> NEW then bytes_at (mem s) stack_frame 44 else regs_of s j)
        \<and> bytes_at m (task_int_stack (task s j)) 12
            = (if j = i \<and> status_of s i \<noteq> NEW then bytes_at (mem s) (esp_swap s) 12 else frame_of s j))"
proof (cases "status_of s i = NEW")
  case True
  then show ?thesis
    by (intro exI [of _ "mem s"]) (simp add: status_of_def pid_of_def stack_of_def regs_of_def frame_of_def)
next
  case False
  obtain m1 where m1: "save_to stack_frame (task s i) s = Inr (s\<lparr>mem := m1\<rparr>)"
      "same_off (block (task s i + 4) 60) (mem s) m1"
      "bytes_at m1 (task_int_stack (task s i)) 12 = bytes_at (mem s) (esp_swap s) 12"
      "bytes_at m1 (task_generic_stack (task s i)) 44 = bytes_at (mem s) stack_frame 44"
      "task_kernel_stack m1 (task s i) = esp_swap s"
    using save_to_eq [OF assms] by blast
  let ?m = "store32 m1 (task s i + 64) RUNNABLE"
  have fr: "task_frame s {i} (mem s) m1" by (rule task_frame_context [OF assms(1,2) m1(2)])
  have "load32 ?m (task s j) = pid_of s j \<and> load32 ?m (task s j + 64) = (if j = i then RUNNABLE else status_of s j)
      \<and> load32 ?m (task s j + 4) = (if j = i then esp_swap s else stack_of s j)" if "j < 256" for j
    using store_status [OF assms(1,2) that] fr m1(5) that by (auto simp: status_of_def pid_of_def stack_of_def task_frame_def)
  moreover have "bytes_at ?m (task_generic_stack (task s j)) 44 = (if j = i then bytes_at (mem s) stack_frame 44 else regs_of s j)
      \<and> bytes_at ?m (task_int_stack (task s j)) 12 = (if j = i then bytes_at (mem s) (esp_swap s) 12 else frame_of s j)"
    if "j < 256" for j
    using status_record_kept [OF assms(1,2) that, of 20 44] status_record_kept [OF assms(1,2) that, of 8 12]
      context_other_task [OF assms(1,2) that _ m1(2), of 20 44] context_other_task [OF assms(1,2) that _ m1(2), of 8 12] m1(3,4)
    by (simp add: regs_of_def frame_of_def)
  ultimately show ?thesis using m1(1) False by (intro exI [of _ ?m]) (simp add: status_of_def)
qed

text \<open>The second half: a task that is new or runnable is put on the processor.\<close>

lemma dispatch_task:
  assumes "table_ok s" and "i < 256" and "off_table s (esp_swap s) 12" and "off_table s stack_frame 44"
    and "sep (esp_swap s) 12 stack_frame 44" and "status_of s i \<in> {NEW, RUNNABLE}"
    and "status_of s i = NEW \<Longrightarrow> off_table s (stack_of s i - 12) 12 \<and> sep (stack_of s i - 12) 12 stack_frame 44"
  shows "\<exists>m e. bindE (if task_status (mem s) (task s i) = NEW then switch_to_new stack_frame (task s i) s else Inr s) (\<lambda>s'.
       bindE (if task_status (mem s') (task s i) = RUNNABLE then switch_to stack_frame (task s i) s' else Inr s') k)
     = k (s\<lparr>mem := m, esp_swap := e\<rparr>) \<and> task_frame s {i} (mem s) m
     \<and> e = (if status_of s i = NEW then stack_of s i - 12 else stack_of s i) \<and> task_kernel_stack m (task s i) = e
     \<and> bytes_at m stack_frame 44 = regs_of s i \<and> bytes_at m (if status_of s i = NEW then e else esp_swap s) 12 = frame_of s i
     \<and> (\<forall>j < 256. bytes_at m (task_generic_stack (task s j)) 44 = regs_of s j \<and> bytes_at m (task_int_stack (task s j)) 12 = frame_of s j)"
proof (cases "status_of s i = NEW")
  case True
  obtain m where m: "switch_to_new stack_frame (task s i) s = Inr (s\<lparr>mem := m, esp_swap := stack_of s i - 12\<rparr>)"
      "task_frame s {i} (mem s) m" "task_kernel_stack m (task s i) = stack_of s i - 12"
      "same_off (block (task s i + 4) 4 \<union> (block stack_frame 44 \<union> block (stack_of s i - 12) 12)) (mem s) m"
      "bytes_at m (stack_of s i - 12) 12 = frame_of s i" "bytes_at m stack_frame 44 = regs_of s i"
    using switch_to_new_eq [OF assms(1,2,4)] assms(7) [OF True] unfolding regs_of_def frame_of_def by blast
  have "(block stack_frame 44 \<union> block (stack_of s i - 12) 12) \<inter> block (tss_list s) 18432 = {}"
    using assms(4,7) True sep_block by (simp add: off_table_def Int_Un_distrib2)
  note kept = record_kept [OF assms(1,2) _ same_off_mono [OF m(4)] this]
  have "bytes_at m (task_generic_stack (task s j)) 44 = regs_of s j" "bytes_at m (task_int_stack (task s j)) 12 = frame_of s j"
    if "j < 256" for j unfolding regs_of_def frame_of_def using that by (intro kept; auto)+
  moreover have "task_status m (task s i) = NEW" using m(2) True assms(2) by (simp add: task_frame_def status_of_def)
  ultimately show ?thesis
    using m True by (intro exI [of _ m] exI [of _ "stack_of s i - 12"]) (simp add: status_of_def)
next
  case False
  then have st: "task_status (mem s) (task s i) = RUNNABLE" using assms(6) by (simp add: status_of_def)
  obtain m where m: "switch_to stack_frame (task s i) s = Inr (s\<lparr>mem := m, esp_swap := stack_of s i\<rparr>)" "task_frame s {} (mem s) m"
      "same_on (block (tss_list s) 18432) (mem s) m"
      "bytes_at m (esp_swap s) 12 = frame_of s i" "bytes_at m stack_frame 44 = regs_of s i"
    using switch_to_eq [OF assms(1-5)] unfolding regs_of_def frame_of_def by blast
  have "bytes_at m (task_generic_stack (task s j)) 44 = regs_of s j \<and> bytes_at m (task_int_stack (task s j)) 12 = frame_of s j"
    if "j < 256" for j
    using task_part_bytes [OF assms(1) that m(3), of 20 44] task_part_bytes [OF assms(1) that m(3), of 8 12]
    by (simp add: regs_of_def frame_of_def)
  moreover have "task_kernel_stack m (task s i) = stack_of s i" using m(2) assms(2) by (simp add: task_frame_def stack_of_def)
  ultimately show ?thesis using st False m(1,4,5) task_frame_mono [OF m(2)]
    by (intro exI [of _ m] exI [of _ "stack_of s i"]) simp
qed

text \<open>The stacks of a tick: the interrupted one, the scheduler's, and those of tasks still to be started.\<close>

definition tick_ok :: "nat \<Rightarrow> addr \<Rightarrow> 'a sched_sys_scheme \<Rightarrow> bool" where
  "tick_ok n stack_frame s \<longleftrightarrow> off_table s (esp_swap s) 12 \<and> off_table s stack_frame 44
     \<and> sep (esp_swap s) 12 stack_frame 44
     \<and> (\<forall>i < n. status_of s i = NEW \<longrightarrow> sep (stack_of s i - 12) 12 stack_frame 44)"

definition succ_task :: "nat \<Rightarrow> nat \<Rightarrow> nat" where
  "succ_task n i = (if Suc i < n then Suc i else 0)"

lemma off_table_update [simp]:
  "off_table (s\<lparr>mem := m\<rparr>) = off_table s" "off_table (s\<lparr>esp_swap := e\<rparr>) = off_table s"
  "off_table (s\<lparr>curr_index := c\<rparr>) = off_table s" "off_table (s\<lparr>curr_task := t\<rparr>) = off_table s"
  by (simp_all add: off_table_def fun_eq_iff)

lemma table_ok_update [simp]:
  "table_ok (s\<lparr>mem := m\<rparr>) = table_ok s" "table_ok (s\<lparr>esp_swap := e\<rparr>) = table_ok s"
  "table_ok (s\<lparr>curr_index := c\<rparr>) = table_ok s" "table_ok (s\<lparr>curr_task := t\<rparr>) = table_ok s"
  by (simp_all add: table_ok_def)

lemma next_index:
  assumes "sched_ok n s"
  shows "(if curr_index s + 1 > MAX_TASK - 1 \<or> task_pid (mem s) (task_at s (curr_index s + 1)) = 0 then 0 else curr_index s + 1)
    = of_nat (succ_task n (unat (curr_index s)))"
proof -
  let ?c = "unat (curr_index s)"
  have c: "?c < n" "n \<le> 256" and pid: "\<forall>i < 256. pid_of s i = 0 \<longleftrightarrow> n \<le> i" using assms by (simp_all add: sched_ok_def)
  have i: "curr_index s + 1 = of_nat (Suc ?c)" by simp
  have u: "unat (of_nat (Suc ?c) :: u32) = Suc ?c" using c by (simp add: unat_of_nat del: of_nat_Suc)
  show ?thesis
  proof (cases "Suc ?c < n")
    case True
    then have "pid_of s (Suc ?c) \<noteq> 0" using pid c by auto
    then show ?thesis using True c u unfolding i
      by (simp add: succ_task_def pid_of_def task_def word_less_nat_alt del: of_nat_Suc)
  next
    case False
    then have "pid_of s (Suc ?c) = 0" if "Suc ?c < 256" using pid that by auto
    then have "task_pid (mem s) (task_at s (of_nat (Suc ?c))) = 0 \<or> 256 \<le> Suc ?c" by (auto simp: pid_of_def task_def not_less)
    then show ?thesis using False u unfolding i
      by (auto simp: succ_task_def word_less_nat_alt simp del: of_nat_Suc)
  qed
qed

text \<open>
  The table between the two halves of a tick (the preempted task is runnable again) and after it
  (the next task runs). Both leave the process numbers and the stacks of new tasks alone.
\<close>

definition retired :: "nat \<Rightarrow> 'a sched_sys_scheme \<Rightarrow> 'a sched_sys_scheme \<Rightarrow> bool" where
  "retired d s s1 \<longleftrightarrow> tss_list s1 = tss_list s \<and> esp_swap s1 = esp_swap s \<and> curr_index s1 = of_nat d
     \<and> (\<forall>j < 256. pid_of s1 j = pid_of s j
         \<and> status_of s1 j = (if j = unat (curr_index s) \<and> status_of s j \<noteq> NEW then RUNNABLE else status_of s j)
         \<and> (status_of s1 j = NEW \<longrightarrow> stack_of s1 j = stack_of s j))"

definition rotated :: "nat \<Rightarrow> 'a sched_sys_scheme \<Rightarrow> 'a sched_sys_scheme \<Rightarrow> bool" where
  "rotated d s s2 \<longleftrightarrow> tss_list s2 = tss_list s \<and> curr_index s2 = of_nat d \<and> curr_task s2 = task s d
     \<and> (\<forall>j < 256. pid_of s2 j = pid_of s j
         \<and> status_of s2 j = (if j = d then RUNNING else
             if j = unat (curr_index s) \<and> status_of s j \<noteq> NEW then RUNNABLE else status_of s j)
         \<and> (status_of s2 j = NEW \<longrightarrow> stack_of s2 j = stack_of s j))"

definition recorded :: "addr \<Rightarrow> 'a sched_sys_scheme \<Rightarrow> 'a sched_sys_scheme \<Rightarrow> bool" where
  "recorded stack_frame s s1 \<longleftrightarrow> (\<forall>j < 256. stack_of s1 j = saved_stack s j \<and> regs_of s1 j = saved_regs stack_frame s j
     \<and> frame_of s1 j = saved_frame s j)"

text \<open>
  The context switch of a tick to task \<open>d\<close>: the stack pointer and the registers that the interrupt
  return will load are those of \<open>d\<close>. The return frame of \<open>d\<close> is on the stack that is loaded only if
  \<open>d\<close> is new; otherwise it goes to the interrupted stack. The records of the other tasks are kept, that
  of the interrupted one included.
\<close>

definition switched :: "addr \<Rightarrow> nat \<Rightarrow> 'a sched_sys_scheme \<Rightarrow> 'a sched_sys_scheme \<Rightarrow> bool" where
  "switched stack_frame d s s2 \<longleftrightarrow>
     esp_swap s2 = (if status_of s d = NEW then stack_of s d - 12 else saved_stack s d)
     \<and> bytes_at (mem s2) stack_frame 44 = saved_regs stack_frame s d
     \<and> bytes_at (mem s2) (if status_of s d = NEW then esp_swap s2 else esp_swap s) 12 = saved_frame s d
     \<and> (\<forall>j < 256. stack_of s2 j = (if j = d then esp_swap s2 else saved_stack s j)
          \<and> regs_of s2 j = saved_regs stack_frame s j \<and> frame_of s2 j = saved_frame s j)"

lemma retired_task:
  assumes "retired d s s1" and "j < 256"
  shows "pid_of s1 j = pid_of s j"
    and "status_of s1 j = (if j = unat (curr_index s) \<and> status_of s j \<noteq> NEW then RUNNABLE else status_of s j)"
    and "status_of s1 j = NEW \<Longrightarrow> stack_of s1 j = stack_of s j"
  using assms by (simp_all add: retired_def)

lemma rotated_task:
  assumes "rotated d s s2" and "j < 256"
  shows "pid_of s2 j = pid_of s j"
    and "status_of s2 j = (if j = d then RUNNING else
           if j = unat (curr_index s) \<and> status_of s j \<noteq> NEW then RUNNABLE else status_of s j)"
    and "status_of s2 j = NEW \<Longrightarrow> stack_of s2 j = stack_of s j"
  using assms by (simp_all add: rotated_def)

lemma same_table:
  assumes "tss_list s' = tss_list s"
  shows "task s' = task s" "off_table s' = off_table s" "table_ok s' = table_ok s"
  using assms by (simp_all add: task_def task_at_def off_table_def table_ok_def fun_eq_iff)

lemma tick_retires:
  assumes ok: "sched_ok n s" and tick: "tick_ok n stack_frame s"
  shows "\<exists>s1. (let s0 = s\<lparr>curr_index := of_nat d\<rparr>; last = task_at s (curr_index s) in
       if task_status (mem s0) last \<noteq> NEW
       then bindE (save_to stack_frame last s0) (\<lambda>s'. Inr (s'\<lparr>mem := store32 (mem s') (last + 64) RUNNABLE\<rparr>))
       else Inr s0) = Inr s1 \<and> retired d s s1 \<and> recorded stack_frame s s1"
proof -
  let ?c = "unat (curr_index s)" and ?s0 = "s\<lparr>curr_index := of_nat d\<rparr>"
  have c: "?c < 256" and f: "table_ok ?s0" "off_table ?s0 (esp_swap ?s0) 12" "off_table ?s0 stack_frame 44"
    and g: "task ?s0 = task s" "mem ?s0 = mem s" "status_of ?s0 = status_of s" "pid_of ?s0 = pid_of s" "stack_of ?s0 = stack_of s"
      "esp_swap ?s0 = esp_swap s" "regs_of ?s0 = regs_of s" "frame_of ?s0 = frame_of s"
    using ok tick by (simp_all add: sched_ok_def tick_ok_def fun_eq_iff status_of_def pid_of_def stack_of_def regs_of_def frame_of_def)
  have l: "task_at s (curr_index s) = task s ?c" by (simp add: task_def)
  obtain m where r: "(if task_status (mem s) (task s ?c) \<noteq> NEW
       then bindE (save_to stack_frame (task s ?c) ?s0) (\<lambda>s'. Inr (s'\<lparr>mem := store32 (mem s') (task s ?c + 64) RUNNABLE\<rparr>))
       else Inr ?s0) = Inr (?s0\<lparr>mem := m\<rparr>)"
    and m: "\<forall>j < 256. load32 m (task s j) = pid_of s j
        \<and> load32 m (task s j + 64) = (if j = ?c \<and> status_of s ?c \<noteq> NEW then RUNNABLE else status_of s j)
        \<and> load32 m (task s j + 4) = (if j = ?c \<and> status_of s ?c \<noteq> NEW then esp_swap s else stack_of s j)
        \<and> bytes_at m (task_generic_stack (task s j)) 44
            = (if j = ?c \<and> status_of s ?c \<noteq> NEW then bytes_at (mem s) stack_frame 44 else regs_of s j)
        \<and> bytes_at m (task_int_stack (task s j)) 12
            = (if j = ?c \<and> status_of s ?c \<noteq> NEW then bytes_at (mem s) (esp_swap s) 12 else frame_of s j)"
    using retire_task [OF f(1) c f(2,3)] unfolding g by blast
  have "retired d s (?s0\<lparr>mem := m\<rparr>)"
    using m by (auto simp: retired_def status_of_def pid_of_def stack_of_def g split: if_splits)
  moreover have "recorded stack_frame s (?s0\<lparr>mem := m\<rparr>)"
    using m by (auto simp: recorded_def saved_stack_def saved_regs_def saved_frame_def stack_of_def regs_of_def frame_of_def)
  ultimately show ?thesis using r by (simp add: l)
qed

lemma sched_ok_task:
  assumes "sched_ok n s" and "i < n"
  shows "status_of s i \<in> {RUNNABLE, RUNNING, NEW}" "status_of s i = NEW \<Longrightarrow> off_table s (stack_of s i - 12) 12"
    and "i \<noteq> unat (curr_index s) \<Longrightarrow> status_of s i \<noteq> RUNNING"
  using assms unfolding sched_ok_def by blast+

lemma retired_next:
  assumes ok: "sched_ok n s" and tick: "tick_ok n stack_frame s" and ret: "retired d s s1" and d: "d < n"
  shows "status_of s1 d \<in> {NEW, RUNNABLE}"
    and "status_of s1 d = NEW \<Longrightarrow> off_table s1 (stack_of s1 d - 12) 12 \<and> sep (stack_of s1 d - 12) 12 stack_frame 44"
proof -
  note st = sched_ok_task [OF ok d]
  have new: "status_of s d = NEW \<Longrightarrow> sep (stack_of s d - 12) 12 stack_frame 44" using tick d by (simp add: tick_ok_def)
  have d': "d < 256" and tl: "tss_list s1 = tss_list s" using ok ret d by (simp_all add: sched_ok_def retired_def)
  have s1: "status_of s1 d = (if d = unat (curr_index s) \<and> status_of s d \<noteq> NEW then RUNNABLE else status_of s d)"
    "status_of s1 d = NEW \<longrightarrow> stack_of s1 d = stack_of s d"
    using retired_task [OF ret d'] by simp_all
  show "status_of s1 d \<in> {NEW, RUNNABLE}" using s1(1) st(1,3) by (auto split: if_splits)
  assume "status_of s1 d = NEW"
  then show "off_table s1 (stack_of s1 d - 12) 12 \<and> sep (stack_of s1 d - 12) 12 stack_frame 44"
    using s1 st(2) new by (simp add: same_table(2) [OF tl] split: if_splits)
qed

lemma switched_after_store:
  assumes ok: "sched_ok n s" and tick: "tick_ok n stack_frame s" and ret: "retired d s s1" and d: "d < n"
    and rec: "recorded stack_frame s s1"
    and c: "e = (if status_of s1 d = NEW then stack_of s1 d - 12 else stack_of s1 d)" "task_kernel_stack m (task s d) = e"
      "bytes_at m stack_frame 44 = regs_of s1 d" "bytes_at m (if status_of s1 d = NEW then e else esp_swap s1) 12 = frame_of s1 d"
      "\<forall>j < 256. bytes_at m (task_generic_stack (task s j)) 44 = regs_of s1 j \<and> bytes_at m (task_int_stack (task s j)) 12 = frame_of s1 j"
    and fr: "task_frame s1 {d} (mem s1) m"
  shows "switched stack_frame d s (s1\<lparr>esp_swap := e, mem := store32 m (task s d + 64) RUNNING, curr_task := task s d\<rparr>)"
proof -
  let ?m = "store32 m (task s d + 64) RUNNING"
  have t: "table_ok s" and d': "d < 256" and tl: "tss_list s1 = tss_list s" and es: "esp_swap s1 = esp_swap s"
    using ok ret d by (simp_all add: sched_ok_def retired_def)
  note tab = same_table [OF tl]
  have st: "status_of s1 d = NEW \<longleftrightarrow> status_of s d = NEW" using retired_task(2) [OF ret d'] by auto
  have sv: "stack_of s1 j = saved_stack s j" "regs_of s1 j = saved_regs stack_frame s j" "frame_of s1 j = saved_frame s j" if "j < 256" for j
    using rec that by (simp_all add: recorded_def)
  have keep: "bytes_at ?m p l = bytes_at m p l" if "off_table s p l" for p l
    using that sep_sym [OF task_part_sep [OF t d', of p l 64 4]] by (intro bytes_at_sep [OF status_off [OF t d']]) (simp add: off_table_def)
  have off: "off_table s stack_frame 44" "off_table s (esp_swap s) 12" using tick by (simp_all add: tick_ok_def)
  have "off_table s e 12" if "status_of s d = NEW"
    using retired_next(2) [OF ok tick ret d] that st c(1) by (simp add: tab)
  then have "bytes_at ?m (if status_of s d = NEW then e else esp_swap s) 12 = saved_frame s d"
    using c(4) keep off(2) sv(3) [OF d'] by (simp add: st es split: if_splits)
  moreover have "bytes_at ?m stack_frame 44 = saved_regs stack_frame s d" using c(3) keep [OF off(1)] sv(2) [OF d'] by simp
  moreover have "load32 ?m (task s j + 4) = (if j = d then e else saved_stack s j)" if "j < 256" for j
    using store_status(2) [OF t d' that] c(2) fr sv(1) [OF that] that by (simp add: task_frame_def tab stack_of_def)
  moreover have "bytes_at ?m (task_generic_stack (task s j)) 44 = saved_regs stack_frame s j"
      "bytes_at ?m (task_int_stack (task s j)) 12 = saved_frame s j" if "j < 256" for j
    using status_record_kept [OF t d' that, of 20 44] status_record_kept [OF t d' that, of 8 12] c(5) sv(2,3) [OF that] that by simp_all
  moreover have "saved_stack s d = stack_of s d" if "status_of s d = NEW" using that by (simp add: saved_stack_def)
  then have "e = (if status_of s d = NEW then stack_of s d - 12 else saved_stack s d)" using c(1) sv(1) [OF d'] st by simp
  moreover have "stack_of (s1\<lparr>esp_swap := e, mem := ?m, curr_task := task s d\<rparr>) j = load32 ?m (task s j + 4)" for j
    by (simp add: stack_of_def tab)
  ultimately show ?thesis by (cases "status_of s d = NEW") (simp_all add: switched_def regs_of_def frame_of_def tab)
qed

lemma tick_dispatches:
  assumes ok: "sched_ok n s" and tick: "tick_ok n stack_frame s" and ret: "retired d s s1" and d: "d < n"
    and rec: "recorded stack_frame s s1"
  shows "\<exists>s2. bindE (if task_status (mem s1) (task s d) = NEW then switch_to_new stack_frame (task s d) s1 else Inr s1) (\<lambda>s'.
       bindE (if task_status (mem s') (task s d) = RUNNABLE then switch_to stack_frame (task s d) s' else Inr s')
         (\<lambda>s'. Inr (s'\<lparr>mem := store32 (mem s') (task s d + 64) RUNNING, curr_task := task s d\<rparr>))) = Inr s2 \<and> rotated d s s2 \<and> switched stack_frame d s s2"
proof -
  have tl: "tss_list s1 = tss_list s" and es: "esp_swap s1 = esp_swap s" using ret by (simp_all add: retired_def)
  note tab = same_table [OF tl]
  have d': "d < 256" and f: "table_ok s1" "off_table s1 (esp_swap s1) 12" "off_table s1 stack_frame 44" "sep (esp_swap s1) 12 stack_frame 44"
    using ok tick d by (simp_all add: sched_ok_def tick_ok_def tab es)
  obtain m' e where k: "bindE (if task_status (mem s1) (task s d) = NEW then switch_to_new stack_frame (task s d) s1 else Inr s1) (\<lambda>s'.
       bindE (if task_status (mem s') (task s d) = RUNNABLE then switch_to stack_frame (task s d) s' else Inr s')
         (\<lambda>s'. Inr (s'\<lparr>mem := store32 (mem s') (task s d + 64) RUNNING, curr_task := task s d\<rparr>)))
     = Inr (s1\<lparr>esp_swap := e, mem := store32 m' (task s d + 64) RUNNING, curr_task := task s d\<rparr>)"
    and fr: "task_frame s1 {d} (mem s1) m'"
    and c: "e = (if status_of s1 d = NEW then stack_of s1 d - 12 else stack_of s1 d)" "task_kernel_stack m' (task s d) = e"
      "bytes_at m' stack_frame 44 = regs_of s1 d" "bytes_at m' (if status_of s1 d = NEW then e else esp_swap s1) 12 = frame_of s1 d"
      "\<forall>j < 256. bytes_at m' (task_generic_stack (task s j)) 44 = regs_of s1 j \<and> bytes_at m' (task_int_stack (task s j)) 12 = frame_of s1 j"
    using dispatch_task [OF f(1) d' f(2-4) retired_next [OF ok tick ret d],
        of "\<lambda>s'. Inr (s'\<lparr>mem := store32 (mem s') (task s d + 64) RUNNING, curr_task := task s d\<rparr>)"] unfolding tab by auto
  let ?s2 = "s1\<lparr>esp_swap := e, mem := store32 m' (task s d + 64) RUNNING, curr_task := task s d\<rparr>"
  have "pid_of ?s2 j = pid_of s1 j \<and> status_of ?s2 j = (if j = d then RUNNING else status_of s1 j)
      \<and> (j \<noteq> d \<longrightarrow> stack_of ?s2 j = stack_of s1 j)" if "j < 256" for j
    using fr that store_status [OF f(1) d' that]
    by (auto simp: status_of_def pid_of_def stack_of_def task_frame_def tab)
  then have "rotated d s ?s2" using ret unfolding rotated_def retired_def by auto
  moreover have "switched stack_frame d s ?s2"
    by (rule switched_after_store [OF ok tick ret d rec c fr])
  ultimately show ?thesis using k by blast
qed

lemma rotated_ok:
  assumes ok: "sched_ok n s" and rot: "rotated d s s2" and d: "d < n"
  shows "sched_ok n s2"
proof -
  have tl: "tss_list s2 = tss_list s" and n: "n \<le> 256" using rot ok by (simp_all add: rotated_def sched_ok_def)
  have u: "unat (curr_index s2) = d" using rot d n by (simp add: rotated_def unat_of_nat)
  have st: "pid_of s2 j = pid_of s j" "status_of s2 j = (if j = d then RUNNING else
             if j = unat (curr_index s) \<and> status_of s j \<noteq> NEW then RUNNABLE else status_of s j)"
    "status_of s2 j = NEW \<Longrightarrow> stack_of s2 j = stack_of s j" if "j < 256" for j
    using rotated_task [OF rot that] by simp_all
  have "status_of s2 i \<in> {RUNNABLE, RUNNING, NEW} \<and> (status_of s2 i = NEW \<longrightarrow> off_table s (stack_of s2 i - 12) 12)
      \<and> (status_of s2 i = RUNNING \<longrightarrow> i = d)" if i: "i < n" for i
    using sched_ok_task [OF ok i] st(2,3) [of i] i n
    by (cases "i = d"; cases "i = unat (curr_index s)"; cases "status_of s i = NEW") simp_all
  then show ?thesis using ok st(1) d unfolding sched_ok_def same_table [OF tl] u by simp
qed

lemma do_sched_tick:
  assumes ok: "sched_ok n s" and tick: "tick_ok n stack_frame s"
  shows "\<exists>s'. do_sched stack_frame s = Inr s' \<and> sched_ok n s' \<and> tss_list s' = tss_list s
    \<and> unat (curr_index s') = succ_task n (unat (curr_index s))
    \<and> curr_task s' = task s (unat (curr_index s')) \<and> status_of s' (unat (curr_index s')) = RUNNING
    \<and> (\<forall>i < n. status_of s' i = NEW \<longrightarrow> status_of s i = NEW \<and> stack_of s' i = stack_of s i)
    \<and> switched stack_frame (unat (curr_index s')) s s'
    \<and> (\<forall>j < n. j \<noteq> unat (curr_index s) \<longrightarrow> j \<noteq> unat (curr_index s') \<longrightarrow> status_of s' j = status_of s j)"
proof -
  let ?d = "succ_task n (unat (curr_index s))"
  have d: "?d < n" "n \<le> 256" using ok by (auto simp: sched_ok_def succ_task_def)
  obtain s1 where s1: "(let s0 = s\<lparr>curr_index := of_nat ?d\<rparr>; last = task_at s (curr_index s) in
       if task_status (mem s0) last \<noteq> NEW
       then bindE (save_to stack_frame last s0) (\<lambda>s'. Inr (s'\<lparr>mem := store32 (mem s') (last + 64) RUNNABLE\<rparr>))
       else Inr s0) = Inr s1" "retired ?d s s1" "recorded stack_frame s s1"
    using tick_retires [OF assms] by blast
  obtain s2 where s2: "bindE (if task_status (mem s1) (task s ?d) = NEW then switch_to_new stack_frame (task s ?d) s1 else Inr s1) (\<lambda>s'.
       bindE (if task_status (mem s') (task s ?d) = RUNNABLE then switch_to stack_frame (task s ?d) s' else Inr s')
         (\<lambda>s'. Inr (s'\<lparr>mem := store32 (mem s') (task s ?d + 64) RUNNING, curr_task := task s ?d\<rparr>))) = Inr s2" "rotated ?d s s2" "switched stack_frame ?d s s2"
    using tick_dispatches [OF assms s1(2) d(1) s1(3)] by blast
  have a: "task_at (s\<lparr>curr_index := of_nat ?d\<rparr>) (of_nat ?d) = task s ?d" by (simp add: task_def task_at_def)
  have run: "do_sched stack_frame s = Inr s2"
    using s1(1) s2(1) unfolding do_sched_def next_index [OF ok] Let_def a by (simp only: bindE_simps)
  have u: "unat (curr_index s2) = ?d" using s2(2) d by (simp add: rotated_def unat_of_nat)
  moreover have "status_of s2 ?d = RUNNING" "tss_list s2 = tss_list s" "curr_task s2 = task s ?d"
    using s2(2) d by (simp_all add: rotated_def)
  moreover have "\<forall>i < n. status_of s2 i = NEW \<longrightarrow> status_of s i = NEW \<and> stack_of s2 i = stack_of s i"
    using s2(2) d(2) by (auto simp: rotated_def split: if_splits)
  moreover have "\<forall>j < n. j \<noteq> unat (curr_index s) \<longrightarrow> j \<noteq> ?d \<longrightarrow> status_of s2 j = status_of s j"
    using s2(2) d(2) by (auto simp: rotated_def)
  ultimately show ?thesis using run rotated_ok [OF ok s2(2) d(1)] s2(3) by (intro exI [of _ s2]) simp
qed

end
