(* ===== verification/Kernel_Sched_Run.thy ===== *)
theory Kernel_Sched_Run
  imports Kernel_Sched_Inv
begin

text \<open>
  Runs of the scheduler: sequences of timer ticks with the tasks running in between, the
  round-robin order in which they take the processor, and the transparency of a tick.
\<close>

section \<open>Ticks and runs\<close>

text \<open>
  One tick: the tasks have changed memory outside the table to \<open>m\<close>, the interrupted stack pointer
  is \<open>e\<close>, and the scheduler runs with its frame at \<open>stack_frame\<close>.
\<close>

inductive sched_step :: "nat \<Rightarrow> 'a sched_sys_scheme \<Rightarrow> 'a sched_sys_scheme \<Rightarrow> bool" for n where
  tick: "\<lbrakk>same_on (block (tss_list s) 18432) (mem s) m; tick_ok n stack_frame (s\<lparr>mem := m, esp_swap := e\<rparr>);
    do_sched stack_frame (s\<lparr>mem := m, esp_swap := e\<rparr>) = Inr s'\<rbrakk> \<Longrightarrow> sched_step n s s'"

inductive_cases sched_stepE: "sched_step n s s'"

inductive sched_run :: "nat \<Rightarrow> nat \<Rightarrow> 'a sched_sys_scheme \<Rightarrow> 'a sched_sys_scheme \<Rightarrow> bool" for n where
  run_0: "sched_run n 0 s s"
| run_Suc: "\<lbrakk>sched_run n k s s'; sched_step n s' s''\<rbrakk> \<Longrightarrow> sched_run n (Suc k) s s''"

inductive_cases sched_run_SucE: "sched_run n (Suc k) s s'"
inductive_simps sched_run_0_iff [simp]: "sched_run n 0 s s'"

lemma fields_same_on:
  assumes "table_ok s" and "same_on (block (tss_list s) 18432) (mem s) m" and "i < 256"
  shows "pid_of (s\<lparr>mem := m, esp_swap := e\<rparr>) i = pid_of s i" and "status_of (s\<lparr>mem := m, esp_swap := e\<rparr>) i = status_of s i"
    and "stack_of (s\<lparr>mem := m, esp_swap := e\<rparr>) i = stack_of s i"
proof -
  have "load32 m (task s i + k) = load32 (mem s) (task s i + k)" if "unat k + 4 \<le> 72" for k
  proof (rule load32_same_on [OF assms(2)])
    show "block (task s i + k) 4 \<subseteq> block (tss_list s) 18432"
      using assms(1,3) that task_addr [OF assms(1,3), of k] by (intro block_mono) simp_all
    show "unat (task s i + k) + 4 \<le> 2 ^ 32"
      using assms(1,3) that task_addr [OF assms(1,3), of k] by (simp add: table_ok_def)
  qed
  from this [of 0] this [of 4] this [of 64] show "pid_of (s\<lparr>mem := m, esp_swap := e\<rparr>) i = pid_of s i"
    "status_of (s\<lparr>mem := m, esp_swap := e\<rparr>) i = status_of s i" "stack_of (s\<lparr>mem := m, esp_swap := e\<rparr>) i = stack_of s i"
    by (simp_all add: pid_of_def status_of_def stack_of_def)
qed

lemma sched_ok_same_on:
  assumes "sched_ok n s" and "same_on (block (tss_list s) 18432) (mem s) m"
  shows "sched_ok n (s\<lparr>mem := m, esp_swap := e\<rparr>)"
proof -
  have t: "table_ok s" and n: "n \<le> 256" using assms(1) by (simp_all add: sched_ok_def)
  note f = fields_same_on [OF t assms(2)]
  have "i < 256" if "i < n" for i using that n by simp
  then show ?thesis using assms(1) by (simp add: sched_ok_def f)
qed

lemma sched_step_ok:
  assumes "sched_ok n s" and "sched_step n s s'"
  shows "sched_ok n s' \<and> tss_list s' = tss_list s \<and> unat (curr_index s') = succ_task n (unat (curr_index s))
    \<and> curr_task s' = task s (unat (curr_index s')) \<and> status_of s' (unat (curr_index s')) = RUNNING"
  using assms(2)
proof cases
  case (tick m stack_frame e)
  from do_sched_tick [OF sched_ok_same_on [OF assms(1) tick(1)] tick(2)] tick(3) show ?thesis by auto
qed

lemma succ_task_mod: "i < n \<Longrightarrow> succ_task n i = Suc i mod n"
  by (auto simp: succ_task_def mod_Suc)

lemma sched_run_ok:
  assumes "sched_run n k s s'" and "sched_ok n s"
  shows "sched_ok n s' \<and> tss_list s' = tss_list s \<and> unat (curr_index s') = (unat (curr_index s) + k) mod n
    \<and> (0 < k \<longrightarrow> curr_task s' = task s (unat (curr_index s')) \<and> status_of s' (unat (curr_index s')) = RUNNING)"
  using assms
proof (induction rule: sched_run.induct)
  case (run_0 s)
  then show ?case by (simp add: sched_ok_def)
next
  case (run_Suc k s s' s'')
  have IH: "sched_ok n s'" "tss_list s' = tss_list s" "unat (curr_index s') = (unat (curr_index s) + k) mod n"
    using run_Suc.IH run_Suc.prems by auto
  have lt: "unat (curr_index s') < n" using IH(1) by (simp add: sched_ok_def)
  have "succ_task n (unat (curr_index s')) = (unat (curr_index s) + Suc k) mod n"
    by (subst succ_task_mod [OF lt]) (simp add: IH(3) mod_Suc_eq)
  moreover have "task s' = task s" using IH(2) by (simp add: task_def task_at_def fun_eq_iff)
  ultimately show ?case using sched_step_ok [OF IH(1) run_Suc.hyps(2)] IH(2) by metis
qed

lemma sched_run_split: "sched_run n (j + k) s s' \<Longrightarrow> \<exists>s1. sched_run n j s s1 \<and> sched_run n k s1 s'"
proof (induction k arbitrary: s')
  case (Suc k)
  then show ?case by (auto elim!: sched_run_SucE intro: run_Suc) (metis run_Suc)
qed auto

section \<open>Contexts along a run\<close>

text \<open>A tick with what the tasks did before it: \<open>t\<close> is the state that the scheduler finds.\<close>

definition tick_into :: "nat \<Rightarrow> addr \<Rightarrow> 'a sched_sys_scheme \<Rightarrow> 'a sched_sys_scheme \<Rightarrow> 'a sched_sys_scheme \<Rightarrow> bool" where
  "tick_into n stack_frame s t s' \<longleftrightarrow> (\<exists>m e. t = s\<lparr>mem := m, esp_swap := e\<rparr> \<and> same_on (block (tss_list s) 18432) (mem s) m)
     \<and> tick_ok n stack_frame t \<and> do_sched stack_frame t = Inr s'"

lemma sched_step_iff: "sched_step n s s' \<longleftrightarrow> (\<exists>stack_frame t. tick_into n stack_frame s t s')"
  by (auto simp: tick_into_def intro: tick elim!: sched_stepE)

lemma tick_into_found:
  assumes "sched_ok n s" and "tick_into n stack_frame s t s'"
  shows "sched_ok n t" "tss_list t = tss_list s" "curr_index t = curr_index s" "task t = task s"
    and "j < n \<Longrightarrow> status_of t j = status_of s j \<and> stack_of t j = stack_of s j \<and> regs_of t j = regs_of s j \<and> frame_of t j = frame_of s j"
proof -
  obtain m e where t: "t = s\<lparr>mem := m, esp_swap := e\<rparr>" and m: "same_on (block (tss_list s) 18432) (mem s) m"
    using assms(2) by (auto simp: tick_into_def)
  have ok: "table_ok s" "n \<le> 256" using assms(1) by (simp_all add: sched_ok_def)
  show "sched_ok n t" unfolding t by (rule sched_ok_same_on [OF assms(1) m])
  show "tss_list t = tss_list s" "curr_index t = curr_index s" "task t = task s" by (simp_all add: t fun_eq_iff)
  assume "j < n"
  then have j: "j < 256" using ok(2) by simp
  show "status_of t j = status_of s j \<and> stack_of t j = stack_of s j \<and> regs_of t j = regs_of s j \<and> frame_of t j = frame_of s j"
    using fields_same_on [OF ok(1) m j] task_part_bytes [OF ok(1) j m, of 20 44] task_part_bytes [OF ok(1) j m, of 8 12]
    by (simp add: t regs_of_def frame_of_def)
qed

lemma tick_into_switches:
  assumes "sched_ok n s" and "tick_into n stack_frame s t s'"
  shows "switched stack_frame (unat (curr_index s')) t s'"
    and "\<lbrakk>j < n; j \<noteq> unat (curr_index s); j \<noteq> unat (curr_index s')\<rbrakk> \<Longrightarrow> status_of s' j = status_of s j
      \<and> stack_of s' j = stack_of s j \<and> regs_of s' j = regs_of s j \<and> frame_of s' j = frame_of s j"
proof -
  note f = tick_into_found [OF assms]
  have r: "switched stack_frame (unat (curr_index s')) t s'"
    "\<forall>j < n. j \<noteq> unat (curr_index t) \<longrightarrow> j \<noteq> unat (curr_index s') \<longrightarrow> status_of s' j = status_of t j"
    using do_sched_tick [OF f(1), of stack_frame] assms(2) unfolding tick_into_def by auto
  show "switched stack_frame (unat (curr_index s')) t s'" by (rule r(1))
  assume j: "j < n" "j \<noteq> unat (curr_index s)" "j \<noteq> unat (curr_index s')"
  have "j < 256" using assms(1) j(1) by (simp add: sched_ok_def)
  then show "status_of s' j = status_of s j \<and> stack_of s' j = stack_of s j \<and> regs_of s' j = regs_of s j \<and> frame_of s' j = frame_of s j"
    using r j f(5) [OF j(1)] by (simp add: switched_def saved_stack_def saved_regs_def saved_frame_def f(3))
qed

text \<open>No tick touches the record of a task before its turn comes.\<close>

lemma run_keeps_record:
  assumes "sched_run n k s s'" and "sched_ok n s" and "j < n" and "\<forall>l \<le> k. (unat (curr_index s) + l) mod n \<noteq> j"
  shows "status_of s' j = status_of s j \<and> stack_of s' j = stack_of s j \<and> regs_of s' j = regs_of s j \<and> frame_of s' j = frame_of s j"
  using assms
proof (induction rule: sched_run.induct)
  case (run_Suc k s s' s'')
  have IH: "status_of s' j = status_of s j \<and> stack_of s' j = stack_of s j \<and> regs_of s' j = regs_of s j \<and> frame_of s' j = frame_of s j"
    using run_Suc.IH run_Suc.prems by simp
  note r = sched_run_ok [OF run_Suc.hyps(1) run_Suc.prems(1)]
    and r' = sched_run_ok [OF sched_run.run_Suc [OF run_Suc.hyps] run_Suc.prems(1)]
  obtain stack_frame t where t: "tick_into n stack_frame s' t s''" using run_Suc.hyps(2) by (auto simp: sched_step_iff)
  have "j \<noteq> unat (curr_index s')" "j \<noteq> unat (curr_index s'')"
    using r r' run_Suc.prems(3) [rule_format, of k] run_Suc.prems(3) [rule_format, of "Suc k"] by auto
  then show ?case using tick_into_switches(2) [OF _ t run_Suc.prems(2)] r IH by simp
qed simp

section \<open>Existence of runs\<close>

lemma tick_ok_next:
  assumes "n \<le> 256" and "tick_ok n stack_frame s" and "tss_list s' = tss_list s"
    and "\<forall>i < n. status_of s' i = NEW \<longrightarrow> status_of s i = NEW \<and> stack_of s' i = stack_of s i"
    and "off_table s e 12" and "sep e 12 stack_frame 44"
  shows "tick_ok n stack_frame (s'\<lparr>esp_swap := e\<rparr>)"
proof -
  have "off_table s' = off_table s" using assms(3) by (simp add: off_table_def fun_eq_iff)
  then show ?thesis using assms(2,4-6) by (simp add: tick_ok_def status_of_def stack_of_def)
qed

text \<open>A run of any length exists: no tick faults while the interrupted stack stays clear of the table.\<close>

lemma sched_run_exists:
  assumes "sched_ok n s" and "tick_ok n stack_frame s"
  shows "\<exists>s'. sched_run n k s s'"
proof -
  have "\<exists>s'. sched_run n k s s' \<and> sched_ok n s' \<and> tick_ok n stack_frame (s'\<lparr>esp_swap := esp_swap s\<rparr>)
      \<and> tss_list s' = tss_list s"
  proof (induction k)
    case 0
    then show ?case using assms by (intro exI [of _ s]) simp
  next
    case (Suc k)
    then obtain s' where s': "sched_run n k s s'" "sched_ok n s'" "tick_ok n stack_frame (s'\<lparr>esp_swap := esp_swap s\<rparr>)"
      "tss_list s' = tss_list s" by blast
    let ?t = "s'\<lparr>mem := mem s', esp_swap := esp_swap s\<rparr>"
    have ok: "sched_ok n ?t" by (rule sched_ok_same_on [OF s'(2)]) simp
    obtain s'' where d: "do_sched stack_frame ?t = Inr s''" "sched_ok n s''" "tss_list s'' = tss_list ?t"
        "\<forall>i < n. status_of s'' i = NEW \<longrightarrow> status_of ?t i = NEW \<and> stack_of s'' i = stack_of ?t i"
      using do_sched_tick [OF ok, of stack_frame] s'(3) by auto
    have "sched_step n s' s''" using d(1) s'(3) by (intro tick [of s' "mem s'"]) auto
    moreover have "tick_ok n stack_frame (s''\<lparr>esp_swap := esp_swap s\<rparr>)"
    proof (rule tick_ok_next [OF _ _ d(3,4)])
      show "n \<le> 256" using assms(1) by (simp add: sched_ok_def)
      show "tick_ok n stack_frame ?t" using s'(3) by simp
      show "off_table ?t (esp_swap s) 12" "sep (esp_swap s) 12 stack_frame 44"
        using assms(2) s'(4) by (simp_all add: tick_ok_def off_table_def)
    qed
    ultimately show ?case using s'(1,4) d by (intro exI [of _ s'']) (auto intro: run_Suc)
  qed
  then show ?thesis by blast
qed

end
