(* ===== verification/Service.thy ===== *)
theory Service
  imports Prelude
begin

text \<open>
  What the boot sequence expects of a kernel service that it starts: on an intact allocator with
  enough pages left the start succeeds, keeps the allocator, writes only memory the allocator owns
  and the service's own static cells, and establishes facts about memory that the allocator will
  not hand out again. Services with this contract can be started one after the other.
\<close>

text \<open>A fact about the memory that depends on the bytes of a set of addresses only.\<close>

definition rests_on :: "(memory \<Rightarrow> bool) \<Rightarrow> addr set \<Rightarrow> memory \<Rightarrow> bool" where
  "rests_on P F m \<longleftrightarrow> (\<forall>m'. same_on F m m' \<longrightarrow> P m')"

lemma rests_onI: "(\<And>m'. same_on F m m' \<Longrightarrow> P m') \<Longrightarrow> rests_on P F m"
  by (simp add: rests_on_def)

lemma rests_onD: "rests_on P F m \<Longrightarrow> same_on F m m' \<Longrightarrow> P m'"
  by (simp add: rests_on_def)

lemma rests_on_now: "rests_on P F m \<Longrightarrow> P m"
  unfolding rests_on_def by simp

lemma rests_on_frame: "rests_on P F m \<Longrightarrow> same_on F m m' \<Longrightarrow> rests_on P F m'"
  unfolding rests_on_def by (blast intro: same_on_trans)

lemma rests_on_conj:
  assumes "rests_on P F m" and "rests_on Q G m"
  shows "rests_on (\<lambda>m. P m \<and> Q m) (F \<union> G) m"
  using assms unfolding rests_on_def by (blast intro: same_on_mono)

locale service =
  fixes start :: "'s \<Rightarrow> 's result" and get_mem :: "'s \<Rightarrow> memory"
    and inv :: "'s \<Rightarrow> addr set \<Rightarrow> bool" and left :: "'s \<Rightarrow> nat"
    and ready :: "'s \<Rightarrow> addr set \<Rightarrow> bool" and cells :: "'s \<Rightarrow> addr set"
    and need :: nat and facts :: "'s \<Rightarrow> memory \<Rightarrow> bool"
  assumes start_law: "inv s A \<Longrightarrow> need \<le> left s \<Longrightarrow> ready s A \<Longrightarrow> cells s \<inter> A = {} \<Longrightarrow>
    \<exists>s' A' F. start s = Inr s' \<and> inv s' A' \<and> A' \<subseteq> A \<and> left s \<le> left s' + need
      \<and> same_off (A \<union> cells s) (get_mem s) (get_mem s') \<and> F \<subseteq> A \<union> cells s \<and> F \<inter> A' = {}
      \<and> rests_on (facts s) F (get_mem s')"
begin

lemma started:
  assumes "inv s A" and "need \<le> left s" and "ready s A" and "cells s \<inter> A = {}"
  shows "\<exists>s' A'. start s = Inr s' \<and> inv s' A' \<and> A' \<subseteq> A \<and> facts s (get_mem s')
    \<and> same_off (A \<union> cells s) (get_mem s) (get_mem s') \<and> left s \<le> left s' + need"
  using start_law [OF assms] rests_on_now by blast

end

text \<open>
  Two services in a row: the first leaves what the second needs alone.
\<close>

locale service_pair =
  one: service start1 get_mem inv left ready1 cells1 need1 facts1 +
  two: service start2 get_mem inv left ready2 cells2 need2 facts2
  for start1 :: "'s \<Rightarrow> 's result" and get_mem :: "'s \<Rightarrow> memory"
    and inv :: "'s \<Rightarrow> addr set \<Rightarrow> bool" and left :: "'s \<Rightarrow> nat"
    and ready1 :: "'s \<Rightarrow> addr set \<Rightarrow> bool" and cells1 :: "'s \<Rightarrow> addr set"
    and need1 :: nat and facts1 :: "'s \<Rightarrow> memory \<Rightarrow> bool"
    and start2 :: "'s \<Rightarrow> 's result"
    and ready2 :: "'s \<Rightarrow> addr set \<Rightarrow> bool" and cells2 :: "'s \<Rightarrow> addr set"
    and need2 :: nat and facts2 :: "'s \<Rightarrow> memory \<Rightarrow> bool" +
  assumes keep_law: "start1 s = Inr s' \<Longrightarrow> ready2 s A \<Longrightarrow> same_on (cells2 s) (get_mem s) (get_mem s') \<Longrightarrow> A' \<subseteq> A \<Longrightarrow>
    ready2 s' A' \<and> cells2 s' = cells2 s \<and> facts2 s' = facts2 s"
begin

lemma both_law:
  assumes "inv s A" and "need1 + need2 \<le> left s" and "ready1 s A \<and> ready2 s A \<and> cells1 s \<inter> cells2 s = {}"
    and "(cells1 s \<union> cells2 s) \<inter> A = {}"
  shows "\<exists>s' A' F. bindE (start1 s) start2 = Inr s' \<and> inv s' A' \<and> A' \<subseteq> A \<and> left s \<le> left s' + (need1 + need2)
    \<and> same_off (A \<union> (cells1 s \<union> cells2 s)) (get_mem s) (get_mem s') \<and> F \<subseteq> A \<union> (cells1 s \<union> cells2 s) \<and> F \<inter> A' = {}
    \<and> rests_on (\<lambda>m. facts1 s m \<and> facts2 s m) F (get_mem s')"
proof -
  have r: "need1 \<le> left s" "ready1 s A" "cells1 s \<inter> A = {}" using assms(2-4) by auto
  obtain s1 A1 F1 where 1: "start1 s = Inr s1" "inv s1 A1" "A1 \<subseteq> A" "left s \<le> left s1 + need1"
    "same_off (A \<union> cells1 s) (get_mem s) (get_mem s1)" "F1 \<subseteq> A \<union> cells1 s" "F1 \<inter> A1 = {}" "rests_on (facts1 s) F1 (get_mem s1)"
    using one.start_law [OF assms(1) r] by blast
  have "same_on (cells2 s) (get_mem s) (get_mem s1)" by (rule same_off_on [OF 1(5)]) (use assms(3,4) in blast)
  then have k: "ready2 s1 A1" "cells2 s1 = cells2 s" "facts2 s1 = facts2 s" using keep_law [OF 1(1) _ _ 1(3)] assms(3) by blast+
  have r2: "need2 \<le> left s1" "cells2 s1 \<inter> A1 = {}" using 1(3,4) assms(2,4) k(2) by auto
  obtain s2 A2 F2 where 2: "start2 s1 = Inr s2" "inv s2 A2" "A2 \<subseteq> A1" "left s1 \<le> left s2 + need2"
    "same_off (A1 \<union> cells2 s) (get_mem s1) (get_mem s2)" "F2 \<subseteq> A1 \<union> cells2 s" "F2 \<inter> A2 = {}" "rests_on (facts2 s) F2 (get_mem s2)"
    using two.start_law [OF 1(2) r2(1) k(1) r2(2)] k by auto
  have "same_on F1 (get_mem s1) (get_mem s2)" by (rule same_off_on [OF 2(5)]) (use 1(6,7) assms(3,4) in blast)
  then have "rests_on (\<lambda>m. facts1 s m \<and> facts2 s m) (F1 \<union> F2) (get_mem s2)"
    by (rule rests_on_conj [OF rests_on_frame [OF 1(8)] 2(8)])
  moreover have "same_off (A \<union> (cells1 s \<union> cells2 s)) (get_mem s) (get_mem s2)"
    by (rule same_off_trans [OF same_off_mono [OF 1(5)] same_off_mono [OF 2(5)]]) (use 1(3) in auto)
  moreover have "F1 \<union> F2 \<subseteq> A \<union> (cells1 s \<union> cells2 s)" "(F1 \<union> F2) \<inter> A2 = {}" "A2 \<subseteq> A" using 1(3,6,7) 2(3,6,7) by blast+
  moreover have "bindE (start1 s) start2 = Inr s2" "left s \<le> left s2 + (need1 + need2)" using 1(1,4) 2(1,4) by simp_all
  ultimately show ?thesis using 2(2) by blast
qed

end

sublocale service_pair \<subseteq> both: service "\<lambda>s. bindE (start1 s) start2" get_mem inv left
    "\<lambda>s A. ready1 s A \<and> ready2 s A \<and> cells1 s \<inter> cells2 s = {}" "\<lambda>s. cells1 s \<union> cells2 s"
    "need1 + need2" "\<lambda>s m. facts1 s m \<and> facts2 s m"
  by unfold_locales (rule both_law)

end
