(* ===== verification/Heap_Clients.thy ===== *)
theory Heap_Clients
  imports Lib_List Lib_Bst Service
begin

text \<open>
  What the lists and trees of several components on one heap need beside their own correctness:
  the operations change nothing of the state but its memory, and of the memory only what the
  heap owns and the container occupies.
\<close>

named_theorems mem_only_intros \<open>operations that change only the memory of a state\<close>

definition mem_only :: "'a machine_scheme \<Rightarrow> 'a machine_scheme \<Rightarrow> bool" where
  "mem_only s s' \<longleftrightarrow> s' = s\<lparr>mem := mem s'\<rparr>"

lemma mem_only_refl [intro, simp]: "mem_only s s"
  by (simp add: mem_only_def)

lemma mem_only_update [intro, simp]: "mem_only s (s\<lparr>mem := m\<rparr>)"
  by (simp add: mem_only_def)

lemma mem_only_trans [trans]: "mem_only s s' \<Longrightarrow> mem_only s' s'' \<Longrightarrow> mem_only s s''"
  unfolding mem_only_def by (cases s, cases s', cases s'') simp

lemma mem_onlyE:
  assumes "mem_only s s'"
  obtains m where "s' = s\<lparr>mem := m\<rparr>"
  using assms unfolding mem_only_def by blast

lemma mem_only_update_right [simp]: "mem_only s (s'\<lparr>mem := m\<rparr>) \<longleftrightarrow> mem_only s s'"
  unfolding mem_only_def by (cases s, cases s') simp

lemma mem_only_update_left [simp]: "mem_only (s\<lparr>mem := m\<rparr>) s' \<longleftrightarrow> mem_only s s'"
  unfolding mem_only_def by (cases s, cases s') simp

lemma palloc_mem_only [mem_only_intros]: "palloc zone sz s = (p, s') \<Longrightarrow> mem_only s s'"
  by (auto simp: palloc_def Let_def split: if_splits prod.splits)

lemma creat_slab_mem_only [mem_only_intros]: "creat_slab n s = Inr (p, s') \<Longrightarrow> mem_only s s'"
  by (auto simp: creat_slab_def Let_def deref_def dest!: palloc_mem_only split: if_splits prod.splits)

lemma alloc_from_kmem_mem_only [mem_only_intros]:
  "alloc_from_kmem k s = Inr (p, s') \<Longrightarrow> mem_only s s'"
  by (auto simp: alloc_from_kmem_def Let_def deref_def bindE_Inr_iff dest!: creat_slab_mem_only split: if_splits prod.splits)

lemma kmalloc_mem_only [mem_only_intros]: "kmalloc sz s = Inr (p, s') \<Longrightarrow> mem_only s s'"
  by (auto simp: kmalloc_def kmalloc_flags_def intro: alloc_from_kmem_mem_only split: if_splits option.splits)

lemma list_insert_mem_only [mem_only_intros]: "list_insert h data s = Inr (p, s') \<Longrightarrow> mem_only s s'"
  by (auto simp: list_insert_def Let_def deref_def bindE_Inr_iff dest!: kmalloc_mem_only split: if_splits)

lemma bst_insert_mem_only:
  assumes "bst_insert c d k s = Some r" and "r = Inr (n, s')"
  shows "mem_only s s'"
proof -
  have "\<forall>n s'. r = Inr (n, s') \<longrightarrow> mem_only s s'"
  proof (rule bst_insert.raw_induct [OF _ assms(1)], intro allI impI, goal_cases)
    case (1 f root data key s r n s')
    have end_only: "mem_only s s'" if "bst_insert_end root' off t = Inr (n, s')" "mem_only s t" for root' off t
      using that by (auto simp: bst_insert_end_def Let_def deref_def bindE_Inr_iff split: if_splits prod.splits)
    have new_only: "mem_only s s'" if "bst_insert_new root' data key s = Inr (n, s')" for root'
      using that by (auto simp: bst_insert_new_def Let_def deref_def bindE_Inr_iff dest!: kmalloc_mem_only split: if_splits)
    show ?case using 1
      by (auto simp: bindE_Inr_iff bind_eq_Some_conv intro: end_only new_only split: if_splits)
  qed
  then show ?thesis using assms(2) by blast
qed

lemma bst_add_mem_only [mem_only_intros]: "bst_add c d k s = Inr s' \<Longrightarrow> mem_only s s'"
  by (auto simp: bst_add_def bindE_Inr_iff returns_def split: option.splits dest: bst_insert_mem_only)

section \<open>Whole pages beside the objects\<close>

text \<open>
  The heap with more of the pages above it taken: the allocator's records stay, and it owns the
  pages below the new mark no longer. Memory outside the allocator may change meanwhile.
\<close>

lemma heap_ok_advance:
  assumes "heap_ok s cs k" and "used_prefix m (memmap_kernel s) (unat (kernel_mem_pages s)) j" and "k \<le> j"
    and "same_off (block (memmap_kernel s) (unat (kernel_mem_pages s)) \<union> B) (mem s) m" and "B \<inter> owned s cs k = {}"
  shows "heap_ok (s\<lparr>mem := m\<rparr>) cs j" and "owned (s\<lparr>mem := m\<rparr>) cs j \<subseteq> owned s cs k - {x. heap_top k \<le> unat x \<and> unat x < heap_top j}"
proof -
  have regs: "heap_regions (s\<lparr>mem := m\<rparr>) cs = heap_regions s cs" by (simp add: heap_regions_def map_region_def)
  have sw: "sorted_wrt rdisj (heap_regions s cs)" using assms(1) by (simp add: heap_ok_def)
  have map: "rset (map_region s) = block (memmap_kernel s) (unat (kernel_mem_pages s))"
    by (simp add: map_region_def block_rset)
  have cache: "cache_mem m c" if c: "c \<in> set cs" for c
  proof (rule cache_mem_frame)
    show "cache_mem (mem s) c" "cache_geo c" using assms(1) c by (simp_all add: heap_ok_def)
    have "rdisj (map_region s) r" if "r \<in> set (cache_regions c)" for r using sw c that by (auto simp: heap_regions_def)
    then have "block (memmap_kernel s) (unat (kernel_mem_pages s)) \<inter> (\<Union>r \<in> set (cache_regions c). rset r) = {}"
      using rdisj_rset map by blast
    moreover have "(\<Union>r \<in> set (cache_regions c). rset r) \<subseteq> owned s cs k" using c by (auto simp: owned_def heap_regions_def)
    ultimately have "(block (memmap_kernel s) (unat (kernel_mem_pages s)) \<union> B) \<inter> (\<Union>r \<in> set (cache_regions c). rset r) = {}"
      using assms(5) by blast
    then show "same_on (\<Union>r \<in> set (cache_regions c). rset r) (mem s) m" by (rule same_off_on [OF assms(4)])
  qed
  have top: "heap_top k \<le> heap_top j" using assms(3) by (simp add: heap_top_def diff_le_mono)
  have le: "\<forall>r \<in> set (heap_regions s cs). fst r + snd r \<le> heap_top k" using assms(1) by (simp add: heap_ok_def)
  show "heap_ok (s\<lparr>mem := m\<rparr>) cs j"
    using assms(1-3) cache le top sw by (fastforce simp: heap_ok_def regs)
  show "owned (s\<lparr>mem := m\<rparr>) cs j \<subseteq> owned s cs k - {x. heap_top k \<le> unat x \<and> unat x < heap_top j}"
    unfolding owned_def regs using top le by (fastforce simp: rset_def)
qed

lemma heap_map_owned: "block (memmap_kernel s) (unat (kernel_mem_pages s)) \<subseteq> owned s cs k"
  by (auto simp: owned_def heap_regions_def map_region_def block_rset)

text \<open>A page taken from the kernel zone leaves the object allocator intact.\<close>

lemma heap_inv_palloc:
  assumes "heap_inv s A" and "0 < pages_left s"
  shows "\<exists>p s' A'. palloc ZONE_KERNEL 4096 s = (p, s') \<and> mem_only s s' \<and> heap_inv s' A' \<and> A' \<subseteq> A - block p 4096
    \<and> block p 4096 \<subseteq> A \<and> mapped p \<and> page_aligned p \<and> same_off A (mem s) (mem s') \<and> pages_left s = Suc (pages_left s')"
proof -
  obtain cs k where h: "heap_ok s cs k" "classes_ok s cs" "A = owned s cs k" using assms(1) by (auto simp: heap_inv_def)
  have k: "0 < k" "k < unat (kernel_mem_pages s)" "unat (kernel_mem_pages s) \<le> 0x40000"
    and up: "used_prefix (mem s) (memmap_kernel s) (unat (kernel_mem_pages s)) k"
    using h(1) heap_ok_left [OF h(1)] assms(2) by (auto simp: heap_ok_def)
  obtain m where m: "palloc ZONE_KERNEL 4096 s = (kernel_page (k - 1), s\<lparr>mem := m\<rparr>)"
    "used_prefix m (memmap_kernel s) (unat (kernel_mem_pages s)) (Suc k)"
    "same_off (block (memmap_kernel s) (unat (kernel_mem_pages s))) (mem s) m"
    using palloc_page [OF up k] by blast
  note adv = heap_ok_advance [OF h(1) m(2), of "{}"]
  have ok: "heap_ok (s\<lparr>mem := m\<rparr>) cs (Suc k)" using adv(1) m(3) by simp
  have u: "unat (kernel_page (k - 1)) = heap_top k" using k by (simp add: unat_kernel_page heap_top_def)
  moreover have top: "heap_top (Suc k) = heap_top k + 4096" using k(1) by (cases k) (simp_all add: heap_top_def)
  ultimately have page: "block (kernel_page (k - 1)) 4096 = {x. heap_top k \<le> unat x \<and> unat x < heap_top (Suc k)}"
    by (auto simp: mem_block_iff)
  then have sub: "owned (s\<lparr>mem := m\<rparr>) cs (Suc k) \<subseteq> A - block (kernel_page (k - 1)) 4096" using adv(2) m(3) by (simp add: h(3))
  have in_A: "block (kernel_page (k - 1)) 4096 \<subseteq> A" unfolding h(3) owned_def page by auto
  have off: "same_off A (mem s) m" unfolding h(3) by (rule same_off_mono [OF m(3) heap_map_owned])
  have inv: "heap_inv (s\<lparr>mem := m\<rparr>) (owned (s\<lparr>mem := m\<rparr>) cs (Suc k))"
    using ok h(2) by (auto simp: heap_inv_def classes_ok_def)
  have "pages_left s = Suc (pages_left (s\<lparr>mem := m\<rparr>))" using heap_ok_left [OF h(1)] heap_ok_left [OF ok] k by simp
  moreover have "mapped (kernel_page (k - 1))" "page_aligned (kernel_page (k - 1))"
    using u k kernel_page_aligned by (simp_all add: mapped_def word_le_nat_alt heap_top_def)
  ultimately show ?thesis using m(1) inv sub in_A off
    by (intro exI [of _ "kernel_page (k - 1)"] exI [of _ "s\<lparr>mem := m\<rparr>"] exI [of _ "owned (s\<lparr>mem := m\<rparr>) cs (Suc k)"]) simp
qed

section \<open>Trees and lists over one heap\<close>

text \<open>The representation of a tree with the heap's part of the memory named.\<close>

definition bst_in :: "addr \<Rightarrow> 'a slab_sys_scheme \<Rightarrow> btree \<Rightarrow> addr set \<Rightarrow> bool" where
  "bst_in c s t A \<longleftrightarrow> heap_inv s A \<and> root_cell (mem s) c t A \<and> tree_area t \<inter> A = {}
     \<and> tree_at (mem s) t \<and> tnodes_ok (nodes t) \<and> ordered t"

lemma bst_in_rep: "bst_in c s t A \<Longrightarrow> bst_rep c s t"
  by (auto simp: bst_in_def bst_rep_def)

lemma bst_in_search:
  "bst_in c s t A \<Longrightarrow> bst_search (mem s) (load32 (mem s) c) k = Inr (case find t k of None \<Rightarrow> 0 | Some d \<Rightarrow> d)"
  using bst_rep_lookup [OF bst_in_rep] by (simp add: bst_lookup_def)

lemma root_cell_frame:
  assumes "root_cell m c t A" and "same_on (block c 4) m m'" and "A' \<subseteq> A"
  shows "root_cell m' c t A'"
  using assms load32_same_on [OF assms(2)] by (auto simp: root_cell_def)

lemma bst_in_frame:
  assumes "bst_in c s t A" and "heap_inv s' A'" and "A' \<subseteq> A" and "same_on (block c 4 \<union> tree_area t) (mem s) (mem s')"
  shows "bst_in c s' t A'"
proof -
  have on: "same_on (block c 4) (mem s) (mem s')" "same_on (tree_area t) (mem s) (mem s')"
    using assms(4) by (auto intro: same_on_mono)
  then have "root_cell (mem s') c t A'" "tree_at (mem s') t"
    using assms(1,3) root_cell_frame tree_at_frame by (auto simp: bst_in_def)
  then show ?thesis using assms(1-3) by (auto simp: bst_in_def)
qed

lemma bst_add_in:
  assumes "bst_in c s t A" and "find t k = None" and "bst_fits s t k"
  shows "\<exists>p s' A'. bst_add c d k s = Inr s' \<and> mem_only s s' \<and> bst_in c s' (tree_insert p k d t) A' \<and> A' \<subseteq> A
    \<and> find (tree_insert p k d t) = (find t)(k \<mapsto> d) \<and> tree_area (tree_insert p k d t) \<subseteq> tree_area t \<union> A
    \<and> pages_left s \<le> Suc (pages_left s') \<and> same_off (A \<union> block c 4 \<union> tree_area t) (mem s) (mem s')"
proof -
  have A: "heap_inv s A" "root_cell (mem s) c t A" "tree_area t \<inter> A = {}"
    and T: "tree_at (mem s) t" "tnodes_ok (nodes t)" "ordered t"
    using assms(1) by (auto simp: bst_in_def)
  have k: "k \<notin> ids t" using find_ids [OF T(3)] assms(2) by simp
  have f: "0 < pages_left s" "path_balanced k (tree_insert 0 k d t)" "length (nodes t) < 2 ^ 29"
    using assms(3) path_balanced_data [of k 0 d t 0 0] by (simp_all add: bst_fits_def)
  obtain p n s' A' where i: "bst_insert c d k s = Some (Inr (n, s'))" "insert_result s c k d t A p s' A'"
    using bst_insert_ok [OF A(1) f(1) A(2) T(1,2) A(3) k f(2,3)] by blast
  note R = i(2) [unfolded insert_result_def]
  have area: "tree_area (tree_insert p k d t) = tree_area t \<union> block p 24" by (rule tree_area_insert [OF k])
  have "tnodes_ok (nodes (tree_insert p k d t))" using fresh_tnodes [OF T(2) A(3) _ _ _ k] R by blast
  then have "bst_in c s' (tree_insert p k d t) A'"
    using R ordered_insert [OF T(3)] A(3) area by (auto simp: bst_in_def)
  then show ?thesis
    using i(1) R area find_insert [OF assms(2)] bst_insert_mem_only [OF i(1) refl]
    by (intro exI [of _ p] exI [of _ s'] exI [of _ A']) (auto simp: bst_add_def)
qed

lemma list_at_same_on:
  assumes "list_at m h xs" and "same_on (list_area h xs) m m'"
  shows "list_at m' h xs"
  using assms list_at_frame [OF assms(1)] by (auto simp: list_area_def same_on_def)

lemma find_two:
  "find (Node p Leaf 1 d (Node q Leaf 2 e Leaf)) k = (if k = 1 then Some d else if k = 2 then Some e else None)"
  by (cases k "1 :: u32" rule: linorder_cases; cases k "2 :: u32" rule: linorder_cases) auto

lemma bst_in_search_two:
  assumes "bst_in c s (Node p Leaf 1 d (Node q Leaf 2 e Leaf)) A"
  shows "bst_search (mem s) (load32 (mem s) c) k = Inr (if k = 1 then d else if k = 2 then e else 0)"
  unfolding bst_in_search [OF assms] find_two by simp

text \<open>What a search finds is settled by the root cell and the tree's own nodes.\<close>

lemma bst_in_rests:
  assumes "bst_in c s t A"
  shows "rests_on (\<lambda>m. \<forall>k. bst_search m (load32 m c) k = Inr (case find t k of None \<Rightarrow> 0 | Some d \<Rightarrow> d)) (block c 4 \<union> tree_area t) (mem s)"
proof (rule rests_onI)
  fix m assume "same_on (block c 4 \<union> tree_area t) (mem s) m"
  then have on: "same_on (block c 4) (mem s) m" "same_on (tree_area t) (mem s) m" by (auto intro: same_on_mono)
  have "tree_at m t" "root_cell m c t A" using assms tree_at_frame [OF _ _ on(2)] root_cell_frame [OF _ on(1)] by (auto simp: bst_in_def)
  then show "\<forall>k. bst_search m (load32 m c) k = Inr (case find t k of None \<Rightarrow> 0 | Some d \<Rightarrow> d)"
    using bst_search_spec [of m t] assms by (auto simp: bst_in_def root_cell_def)
qed

text \<open>Two entries in an empty tree.\<close>

definition finds_two :: "addr \<Rightarrow> addr \<Rightarrow> addr \<Rightarrow> memory \<Rightarrow> bool" where
  "finds_two c d e m \<longleftrightarrow> (\<forall>k. bst_search m (load32 m c) k = Inr (if k = 1 then d else if k = 2 then e else 0))"

lemma bst_in_rests_two:
  assumes "bst_in c s (Node p Leaf 1 d (Node q Leaf 2 e Leaf)) A"
  shows "rests_on (finds_two c d e) (block c 4 \<union> tree_area (Node p Leaf 1 d (Node q Leaf 2 e Leaf))) (mem s)"
proof -
  have "(\<lambda>m. \<forall>k. bst_search m (load32 m c) k = Inr (case find (Node p Leaf 1 d (Node q Leaf 2 e Leaf)) k of None \<Rightarrow> 0 | Some d \<Rightarrow> d))
      = finds_two c d e"
    unfolding find_two finds_two_def fun_eq_iff by (auto split: if_splits)
  then show ?thesis using bst_in_rests [OF assms] by metis
qed

lemma bst_add_two:
  assumes "bst_in c s Leaf A" and "2 \<le> pages_left s"
  shows "\<exists>s1 s' A' F. bst_add c d 1 s = Inr s1 \<and> bst_add c e 2 s1 = Inr s' \<and> mem_only s s1 \<and> mem_only s s' \<and> heap_inv s' A' \<and> A' \<subseteq> A
    \<and> pages_left s \<le> pages_left s' + 2 \<and> same_off (A \<union> block c 4) (mem s) (mem s')
    \<and> F \<subseteq> A \<union> block c 4 \<and> F \<inter> A' = {} \<and> rests_on (finds_two c d e) F (mem s')"
proof -
  have fit: "bst_fits s Leaf 1" using assms(2) by (simp add: bst_fits_def)
  obtain n1 s1 A1 where r1: "bst_add c d 1 s = Inr s1" "mem_only s s1" "bst_in c s1 (Node n1 Leaf 1 d Leaf) A1" "A1 \<subseteq> A"
    "block n1 24 \<subseteq> A" "pages_left s \<le> Suc (pages_left s1)" "same_off (A \<union> block c 4) (mem s) (mem s1)"
    using bst_add_in [OF assms(1) _ fit, of d] by auto
  have fit2: "bst_fits s1 (Node n1 Leaf 1 d Leaf) 2" using assms(2) r1(6) by (simp add: bst_fits_def)
  obtain n2 s2 A2 where r2: "bst_add c e 2 s1 = Inr s2" "mem_only s1 s2" "bst_in c s2 (Node n1 Leaf 1 d (Node n2 Leaf 2 e Leaf)) A2" "A2 \<subseteq> A1"
    "pages_left s1 \<le> Suc (pages_left s2)" "same_off (A1 \<union> block c 4 \<union> block n1 24) (mem s1) (mem s2)" "block n2 24 \<subseteq> block n1 24 \<union> A1"
    using bst_add_in [OF r1(3) _ fit2, of e] by auto
  let ?F = "block c 4 \<union> tree_area (Node n1 Leaf 1 d (Node n2 Leaf 2 e Leaf))"
  have "same_off (A \<union> block c 4) (mem s) (mem s2)"
    by (rule same_off_trans [OF r1(7) same_off_mono [OF r2(6)]]) (use r1(4,5) in blast)
  moreover have "?F \<subseteq> A \<union> block c 4" using r1(4,5) r2(7) by auto
  moreover have "?F \<inter> A2 = {}" using r2(3) by (auto simp: bst_in_def root_cell_def)
  moreover have "heap_inv s2 A2" "mem_only s s2" using r2(3) mem_only_trans [OF r1(2) r2(2)] by (simp_all add: bst_in_def)
  ultimately show ?thesis using r1(1,2,4,6) r2(1,4,5) bst_in_rests_two [OF r2(3)]
    by (intro exI [of _ s1] exI [of _ s2] exI [of _ A2] exI [of _ ?F]) auto
qed

text \<open>The heap invariant looks at the memory and the allocator's own variables only.\<close>

lemmas heap_unfold = heap_inv_def heap_ok_def classes_ok_def owned_def heap_regions_def map_region_def

lemma heap_inv_io [simp]: "heap_inv (s\<lparr>io := i\<rparr>) A = heap_inv s A" "pages_left (s\<lparr>io := i\<rparr>) = pages_left s"
  by (simp_all add: heap_unfold pages_left_def)

text \<open>A larger state over the heap of a smaller one.\<close>

definition on_heap :: "slab_sys \<Rightarrow> 'a slab_sys_scheme \<Rightarrow> 'a slab_sys_scheme" where
  "on_heap s0 t = t\<lparr>mem := mem s0, memmap_kernel := memmap_kernel s0, kernel_mem_pages := kernel_mem_pages s0,
     quick_alloc_table := quick_alloc_table s0\<rparr>"

lemma on_heap_inv: "heap_inv (on_heap s0 t) A = heap_inv s0 A" "pages_left (on_heap s0 t) = pages_left s0"
  by (simp_all add: on_heap_def heap_unfold pages_left_def)

text \<open>The small boot configuration with the page below the heap free for static data.\<close>

lemma boot_low:
  "\<exists>s A. slab_init boot_slab = Inr s \<and> heap_inv s A \<and> 16 \<le> pages_left s \<and> block 0xc0000000 0x1000 \<inter> A = {}"
proof -
  obtain s A where s: "slab_init boot_slab = Inr s" "heap_inv s A" "A \<subseteq> boot_area boot_slab 4"
    "pages_left boot_slab \<le> pages_left s + 12"
    using slab_init_heap [OF boot_slab_boot] by blast
  have "pages_left boot_slab = 28"
    using boot_slab_boot pages_left_prefix [of boot_slab 4] by (simp add: slab_boot_def boot_slab_def)
  moreover have "block 0xc0000000 0x1000 \<inter> A = {}"
    using s(3) by (auto simp: boot_area_def boot_slab_def mem_block_iff heap_top_def)
  ultimately show ?thesis using s by (intro exI [of _ s] exI [of _ A]) simp
qed

lemma boot_low_mem:
  assumes "heap_inv s A" and "block 0xc0000000 0x1000 \<inter> A = {}" and "same_off (block 0xc0000000 0x1000) (mem s) m"
  shows "heap_inv (s\<lparr>mem := m\<rparr>) A" and "pages_left (s\<lparr>mem := m\<rparr>) = pages_left s"
  using heap_inv_frame [OF assms(1)] pages_left_frame [OF assms(1)] same_off_on [OF assms(3,2)] by blast+

end
