(* ===== verification/Kernel_Sched_Init.thy ===== *)
theory Kernel_Sched_Init
  imports Kernel_Sched_Run Heap_Clients
begin

text \<open>
  \<open>sched_init\<close> establishes the scheduler invariant, and what a tick does to the interrupted
  context: nothing with one task, and what goes wrong with two.
\<close>

section \<open>Creating a task\<close>

lemma clear_tasks_spec:
  "unat p + 72 * n \<le> 2 ^ 32 \<Longrightarrow> clear_tasks n p m x = (if x \<in> block p (72 * n) then 0 else m x)"
proof (induction n arbitrary: p m)
  case (Suc n)
  show ?case
  proof (cases "n = 0")
    case True
    then show ?thesis using Suc.prems by (simp add: memset_spec)
  next
    case False
    then have u: "unat (p + 72) = unat p + 72" using Suc.prems by (simp add: unat_add_word)
    then have "block p (72 * Suc n) = block p 72 \<union> block (p + 72) (72 * n)" by (auto simp: mem_block_iff)
    then show ?thesis using Suc.IH [of "p + 72"] Suc.prems u by (simp add: memset_spec)
  qed
qed simp

text \<open>The first and the second batch of field assignments of \<open>new_tss\<close>.\<close>

definition new_task1 :: "addr \<Rightarrow> u32 \<Rightarrow> addr \<Rightarrow> addr \<Rightarrow> memory \<Rightarrow> memory" where
  "new_task1 new pid slash entry m =
     store32 (store32 (store32 (store32 (store32 (store32 (memset m new 0 72) new pid) (new + 68) slash) (new + 64) NEW)
       (task_int_stack new + 4) (push_bit 2 2)) (task_int_stack new + 8) 0x282) (task_int_stack new) entry"

definition new_task2 :: "addr \<Rightarrow> addr \<Rightarrow> memory \<Rightarrow> memory" where
  "new_task2 new stack m =
     store16 (store16 (store16 (store16 (store16 (store32 (store32 m (new + 4) stack) (task_generic_stack new) 0)
       (task_generic_stack new + 14) (push_bit 3 2)) (task_generic_stack new + 12) (push_bit 3 2))
       (task_generic_stack new + 10) (push_bit 3 2)) (task_generic_stack new + 8) (push_bit 3 2))
       (task_generic_stack new + 6) (push_bit 3 2)"

lemma new_task1_off:
  assumes "unat new + 72 \<le> 2 ^ 32"
  shows "same_off (block new 72) m (new_task1 new pid slash entry m)"
proof -
  note b = block_part [OF assms]
  have "same_off (block new 72) m (memset m new 0 72)" using assms by (simp add: same_off_def memset_spec)
  then show ?thesis unfolding new_task1_def add.assoc
    using b [of 4 0] b [of 4 68] b [of 4 64] b [of 4 "8 + 4"] b [of 4 "8 + 8"] b [of 4 8]
    by (intro same_off_store32) simp_all
qed

lemma new_task2_off:
  assumes "unat new + 72 \<le> 2 ^ 32"
  shows "same_off (block new 72) m (new_task2 new stack m)"
  unfolding new_task2_def add.assoc
  using block_part [OF assms, of 4 4] block_part [OF assms, of 4 20] block_part [OF assms, of 2 "20 + 14"] block_part [OF assms, of 2 "20 + 12"]
    block_part [OF assms, of 2 "20 + 10"] block_part [OF assms, of 2 "20 + 8"] block_part [OF assms, of 2 "20 + 6"]
  by (intro same_off_store32 same_off_store16) simp_all

lemma new_task1_fields:
  "load32 (new_task1 t pid slash entry m) t = pid" "load32 (new_task1 t pid slash entry m) (t + 64) = NEW"
  "load32 (new_task1 t pid slash entry m) (t + 8) = entry" "load32 (new_task1 t pid slash entry m) (t + 12) = 8"
  "load32 (new_task1 t pid slash entry m) (t + 16) = 0x282" "load32 (new_task1 t pid slash entry m) (t + 68) = slash"
  by (simp_all add: new_task1_def load32_store32_apart add.assoc)

lemma new_task2_fields:
  "load32 (new_task2 t stack m) t = load32 m t" "load32 (new_task2 t stack m) (t + 64) = load32 m (t + 64)"
  "load32 (new_task2 t stack m) (t + 8) = load32 m (t + 8)" "load32 (new_task2 t stack m) (t + 12) = load32 m (t + 12)"
  "load32 (new_task2 t stack m) (t + 16) = load32 m (t + 16)" "load32 (new_task2 t stack m) (t + 68) = load32 m (t + 68)"
  "load32 (new_task2 t stack m) (t + 4) = stack"
  by (simp_all add: new_task2_def load32_store32_apart load32_store16_other add.assoc)

lemma new_tss_eq:
  fixes s :: "'a sched_sys_scheme"
  defines "t \<equiv> task_at s (used_index s)" and "pm \<equiv> memmap_kernel s" and "N \<equiv> unat (kernel_mem_pages s)"
  assumes "used_index s \<le> 255" and "mapped t" and "sep t 72 pm N" and "used_prefix (mem s) pm N k"
    and "0 < k" and "k < N" and "N \<le> 0x40000"
  shows "\<exists>m. new_tss entry s = Inr (t, s\<lparr>mem := m, next_pid := next_pid s + 1, used_index := used_index s + 1\<rparr>)
    \<and> same_off (block t 72 \<union> block pm N) (mem s) m \<and> used_prefix m pm N (Suc k)
    \<and> load32 m t = next_pid s \<and> load32 m (t + 4) = kernel_page (k - 1) + 0xfff \<and> load32 m (t + 64) = NEW
    \<and> load32 m (t + 8) = entry \<and> load32 m (t + 12) = 8 \<and> load32 m (t + 16) = 0x282"
proof -
  have t: "unat t + 72 \<le> 2 ^ 32" using assms(6) by (simp add: sep_def)
  have disj: "block t 72 \<inter> block pm N = {}" by (rule sep_block [OF assms(6)])
  define m1 where "m1 = new_task1 t (next_pid s) (lit_slash s) entry (mem s)"
  have o1: "same_off (block t 72) (mem s) m1" unfolding m1_def by (rule new_task1_off [OF t])
  have u1: "used_prefix m1 pm N k" by (rule used_prefix_same_on [OF same_off_on [OF o1 disj] assms(7)])
  obtain m2 where p: "palloc ZONE_KERNEL 4096 (s\<lparr>mem := m1, next_pid := next_pid s + 1\<rparr>)
      = (kernel_page (k - 1), s\<lparr>next_pid := next_pid s + 1, mem := m2\<rparr>)"
    and u2: "used_prefix m2 pm N (Suc k)" and o2: "same_off (block pm N) m1 m2"
    using palloc_page [of "s\<lparr>mem := m1, next_pid := next_pid s + 1\<rparr>" k] u1 assms(8-10) by (auto simp: pm_def N_def)
  let ?m = "new_task2 t (kernel_page (k - 1) + 0xfff) m2"
  have o3: "same_off (block t 72) m2 ?m" by (rule new_task2_off [OF t])
  have keep: "load32 m2 (t + j) = load32 m1 (t + j)" if "unat j + 4 \<le> 72" for j
    using block_part [OF t, of 4 j] that disj by (intro load32_same_off [OF o2]) auto
  have "new_tss entry s = Inr (t, s\<lparr>mem := ?m, next_pid := next_pid s + 1, used_index := used_index s + 1\<rparr>)"
    unfolding new_tss_def t_def [symmetric] Let_def
    using assms(4,5) p by (simp add: not_less m1_def new_task1_def new_task2_def)
  moreover have "same_off (block t 72 \<union> block pm N) (mem s) ?m"
    by (rule same_off_trans [OF same_off_mono [OF o1] same_off_trans [OF same_off_mono [OF o2] same_off_mono [OF o3]]]) auto
  moreover have "used_prefix ?m pm N (Suc k)" by (rule used_prefix_same_on [OF same_off_on [OF o3 disj] u2])
  moreover have "load32 ?m t = next_pid s" "load32 ?m (t + 64) = NEW" "load32 ?m (t + 8) = entry"
      "load32 ?m (t + 12) = 8" "load32 ?m (t + 16) = 0x282"
    using keep [of 0] keep [of 64] keep [of 8] keep [of 12] keep [of 16] by (simp_all add: new_task2_fields m1_def new_task1_fields)
  ultimately show ?thesis by (intro exI [of _ ?m]) (simp add: new_task2_fields)
qed

text \<open>The state \<open>sched_init\<close> starts from: a page zone with two free pages, all of it clear of the table.\<close>

definition sched_boot :: "nat \<Rightarrow> 'a sched_sys_scheme \<Rightarrow> bool" where
  "sched_boot k s \<longleftrightarrow> table_ok s \<and> used_index s = 0 \<and> next_pid s = 1 \<and> curr_index s = 0
     \<and> used_prefix (mem s) (memmap_kernel s) (unat (kernel_mem_pages s)) k
     \<and> 0 < k \<and> k + 2 \<le> unat (kernel_mem_pages s) \<and> unat (kernel_mem_pages s) \<le> 0x40000
     \<and> sep (memmap_kernel s) (unat (kernel_mem_pages s)) (tss_list s) 18432
     \<and> sep (kernel_page (k - 1)) 4096 (tss_list s) 18432"

lemma load32_zero_block:
  assumes "\<forall>x \<in> block p n. m x = 0" and "unat p + n \<le> 2 ^ 32" and "unat p \<le> unat a" and "unat a + 4 \<le> unat p + n"
  shows "load32 m a = 0"
proof -
  have "m (a + i) = 0" if "unat i < 4" for i
    using assms that unat_add_word [of a i] by (intro assms(1) [rule_format]) (simp add: mem_block_iff)
  from this [of 0] this [of 1] this [of 2] this [of 3] show ?thesis by (simp add: load32_def)
qed

lemma boot_stack_off_table:
  assumes "0 < k" and "k \<le> 0x40000" and "sep (kernel_page (k - 1)) 4096 (tss_list s) 18432"
  shows "off_table s (kernel_page (k - 1) + 0xff3) 12"
proof -
  have u: "unat (kernel_page (k - 1)) = 0xC0000000 + (k - 1) * 4096" using assms(1,2) by (intro unat_kernel_page) simp
  then have "unat (kernel_page (k - 1) + 0xff3) = 0xC0000000 + (k - 1) * 4096 + 0xff3"
    using assms(3) by (simp add: sep_def unat_add_word)
  then show ?thesis using assms(3) u by (auto simp: off_table_def sep_def mapped_def word_le_nat_alt)
qed

lemma later_task_clear:
  assumes ok: "table_ok s" and j: "0 < j" "j < 256" and z: "\<forall>x \<in> block (tss_list s) 18432. m0 x = 0"
    and o: "same_off (block (tss_list s) 72 \<union> M) m0 m" and M: "M \<inter> block (tss_list s) 18432 = {}"
  shows "load32 m (task s j) = 0"
proof -
  let ?T = "tss_list s"
  have T: "unat ?T + 18432 \<le> 2 ^ 32" using ok by (simp add: table_ok_def)
  note a = task_addr0 [OF ok j(2)]
  have "block (task s j) 4 \<subseteq> block ?T 18432" using a j by (intro block_mono) simp_all
  moreover have "block (task s j) 4 \<inter> block ?T 72 = {}" using a j by (intro block_disjI) simp
  ultimately have "block (task s j) 4 \<inter> (block ?T 72 \<union> M) = {}" using M by auto
  then have "load32 m (task s j) = load32 m0 (task s j)" using a j T by (intro load32_same_off [OF o]) simp_all
  also have "\<dots> = 0" using a j T by (intro load32_zero_block [of ?T 18432]) (use z in simp_all)
  finally show ?thesis .
qed

lemma sched_init_ok:
  assumes "sched_boot k s"
  shows "\<exists>s'. sched_init s = Inr s' \<and> sched_ok 1 s' \<and> tss_list s' = tss_list s
    \<and> status_of s' 0 = NEW \<and> stack_of s' 0 = kernel_page (k - 1) + 0xfff \<and> worker_stack_top s' = kernel_page k + 0xfff
    \<and> load32 (mem s') (task s 0 + 8) = init_entry s \<and> load32 (mem s') (task s 0 + 12) = 8
    \<and> load32 (mem s') (task s 0 + 16) = 0x282
    \<and> s' = s\<lparr>mem := mem s', next_pid := 2, used_index := 1, worker_stack_top := kernel_page k + 0xfff\<rparr>
    \<and> same_off (block (memmap_kernel s) (unat (kernel_mem_pages s)) \<union> block (tss_list s) 18432) (mem s) (mem s')
    \<and> used_prefix (mem s') (memmap_kernel s) (unat (kernel_mem_pages s)) (k + 2)"
proof -
  let ?N = "unat (kernel_mem_pages s)" and ?map = "memmap_kernel s" and ?T = "tss_list s"
  define s0 where "s0 = s\<lparr>mem := clear_tasks 256 ?T (mem s)\<rparr>"
  have ok: "table_ok s" and idx: "used_index s = 0" "next_pid s = 1" "curr_index s = 0"
    and k: "0 < k" "k + 2 \<le> ?N" "?N \<le> 0x40000"
    and up: "used_prefix (mem s) ?map ?N k" and sp: "sep ?map ?N ?T 18432" "sep (kernel_page (k - 1)) 4096 ?T 18432"
    using assms by (simp_all add: sched_boot_def)
  have T: "unat ?T + 18432 \<le> 2 ^ 32" "mapped ?T" using ok by (simp_all add: table_ok_def)
  have cl: "mem s0 x = (if x \<in> block ?T 18432 then 0 else mem s x)" for x
    using clear_tasks_spec [of ?T 256] T by (simp add: s0_def)
  have "same_on (block ?map ?N) (mem s) (mem s0)" using sep_block [OF sp(1)] by (auto simp: same_on_def cl)
  then have up0: "used_prefix (mem s0) ?map ?N k" by (rule used_prefix_same_on [OF _ up])
  have t0: "task_at s0 0 = ?T" "task s 0 = ?T" by (simp_all add: task_def task_at_def s0_def)
  have spt: "sep ?T 72 ?map ?N" using sep_sym [OF sp(1)] by (rule sep_sub) simp_all
  obtain m where n: "new_tss (init_entry s) s0 = Inr (?T, s0\<lparr>mem := m, next_pid := 2, used_index := 1\<rparr>)"
    and o: "same_off (block ?T 72 \<union> block ?map ?N) (mem s0) m" and um: "used_prefix m ?map ?N (Suc k)"
    and f: "load32 m ?T = 1" "load32 m (?T + 4) = kernel_page (k - 1) + 0xfff" "load32 m (?T + 64) = NEW"
      "load32 m (?T + 8) = init_entry s" "load32 m (?T + 12) = 8" "load32 m (?T + 16) = 0x282"
    using new_tss_eq [of s0 k "init_entry s"] up0 k T spt idx t0 by (auto simp: s0_def)
  define s1 where "s1 = s0\<lparr>mem := m, next_pid := 2, used_index := 1\<rparr>"
  obtain m' where p: "palloc ZONE_KERNEL 4096 s1 = (kernel_page k, s1\<lparr>mem := m'\<rparr>)" and o': "same_off (block ?map ?N) m m'"
    and um': "used_prefix m' ?map ?N (k + 2)"
    using palloc_page [of s1 "Suc k"] um k by (auto simp: s1_def s0_def)
  define s2 where "s2 = s1\<lparr>mem := m', worker_stack_top := kernel_page k + 0xfff\<rparr>"
  have run: "sched_init s = Inr s2"
    using n p by (simp add: sched_init_def Let_def s0_def [symmetric] s1_def [symmetric] s2_def) (simp add: s0_def)
  have keep: "load32 m' (?T + j) = load32 m (?T + j)" if "unat j + 4 \<le> 18432" for j
    using block_part [OF T(1), of 4 j] that sep_block [OF sp(1)] by (intro load32_same_off [OF o']) auto
  have z: "load32 m' (task s j) = 0" if j: "0 < j" "j < 256" for j
  proof -
    have tj: "task s j = ?T + of_nat (72 * j)" "unat (of_nat (72 * j) :: addr) + 4 \<le> 18432"
      using j by (simp_all add: task_def task_at_def unat_of_nat del: of_nat_mult) simp
    have "load32 m (task s j) = 0"
      using later_task_clear [OF ok j _ o] sep_block [OF sp(1)] by (simp add: cl Int_commute)
    then show ?thesis using keep [OF tj(2)] tj(1) by simp
  qed
  have g: "task s2 = task s" "tss_list s2 = ?T" "mem s2 = m'" "curr_index s2 = 0" "off_table s2 = off_table s" "table_ok s2"
    using ok idx by (simp_all add: s2_def s1_def s0_def task_def task_at_def off_table_def table_ok_def fun_eq_iff)
  have f2: "pid_of s2 0 = 1" "status_of s2 0 = NEW" "stack_of s2 0 = kernel_page (k - 1) + 0xfff"
    using f keep [of 0] keep [of 4] keep [of 64] by (simp_all add: pid_of_def status_of_def stack_of_def g t0)
  have pid: "pid_of s2 i = 0 \<longleftrightarrow> 1 \<le> i" if "i < 256" for i
    using z [of i] that f2(1) by (cases i) (simp_all add: pid_of_def g)
  have "off_table s (kernel_page (k - 1) + 0xff3) 12" using k by (intro boot_stack_off_table sp(2)) simp_all
  then have "sched_ok 1 s2" using pid f2 by (simp add: sched_ok_def g add.commute)
  moreover have "load32 m' (?T + 8) = init_entry s" "load32 m' (?T + 12) = 8" "load32 m' (?T + 16) = 0x282"
    using keep [of 8] keep [of 12] keep [of 16] f by simp_all
  moreover have "same_off (block ?map ?N \<union> block ?T 18432) (mem s) (mem s0)" by (simp add: same_off_def cl)
  then have "same_off (block ?map ?N \<union> block ?T 18432) (mem s) m'"
    by (rule same_off_trans [OF _ same_off_trans [OF same_off_mono [OF o] same_off_mono [OF o']]]) (use block_mono [of ?T ?T 72 18432] in auto)
  moreover have "s2 = s\<lparr>mem := mem s2, next_pid := 2, used_index := 1, worker_stack_top := kernel_page k + 0xfff\<rparr>"
    by (simp add: s2_def s1_def s0_def)
  ultimately show ?thesis using run f2 t0 g um' by (intro exI [of _ s2]) (simp add: s2_def)
qed

text \<open>
  C10: \<open>sched_init\<close> on a booted machine succeeds and establishes the scheduler invariant with one
  task. That task is new, starts at \<open>init\<close> with the kernel code segment and interrupts enabled,
  and runs on a page of its own; the scheduler gets the next page as its stack.
\<close>

theorem sched_init_establishes:
  assumes "sched_boot k s"
  shows "\<exists>s'. sched_init s = Inr s' \<and> sched_ok 1 s'
    \<and> status_of s' 0 = NEW \<and> stack_of s' 0 = kernel_page (k - 1) + 0xfff \<and> worker_stack_top s' = kernel_page k + 0xfff
    \<and> load32 (mem s') (task s 0 + 8) = init_entry s \<and> load32 (mem s') (task s 0 + 12) = 8
    \<and> load32 (mem s') (task s 0 + 16) = 0x282"
  using sched_init_ok [OF assms] by blast

section \<open>Contexts across a tick\<close>

lemma bytes_same:
  assumes "bytes_at m' p n = bytes_at m p n" and "same_off (block p n \<union> A) m m'"
  shows "same_off A m m'"
  unfolding same_off_def
proof (intro allI impI)
  fix x assume x: "x \<notin> A"
  show "m' x = m x"
  proof (cases "x \<in> block p n")
    case True
    then obtain i where "i < n" "x = p + of_nat i" by (rule block_cases)
    then show ?thesis using assms(1) by (simp add: bytes_at_eq_iff)
  next
    case False
    then show ?thesis using assms(2) x by (simp add: same_off_def)
  qed
qed

text \<open>A tick from one task that has run to another, spelled out over the three memories it goes through.\<close>

lemma tick_runnable:
  assumes ok: "sched_ok n s" and tick: "tick_ok n stack_frame s"
  defines "c \<equiv> unat (curr_index s)" and "d \<equiv> succ_task n (unat (curr_index s))" and "T \<equiv> block (tss_list s) 18432"
  assumes run: "status_of s c \<noteq> NEW" "status_of s d \<noteq> NEW"
  obtains m1 m2 m3 s' where "do_sched stack_frame s = Inr s'" "mem s' = store32 m3 (task s d + 64) RUNNING"
    "esp_swap s' = task_kernel_stack m2 (task s d)"
    "same_off (block (task s c + 4) 60) (mem s) m1" "m2 = store32 m1 (task s c + 64) RUNNABLE"
    "bytes_at m1 (task s c + 8) 12 = bytes_at (mem s) (esp_swap s) 12"
    "bytes_at m1 (task s c + 20) 44 = bytes_at (mem s) stack_frame 44" "task_kernel_stack m1 (task s c) = esp_swap s"
    "same_on T m2 m3" "same_off (block (esp_swap s) 12 \<union> block stack_frame 44) m2 m3"
    "bytes_at m3 (esp_swap s) 12 = bytes_at m2 (task s d + 8) 12"
    "bytes_at m3 stack_frame 44 = bytes_at m2 (task s d + 20) 44"
proof -
  have c: "c < n" "n \<le> 256" "c < 256" "d < n" "d < 256" and t: "table_ok s"
    using ok by (auto simp: sched_ok_def succ_task_def c_def d_def)
  define s0 where "s0 = s\<lparr>curr_index := of_nat d\<rparr>"
  have f0: "table_ok s0" "off_table s0 (esp_swap s0) 12" "off_table s0 stack_frame 44" "sep (esp_swap s0) 12 stack_frame 44"
    and g0: "task s0 = task s" "mem s0 = mem s" "esp_swap s0 = esp_swap s" "tss_list s0 = tss_list s"
    using t tick by (simp_all add: s0_def tick_ok_def fun_eq_iff)
  obtain m1 where m1: "save_to stack_frame (task s c) s0 = Inr (s0\<lparr>mem := m1\<rparr>)"
      "same_off (block (task s c + 4) 60) (mem s) m1" "bytes_at m1 (task s c + 8) 12 = bytes_at (mem s) (esp_swap s) 12"
      "bytes_at m1 (task s c + 20) 44 = bytes_at (mem s) stack_frame 44" "task_kernel_stack m1 (task s c) = esp_swap s"
    using save_to_eq [OF f0(1) c(3) f0(2,3)] unfolding g0 by blast
  define s1 where "s1 = s0\<lparr>mem := store32 m1 (task s c + 64) RUNNABLE\<rparr>"
  have f1: "table_ok s1" "off_table s1 (esp_swap s1) 12" "off_table s1 stack_frame 44" "sep (esp_swap s1) 12 stack_frame 44"
    and g1: "task s1 = task s" "esp_swap s1 = esp_swap s" "tss_list s1 = tss_list s"
    using f0 by (simp_all add: s1_def g0 fun_eq_iff)
  obtain m3 where m3: "switch_to stack_frame (task s d) s1 = Inr (s1\<lparr>mem := m3, esp_swap := stack_of s1 d\<rparr>)"
      "same_on T (mem s1) m3" "same_off (block (esp_swap s) 12 \<union> block stack_frame 44) (mem s1) m3"
      "bytes_at m3 (esp_swap s) 12 = bytes_at (mem s1) (task s d + 8) 12"
      "bytes_at m3 stack_frame 44 = bytes_at (mem s1) (task s d + 20) 44"
    using switch_to_eq [OF f1(1) c(5) f1(2,3,4)] unfolding g1 T_def by blast
  have fr: "task_frame s {c} (mem s) m1" by (rule task_frame_context [OF t c(3) m1(2)])
  have std: "status_of s d \<in> {RUNNABLE, RUNNING, NEW}" "status_of s d = RUNNING \<Longrightarrow> d = c"
    using ok c(4) unfolding sched_ok_def c_def by blast+
  have "task_status (mem s1) (task s d) = (if d = c then RUNNABLE else status_of s d)"
    using fr store_status(3) [OF t c(3,5)] c(5) by (simp add: s1_def task_frame_def status_of_def)
  then have st1: "task_status (mem s1) (task s d) = RUNNABLE" using std run(2) by auto
  have e: "task_at s (curr_index s) = task s c" "task_at s0 (of_nat d) = task s d"
    by (simp_all add: s0_def task_def task_at_def c_def)
  have "do_sched stack_frame s = Inr (s1\<lparr>mem := store32 m3 (task s d + 64) RUNNING, esp_swap := stack_of s1 d, curr_task := task s d\<rparr>)"
    unfolding do_sched_def next_index [OF ok] d_def [symmetric] Let_def s0_def [symmetric] e
    using run(1) m1(1) m3(1) st1 by (simp add: g0 status_of_def s1_def)
  then show thesis
    by (rule that) (use m1 m3 in \<open>simp_all add: s1_def stack_of_def g1 [unfolded s1_def] g0\<close>)
qed

text \<open>
  C21: with the single task that \<open>sched_init\<close> creates, a tick is invisible to it: the interrupted
  stack pointer is unchanged and no byte outside the task table changes, so the saved registers
  and the return address are restored exactly.
\<close>

theorem single_task_tick_transparent:
  assumes "sched_ok 1 s" and "tick_ok 1 stack_frame s" and "status_of s 0 \<noteq> NEW"
  shows "\<exists>s'. do_sched stack_frame s = Inr s' \<and> esp_swap s' = esp_swap s
    \<and> same_off (block (tss_list s) 18432) (mem s) (mem s')"
proof -
  have c: "unat (curr_index s) = 0" "succ_task 1 0 = 0" and t: "table_ok s"
    using assms(1) by (simp_all add: sched_ok_def succ_task_def)
  have T: "unat (tss_list s) + 18432 \<le> 2 ^ 32" using t by (simp add: table_ok_def)
  note a = task_addr [OF t, of 0]
  obtain m1 m2 m3 s' where r: "do_sched stack_frame s = Inr s'" "mem s' = store32 m3 (task s 0 + 64) RUNNING"
    "esp_swap s' = task_kernel_stack m2 (task s 0)"
    "same_off (block (task s 0 + 4) 60) (mem s) m1" "m2 = store32 m1 (task s 0 + 64) RUNNABLE"
    "bytes_at m1 (task s 0 + 8) 12 = bytes_at (mem s) (esp_swap s) 12"
    "bytes_at m1 (task s 0 + 20) 44 = bytes_at (mem s) stack_frame 44" "task_kernel_stack m1 (task s 0) = esp_swap s"
    "same_off (block (esp_swap s) 12 \<union> block stack_frame 44) m2 m3"
    "bytes_at m3 (esp_swap s) 12 = bytes_at m2 (task s 0 + 8) 12"
    "bytes_at m3 stack_frame 44 = bytes_at m2 (task s 0 + 20) 44"
    by (rule tick_runnable [OF assms(1,2), unfolded c]) (use assms(3) in simp, use assms(3) in simp, rule that)
  let ?T = "block (tss_list s) 18432"
  have tail: "same_off (block (task s 0 + 64) 4) m1 m2" using r(5) T by (simp add: store32_same_off a)
  have in_T: "block (task s 0 + k) l \<subseteq> ?T" if "unat k + l \<le> 72" "0 < l" for k l
    using that by (intro block_mono) (simp_all add: a)
  have m2: "same_off ?T (mem s) m2"
    by (rule same_off_trans [OF same_off_mono [OF r(4)] same_off_mono [OF tail]]) (rule in_T; simp)+
  have b: "bytes_at m2 (task s 0 + 8) 12 = bytes_at m1 (task s 0 + 8) 12" "bytes_at m2 (task s 0 + 20) 44 = bytes_at m1 (task s 0 + 20) 44"
    using T by (intro bytes_at_same_on same_off_on [OF tail] block_disjI; simp add: a)+
  have off: "sep (esp_swap s) 12 (tss_list s) 18432" "sep stack_frame 44 (tss_list s) 18432"
    using assms(2) by (simp_all add: tick_ok_def off_table_def)
  have e: "bytes_at m3 (esp_swap s) 12 = bytes_at m2 (esp_swap s) 12" "bytes_at m3 stack_frame 44 = bytes_at m2 stack_frame 44"
    using r(6,7,10,11) b bytes_at_sep [OF m2 sep_sym [OF off(1)]] bytes_at_sep [OF m2 sep_sym [OF off(2)]] by simp_all
  have "same_off {} m2 m3" by (rule bytes_same [OF e(2)]) (use bytes_same [OF e(1) r(9)] in simp)
  then have "m3 = m2" by (auto simp: same_off_def)
  moreover have "same_off ?T m2 (store32 m2 (task s 0 + 64) RUNNING)"
    using T in_T [of 64 4] by (intro same_off_store32) (simp_all add: a)
  moreover have "task_kernel_stack m2 (task s 0) = esp_swap s"
    using r(5,8) store_status(2) [OF t, of 0 0] by simp
  ultimately show ?thesis using r(1-3) same_off_trans [OF m2] by (intro exI [of _ s']) simp
qed

text \<open>
  C37: with two tasks that have both run, a tick destroys the context of the one it preempts.
  \<open>switch_to\<close> copies the return frame of the next task to the interrupted stack before it changes
  \<open>esp_swap\<close>, and the preempted task is recorded with exactly that stack: when its turn comes
  again, it returns to where the other task was.
\<close>

theorem preempted_frame_overwritten:
  assumes "sched_ok n s" and "tick_ok n stack_frame s" and "1 < n"
    and "status_of s (unat (curr_index s)) \<noteq> NEW" and "d = succ_task n (unat (curr_index s))" and "status_of s d \<noteq> NEW"
  shows "\<exists>s'. do_sched stack_frame s = Inr s' \<and> stack_of s' (unat (curr_index s)) = esp_swap s
    \<and> bytes_at (mem s') (esp_swap s) 12 = bytes_at (mem s) (task_int_stack (task s d)) 12"
proof -
  let ?c = "unat (curr_index s)"
  have t: "table_ok s" and c: "?c < 256" "d < 256" "d \<noteq> ?c" "d < n"
    using assms(1,3,5) by (auto simp: sched_ok_def succ_task_def split: if_splits)
  obtain m1 m2 m3 s' where r: "do_sched stack_frame s = Inr s'" "mem s' = store32 m3 (task s d + 64) RUNNING"
    "same_off (block (task s ?c + 4) 60) (mem s) m1" "m2 = store32 m1 (task s ?c + 64) RUNNABLE"
    "task_kernel_stack m1 (task s ?c) = esp_swap s" "same_on (block (tss_list s) 18432) m2 m3"
    "bytes_at m3 (esp_swap s) 12 = bytes_at m2 (task s d + 8) 12"
    by (rule tick_runnable [OF assms(1,2), unfolded assms(5) [symmetric]]) (use assms(4,6) in simp, use assms(4,6) in simp, rule that)
  have tl: "tss_list s' = tss_list s" using do_sched_tick [OF assms(1,2)] r(1) by auto
  have off: "sep (esp_swap s) 12 (tss_list s) 18432" using assms(2) by (simp add: tick_ok_def off_table_def)
  have T: "unat (tss_list s) + 18432 \<le> 2 ^ 32" using t by (simp add: table_ok_def)
  have "bytes_at m2 (task s d + 8) 12 = bytes_at (mem s) (task s d + 8) 12"
    unfolding r(4) by (rule context_other_task [OF t c(1,2,3) r(3)]) simp_all
  moreover have "same_off (block (task s d + 64) 4) m3 (mem s')"
    unfolding r(2) using T c(2) task_addr [OF t c(2)] by (intro store32_same_off) simp
  then have "bytes_at (mem s') (esp_swap s) 12 = bytes_at m3 (esp_swap s) 12"
    using sep_sym [OF task_part_sep [OF t c(2) off, of 64 4]] by (intro bytes_at_sep) simp_all
  moreover have "load32 m3 (task s ?c + 4) = load32 m2 (task s ?c + 4)"
    using T c(1) task_addr [OF t c(1), of 4] by (intro load32_same_on [OF r(6)] block_mono) simp_all
  then have "load32 (mem s') (task s ?c + 4) = esp_swap s"
    using store_status(2) [OF t c(2,1)] store_status(2) [OF t c(1,1)] r(2,4,5) by simp
  moreover have "task s' = task s" using tl by (simp add: task_def task_at_def fun_eq_iff)
  ultimately show ?thesis using r(1,7) by (intro exI [of _ s']) (simp add: stack_of_def)
qed

section \<open>Round-robin order\<close>

text \<open>
  C9: in every run of \<open>n\<close> ticks over a table of \<open>n\<close> tasks, whatever the tasks do to memory outside the
  table between the ticks, every task is dispatched: there is a tick that makes it the current,
  running task and switches the context to it. The stack pointer and the register frame that the
  interrupt return loads are then those of the task's record, and the context of the interrupted task
  is in its own record (\<open>switched\<close>). For every task but the one current at the start that record is the
  one from the start of the run; a new task also finds its return frame, with the entry point, on its
  stack. Nothing is claimed about the return frame of a task that has run before: \<open>switch_to\<close> writes it to
  the interrupted stack, which \<open>preempted_frame_overwritten\<close> shows to be a defect.
\<close>

theorem sched_dispatches_every_task:
  assumes "sched_ok n s" and "sched_run n n s s'" and "i < n"
  shows "\<exists>k s0 t stack_frame s1. k < n \<and> sched_run n k s s0 \<and> tick_into n stack_frame s0 t s1 \<and> sched_run n (n - Suc k) s1 s'
    \<and> unat (curr_index s1) = i \<and> curr_task s1 = task s i \<and> status_of s1 i = RUNNING \<and> switched stack_frame i t s1
    \<and> (i \<noteq> unat (curr_index s) \<longrightarrow> esp_swap s1 = (if status_of s i = NEW then stack_of s i - 12 else stack_of s i)
        \<and> bytes_at (mem s1) stack_frame 44 = regs_of s i
        \<and> (status_of s i = NEW \<longrightarrow> bytes_at (mem s1) (esp_swap s1) 12 = frame_of s i))"
proof -
  let ?c = "unat (curr_index s)"
  have c: "?c < n" and n: "n \<le> 256" using assms(1) by (simp_all add: sched_ok_def)
  define k where "k = (if ?c < i then i - ?c - 1 else n + i - ?c - 1)"
  have k: "k < n" "(?c + Suc k) mod n = i" using c assms(3) by (auto simp: k_def)
  have before: "\<forall>l \<le> k. (?c + l) mod n \<noteq> i" if "i \<noteq> ?c" using c assms(3) that by (auto simp: k_def mod_if)
  obtain s1 where s1: "sched_run n (Suc k) s s1" "sched_run n (n - Suc k) s1 s'"
    using sched_run_split [of n "Suc k" "n - Suc k"] assms(2) k(1) by auto
  then obtain s0 stack_frame t where s0: "sched_run n k s s0" and t: "tick_into n stack_frame s0 t s1"
    by (auto simp: sched_step_iff elim!: sched_run_SucE)
  note r = sched_run_ok [OF s1(1) assms(1)] and r0 = sched_run_ok [OF s0 assms(1)]
  have ok: "sched_ok n s0" and i1: "unat (curr_index s1) = i" using r r0 k(2) by simp_all
  have sw: "switched stack_frame i t s1" using tick_into_switches(1) [OF ok t] unfolding i1 .
  have "saved_stack t i = stack_of s i" "saved_regs stack_frame t i = regs_of s i" "saved_frame t i = frame_of s i"
      "status_of t i = status_of s i" "stack_of t i = stack_of s i" if i: "i \<noteq> ?c"
  proof -
    have "unat (curr_index t) \<noteq> i" using r0 before [OF i, rule_format, of k] tick_into_found(3) [OF ok t] by simp
    then show "saved_stack t i = stack_of s i" "saved_regs stack_frame t i = regs_of s i" "saved_frame t i = frame_of s i"
      "status_of t i = status_of s i" "stack_of t i = stack_of s i"
      using run_keeps_record [OF s0 assms(1,3) before [OF i]] tick_into_found(5) [OF ok t assms(3)]
      by (auto simp: saved_stack_def saved_regs_def saved_frame_def)
  qed
  then have "esp_swap s1 = (if status_of s i = NEW then stack_of s i - 12 else stack_of s i)
      \<and> bytes_at (mem s1) stack_frame 44 = regs_of s i
      \<and> (status_of s i = NEW \<longrightarrow> bytes_at (mem s1) (esp_swap s1) 12 = frame_of s i)" if "i \<noteq> ?c"
    using sw that by (auto simp: switched_def)
  then show ?thesis
    using s0 t s1(2) r i1 sw k(1) by (intro exI [of _ k] exI [of _ s0] exI [of _ t] exI [of _ stack_frame] exI [of _ s1]) auto
qed

text \<open>
  The invariant of the task table is kept by every run, and at most one task is ever marked as
  running: the one that \<open>curr_index\<close> names.
\<close>

theorem sched_one_running:
  assumes "sched_ok n s" and "sched_run n k s s'" and "i < n" and "status_of s' i = RUNNING"
  shows "sched_ok n s' \<and> i = unat (curr_index s')"
proof -
  have ok: "sched_ok n s'" using sched_run_ok [OF assms(2,1)] by simp
  moreover have "i = unat (curr_index s')" using ok assms(3,4) unfolding sched_ok_def by blast
  ultimately show ?thesis ..
qed

section \<open>Concrete machines\<close>

definition boot_sched :: sched_sys where
  "boot_sched = pci_sys.extend (two_devices\<lparr>mem := tiny_map, memmap_kernel := 0xc0100000, kernel_mem_pages := 8\<rparr>)
     \<lparr>tss_list = 0xc0110000, used_index = 0, curr_index = 0, curr_task = 0, worker_stack_top = 0, next_pid = 1,
      esp_swap = 0xc0200000, jeffies = 0, lit_slash = 0xc0101000, init_entry = 0xc0102000, pit_int = 0xc0103000\<rparr>"

lemma boot_sched_ok: "sched_boot 2 boot_sched"
proof -
  have "used_prefix (mem boot_sched) (memmap_kernel boot_sched) (unat (kernel_mem_pages boot_sched)) 2"
    using tiny_buddy_prefix by (simp add: boot_sched_def tiny_buddy_def pci_sys.defs)
  then show ?thesis
    by (simp add: sched_boot_def boot_sched_def pci_sys.defs table_ok_def mapped_def sep_def kernel_page_def)
qed

theorem sched_init_establishes_witness:
  "\<exists>s'. sched_init boot_sched = Inr s' \<and> sched_ok 1 s'
    \<and> status_of s' 0 = NEW \<and> stack_of s' 0 = 0xc0001fff \<and> worker_stack_top s' = 0xc0002fff
    \<and> load32 (mem s') 0xc0110008 = 0xc0102000 \<and> load32 (mem s') 0xc011000c = 8 \<and> load32 (mem s') 0xc0110010 = 0x282"
  using sched_init_establishes [OF boot_sched_ok]
  by (simp add: kernel_page_def boot_sched_def pci_sys.defs task_def task_at_def)

text \<open>A table with the given states of the first tasks, their process ids counted from 1.\<close>

primrec task_mem :: "u32 list \<Rightarrow> nat \<Rightarrow> memory" where
  "task_mem [] i = (\<lambda>_. 0)"
| "task_mem (v # vs) i = store32 (store32 (task_mem vs (Suc i)) (task boot_sched i) (of_nat (Suc i))) (task boot_sched i + 64) v"

lemma task_cells:
  assumes "table_ok s" and "i < 256" and "j < 256" and "i \<noteq> j" and "unat k + 4 \<le> 72" and "unat l + 4 \<le> 72"
  shows "load32 (store32 m (task s i + k) v) (task s j + l) = load32 m (task s j + l)"
proof (rule load32_frame [OF store32_same_off])
  have c: "72 * j + 72 \<le> 72 * i \<or> 72 * i + 72 \<le> 72 * j" using assms(4) by arith
  have T: "unat (tss_list s) + 18432 \<le> 2 ^ 32" using assms(1) by (simp add: table_ok_def)
  note a = task_addr [OF assms(1,2), of k] task_addr [OF assms(1,3), of l]
  show "unat (task s i + k) + 4 \<le> 2 ^ 32" "unat (task s j + l) + 4 \<le> 2 ^ 32"
    "unat (task s j + l) + 4 \<le> unat (task s i + k) \<or> unat (task s i + k) + 4 \<le> unat (task s j + l)"
    using a c T assms(2,3,5,6) by auto
qed

lemma task_mem_cells:
  "\<lbrakk>i + length vs \<le> 256; j < 256\<rbrakk> \<Longrightarrow>
     load32 (task_mem vs i) (task boot_sched j) = (if i \<le> j \<and> j < i + length vs then of_nat (Suc j) else 0)
   \<and> load32 (task_mem vs i) (task boot_sched j + 64) = (if i \<le> j \<and> j < i + length vs then vs ! (j - i) else 0)"
proof (induction vs arbitrary: i)
  case Nil
  then show ?case by (auto simp: load32_def)
next
  case (Cons v vs)
  have t: "table_ok boot_sched" using boot_sched_ok by (simp add: sched_boot_def)
  show ?case
  proof (cases "j = i")
    case True
    then show ?thesis by (simp add: load32_store32_apart)
  next
    case False
    then have "load32 (store32 m (task boot_sched i + k) u) (task boot_sched j + l) = load32 m (task boot_sched j + l)"
      if "unat k + 4 \<le> 72" "unat l + 4 \<le> 72" for m k u l
      using Cons.prems that by (intro task_cells [OF t]) simp_all
    from this [of 0 0] this [of 0 64] this [of 64 0] this [of 64 64]
    show ?thesis using Cons.IH [of "Suc i"] Cons.prems False by (auto simp: nth_Cons')
  qed
qed

definition two_tasks :: sched_sys where
  "two_tasks = boot_sched\<lparr>mem := task_mem [RUNNING, RUNNABLE] 0\<rparr>"

definition one_task :: sched_sys where
  "one_task = boot_sched\<lparr>mem := task_mem [RUNNING] 0\<rparr>"

lemma task_states:
  assumes "j < 256"
  shows "pid_of two_tasks j = (if j < 2 then of_nat (Suc j) else 0)" "pid_of one_task j = (if j < 1 then of_nat (Suc j) else 0)"
    and "status_of two_tasks j = (if j < 2 then [RUNNING, RUNNABLE] ! j else 0)" "status_of one_task j = (if j < 1 then [RUNNING] ! j else 0)"
  using assms task_mem_cells [of 0 "[RUNNING, RUNNABLE]" j] task_mem_cells [of 0 "[RUNNING]" j]
  by (simp_all add: pid_of_def status_of_def two_tasks_def one_task_def del: task_mem.simps of_nat_Suc)

lemma two_tasks_ok: "sched_ok 2 two_tasks" "tick_ok 2 0xc0200100 two_tasks"
  and one_task_ok: "sched_ok 1 one_task" "tick_ok 1 0xc0200100 one_task"
proof -
  have t: "table_ok boot_sched" using boot_sched_ok by (simp add: sched_boot_def)
  have pid: "(of_nat (Suc j) :: u32) = 0 \<longleftrightarrow> False" if "j < 2" for j
    using that by (cases j) (auto simp: numeral_2_eq_2 less_Suc_eq)
  have cur: "curr_index boot_sched = 0" by (simp add: boot_sched_def pci_sys.defs)
  show "sched_ok 2 two_tasks"
    using t cur by (auto simp: sched_ok_def task_states pid less_2_cases_iff two_tasks_def [THEN arg_cong [of _ _ curr_index]]
        two_tasks_def [THEN arg_cong [of _ _ table_ok]] simp del: of_nat_Suc)
  show "sched_ok 1 one_task"
    using t cur by (auto simp: sched_ok_def task_states one_task_def [THEN arg_cong [of _ _ curr_index]]
        one_task_def [THEN arg_cong [of _ _ table_ok]])
  show "tick_ok 2 0xc0200100 two_tasks"
    by (auto simp: tick_ok_def task_states less_2_cases_iff off_table_def mapped_def sep_def) (simp_all add: two_tasks_def boot_sched_def pci_sys.defs)
  show "tick_ok 1 0xc0200100 one_task"
    by (auto simp: tick_ok_def task_states off_table_def mapped_def sep_def) (simp_all add: one_task_def boot_sched_def pci_sys.defs)
qed

theorem sched_dispatches_every_task_witness:
  "\<exists>s' k s0 t stack_frame s1. k < 2 \<and> sched_run 2 k two_tasks s0 \<and> tick_into 2 stack_frame s0 t s1 \<and> sched_run 2 (2 - Suc k) s1 s'
    \<and> unat (curr_index s1) = 1 \<and> curr_task s1 = task two_tasks 1 \<and> esp_swap s1 = stack_of two_tasks 1
    \<and> bytes_at (mem s1) stack_frame 44 = regs_of two_tasks 1"
proof -
  obtain s' where "sched_run 2 2 two_tasks s'" using sched_run_exists [OF two_tasks_ok] by blast
  moreover have "unat (curr_index two_tasks) = 0" "status_of two_tasks 1 \<noteq> NEW"
    by (simp_all add: task_states) (simp add: two_tasks_def boot_sched_def pci_sys.defs)
  ultimately show ?thesis using sched_dispatches_every_task [OF two_tasks_ok(1), of s' 1] by fastforce
qed

theorem sched_one_running_witness:
  "\<exists>s'. sched_run 2 1 two_tasks s' \<and> status_of s' 1 = RUNNING \<and> sched_ok 2 s' \<and> 1 = unat (curr_index s')"
proof -
  obtain s' where r: "sched_run 2 1 two_tasks s'" using sched_run_exists [OF two_tasks_ok] by blast
  have "unat (curr_index s') = 1" "status_of s' 1 = RUNNING"
    using sched_run_ok [OF r two_tasks_ok(1)] by (auto simp: two_tasks_def boot_sched_def pci_sys.defs)
  then show ?thesis using sched_one_running [OF two_tasks_ok(1) r, of 1] r by auto
qed

theorem single_task_tick_transparent_witness:
  "\<exists>s'. do_sched 0xc0200100 one_task = Inr s' \<and> esp_swap s' = esp_swap one_task
    \<and> same_off (block (tss_list one_task) 18432) (mem one_task) (mem s')"
  using single_task_tick_transparent [OF one_task_ok] by (simp add: task_states)

theorem preempted_frame_overwritten_witness:
  "\<exists>s'. do_sched 0xc0200100 two_tasks = Inr s' \<and> stack_of s' 0 = 0xc0200000
    \<and> bytes_at (mem s') 0xc0200000 12 = bytes_at (mem two_tasks) 0xc0110050 12"
proof -
  have "curr_index two_tasks = 0" "esp_swap two_tasks = 0xc0200000" "task two_tasks 1 = 0xc0110048"
    by (simp_all add: two_tasks_def boot_sched_def pci_sys.defs task_def task_at_def)
  then show ?thesis
    using preempted_frame_overwritten [OF two_tasks_ok, of 1] by (simp add: task_states succ_task_def)
qed

end
