(* ===== verification/Drivers_Char.thy ===== *)
theory Drivers_Char
  imports Kernel_Sched_Init Lib_Bst
begin

text \<open>
  The character devices: the registry of \<open>drivers/char/chardev.c\<close>, the memory devices of
  \<open>devmem.c\<close>, the serial lines of \<open>serial.c\<close>, and the registration of the console (\<open>tty_init\<close> of
  \<open>tty.c\<close>). A driver is a 16-byte \<open>cdev_t\<close> in a search tree keyed by its major number. Its entry
  points are code addresses: the fields \<open>fn_\<dots>\<close> are the addresses of the functions the kernel
  registers, and a call through any other pointer is \<open>Undefined\<close>.
\<close>

abbreviation (input) EPERM :: u32 where "EPERM \<equiv> 1"
abbreviation (input) ENOENT :: u32 where "ENOENT \<equiv> 2"
abbreviation (input) ENODEV :: u32 where "ENODEV \<equiv> 19"
abbreviation (input) ENFILE :: u32 where "ENFILE \<equiv> 23"
abbreviation (input) ENOSPC :: u32 where "ENOSPC \<equiv> 28"

abbreviation (input) MAJOR_MEM :: u16 where "MAJOR_MEM \<equiv> 1"
abbreviation (input) MAJOR_TTY :: u16 where "MAJOR_TTY \<equiv> 2"

abbreviation (input) cdev_read :: "memory \<Rightarrow> addr \<Rightarrow> addr" where "cdev_read m p \<equiv> load32 m (p + 4)"
abbreviation (input) cdev_write :: "memory \<Rightarrow> addr \<Rightarrow> addr" where "cdev_write m p \<equiv> load32 m (p + 8)"
abbreviation (input) cdev_ioctl :: "memory \<Rightarrow> addr \<Rightarrow> addr" where "cdev_ioctl m p \<equiv> load32 m (p + 12)"

abbreviation (input) MINOR_DEVMEM_MEM :: u16 where "MINOR_DEVMEM_MEM \<equiv> 1"
abbreviation (input) MINOR_DEVMEM_PORT :: u16 where "MINOR_DEVMEM_PORT \<equiv> 3"
abbreviation (input) MINOR_DEVMEM_FULL :: u16 where "MINOR_DEVMEM_FULL \<equiv> 4"
abbreviation (input) MEM_DEV_HI :: addr where "MEM_DEV_HI \<equiv> 0xc0100000"
abbreviation (input) MEM_DEV_LO :: addr where "MEM_DEV_LO \<equiv> 0xc0000000"
abbreviation (input) PORT_DEV_HI :: int where "PORT_DEV_HI \<equiv> 0xffff"
abbreviation (input) PORT_DEV_LO :: u16 where "PORT_DEV_LO \<equiv> 0"

abbreviation (input) SERIAL_DATA :: "u16 \<Rightarrow> u16" where "SERIAL_DATA port \<equiv> port"
abbreviation (input) SERIAL_INT :: "u16 \<Rightarrow> u16" where "SERIAL_INT port \<equiv> port + 1"
abbreviation (input) SERIAL_FIFO :: "u16 \<Rightarrow> u16" where "SERIAL_FIFO port \<equiv> port + 2"
abbreviation (input) SERIAL_LINECTL :: "u16 \<Rightarrow> u16" where "SERIAL_LINECTL port \<equiv> port + 3"
abbreviation (input) SERIAL_MODEM :: "u16 \<Rightarrow> u16" where "SERIAL_MODEM port \<equiv> port + 4"

abbreviation (input) bios_serial_addr :: "memory \<Rightarrow> addr \<Rightarrow> nat \<Rightarrow> u16" where
  "bios_serial_addr m b i \<equiv> load16 m (b + 2 * of_nat i)"

record char_sys = sched_sys +
  chardev_root :: addr
  mem_ptr :: addr
  port_ptr :: u16
  serial_ports :: "u16 list"
  biosdata :: addr
  fn_devmem_read :: addr
  fn_devmem_write :: addr
  fn_tty_write :: addr

section \<open>Memory devices\<close>

text \<open>\<open>port_ptr\<close> is a signed short, and the comparison is made on its promotion to \<open>int\<close>.\<close>

definition devmem_read :: "hardware \<Rightarrow> u16 \<Rightarrow> 'a char_sys_scheme \<Rightarrow> (u32 \<times> 'a char_sys_scheme) result" where
  "devmem_read hw minor s =
     (if minor = MINOR_DEVMEM_MEM then
        deref (mem_ptr s)
         (let result = mem s (mem_ptr s);
              p = mem_ptr s + 1
          in Inr (scast result, s\<lparr>mem_ptr := if p \<ge> MEM_DEV_HI then MEM_DEV_LO else p\<rparr>))
      else if minor = MINOR_DEVMEM_PORT then
        let (result, s) = inb hw (port_ptr s) s;
            p = port_ptr s + 1
        in Inr (scast result, s\<lparr>port_ptr := if sint p \<ge> PORT_DEV_HI then PORT_DEV_LO else p\<rparr>)
      else Inr (0, s))"

definition devmem_write :: "u16 \<Rightarrow> u8 \<Rightarrow> 'a char_sys_scheme \<Rightarrow> (u32 \<times> 'a char_sys_scheme) result" where
  "devmem_write minor data s = Inr (if minor = MINOR_DEVMEM_FULL then - ENOSPC else - EPERM, s)"

section \<open>The registry\<close>

definition creat_cdev :: "u16 \<Rightarrow> addr \<Rightarrow> addr \<Rightarrow> addr \<Rightarrow> 'a char_sys_scheme \<Rightarrow> 'a char_sys_scheme result" where
  "creat_cdev major read write ioctl s =
     bindE (kmalloc 16 s) (\<lambda>(newdev, s). deref newdev
      (let m = store16 (mem s) newdev major;
           m = store32 m (newdev + 4) read;
           m = store32 m (newdev + 8) write;
           m = store32 m (newdev + 12) ioctl
       in bst_add (chardev_root s) newdev (scast major) (s\<lparr>mem := m\<rparr>)))"

text \<open>Calls through the function pointers of a driver; \<open>tty_write\<close> may return without a value.\<close>

definition call_cdev_read :: "hardware \<Rightarrow> addr \<Rightarrow> u16 \<Rightarrow> 'a char_sys_scheme \<Rightarrow> (u32 \<times> 'a char_sys_scheme) result" where
  "call_cdev_read hw f minor s = (if f = fn_devmem_read s then devmem_read hw minor s else Inl Undefined)"

definition call_cdev_write ::
  "hardware \<Rightarrow> addr \<Rightarrow> u16 \<Rightarrow> u8 \<Rightarrow> 'a char_sys_scheme \<Rightarrow> (u32 option \<times> 'a char_sys_scheme) result" where
  "call_cdev_write hw f minor data s =
     (if f = fn_devmem_write s then bindE (devmem_write minor data s) (\<lambda>(r, s). Inr (Some r, s))
      else if f = fn_tty_write s then tty_write hw minor data s else Inl Undefined)"

definition cread :: "hardware \<Rightarrow> u16 \<Rightarrow> u16 \<Rightarrow> 'a char_sys_scheme \<Rightarrow> (u32 \<times> 'a char_sys_scheme) result" where
  "cread hw major minor s =
     bindE (bst_search (mem s) (load32 (mem s) (chardev_root s)) (scast major)) (\<lambda>dev.
       if dev = 0 then Inr (- ENODEV, s)
       else deref dev
        (if cdev_read (mem s) dev = 0 then Inr (- ENODEV, s) else call_cdev_read hw (cdev_read (mem s) dev) minor s))"

definition cwrite :: "hardware \<Rightarrow> u16 \<Rightarrow> u16 \<Rightarrow> u8 \<Rightarrow> 'a char_sys_scheme \<Rightarrow> (u32 option \<times> 'a char_sys_scheme) result" where
  "cwrite hw major minor data s =
     bindE (bst_search (mem s) (load32 (mem s) (chardev_root s)) (scast major)) (\<lambda>dev.
       if dev = 0 then Inr (Some (- ENODEV), s)
       else deref dev
        (if cdev_write (mem s) dev = 0 then Inr (Some (- ENODEV), s)
         else call_cdev_write hw (cdev_write (mem s) dev) minor data s))"

text \<open>No driver registers an \<open>ioctl\<close> function, so a call through the pointer is \<open>Undefined\<close>.\<close>

definition cioctl :: "u16 \<Rightarrow> u16 \<Rightarrow> u32 \<Rightarrow> 'a char_sys_scheme \<Rightarrow> (u32 \<times> 'a char_sys_scheme) result" where
  "cioctl major minor cmd s =
     bindE (bst_search (mem s) (load32 (mem s) (chardev_root s)) (scast major)) (\<lambda>dev.
       if dev = 0 then Inr (- ENODEV, s)
       else deref dev (if cdev_ioctl (mem s) dev = 0 then Inr (- ENODEV, s) else Inl Undefined))"

section \<open>Initialisation\<close>

definition devmem_init :: "'a char_sys_scheme \<Rightarrow> 'a char_sys_scheme result" where
  "devmem_init s =
     bindE (creat_cdev MAJOR_MEM (fn_devmem_read s) (fn_devmem_write s) 0 s) (\<lambda>s.
       Inr (s\<lparr>mem_ptr := MEM_DEV_LO, port_ptr := PORT_DEV_LO\<rparr>))"

text \<open>\<open>memset(fores, DEFAULT_FORE, sizeof (fores))\<close> sets every byte of every \<open>int\<close>.\<close>

definition tty_init :: "'a char_sys_scheme \<Rightarrow> 'a char_sys_scheme result" where
  "tty_init s =
     bindE (creat_cdev MAJOR_TTY 0 (fn_tty_write s) 0 s) (\<lambda>s.
       let s = s\<lparr>curr_tty := 1\<rparr>;
           (p, s) = palloc ZONE_KERNEL 4096 s
       in Inr (s\<lparr>ttys := (ttys s)[1 := p], fores := replicate 255 0x07070707, backs := replicate 255 0\<rparr>))"

definition init_one_com :: "hardware \<Rightarrow> u16 \<Rightarrow> nat \<Rightarrow> 'a char_sys_scheme \<Rightarrow> bool \<times> 'a char_sys_scheme" where
  "init_one_com hw port index s =
     (let s = outb (SERIAL_INT port) 0x00 s;
          s = outb (SERIAL_LINECTL port) 0x80 s;
          s = outb (SERIAL_DATA port) 0x03 s;
          s = outb (SERIAL_INT port) 0x00 s;
          s = outb (SERIAL_LINECTL port) 0x03 s;
          s = outb (SERIAL_FIFO port) 0 s;
          s = outb (SERIAL_MODEM port) 0x0B s;
          s = outb (SERIAL_MODEM port) 0x1E s;
          s = outb (SERIAL_DATA port) 0xAE s;
          (v, s) = inb hw (SERIAL_DATA port) s
      in if v \<noteq> 0xAE then (True, s)
         else (let s = outb (SERIAL_MODEM port) 0x0B s
               in (False, s\<lparr>serial_ports := (serial_ports s)[index := port]\<rparr>)))"

text \<open>The result is \<open>None\<close> where the function ends without a return statement.\<close>

definition serial_read :: "u16 \<Rightarrow> 'a char_sys_scheme \<Rightarrow> u32 option result" where
  "serial_read minor s =
     (let i = sint minor - 1 in
      if 0 \<le> i \<and> i < 4 then
        if serial_ports s ! nat i = 0 then Inr (Some (- ENODEV)) else Inr None
      else Inl Out_Of_Bounds)"

text \<open>The two loops of \<open>serial_init\<close>, with the number of rounds left and the loop variable.\<close>

primrec init_coms :: "hardware \<Rightarrow> nat \<Rightarrow> nat \<Rightarrow> 'a char_sys_scheme \<Rightarrow> 'a char_sys_scheme" where
  "init_coms hw 0 i s = s"
| "init_coms hw (Suc n) i s =
     (if bios_serial_addr (mem s) (biosdata s) i \<noteq> 0
      then init_coms hw n (Suc i) (snd (init_one_com hw (bios_serial_addr (mem s) (biosdata s) i) i s)) else s)"

primrec enable_pins :: "nat \<Rightarrow> nat \<Rightarrow> 'a char_sys_scheme \<Rightarrow> 'a char_sys_scheme result" where
  "enable_pins 0 i s = Inr s"
| "enable_pins (Suc n) i s =
     bindE (ioapic_enable (of_nat (i mod 14)) (of_nat i) s) (\<lambda>s. enable_pins n (Suc i) s)"

definition serial_init :: "hardware \<Rightarrow> 'a char_sys_scheme \<Rightarrow> 'a char_sys_scheme result" where
  "serial_init hw s = deref (biosdata s) (enable_pins 24 0 (init_coms hw 4 0 s))"

definition char_init :: "hardware \<Rightarrow> 'a char_sys_scheme \<Rightarrow> 'a char_sys_scheme result" where
  "char_init hw s = bindE (devmem_init s) (\<lambda>s. bindE (tty_init s) (serial_init hw))"

definition load_graphic :: "hardware \<Rightarrow> 'a char_sys_scheme \<Rightarrow> 'a char_sys_scheme result" where
  "load_graphic hw s = tty_preinit hw s"

end
