(* ===== verification/Fs_Vfs.thy ===== *)
theory Fs_Vfs
  imports Drivers_Char
begin

text \<open>
  \<open>fs/vfs.c\<close>: the mount table, the driver registry and the file system calls. The static mount
  points and drivers are structs in memory whose addresses are fields of the state, like the
  cells of the static pointers. No driver has any function yet: a call through a driver's pointer
  is the argument \<open>drv\<close>, which gets the pointer and the argument words.
\<close>

abbreviation (input) mount_path :: "memory \<Rightarrow> addr \<Rightarrow> addr" where "mount_path m p \<equiv> load32 m p"
abbreviation (input) mount_path_len :: "memory \<Rightarrow> addr \<Rightarrow> u32" where "mount_path_len m p \<equiv> load32 m (p + 4)"
abbreviation (input) mount_driver_id :: "memory \<Rightarrow> addr \<Rightarrow> u32" where "mount_driver_id m p \<equiv> load32 m (p + 8)"

abbreviation (input) drv_close :: "memory \<Rightarrow> addr \<Rightarrow> addr" where "drv_close m p \<equiv> load32 m (p + 28)"
abbreviation (input) drv_mkdir :: "memory \<Rightarrow> addr \<Rightarrow> addr" where "drv_mkdir m p \<equiv> load32 m (p + 52)"
abbreviation (input) drv_open :: "memory \<Rightarrow> addr \<Rightarrow> addr" where "drv_open m p \<equiv> load32 m (p + 60)"
abbreviation (input) drv_read :: "memory \<Rightarrow> addr \<Rightarrow> addr" where "drv_read m p \<equiv> load32 m (p + 68)"
abbreviation (input) drv_write :: "memory \<Rightarrow> addr \<Rightarrow> addr" where "drv_write m p \<equiv> load32 m (p + 84)"

abbreviation (input) fd_driver_id :: "memory \<Rightarrow> addr \<Rightarrow> u32" where "fd_driver_id m p \<equiv> load32 m p"
abbreviation (input) fd_internal_inode :: "memory \<Rightarrow> addr \<Rightarrow> u32" where "fd_internal_inode m p \<equiv> load32 m (p + 4)"

abbreviation (input) MINIX_FS_DRV :: u32 where "MINIX_FS_DRV \<equiv> 1"
abbreviation (input) DEVFS_FS_DRV :: u32 where "DEVFS_FS_DRV \<equiv> 2"

record vfs_sys = char_sys +
  mount_point_head :: addr
  fs_driver_head :: addr
  fd_head :: addr
  mount_point_root :: addr
  mount_point_dev :: addr
  minix_fs_drv :: addr
  devfs_fs_drv :: addr
  path_swap :: addr
  mp_swap :: addr
  most_long :: int

type_synonym 's driver_call = "addr \<Rightarrow> u32 list \<Rightarrow> 's \<Rightarrow> (u32 \<times> 's) result"

section \<open>Path resolution\<close>

definition get_fs_type_callback :: "'a vfs_sys_scheme callback" where
  "get_fs_type_callback node s =
     deref node
      (let mp = node_data (mem s) node in
       deref mp
        (if memcmp (mem s) (mount_path (mem s) mp) (path_swap s) (mount_path_len (mem s) mp) = 0
            \<and> sint (mount_path_len (mem s) mp) > most_long s
         then Inr (0, s\<lparr>most_long := sint (mount_path_len (mem s) mp), mp_swap := mp\<rparr>)
         else Inr (0, s)))"

text \<open>A \<open>str\<close> function whose loop ends with \<open>None\<close> never returns.\<close>

definition ends :: "('x \<times> memory) option \<Rightarrow> memory result" where
  "ends r = (case r of None \<Rightarrow> Inl Diverges | Some (_, m) \<Rightarrow> Inr m)"

text \<open>The absolute path in a fresh buffer: a relative path is appended to the task's directory.\<close>

definition absolute_path :: "addr \<Rightarrow> 'a vfs_sys_scheme \<Rightarrow> (addr \<times> 'a vfs_sys_scheme) result" where
  "absolute_path path s =
     (if mem s path \<noteq> 0x2f then
        deref (curr_task s)
         (let pwd = task_pwd (mem s) (curr_task s) in
          bindE (kmalloc (strlen (mem s) pwd + strlen (mem s) path + 1) s) (\<lambda>(buf, s).
          deref buf
           (bindE (ends (strcpy (mem s) buf pwd)) (\<lambda>m.
            bindE (ends (strcat m buf path)) (\<lambda>m. Inr (buf, s\<lparr>mem := m\<rparr>))))))
      else
        bindE (kmalloc (strlen (mem s) path + 1) s) (\<lambda>(buf, s).
        deref buf (bindE (ends (strcpy (mem s) buf path)) (\<lambda>m. Inr (buf, s\<lparr>mem := m\<rparr>)))))"

text \<open>The result is the return value, \<open>*baked\<close> and \<open>*fs_type\<close>.\<close>

definition get_fs_type :: "addr \<Rightarrow> 'a vfs_sys_scheme \<Rightarrow> ((u32 \<times> addr \<times> u32) \<times> 'a vfs_sys_scheme) result" where
  "get_fs_type path s =
     (let s = s\<lparr>mp_swap := 0, most_long := 0\<rparr> in
      deref path
       (bindE (absolute_path path s) (\<lambda>(buf, s).
        let s = s\<lparr>path_swap := buf\<rparr> in
        bindE (list_iter (load32 (mem s) (mount_point_head s)) get_fs_type_callback s) (\<lambda>s.
        if mp_swap s = 0 then bindE (kfree buf s) (\<lambda>s. Inr ((1, 0, 0), s))
        else
          let baked = path + mount_path_len (mem s) (mp_swap s) in
          deref (mp_swap s) (deref baked
           (let baked = (if mem s baked = 0x2f then baked + 1 else baked) in
            bindE (kfree buf s) (\<lambda>s.
            Inr ((0, baked, mount_driver_id (mem s) (mp_swap s)), s))))))))"

section \<open>File system calls\<close>

text \<open>The return value, \<open>*type\<close> and \<open>*inode\<close>.\<close>

definition get_fd_info :: "u32 \<Rightarrow> 'a vfs_sys_scheme \<Rightarrow> (u32 \<times> u32 \<times> u32) result" where
  "get_fd_info fd_id s =
     bindE (bst_search (mem s) (load32 (mem s) (fd_head s)) fd_id) (\<lambda>fd.
       if fd = 0 then Inr (1, 0, 0)
       else deref fd (Inr (0, fd_driver_id (mem s) fd, fd_internal_inode (mem s) fd)))"

text \<open>\<open>((fs_driver_t *) bst_search(fs_driver_head, type))->ptrs\<close>, then the call unless it is null.\<close>

definition call_driver ::
  "'a vfs_sys_scheme driver_call \<Rightarrow> (memory \<Rightarrow> addr \<Rightarrow> addr) \<Rightarrow> u32 \<Rightarrow> u32 list \<Rightarrow> 'a vfs_sys_scheme
     \<Rightarrow> (u32 \<times> 'a vfs_sys_scheme) result" where
  "call_driver drv field type args s =
     bindE (bst_search (mem s) (load32 (mem s) (fs_driver_head s)) type) (\<lambda>p. deref p
       (if field (mem s) p = 0 then Inr (- EPERM, s) else drv (field (mem s) p) args s))"

definition fs_close :: "'a vfs_sys_scheme driver_call \<Rightarrow> u32 \<Rightarrow> 'a vfs_sys_scheme \<Rightarrow> (u32 \<times> 'a vfs_sys_scheme) result" where
  "fs_close drv fd s =
     bindE (get_fd_info fd s) (\<lambda>(r, type, inode).
       if r \<noteq> 0 then Inr (- ENFILE, s) else call_driver drv drv_close type [inode] s)"

definition fs_mkdir :: "'a vfs_sys_scheme driver_call \<Rightarrow> addr \<Rightarrow> u16 \<Rightarrow> 'a vfs_sys_scheme \<Rightarrow> (u32 \<times> 'a vfs_sys_scheme) result" where
  "fs_mkdir drv path mode s =
     bindE (get_fs_type path s) (\<lambda>((r, baked, type), s).
       if r \<noteq> 0 then Inr (- ENOENT, s) else call_driver drv drv_mkdir type [baked, ucast mode] s)"

definition fs_open :: "'a vfs_sys_scheme driver_call \<Rightarrow> addr \<Rightarrow> u32 \<Rightarrow> 'a vfs_sys_scheme \<Rightarrow> (u32 \<times> 'a vfs_sys_scheme) result" where
  "fs_open drv path oflag s =
     bindE (get_fs_type path s) (\<lambda>((r, baked, type), s).
       if r \<noteq> 0 then Inr (- ENOENT, s) else call_driver drv drv_open type [baked, oflag] s)"

definition fs_read :: "'a vfs_sys_scheme driver_call \<Rightarrow> u32 \<Rightarrow> addr \<Rightarrow> u32 \<Rightarrow> 'a vfs_sys_scheme \<Rightarrow> (u32 \<times> 'a vfs_sys_scheme) result" where
  "fs_read drv fd buf nbytes s =
     bindE (get_fd_info fd s) (\<lambda>(r, type, inode).
       if r \<noteq> 0 then Inr (- ENFILE, s) else call_driver drv drv_read type [inode, buf, nbytes] s)"

definition fs_write :: "'a vfs_sys_scheme driver_call \<Rightarrow> u32 \<Rightarrow> addr \<Rightarrow> u32 \<Rightarrow> 'a vfs_sys_scheme \<Rightarrow> (u32 \<times> 'a vfs_sys_scheme) result" where
  "fs_write drv fd buf nbytes s =
     bindE (get_fd_info fd s) (\<lambda>(r, type, inode).
       if r \<noteq> 0 then Inr (- ENFILE, s) else call_driver drv drv_write type [inode, buf, nbytes] s)"

definition fs_init :: "'a vfs_sys_scheme \<Rightarrow> 'a vfs_sys_scheme result" where
  "fs_init s =
     bindE (list_insert (mount_point_head s) (mount_point_root s) s) (\<lambda>(_, s).
     bindE (list_insert (mount_point_head s) (mount_point_dev s) s) (\<lambda>(_, s).
     bindE (bst_add (fs_driver_head s) (minix_fs_drv s) MINIX_FS_DRV s) (\<lambda>s.
     bst_add (fs_driver_head s) (devfs_fs_drv s) DEVFS_FS_DRV s)))"

end
