(* ===== verification/Drivers_Block.thy ===== *)
theory Drivers_Block
  imports Fs_Vfs
begin

text \<open>
  The block devices: the registry of \<open>drivers/block/blkdev.c\<close> and the disk probe of
  \<open>drivers/block/ata.c\<close>. A driver is a 16-byte \<open>bdev_t\<close>; no driver registers itself, so a call
  through one of its pointers is the argument \<open>drv\<close>. \<open>ata_device_list\<close> is the address of the
  static array of four 12-byte structs.
\<close>

abbreviation (input) bdev_read :: "memory \<Rightarrow> addr \<Rightarrow> addr" where "bdev_read m p \<equiv> load32 m (p + 4)"
abbreviation (input) bdev_write :: "memory \<Rightarrow> addr \<Rightarrow> addr" where "bdev_write m p \<equiv> load32 m (p + 8)"
abbreviation (input) bdev_ioctl :: "memory \<Rightarrow> addr \<Rightarrow> addr" where "bdev_ioctl m p \<equiv> load32 m (p + 12)"

abbreviation (input) PRIM_CHNN_BASE :: u16 where "PRIM_CHNN_BASE \<equiv> 0x1f0"
abbreviation (input) SCND_CHNN_BASE :: u16 where "SCND_CHNN_BASE \<equiv> 0x170"
abbreviation (input) PRIM_CHNN_IRQ :: u8 where "PRIM_CHNN_IRQ \<equiv> 14"
abbreviation (input) SCND_CHNN_IRQ :: u8 where "SCND_CHNN_IRQ \<equiv> 15"
abbreviation (input) PRIM_CHNN_VEC :: u8 where "PRIM_CHNN_VEC \<equiv> 0x21"
abbreviation (input) SCND_CHNN_VEC :: u8 where "SCND_CHNN_VEC \<equiv> 0x22"
abbreviation (input) ATA_MASTER_DRV :: u8 where "ATA_MASTER_DRV \<equiv> 0xa0"
abbreviation (input) ATA_SLAVE_DRV :: u8 where "ATA_SLAVE_DRV \<equiv> 0xb0"

abbreviation (input) ata_valid :: "memory \<Rightarrow> addr \<Rightarrow> u32" where "ata_valid m p \<equiv> load32 m p"
abbreviation (input) ata_sector_count :: "memory \<Rightarrow> addr \<Rightarrow> u32" where "ata_sector_count m p \<equiv> load32 m (p + 8)"

record block_sys = vfs_sys +
  blkdev_root :: addr
  sect_buffer :: addr
  ata_device_list :: addr
  bus_master_port :: "u16 list"
  prdt :: addr
  ata_devices :: addr
  ata_prim_int :: addr
  ata_scnd_int :: addr

section \<open>The registry\<close>

definition creat_bdev :: "u16 \<Rightarrow> addr \<Rightarrow> addr \<Rightarrow> addr \<Rightarrow> 'a block_sys_scheme \<Rightarrow> 'a block_sys_scheme result" where
  "creat_bdev major read write ioctl s =
     bindE (kmalloc 16 s) (\<lambda>(newdev, s). deref newdev
      (let m = store16 (mem s) newdev major;
           m = store32 m (newdev + 4) read;
           m = store32 m (newdev + 8) write;
           m = store32 m (newdev + 12) ioctl
       in bst_add (blkdev_root s) newdev (scast major) (s\<lparr>mem := m\<rparr>)))"

definition call_bdev ::
  "'a block_sys_scheme driver_call \<Rightarrow> (memory \<Rightarrow> addr \<Rightarrow> addr) \<Rightarrow> u16 \<Rightarrow> u32 list \<Rightarrow> 'a block_sys_scheme
     \<Rightarrow> (u32 \<times> 'a block_sys_scheme) result" where
  "call_bdev drv field major args s =
     bindE (bst_search (mem s) (load32 (mem s) (blkdev_root s)) (scast major)) (\<lambda>dev.
       if dev = 0 then Inr (- ENODEV, s)
       else deref dev (if field (mem s) dev = 0 then Inr (- ENODEV, s) else drv (field (mem s) dev) args s))"

definition bread ::
  "'a block_sys_scheme driver_call \<Rightarrow> u16 \<Rightarrow> u16 \<Rightarrow> addr \<Rightarrow> u32 \<Rightarrow> 'a block_sys_scheme \<Rightarrow> (u32 \<times> 'a block_sys_scheme) result" where
  "bread drv major minor buf count = call_bdev drv bdev_read major [scast minor, buf, count]"

definition bwrite ::
  "'a block_sys_scheme driver_call \<Rightarrow> u16 \<Rightarrow> u16 \<Rightarrow> addr \<Rightarrow> u32 \<Rightarrow> 'a block_sys_scheme \<Rightarrow> (u32 \<times> 'a block_sys_scheme) result" where
  "bwrite drv major minor buf count = call_bdev drv bdev_write major [scast minor, buf, count]"

definition bioctl ::
  "'a block_sys_scheme driver_call \<Rightarrow> u16 \<Rightarrow> u16 \<Rightarrow> u32 \<Rightarrow> 'a block_sys_scheme \<Rightarrow> (u32 \<times> 'a block_sys_scheme) result" where
  "bioctl drv major minor cmd = call_bdev drv bdev_ioctl major [scast minor, cmd]"

section \<open>The disk probe\<close>

definition bus_numbers :: "u16 \<Rightarrow> u8 \<Rightarrow> karg list" where
  "bus_numbers port dev = [Num (if port = PRIM_CHNN_BASE then 0 else 1), Num (if dev = ATA_MASTER_DRV then 0 else 1)]"

definition ata_fail :: "hardware \<Rightarrow> u16 \<Rightarrow> u8 \<Rightarrow> addr \<Rightarrow> 'a tty_scheme \<Rightarrow> 'a tty_scheme result" where
  "ata_fail hw port dev target s =
     bindE (printk_lit hw (''ata bus[%i,%i]: no drive found'' @ [CHR 0x0a]) (bus_numbers port dev) s) (\<lambda>s.
       Inr (s\<lparr>mem := store32 (mem s) target 0\<rparr>))"

text \<open>The polling loop: \<open>True\<close> when the drive is ready, \<open>False\<close> when it reports an error.\<close>

partial_function (option) ata_poll ::
  "hardware \<Rightarrow> u16 \<Rightarrow> 'a machine_scheme \<Rightarrow> (bool \<times> 'a machine_scheme) result option" where
  "ata_poll hw port s =
     (let (v, s) = inb hw (port + 7) s in
      if v AND 0x1 \<noteq> 0 then Some (Inr (False, s))
      else
        let (v, s) = inb hw (port + 7) s in
        if v AND 0x80 = 0 then
          let (v, s) = inb hw (port + 7) s in
          if v AND 0x40 = 0x40 then Some (Inr (True, s)) else ata_poll hw port s
        else ata_poll hw port s)"

primrec read_sector :: "hardware \<Rightarrow> nat \<Rightarrow> addr \<Rightarrow> u16 \<Rightarrow> 'a machine_scheme \<Rightarrow> 'a machine_scheme" where
  "read_sector hw 0 buf port s = s"
| "read_sector hw (Suc n) buf port s =
     (let (v, s) = inw hw port s in read_sector hw n (buf + 2) port (s\<lparr>mem := store16 (mem s) buf v\<rparr>))"

definition identify_ata :: "hardware \<Rightarrow> u16 \<Rightarrow> u8 \<Rightarrow> addr \<Rightarrow> 'a block_sys_scheme \<Rightarrow> 'a block_sys_scheme result" where
  "identify_ata hw port dev target s =
     (let s = outb_p (port + 6) dev s;
          s = outb_p (port + 2) 0 s;
          s = outb_p (port + 3) 0 s;
          s = outb_p (port + 4) 0 s;
          s = outb_p (port + 5) 0 s;
          s = outb_p (port + 7) 0xec s;
          (v, s) = inb hw (port + 7) s in
      if v = 0 then ata_fail hw port dev target s
      else
        bindE (returns (ata_poll hw port s)) (\<lambda>(ready, s).
        if \<not> ready then ata_fail hw port dev target s
        else
          deref (sect_buffer s)
           (let s = read_sector hw 256 (sect_buffer s) port s in
            bindE (printk_lit hw ''ata bus[%i,%i]: '' (bus_numbers port dev) s) (\<lambda>s.
            let capacity = load32 (mem s) (sect_buffer s + 120) in
            bindE (printk_lit hw (''generic IDE harddisk (%iMB)'' @ [CHR 0x0a]) [Num (capacity div 2048)] s) (\<lambda>s.
            let m = store16 (mem s) (target + 4) port;
                m = m(target + 6 := dev);
                m = store32 m (target + 8) (load32 m (sect_buffer s + 120))
            in Inr (s\<lparr>mem := store32 m target 1\<rparr>))))))"

text \<open>The compiler evaluates the arguments of the call from right to left.\<close>

definition do_ata_int :: "hardware \<Rightarrow> 'a block_sys_scheme \<Rightarrow> 'a block_sys_scheme result" where
  "do_ata_int hw s =
     (let port = bus_master_port s ! 0;
          s = outb_p port 8 s in
      bindE (printk_lit hw (''ATA INT!'' @ [CHR 0x0a]) [] s) (\<lambda>s.
      let (status, s) = inb hw (PRIM_CHNN_BASE + 7) s;
          (bm, s) = inb hw (port + 2) s in
      bindE (printk_lit hw (''%x %x'' @ [CHR 0x0a]) [Num (ucast bm), Num (ucast status)] s) (\<lambda>s.
      deref (sect_buffer s)
       (printk_lit hw (''%x'' @ [CHR 0x0a]) [Num (ucast (load16 (mem s) (sect_buffer s + 510)))] s))))"

text \<open>Gate and pin of a channel are set up when one of its two drives is there.\<close>

definition enable_channel ::
  "u32 \<Rightarrow> u32 \<Rightarrow> u8 \<Rightarrow> u8 \<Rightarrow> addr \<Rightarrow> 'a block_sys_scheme \<Rightarrow> 'a block_sys_scheme result" where
  "enable_channel d0 d1 vec irq isr s =
     (if ata_valid (mem s) (ata_device_list s + 12 * d0) = 1 \<or> ata_valid (mem s) (ata_device_list s + 12 * d1) = 1
      then ioapic_enable vec irq (set_int_gate vec isr s) else Inr s)"

text \<open>\<open>devices\<close>, the local array of \<open>ata_init\<close>, is the buffer at \<open>ata_devices\<close>.\<close>

definition set_bus_master :: "nat \<Rightarrow> 'a block_sys_scheme \<Rightarrow> 'a block_sys_scheme result" where
  "set_bus_master i s =
     (let device = load32 (mem s) (ata_devices s + 4 * of_nat i) in deref device
       (Inr (s\<lparr>bus_master_port := (bus_master_port s)[i := ucast (load32 (mem s) (device + 12 + 16) AND 0xFFFC)]\<rparr>)))"

definition start_dma :: "'a block_sys_scheme \<Rightarrow> 'a block_sys_scheme result" where
  "start_dma s =
     (let (p, s) = palloc ZONE_KERNEL 4096 s in
      deref p
       (let m = store32 (mem s) p (sect_buffer s - 0xC0000000);
            m = store32 m (p + 4) 0x80000200;
            s = s\<lparr>mem := m, prdt := p - 0xc0000000\<rparr>;
            port = bus_master_port s ! 0;
            s = outl_p (port + 4) (prdt s) s;
            s = outb_p port 8 s;
            s = outb_p (port + 2) 0 s;
            s = outb_p (PRIM_CHNN_BASE + 2) 1 s;
            s = outb_p (PRIM_CHNN_BASE + 3) 0 s;
            s = outb_p (PRIM_CHNN_BASE + 4) 0 s;
            s = outb_p (PRIM_CHNN_BASE + 5) 0 s;
            s = outb_p (PRIM_CHNN_BASE + 6) 0xe0 s;
            s = outb_p (PRIM_CHNN_BASE + 7) 0xc8 s
        in Inr (outb_p port 9 s)))"

definition ata_init :: "hardware \<Rightarrow> 'a block_sys_scheme \<Rightarrow> 'a block_sys_scheme result" where
  "ata_init hw s =
     (let (p, s) = palloc ZONE_KERNEL 4096 s;
          s = s\<lparr>sect_buffer := p\<rparr>;
          list = ata_device_list s in
      bindE (printk_lit hw (''scanning ATA bus'' @ [CHR 0x0a]) [] s) (\<lambda>s.
      bindE (identify_ata hw PRIM_CHNN_BASE ATA_MASTER_DRV list s) (\<lambda>s.
      bindE (identify_ata hw PRIM_CHNN_BASE ATA_SLAVE_DRV (list + 12) s) (\<lambda>s.
      bindE (identify_ata hw SCND_CHNN_BASE ATA_MASTER_DRV (list + 24) s) (\<lambda>s.
      bindE (identify_ata hw SCND_CHNN_BASE ATA_SLAVE_DRV (list + 36) s) (\<lambda>s.
      bindE (enable_channel 0 1 PRIM_CHNN_VEC PRIM_CHNN_IRQ (ata_prim_int s) s) (\<lambda>s.
      bindE (enable_channel 2 3 SCND_CHNN_VEC SCND_CHNN_IRQ (ata_scnd_int s) s) (\<lambda>s.
      bindE (get_device_by_class 1 1 (ata_devices s) 2 s) (\<lambda>(num, s).
      bindE (if num = 0 then printk_lit hw (''no DMA support'' @ [CHR 0x0a]) [] s else Inr s) (\<lambda>s.
      bindE (if 1 \<le> num then set_bus_master 0 s else Inr s) (\<lambda>s.
      bindE (if num = 2 then set_bus_master 1 s else Inr s) start_dma)))))))))))"

definition block_init :: "hardware \<Rightarrow> 'a block_sys_scheme \<Rightarrow> 'a block_sys_scheme result" where
  "block_init hw s = ata_init hw s"

end
