(* ===== verification/Kernel_Main.thy ===== *)
theory Kernel_Main
  imports Drivers_Block
begin

text \<open>
  \<open>mm/init.c\<close>, \<open>kernel/panic.c\<close>, \<open>kernel/interrupt.c\<close> and \<open>kernel/main.c\<close>: memory setup, the panic
  screen, the exception handlers, and the boot sequence that composes the components. \<open>panic\<close> and
  \<open>kmain\<close> end in an endless loop; the result is the state in which they loop. The registers that
  \<open>dump_cpu\<close> reads with inline assembler are the argument \<open>regs\<close>.
\<close>

record cpu_regs =
  reg_eax :: u32
  reg_ebx :: u32
  reg_ecx :: u32
  reg_edx :: u32
  reg_edi :: u32
  reg_esi :: u32
  reg_ebp :: u32
  reg_esp :: u32
  reg_eip :: u32
  reg_cs :: u32
  reg_ss :: u32
  reg_ds :: u32
  reg_es :: u32
  reg_fs :: u32
  reg_gs :: u32
  reg_cr0 :: u32
  reg_cr2 :: u32
  reg_cr3 :: u32

section \<open>Memory\<close>

definition total_memory :: "u32 \<Rightarrow> u32" where
  "total_memory memupper = ((memupper + 1024) AND 0xfffff800) + 2048"

text \<open>\<open>kernel_end\<close> is the linker's symbol for the end of the kernel image.\<close>

definition mm_init :: "hardware \<Rightarrow> addr \<Rightarrow> 'a tty_scheme \<Rightarrow> 'a tty_scheme result" where
  "mm_init hw kernel_end s =
     deref (multiboot_config s)
      (let total_mem = total_memory (mb_mem_upper (mem s) (multiboot_config s)) in
       bindE (printk_lit hw (''mem total %i kb'' @ [CHR 0x0a]) [Num total_mem] s) (\<lambda>s.
         slab_init (page_init kernel_end total_mem s)))"

section \<open>Panic\<close>

primrec dump_words :: "hardware \<Rightarrow> nat \<Rightarrow> addr \<Rightarrow> 'a tty_scheme \<Rightarrow> 'a tty_scheme result" where
  "dump_words hw 0 stack s = Inr s"
| "dump_words hw (Suc n) stack s =
     deref stack (bindE (printk_lit hw ''%p '' [Num (load32 (mem s) stack)] s) (dump_words hw n (stack - 4)))"

text \<open>The break of the outer loop tests for row 18, which the five rows never reach.\<close>

primrec dump_rows :: "hardware \<Rightarrow> nat \<Rightarrow> addr \<Rightarrow> 'a tty_scheme \<Rightarrow> 'a tty_scheme result" where
  "dump_rows hw 0 stack s = Inr s"
| "dump_rows hw (Suc n) stack s =
     bindE (dump_words hw 8 stack s) (\<lambda>s.
     bindE (printk_lit hw [CHR 0x0a] [] s) (dump_rows hw n (stack - 32)))"

definition dump_cpu :: "hardware \<Rightarrow> cpu_regs \<Rightarrow> 'a tty_scheme \<Rightarrow> 'a tty_scheme result" where
  "dump_cpu hw regs s =
     bindE (printk_lit hw
       (''eax=%p, ebx=%p, ecx=%p, edx=%p'' @ [CHR 0x0a] @ ''edi=%p, esi=%p, ebp=%p, esp=%p'' @ [CHR 0x0a] @
        ''cs=%p, ss=%p, ds=%p, es=%p, fs=%p, gs=%p'' @ [CHR 0x0a] @
        ''current eip=%p, cr0=%p, cr2=%p, cr3=%p'' @ [CHR 0x0a] @
        ''-----------------------------------CALL STACK-----------------------------------'')
       [Num (reg_eax regs), Num (reg_ebx regs), Num (reg_ecx regs), Num (reg_edx regs), Num (reg_edi regs), Num (reg_esi regs),
        Num (reg_ebp regs), Num (reg_esp regs), Num (reg_cs regs), Num (reg_ss regs), Num (reg_ds regs), Num (reg_es regs),
        Num (reg_fs regs), Num (reg_gs regs), Num (reg_eip regs), Num (reg_cr0 regs), Num (reg_cr2 regs), Num (reg_cr3 regs)] s)
     (dump_rows hw 5 (reg_esp regs))"

definition panic :: "hardware \<Rightarrow> cpu_regs \<Rightarrow> string \<Rightarrow> 'a tty_scheme \<Rightarrow> 'a tty_scheme result" where
  "panic hw regs reason s =
     bindE (printk_lit hw (''Kernel Panic: %s'' @ [CHR 0x0a]) [Str (ascii reason)] s) (dump_cpu hw regs)"

section \<open>Exception handlers\<close>

definition do_divide_error :: "hardware \<Rightarrow> cpu_regs \<Rightarrow> 'a tty_scheme \<Rightarrow> 'a tty_scheme result" where
  "do_divide_error hw regs = panic hw regs ''divide error caught''"

definition do_debug :: "hardware \<Rightarrow> cpu_regs \<Rightarrow> 'a tty_scheme \<Rightarrow> 'a tty_scheme result" where
  "do_debug hw regs = panic hw regs ''debug trap caught''"

definition do_nmi :: "hardware \<Rightarrow> cpu_regs \<Rightarrow> 'a tty_scheme \<Rightarrow> 'a tty_scheme result" where
  "do_nmi hw regs = panic hw regs ''nmi error caught''"

definition do_int3 :: "hardware \<Rightarrow> cpu_regs \<Rightarrow> 'a tty_scheme \<Rightarrow> 'a tty_scheme result" where
  "do_int3 hw regs = panic hw regs ''int3 trap caught''"

definition do_overflow :: "hardware \<Rightarrow> cpu_regs \<Rightarrow> 'a tty_scheme \<Rightarrow> 'a tty_scheme result" where
  "do_overflow hw regs = panic hw regs ''overflow trap caught''"

definition do_bounds :: "hardware \<Rightarrow> cpu_regs \<Rightarrow> 'a tty_scheme \<Rightarrow> 'a tty_scheme result" where
  "do_bounds hw regs = panic hw regs ''bound check trap caught''"

definition do_opcode :: "hardware \<Rightarrow> cpu_regs \<Rightarrow> 'a tty_scheme \<Rightarrow> 'a tty_scheme result" where
  "do_opcode hw regs = panic hw regs ''opcode error caught''"

definition do_device_not_present :: "hardware \<Rightarrow> cpu_regs \<Rightarrow> 'a tty_scheme \<Rightarrow> 'a tty_scheme result" where
  "do_device_not_present hw regs = panic hw regs ''device not present error caught''"

definition do_double_fault :: "hardware \<Rightarrow> cpu_regs \<Rightarrow> u32 \<Rightarrow> 'a tty_scheme \<Rightarrow> 'a tty_scheme result" where
  "do_double_fault hw regs err_code = panic hw regs ''double fault caught''"

definition do_i387_overrun :: "hardware \<Rightarrow> cpu_regs \<Rightarrow> 'a tty_scheme \<Rightarrow> 'a tty_scheme result" where
  "do_i387_overrun hw regs = panic hw regs ''i387 overrun caught''"

definition do_illegal_tss :: "hardware \<Rightarrow> cpu_regs \<Rightarrow> u32 \<Rightarrow> 'a tty_scheme \<Rightarrow> 'a tty_scheme result" where
  "do_illegal_tss hw regs err_code = panic hw regs ''illegal tss caught''"

definition do_illegal_segment :: "hardware \<Rightarrow> cpu_regs \<Rightarrow> u32 \<Rightarrow> 'a tty_scheme \<Rightarrow> 'a tty_scheme result" where
  "do_illegal_segment hw regs err_code = panic hw regs ''illegal segment caught''"

definition do_stack_overflow :: "hardware \<Rightarrow> cpu_regs \<Rightarrow> u32 \<Rightarrow> 'a tty_scheme \<Rightarrow> 'a tty_scheme result" where
  "do_stack_overflow hw regs err_code = panic hw regs ''stack overflow caught''"

definition do_general_protect :: "hardware \<Rightarrow> cpu_regs \<Rightarrow> u32 \<Rightarrow> 'a tty_scheme \<Rightarrow> 'a tty_scheme result" where
  "do_general_protect hw regs err_code = panic hw regs ''general protection exception caught''"

definition do_page_fault :: "hardware \<Rightarrow> cpu_regs \<Rightarrow> addr \<Rightarrow> 'a tty_scheme \<Rightarrow> 'a tty_scheme result" where
  "do_page_fault hw regs err_code s =
     deref err_code
      (bindE (printk_lit hw (''last executed code %p'' @ [CHR 0x0a]) [Num (load32 (mem s) err_code)] s)
        (panic hw regs ''page fault caught''))"

definition do_reserved :: "hardware \<Rightarrow> cpu_regs \<Rightarrow> 'a tty_scheme \<Rightarrow> 'a tty_scheme result" where
  "do_reserved hw regs = panic hw regs ''unknow interrupt caught''"

section \<open>Boot\<close>

text \<open>The second half of \<open>kmain\<close>, which starts the services once the processor is set up.\<close>

definition kmain_services :: "hardware \<Rightarrow> addr \<Rightarrow> 'a vfs_sys_scheme \<Rightarrow> 'a vfs_sys_scheme result" where
  "kmain_services hw kernel_end s =
     bindE (mm_init hw kernel_end s) (\<lambda>s.
     bindE (pci_init hw s) (\<lambda>s.
     bindE (fs_init s) (\<lambda>s.
     bindE (char_init hw s) (\<lambda>s.
     bindE (pit_init s) (\<lambda>s.
     bindE (sched_init s) (\<lambda>s.
     bindE (printk_lit hw (''hardware setup done'' @ [CHR 0x0a]) [] s) (\<lambda>s.
     Inr (hlt (unlock_kernel s)))))))))"

definition kmain ::
  "hardware \<Rightarrow> (u32 \<Rightarrow> u32 \<times> u32 \<times> u32 \<times> u32) \<Rightarrow> (nat \<Rightarrow> addr) \<Rightarrow> u32 \<Rightarrow> addr \<Rightarrow> addr
     \<Rightarrow> 'a vfs_sys_scheme \<Rightarrow> 'a vfs_sys_scheme result" where
  "kmain hw cpuid isr i0 kernel_end info s =
     (let s = lock_kernel s;
          s = s\<lparr>multiboot_config := info\<rparr> in
      bindE (load_graphic hw s) (\<lambda>s.
      bindE (printk_lit hw (''Setting up hardwares'' @ [CHR 0x0a]) [] s) (\<lambda>s.
      bindE (arch_init hw cpuid isr i0 s) (kmain_services hw kernel_end))))"

text \<open>The first task, up to its endless loop.\<close>

definition init :: "hardware \<Rightarrow> 'a tty_scheme \<Rightarrow> 'a tty_scheme result" where
  "init hw s = bindE (printk_lit hw (''running init'' @ [CHR 0x0a]) [] s) (\<lambda>s. Inr (hlt s))"

end
