(* ===== verification/Kernel_Mm_Init.thy ===== *)
theory Kernel_Mm_Init
  imports Kernel_Main Heap_Clients
begin

text \<open>
  Memory setup from the boot loader's information to a working allocator: \<open>mm_init\<close> prints the
  size of the memory, lays out the page maps behind the kernel image and builds the caches.
\<close>

section \<open>Output at boot\<close>

lemma ascii_mem_total:
  "ascii (''mem total %i kb'' @ [CHR 0x0a])
    = [0x6d, 0x65, 0x6d, 0x20, 0x74, 0x6f, 0x74, 0x61, 0x6c, 0x20, 0x25, 0x69, 0x20, 0x6b, 0x62, 0x0a]"
  by code_simp

lemma mem_total_out:
  assumes "0 \<le> sint v"
  shows "\<exists>out. lit_out (ascii (''mem total %i kb'' @ [CHR 0x0a])) [Num v] = Inr out \<and> 0x1b \<notin> set out"
proof -
  have "printk_d v = Inr (decimal (nat (sint v)))" using printk_dec_values [of v] assms by auto
  then have "lit_out (ascii (''mem total %i kb'' @ [CHR 0x0a])) [Num v]
    = Inr ([0x6d, 0x65, 0x6d, 0x20, 0x74, 0x6f, 0x74, 0x61, 0x6c, 0x20] @ decimal (nat (sint v)) @ [0x20, 0x6b, 0x62, 0x0a])"
    unfolding ascii_mem_total by (simp add: conversion_def num_arg_def)
  moreover have "0x1b \<notin> set (decimal (nat (sint v)))" using decimal_digits [of "nat (sint v)"] by (auto simp: digit_def)
  ultimately show ?thesis by simp
qed

text \<open>The allocator looks at its own memory and variables, so output to the screen leaves it alone.\<close>

lemma tty_step_heap:
  assumes "tty_step s s'" and "heap_inv s A" and "screen (tty_VRAM s) \<inter> A = {}"
  shows "heap_inv s' A" and "pages_left s' = pages_left s"
proof -
  obtain m i x y where s': "s' = s\<lparr>mem := m, io := i, tty_x := x, tty_y := y\<rparr>" and off: "same_off (screen (tty_VRAM s)) (mem s) m"
  proof
    show "s' = s\<lparr>mem := mem s', io := io s', tty_x := tty_x s', tty_y := tty_y s'\<rparr>" using assms(1) unfolding tty_step_def by blast
    show "same_off (screen (tty_VRAM s)) (mem s) (mem s')" using assms(1) by (simp add: tty_step_def)
  qed
  note on = same_off_on [OF off assms(3)]
  show "heap_inv s' A" using heap_inv_frame [OF assms(2) on] by (simp add: s' heap_unfold)
  show "pages_left s' = pages_left s" using pages_left_frame [OF assms(2) on] by (simp add: s' pages_left_def)
qed

section \<open>The kernel image and the memory behind it\<close>

text \<open>
  The size of the kernel zone in pages, from the boot loader's count of kilobytes above the first
  megabyte, and the number of pages the image and the maps behind it take.
\<close>

definition zone_pages :: "'a tty_scheme \<Rightarrow> nat" where
  "zone_pages s = unat (total_memory (mb_mem_upper (mem s) (multiboot_config s))) div 16"

definition image_pages :: "addr \<Rightarrow> 'a tty_scheme \<Rightarrow> nat" where
  "image_pages ke s = (unat ke + 4 * zone_pages s - 0xC0000000) div 4096 + 1"

text \<open>Everything behind the image and the cache of caches inside it.\<close>

definition mm_area :: "addr \<Rightarrow> 'a tty_scheme \<Rightarrow> addr set" where
  "mm_area ke s = {x. unat ke \<le> unat x} \<union> block (kmem_kmem s) 28"

text \<open>
  What \<open>mm_init\<close> relies on: a working console away from the allocator, a boot information block,
  enough memory for the maps and the first slabs, and the initialiser of \<open>kmem_kmem\<close> in place.
\<close>

definition kernel_image :: "addr \<Rightarrow> 'a tty_scheme \<Rightarrow> bool" where
  "kernel_image ke s \<longleftrightarrow> tty_idle s \<and> screen (tty_VRAM s) \<inter> mm_area ke s = {} \<and> mapped (multiboot_config s)
     \<and> 0xC0000000 \<le> unat ke \<and> unat ke + 4 * zone_pages s < 2 ^ 32
     \<and> image_pages ke s + 12 < zone_pages s \<and> zone_pages s \<le> 0x40000 \<and> 4096 \<le> 3 * zone_pages s
     \<and> mapped (kmem_kmem s) \<and> unat (kmem_kmem s) + 28 \<le> unat ke
     \<and> mem s = kmem_kmem_image (kmem_kmem s) (mem s) \<and> length (quick_alloc_table s) = 12"

lemma mem_total_positive:
  assumes "unat (v :: u32) div 16 \<le> 0x40000"
  shows "0 \<le> sint v"
proof -
  have "unat v < 0x400010" using assms by simp
  then have "\<not> bit (unat v) 31" by (simp add: bit_iff_odd)
  then show ?thesis by (simp add: sint_uint signed_take_bit_eq_if_positive word_size bit_uint_iff bit_unsigned_iff)
qed

lemma kmem_kmem_image_iff:
  "m = kmem_kmem_image k m \<longleftrightarrow> load32 m k = 0 \<and> load32 m (k + 4) = 0 \<and> load32 m (k + 8) = 0 \<and> load32 m (k + 12) = 28
     \<and> load32 m (k + 16) = (SLAB_SIZE - 20) div (8 + 28) \<and> load32 m (k + 20) = KMEM_FLAG_STRICT \<and> load32 m (k + 24) = 0"
  (is "_ \<longleftrightarrow> ?R m")
proof
  have "?R (kmem_kmem_image k m)" by (simp add: kmem_kmem_image_def Let_def load32_store32_apart add.assoc)
  then show "m = kmem_kmem_image k m \<Longrightarrow> ?R m" by metis
  show "?R m \<Longrightarrow> m = kmem_kmem_image k m"
    using store32_id [of m k] store32_id [of m "k + 4"] store32_id [of m "k + 8"] store32_id [of m "k + 12"]
      store32_id [of m "k + 16"] store32_id [of m "k + 20"] store32_id [of m "k + 24"]
    by (simp add: kmem_kmem_image_def Let_def)
qed

lemma kmem_kmem_image_frame:
  assumes "m = kmem_kmem_image k m" and "same_on (block k 28) m m'" and "unat k + 28 \<le> 2 ^ 32"
  shows "m' = kmem_kmem_image k m'"
proof -
  have f: "load32 m' (k + j) = load32 m (k + j)" if "unat j + 4 \<le> 28" for j
    using block_part [OF assms(3), of 4 j] that by (intro load32_same_on [OF assms(2)]) auto
  from f [of 0] f [of 4] f [of 8] f [of 12] f [of 16] f [of 20] f [of 24]
  show ?thesis using assms(1) unfolding kmem_kmem_image_iff by simp
qed

section \<open>What memory setup leaves alone\<close>

definition mm_rest :: "'a slab_sys_scheme \<Rightarrow> 'a slab_sys_scheme" where
  "mm_rest s = s\<lparr>mem := (\<lambda>_. 0), memmap_kernel := 0, memmap_user := 0, memmap_end := 0, kernel_mem_pages := 0,
     user_mem_pages := 0, quick_alloc_table := []\<rparr>"

definition boot_rest :: "'a tty_scheme \<Rightarrow> 'a tty_scheme" where
  "boot_rest s = (mm_rest s)\<lparr>io := [], tty_x := 0, tty_y := 0\<rparr>"

lemma mm_rest_mem_only: "mem_only s s' \<Longrightarrow> mm_rest s' = mm_rest s"
  by (auto simp: mm_rest_def elim!: mem_onlyE)

lemma page_init_rest: "mm_rest (page_init ke tm s) = mm_rest s"
  by (simp add: page_init_def Let_def mm_rest_def)

lemma add_kmem_mem_only [mem_only_intros]: "add_kmem sz f s = Inr (k, s') \<Longrightarrow> mem_only s s'"
  by (auto simp: add_kmem_def Let_def deref_def bindE_Inr_iff dest!: alloc_from_kmem_mem_only split: if_splits)

lemma slab_init_loop_rest: "slab_init_loop n i sz s = Inr s' \<Longrightarrow> mm_rest s' = mm_rest s"
proof (induction n arbitrary: i sz s)
  case (Suc n)
  then obtain k s1 where 1: "add_kmem sz KMEM_FLAG_COMFORT s = Inr (k, s1)"
    "slab_init_loop n (Suc i) (push_bit 1 sz) (s1\<lparr>quick_alloc_table := (quick_alloc_table s1)[i := k]\<rparr>) = Inr s'"
    by (auto simp: bindE_Inr_iff)
  have "mm_rest s' = mm_rest (s1\<lparr>quick_alloc_table := (quick_alloc_table s1)[i := k]\<rparr>)" by (rule Suc.IH [OF 1(2)])
  also have "\<dots> = mm_rest s" using mm_rest_mem_only [OF add_kmem_mem_only [OF 1(1)]] by (simp add: mm_rest_def)
  finally show ?case .
qed simp

lemma boot_rest_mm: "mm_rest s' = mm_rest s \<Longrightarrow> boot_rest s' = boot_rest s"
  by (simp add: boot_rest_def)

lemma boot_rest_tty:
  assumes "tty_step s s'"
  shows "boot_rest s' = boot_rest s"
proof -
  have "s' = s\<lparr>mem := mem s', io := io s', tty_x := tty_x s', tty_y := tty_y s'\<rparr>" using assms unfolding tty_step_def by blast
  from arg_cong [OF this, of boot_rest] show ?thesis by (simp add: boot_rest_def mm_rest_def)
qed

lemma tty_step_slab:
  assumes "tty_step s s'"
  shows "kmem_kmem s' = kmem_kmem s" "quick_alloc_table s' = quick_alloc_table s"
proof -
  have e: "s' = s\<lparr>mem := mem s', io := io s', tty_x := tty_x s', tty_y := tty_y s'\<rparr>" using assms unfolding tty_step_def by blast
  show "kmem_kmem s' = kmem_kmem s" "quick_alloc_table s' = quick_alloc_table s" by (subst e, simp)+
qed

text \<open>The variables on which the console's readiness depends.\<close>

definition tty_vars :: "'a tty_scheme \<Rightarrow> addr \<times> int \<times> int \<times> int \<times> nat \<times> u8 list" where
  "tty_vars s = (tty_VRAM s, tty_x s, tty_y s, command_sequence_status s, buf_ptr s, command_buf s)"

lemma tty_vars_idle: "tty_vars s' = tty_vars s \<Longrightarrow> tty_idle s' = tty_idle s"
  by (simp add: tty_vars_def tty_idle_def tty_ok_def)

lemma mm_rest_tty: "mm_rest s' = mm_rest s \<Longrightarrow> tty_vars s' = tty_vars s" for s s' :: "'a tty_scheme"
proof -
  assume "mm_rest s' = mm_rest s"
  from arg_cong [OF this, of tty_vars] show ?thesis by (simp add: mm_rest_def tty_vars_def)
qed

section \<open>Memory setup\<close>

lemma heap_top_image:
  assumes "kernel_image ke s"
  shows "unat ke + zone_pages s \<le> heap_top (image_pages ke s)"
proof -
  let ?X = "unat ke + 4 * zone_pages s - 0xC0000000"
  have "heap_top (image_pages ke s) = 0xC0000000 + ?X div 4096 * 4096" by (simp add: heap_top_def image_pages_def)
  moreover have "?X div 4096 * 4096 + ?X mod 4096 = ?X" by simp
  moreover have "?X mod 4096 < 4096" by simp
  moreover have "0xC0000000 \<le> unat ke" "4096 \<le> 3 * zone_pages s" using assms by (simp_all add: kernel_image_def)
  ultimately show ?thesis by linarith
qed

lemma page_init_slab_boot:
  assumes "kernel_image ke s" and "tty_step s s1"
  defines "s2 \<equiv> page_init ke (total_memory (mb_mem_upper (mem s) (multiboot_config s))) s1"
  shows "slab_boot s2 (image_pages ke s)" and "boot_area s2 (image_pages ke s) \<subseteq> mm_area ke s"
    and "same_off (screen (tty_VRAM s) \<union> mm_area ke s) (mem s) (mem s2)" and "unat (kernel_mem_pages s2) = zone_pages s"
proof -
  let ?tm = "total_memory (mb_mem_upper (mem s) (multiboot_config s))" and ?r = "image_pages ke s" and ?N = "zone_pages s"
  have N: "unat ?tm div 16 = ?N" by (simp add: zone_pages_def)
  have i: "0xC0000000 \<le> unat ke" "unat ke + 4 * (unat ?tm div 16) < 2 ^ 32" "?r + 12 < ?N" "?N \<le> 0x40000"
      "mapped (kmem_kmem s)" "unat (kmem_kmem s) + 28 \<le> unat ke" "mem s = kmem_kmem_image (kmem_kmem s) (mem s)"
      "length (quick_alloc_table s) = 12" "screen (tty_VRAM s) \<inter> mm_area ke s = {}"
    using assms(1) by (simp_all add: kernel_image_def N)
  note f = page_init_facts [OF i(1,2), of s1, folded s2_def, unfolded N]
  have r: "?r = reserved_pages (memmap_end s2)" using f(5) by (simp add: reserved_pages_def image_pages_def)
  have le: "?r \<le> unat (kernel_mem_pages s2)" using i(3) f(2) by simp
  have up: "used_prefix (mem s2) (memmap_kernel s2) (unat (kernel_mem_pages s2)) ?r"
    by (rule page_init_prefix(1) [OF i(1,2) meta_eq_to_obj_eq [OF s2_def] r le])
  have "mem s2 x = mem s1 x" if "unat x < unat ke" for x
    using page_init_mem [OF i(1,2), of ?r s1 x, folded s2_def] r i(3) f(5) that by simp
  then have o2: "same_off (mm_area ke s) (mem s1) (mem s2)" by (auto simp: same_off_def mm_area_def not_le)
  have o1: "same_off (screen (tty_VRAM s)) (mem s) (mem s1)" using assms(2) by (simp add: tty_step_def)
  show "same_off (screen (tty_VRAM s) \<union> mm_area ke s) (mem s) (mem s2)"
    by (rule same_off_trans [OF same_off_mono [OF o1] same_off_mono [OF o2]]) auto
  have k: "kmem_kmem s2 = kmem_kmem s" "quick_alloc_table s2 = quick_alloc_table s"
    using tty_step_slab [OF assms(2)] by (simp_all add: s2_def page_init_def Let_def)
  have "same_on (block (kmem_kmem s) 28) (mem s1) (mem s2)"
    using \<open>\<And>x. unat x < unat ke \<Longrightarrow> mem s2 x = mem s1 x\<close> i(6) by (auto simp: same_on_def mem_block_iff)
  moreover have "same_on (block (kmem_kmem s) 28) (mem s) (mem s1)"
    by (rule same_off_on [OF o1]) (use i(9) in \<open>auto simp: mm_area_def\<close>)
  ultimately have "same_on (block (kmem_kmem s) 28) (mem s) (mem s2)" by (rule same_on_trans [rotated])
  then have "mem s2 = kmem_kmem_image (kmem_kmem s) (mem s2)"
    by (rule kmem_kmem_image_frame [OF i(7)]) (use i(2,6) in simp)
  then show "slab_boot s2 ?r" using up f i heap_top_image [OF assms(1)] by (simp add: slab_boot_def k image_pages_def)
  show "boot_area s2 ?r \<subseteq> mm_area ke s"
    using heap_top_image [OF assms(1)] f(1) k(1) by (auto simp: boot_area_def mm_area_def mem_block_iff)
  show "unat (kernel_mem_pages s2) = ?N" by (rule f(2))
qed

lemma mm_init_ok:
  assumes "kernel_image ke s"
  shows "\<exists>s' A. mm_init hw ke s = Inr s' \<and> heap_inv s' A \<and> A \<subseteq> mm_area ke s
    \<and> zone_pages s \<le> pages_left s' + (image_pages ke s + 12) \<and> tty_idle s' \<and> boot_rest s' = boot_rest s
    \<and> same_off (screen (tty_VRAM s) \<union> mm_area ke s) (mem s) (mem s')"
proof -
  let ?tm = "total_memory (mb_mem_upper (mem s) (multiboot_config s))" and ?r = "image_pages ke s"
  have i: "tty_idle s" "mapped (multiboot_config s)" "zone_pages s \<le> 0x40000" using assms by (simp_all add: kernel_image_def)
  obtain out where "lit_out (ascii (''mem total %i kb'' @ [CHR 0x0a])) [Num ?tm] = Inr out" "0x1b \<notin> set out"
    using mem_total_out [OF mem_total_positive] i(3) unfolding zone_pages_def by blast
  then obtain s1 where s1: "printk_lit hw (''mem total %i kb'' @ [CHR 0x0a]) [Num ?tm] s = Inr s1" "tty_idle s1" "tty_step s s1"
    using printk_lit_ok [OF i(1)] by blast
  define s2 where "s2 = page_init ke ?tm s1"
  note b = page_init_slab_boot [OF assms s1(3), folded s2_def]
  obtain s' A where s': "slab_init s2 = Inr s'" "heap_inv s' A" "A \<subseteq> boot_area s2 ?r"
    "same_off (boot_area s2 ?r) (mem s2) (mem s')" "pages_left s2 \<le> pages_left s' + 12"
    using slab_init_heap [OF b(1)] by blast
  have up: "used_prefix (mem s2) (memmap_kernel s2) (unat (kernel_mem_pages s2)) ?r" using b(1) unfolding slab_boot_def by blast
  have "zone_pages s \<le> pages_left s' + (?r + 12)" using s'(5) pages_left_prefix [OF up] b(4) by simp
  moreover have rest: "mm_rest s' = mm_rest s1" using slab_init_loop_rest s'(1) page_init_rest unfolding slab_init_def s2_def by metis
  then have "boot_rest s' = boot_rest s" using boot_rest_mm boot_rest_tty [OF s1(3)] by metis
  moreover have "tty_idle s'" using tty_vars_idle [OF mm_rest_tty [OF rest]] s1(2) by simp
  moreover have "same_off (screen (tty_VRAM s) \<union> mm_area ke s) (mem s) (mem s')"
    by (rule same_off_trans [OF b(3) same_off_mono [OF s'(4)]]) (use b(2) in blast)
  moreover have "mm_init hw ke s = Inr s'" using i(2) s1(1) s'(1) by (simp add: mm_init_def Let_def s2_def)
  ultimately show ?thesis using s'(2,3) b(2) by blast
qed

text \<open>
  C2: on every machine whose memory fits the kernel image, \<open>mm_init\<close> succeeds and hands over an
  intact allocator that owns memory behind the image only, with all pages of the kernel zone left
  but those of the image, of the maps and of the twelve first slabs; besides that memory it writes
  only the screen.
\<close>

theorem mm_init_establishes:
  assumes "kernel_image ke s"
  shows "\<exists>s' A. mm_init hw ke s = Inr s' \<and> heap_inv s' A \<and> A \<subseteq> mm_area ke s
    \<and> zone_pages s \<le> pages_left s' + (image_pages ke s + 12) \<and> tty_idle s'
    \<and> same_off (screen (tty_VRAM s) \<union> mm_area ke s) (mem s) (mem s')"
  using mm_init_ok [OF assms, of hw] by blast

text \<open>An image of 1154 kilobytes on a machine with 128 megabytes.\<close>

definition image_mem :: memory where
  "image_mem = kmem_kmem_image 0xc0106000 (store32 (\<lambda>_. 0) 0xc0009508 0x1fc00)"

lemma image_machine:
  assumes "mem s = image_mem" and "kmem_kmem s = 0xc0106000" and "quick_alloc_table s = replicate 12 0"
    and "multiboot_config s = 0xc0009500" and "tty_VRAM s = 0xc00b8000" and "tty_idle s"
  shows "kernel_image 0xc0120800 s" and "zone_pages s = 8320" and "image_pages 0xc0120800 s = 297"
proof -
  have "load32 (mem s) (multiboot_config s + 8) = 0x1fc00"
    by (simp add: assms image_mem_def kmem_kmem_image_def Let_def load32_store32_apart apart_def)
  then show z: "zone_pages s = 8320" by (simp add: zone_pages_def total_memory_def)
  then show p: "image_pages 0xc0120800 s = 297" by (simp add: image_pages_def)
  show "kernel_image 0xc0120800 s"
    using assms(6) z p unfolding kernel_image_def
    by (auto simp: assms mm_area_def screen_def mem_block_iff mapped_def image_mem_def kmem_kmem_image_idem)
qed

definition image_tty :: tty where
  "image_tty = fresh_tty\<lparr>mem := image_mem, kmem_kmem := 0xc0106000, quick_alloc_table := replicate 12 0\<rparr>"

theorem mm_init_establishes_witness:
  "\<exists>s' A. mm_init zero_hw 0xc0120800 image_tty = Inr s' \<and> heap_inv s' A \<and> 8011 \<le> pages_left s'"
proof -
  have "tty_idle image_tty" using fresh_tty_idle by (simp add: image_tty_def tty_idle_def tty_ok_def)
  note i = image_machine [OF _ _ _ _ _ this]
  have k: "kernel_image 0xc0120800 image_tty" "zone_pages image_tty = 8320" "image_pages 0xc0120800 image_tty = 297"
    by (rule i; simp add: image_tty_def fresh_tty_def)+
  show ?thesis using mm_init_establishes [OF k(1), of zero_hw] k(2,3) by fastforce
qed

end
