(* ===== verification/Drivers_Pci_Scan.thy ===== *)
theory Drivers_Pci_Scan
  imports Kernel_Mm_Init
begin

text \<open>
  What the bus scan of \<open>pci_init\<close> builds: on a bus with a given configuration space, a list with
  exactly one record per function that answers, holding what its configuration registers say.
\<close>

section \<open>Output that keeps the console ready\<close>

definition prints_ok :: "string \<Rightarrow> karg list \<Rightarrow> bool" where
  "prints_ok f ks \<longleftrightarrow> (\<exists>out. lit_out (ascii f) ks = Inr out \<and> 0x1b \<notin> set out)"

lemma printk_prints:
  assumes "tty_idle s" and "prints_ok f ks"
  shows "\<exists>s'. printk_lit hw f ks s = Inr s' \<and> tty_idle s' \<and> tty_step s s'"
  using printk_lit_ok [OF assms(1)] assms(2) unfolding prints_ok_def by blast

lemma prints_ok_plain: "plain (ascii f) \<Longrightarrow> prints_ok f []"
  by (auto simp: prints_ok_def plain_def lit_out_plain)

lemma prints_ok_name: "plain t \<Longrightarrow> prints_ok ''%s'' [Str t]"
  by (auto simp: prints_ok_def plain_def lit_out_plain ascii_formats)

lemma puthex_plain: "0x1b \<notin> set (puthex h)"
proof -
  have all: "\<forall>n \<in> set [0..<256]. 0x1b \<notin> set (puthex (of_nat n))" by code_simp
  have "unat h \<in> set [0..<256]" using unsigned_less [of h] by simp
  from bspec [OF all this] show ?thesis by simp
qed

lemma hex_digits_plain: "0x1b \<notin> set (hex_digits puthex n i v sd)"
  by (induction n arbitrary: i v) (simp_all add: puthex_plain)

lemma printk_x_plain: "0x1b \<notin> set (printk_x v n)"
  using puthex_plain hex_digits_plain by (auto simp: printk_x_def hex_out_def split: prod.splits if_splits simp del: hex_digits.simps)

lemma ascii_slot:
  "ascii ''%x2:%x2.%x1 %x4:%x4 [%x2%x2] '' = [0x25, 0x78, 0x32, 0x3a, 0x25, 0x78, 0x32, 0x2e, 0x25, 0x78, 0x31, 0x20, 0x25, 0x78, 0x34,
     0x3a, 0x25, 0x78, 0x34, 0x20, 0x5b, 0x25, 0x78, 0x32, 0x25, 0x78, 0x32, 0x5d, 0x20]"
  by code_simp

lemma prints_ok_slot: "prints_ok ''%x2:%x2.%x1 %x4:%x4 [%x2%x2] '' [Num a, Num b, Num c, Num d, Num e, Num f, Num g]"
  unfolding prints_ok_def ascii_slot by (simp add: conversion_def num_arg_def IS_NUM_def printk_x_plain)

lemma prints_ok_progif: "prints_ok '' [PI %x2]'' [Num a]"
proof -
  have "ascii '' [PI %x2]'' = [0x20, 0x5b, 0x50, 0x49, 0x20, 0x25, 0x78, 0x32, 0x5d]" by code_simp
  then show ?thesis unfolding prints_ok_def by (simp add: conversion_def num_arg_def IS_NUM_def printk_x_plain)
qed

lemma pci_names_plain: "i < length pci_classes \<Longrightarrow> plain (ascii (pci_classes ! i))" "i < length mass_storage \<Longrightarrow> plain (ascii (mass_storage ! i))"
proof -
  have "list_all (\<lambda>f. plain (ascii f)) pci_classes" "list_all (\<lambda>f. plain (ascii f)) mass_storage" by code_simp+
  then show "i < length pci_classes \<Longrightarrow> plain (ascii (pci_classes ! i))" "i < length mass_storage \<Longrightarrow> plain (ascii (mass_storage ! i))"
    by (simp_all add: list_all_length)
qed

lemma pci_messages:
  "plain (ascii (''no pci exist'' @ [CHR 0x0a]))" "plain (ascii (''scanning pci'' @ [CHR 0x0a]))"
  "plain (ascii (''unknown device'' @ [CHR 0x0a]))" "plain (ascii [CHR 0x0a])"
  by (code_simp, code_simp, code_simp, code_simp)

lemma print_class_ok:
  assumes "tty_idle s" and "classcode = 1 \<longrightarrow> unat subclass < length mass_storage"
  shows "\<exists>s'. print_class hw classcode subclass progif s = Inr s' \<and> tty_idle s' \<and> tty_step s s'"
proof -
  have end_line: "\<exists>s'. bindE r (printk_lit hw [CHR 0x0a] []) = Inr s' \<and> tty_idle s' \<and> tty_step s s'"
    if "r = Inr t" "tty_idle t" "tty_step s t" for r t
    using that printk_prints [OF that(2) prints_ok_plain [OF pci_messages(4)], of hw] tty_step_trans [OF that(3)] by auto
  show ?thesis
  proof (cases "unat classcode < length pci_classes")
    case True
    show ?thesis
    proof (cases "classcode = 1")
      case one: True
      obtain t where t: "printk_lit hw ''%s'' [Str (ascii (mass_storage ! unat subclass))] s = Inr t" "tty_idle t" "tty_step s t"
        using printk_prints [OF assms(1) prints_ok_name [OF pci_names_plain(2)]] assms(2) one by blast
      obtain u where u: "printk_lit hw '' [PI %x2]'' [Num (ucast progif)] t = Inr u" "tty_idle u" "tty_step t u"
        using printk_prints [OF t(2) prints_ok_progif] by blast
      have "\<exists>s'. bindE (Inr (if subclass = 1 then u else t)) (printk_lit hw [CHR 0x0a] []) = Inr s' \<and> tty_idle s' \<and> tty_step s s'"
        by (rule end_line [OF refl]) (use t u tty_step_trans in \<open>auto split: if_splits\<close>)
      then show ?thesis using True one assms(2) t(1) u(1) by (simp add: print_class_def split: if_splits)
    next
      case False
      obtain t where t: "printk_lit hw ''%s'' [Str (ascii (pci_classes ! unat classcode))] s = Inr t" "tty_idle t" "tty_step s t"
        using printk_prints [OF assms(1) prints_ok_name [OF pci_names_plain(1) [OF True]]] by blast
      then show ?thesis using end_line [OF refl t(2,3)] True False by (simp add: print_class_def)
    qed
  next
    case False
    then show ?thesis using printk_prints [OF assms(1) prints_ok_plain [OF pci_messages(3)], of hw] by (simp add: print_class_def)
  qed
qed

section \<open>The configuration space\<close>

text \<open>
  The bus: a read of the data port right after a write of the address port returns the register
  that the address selects.
\<close>

type_synonym slot = "nat \<times> nat \<times> nat"

definition pci_config :: "hardware \<Rightarrow> (u32 \<Rightarrow> u32) \<Rightarrow> bool" where
  "pci_config hw cfg \<longleftrightarrow> (\<forall>es a. hw_in32 hw (Out32 0xCF8 a # es) 0xCFC = cfg a)"

definition slot_reg :: "(u32 \<Rightarrow> u32) \<Rightarrow> slot \<Rightarrow> u8 \<Rightarrow> u32" where
  "slot_reg cfg = (\<lambda>(bus, dev, func) offset. cfg (pci_address (of_nat bus) (of_nat dev) (of_nat func) offset))"

definition slot_present :: "(u32 \<Rightarrow> u32) \<Rightarrow> slot \<Rightarrow> bool" where
  "slot_present cfg x \<longleftrightarrow> (ucast (slot_reg cfg x 0 AND 0xFFFF) :: u16) \<noteq> 0xFFFF"

definition slot_class :: "(u32 \<Rightarrow> u32) \<Rightarrow> slot \<Rightarrow> u8" where
  "slot_class cfg x = ucast (drop_bit 24 (slot_reg cfg x 8) AND 0xFF)"

definition slot_subclass :: "(u32 \<Rightarrow> u32) \<Rightarrow> slot \<Rightarrow> u8" where
  "slot_subclass cfg x = ucast (drop_bit 16 (slot_reg cfg x 8) AND 0xFF)"

definition slot_progif :: "(u32 \<Rightarrow> u32) \<Rightarrow> slot \<Rightarrow> u8" where
  "slot_progif cfg x = ucast (drop_bit 8 (slot_reg cfg x 8) AND 0xFF)"

text \<open>The functions the scan finds, in scan order; none when nothing answers at the first address.\<close>

definition pci_found :: "(u32 \<Rightarrow> u32) \<Rightarrow> slot list" where
  "pci_found cfg = (if slot_present cfg (0, 0, 0) then filter (slot_present cfg) pci_slots else [])"

text \<open>A mass storage subclass that the kernel has a name for.\<close>

definition class_known :: "(u32 \<Rightarrow> u32) \<Rightarrow> slot \<Rightarrow> bool" where
  "class_known cfg x \<longleftrightarrow> (slot_class cfg x = 1 \<longrightarrow> unat (slot_subclass cfg x) < length mass_storage)"

lemma read_pci_data_cfg:
  assumes "pci_config hw cfg"
  shows "\<exists>i. read_pci_data hw bus dev func offset s = (cfg (pci_address bus dev func offset), s\<lparr>io := i\<rparr>)"
  using assms by (auto simp: pci_config_def read_pci_data_def io_defs event_def)

lemma check_device_cfg:
  assumes "pci_config hw cfg"
  shows "\<exists>i. check_device hw (of_nat b) (of_nat d) (of_nat f) s = (slot_present cfg (b, d, f), s\<lparr>io := i\<rparr>)"
  using read_pci_data_cfg [OF assms, of "of_nat b" "of_nat d" "of_nat f" 0 s]
  by (auto simp: check_device_def read_pci_word_def slot_present_def slot_reg_def)

section \<open>A device record\<close>

text \<open>The record at \<open>p\<close> holds the address of a function and its registers.\<close>

definition device_at :: "(u32 \<Rightarrow> u32) \<Rightarrow> memory \<Rightarrow> slot \<Rightarrow> addr \<Rightarrow> bool" where
  "device_at cfg m = (\<lambda>(bus, dev, func) p. mapped p \<and> unat p + 36 \<le> 2 ^ 32
     \<and> pci_bus m p = of_nat bus \<and> pci_device m p = of_nat dev \<and> pci_function m p = of_nat func
     \<and> pci_classcode m p = slot_class cfg (bus, dev, func) \<and> pci_subclass m p = slot_subclass cfg (bus, dev, func)
     \<and> m (p + 10) = slot_progif cfg (bus, dev, func)
     \<and> load16 m (p + 4) = ucast (drop_bit 16 (slot_reg cfg (bus, dev, func) 0) AND 0xFFFF)
     \<and> load16 m (p + 6) = ucast (slot_reg cfg (bus, dev, func) 0 AND 0xFFFF)
     \<and> (\<forall>j < 6. load32 m (p + 12 + 4 * of_nat j) = slot_reg cfg (bus, dev, func) (0x10 + 4 * of_nat j)))"

primrec bars_mem :: "(u32 \<Rightarrow> u32) \<Rightarrow> slot \<Rightarrow> nat \<Rightarrow> nat \<Rightarrow> addr \<Rightarrow> memory \<Rightarrow> memory" where
  "bars_mem cfg x 0 j p m = m"
| "bars_mem cfg x (Suc n) j p m =
     bars_mem cfg x n (Suc j) p (store32 m (p + 12 + 4 * of_nat j) (slot_reg cfg x (0x10 + 4 * of_nat j)))"

lemma read_bars_cfg:
  assumes "pci_config hw cfg"
  shows "\<exists>i. read_bars hw n j p (of_nat b) (of_nat d) (of_nat f) s = s\<lparr>mem := bars_mem cfg (b, d, f) n j p (mem s), io := i\<rparr>"
proof (induction n arbitrary: j s)
  case 0
  show ?case by (intro exI [of _ "io s"]) simp
next
  case (Suc n)
  let ?r = "slot_reg cfg (b, d, f) (0x10 + 4 * of_nat j)"
  obtain i where i: "read_pci_data hw (of_nat b) (of_nat d) (of_nat f) (0x10 + 4 * of_nat j) s = (?r, s\<lparr>io := i\<rparr>)"
    using read_pci_data_cfg [OF assms, of "of_nat b" "of_nat d" "of_nat f" "0x10 + 4 * of_nat j" s] by (auto simp: slot_reg_def)
  obtain k where "read_bars hw n (Suc j) p (of_nat b) (of_nat d) (of_nat f) (s\<lparr>io := i, mem := store32 (mem s) (p + 12 + 4 * of_nat j) ?r\<rparr>)
    = s\<lparr>mem := bars_mem cfg (b, d, f) n (Suc j) p (store32 (mem s) (p + 12 + 4 * of_nat j) ?r), io := k\<rparr>"
    using Suc.IH [of "Suc j" "s\<lparr>io := i, mem := store32 (mem s) (p + 12 + 4 * of_nat j) ?r\<rparr>"] by auto
  then show ?case using i by (auto simp: Let_def)
qed

definition ids_mem :: "(u32 \<Rightarrow> u32) \<Rightarrow> slot \<Rightarrow> addr \<Rightarrow> memory \<Rightarrow> memory" where
  "ids_mem cfg = (\<lambda>(bus, dev, func) p m.
     (store16 (store16 (m(p := of_nat bus, p + 8 := slot_class cfg (bus, dev, func), p + 1 := of_nat dev))
        (p + 4) (ucast (drop_bit 16 (slot_reg cfg (bus, dev, func) 0) AND 0xFFFF)))
        (p + 6) (ucast (slot_reg cfg (bus, dev, func) 0 AND 0xFFFF)))
       (p + 2 := of_nat func, p + 10 := slot_progif cfg (bus, dev, func), p + 9 := slot_subclass cfg (bus, dev, func)))"

definition device_mem :: "(u32 \<Rightarrow> u32) \<Rightarrow> slot \<Rightarrow> addr \<Rightarrow> memory \<Rightarrow> memory" where
  "device_mem cfg x p m = bars_mem cfg x 6 0 p (ids_mem cfg x p m)"

lemma bars_mem_off:
  "unat p + 36 \<le> 2 ^ 32 \<Longrightarrow> n + j = 6 \<Longrightarrow> same_off (block (p + 12) 24) m (bars_mem cfg x n j p m)"
proof (induction n arbitrary: j m)
  case (Suc n)
  have u: "unat (p + 12) = unat p + 12" using Suc.prems by (simp add: unat_add_word)
  have j: "unat (4 * of_nat j :: addr) = 4 * j" using Suc.prems by (simp add: unat_word_ariths unat_of_nat)
  have "block (p + 12 + 4 * of_nat j) 4 \<subseteq> block (p + 12) 24" "unat (p + 12 + 4 * of_nat j) + 4 \<le> 2 ^ 32"
    using block_part [of "p + 12" 24 4 "4 * of_nat j"] u j Suc.prems by (auto simp: unat_add_word)
  then have "same_off (block (p + 12) 24) m (store32 m (p + 12 + 4 * of_nat j) (slot_reg cfg x (0x10 + 4 * of_nat j)))"
    by (intro same_off_store32 same_off_refl)
  then show ?case using Suc.IH [of "Suc j"] Suc.prems by (auto intro: same_off_trans)
qed simp

lemma bars_mem_6:
  "bars_mem cfg x 6 0 p m = store32 (store32 (store32 (store32 (store32 (store32 m (p + 12) (slot_reg cfg x 16)) (p + 16) (slot_reg cfg x 20))
     (p + 20) (slot_reg cfg x 24)) (p + 24) (slot_reg cfg x 28)) (p + 28) (slot_reg cfg x 32)) (p + 32) (slot_reg cfg x 36)"
  by (simp add: eval_nat_numeral add.assoc)

lemma bars_mem_load:
  "j < 6 \<Longrightarrow> load32 (bars_mem cfg x 6 0 p m) (p + 12 + 4 * of_nat j) = slot_reg cfg x (0x10 + 4 * of_nat j)"
proof -
  assume "j < 6"
  then have "j = 0 \<or> j = 1 \<or> j = 2 \<or> j = 3 \<or> j = 4 \<or> j = 5" by linarith
  then show ?thesis unfolding bars_mem_6 by (elim disjE) (simp_all add: load32_store32_apart add.assoc)
qed

lemma device_mem_at:
  assumes "mapped p" and "unat p + 36 \<le> 2 ^ 32"
  shows "device_at cfg (device_mem cfg x p m) x p" and "same_off (block p 36) m (device_mem cfg x p m)"
proof -
  obtain b d f where x: "x = (b, d, f)" by (cases x)
  let ?i = "ids_mem cfg x p m"
  have off: "same_off (block (p + 12) 24) ?i (device_mem cfg x p m)" unfolding device_mem_def by (rule bars_mem_off) (use assms in simp_all)
  have u: "unat (p + k) = unat p + unat k" if "unat k < 36" for k using assms(2) that by (simp add: unat_add_word)
  have keep: "device_mem cfg x p m (p + k) = ?i (p + k)" if "unat k < 12" for k
    using off that u [of k] u [of 12] by (simp add: same_off_def mem_block_iff)
  have "load16 (device_mem cfg x p m) (p + k) = load16 ?i (p + k)" if "unat k + 1 < 12" for k
    using keep [of k] keep [of "k + 1"] that by (simp add: load16_def unat_word_ariths add.assoc)
  from this [of 4] this [of 6] keep [of 0] keep [of 1] keep [of 2] keep [of 8] keep [of 9] keep [of 10]
  show "device_at cfg (device_mem cfg x p m) x p"
    using assms bars_mem_load [of _ cfg x p ?i]
    by (simp add: x device_at_def device_mem_def ids_mem_def load16_other store16_other add.assoc)
  have "p + k \<in> block p 36" if "unat k < 36" for k using u [OF that] that by (simp add: mem_block_iff)
  moreover from this [of 0] have "p \<in> block p 36" by simp
  ultimately have "same_off (block p 36) m ?i"
    by (auto simp: same_off_def x ids_mem_def store16_def add.assoc)
  moreover have "block (p + 12) 24 \<subseteq> block p 36" using u [of 12] by (intro block_mono) simp_all
  ultimately show "same_off (block p 36) m (device_mem cfg x p m)" using off by (blast intro: same_off_trans same_off_mono)
qed

lemma device_at_frame:
  assumes "device_at cfg m x p" and "same_on (block p 36) m m'"
  shows "device_at cfg m' x p"
proof -
  obtain b d f where x: "x = (b, d, f)" by (cases x)
  have p: "unat p + 36 \<le> 2 ^ 32" using assms(1) by (simp add: x device_at_def)
  have b: "m' (p + k) = m (p + k)" if "unat k < 36" for k
    using p that by (intro same_onD [OF assms(2)]) (simp add: mem_block_iff unat_add_word)
  have w: "load16 m' (p + k) = load16 m (p + k)" if "unat k + 1 < 36" for k
    using b [of k] b [of "k + 1"] that by (simp add: load16_def unat_word_ariths add.assoc)
  have l: "load32 m' (p + 12 + 4 * of_nat j) = load32 m (p + 12 + 4 * of_nat j)" if "j < 6" for j
  proof -
    have "unat (12 + 4 * of_nat j :: addr) = 12 + 4 * j" using that by (simp add: unat_word_ariths unat_of_nat)
    then show ?thesis using block_part [OF p, of 4 "12 + 4 * of_nat j"] that by (intro load32_same_on [OF assms(2)]) (auto simp: add.assoc)
  qed
  from b [of 0] b [of 1] b [of 2] b [of 8] b [of 9] b [of 10] w [of 4] w [of 6] l show ?thesis
    using assms(1) by (simp add: x device_at_def)
qed

section \<open>The device list\<close>

text \<open>An entry of the list: the function, its node and its record. A new node goes behind the head.\<close>

type_synonym entry = "slot \<times> addr \<times> addr"

definition place :: "'b \<Rightarrow> 'b list \<Rightarrow> 'b list" where
  "place t ts = (case ts of [] \<Rightarrow> [t] | a # us \<Rightarrow> a # t # us)"

definition scan_order :: "'b list \<Rightarrow> 'b list" where
  "scan_order xs = (case xs of [] \<Rightarrow> [] | x # ys \<Rightarrow> x # rev ys)"

lemma place_scan_order: "place x (scan_order xs) = scan_order (xs @ [x])"
  by (simp add: place_def scan_order_def split: list.split)

lemma place_map: "map f (place t ts) = place (f t) (map f ts)" and place_set [simp]: "set (place t ts) = insert t (set ts)"
  by (auto simp: place_def split: list.split)

lemma place_inserted: "place p xs = inserted p xs"
  by (simp add: place_def inserted_def)

abbreviation nodes_of :: "entry list \<Rightarrow> addr list" where
  "nodes_of ts \<equiv> map (\<lambda>t. fst (snd t)) ts"

definition listed :: "(u32 \<Rightarrow> u32) \<Rightarrow> addr \<Rightarrow> entry list \<Rightarrow> memory \<Rightarrow> bool" where
  "listed cfg h ts m \<longleftrightarrow> list_at m h (nodes_of ts) \<and> (\<forall>(x, n, p) \<in> set ts. node_data m n = p \<and> device_at cfg m x p)"

text \<open>
  The state between two rounds of the scan: the allocator intact, the list so far with its records
  in \<open>G\<close>, all of it outside what the allocator still owns and inside what it owned at first.
\<close>

definition scan_inv :: "(u32 \<Rightarrow> u32) \<Rightarrow> addr set \<Rightarrow> addr \<Rightarrow> 'a slab_sys_scheme \<Rightarrow> addr set \<Rightarrow> addr set \<Rightarrow> entry list \<Rightarrow> bool" where
  "scan_inv cfg A0 h s A G ts \<longleftrightarrow> heap_inv s A \<and> A \<subseteq> A0 \<and> G \<subseteq> A0 \<and> G \<inter> A = {}
     \<and> list_area h (nodes_of ts) \<inter> (A \<union> G) = {} \<and> list_area h (nodes_of ts) \<subseteq> A0 \<union> block h 4
     \<and> listed cfg h ts (mem s) \<and> (\<forall>(x, n, p) \<in> set ts. block p 36 \<subseteq> G)"

lemma devices_frame:
  assumes "\<forall>(x, n, p) \<in> set ts. device_at cfg m x p" and "\<forall>(x, n, p) \<in> set ts. block p 36 \<subseteq> G" and "same_on G m m'"
  shows "\<forall>(x, n, p) \<in> set ts. device_at cfg m' x p"
proof clarify
  fix x n p assume t: "(x, n, p) \<in> set ts"
  have "same_on (block p 36) m m'" by (rule same_on_mono [OF assms(3)]) (use assms(2) t in blast)
  then show "device_at cfg m' x p" by (rule device_at_frame [rotated]) (use assms(1) t in blast)
qed

lemma listed_frame:
  assumes "listed cfg h ts m" and "\<forall>(x, n, p) \<in> set ts. block p 36 \<subseteq> G" and "same_on (list_area h (nodes_of ts) \<union> G) m m'"
  shows "listed cfg h ts m'"
proof -
  have l: "list_at m h (nodes_of ts)" "\<forall>(x, n, p) \<in> set ts. device_at cfg m x p" using assms(1) by (auto simp: listed_def)
  have on: "same_on (list_area h (nodes_of ts)) m m'" "same_on G m m'" using assms(3) by (auto intro: same_on_mono)
  have "node_data m' n = p" if t: "(x, n, p) \<in> set ts" for x n p
  proof -
    have "n \<in> set (nodes_of ts)" using t by force
    then show ?thesis using node_data_same_on [OF l(1) on(1)] assms(1) t by (auto simp: listed_def)
  qed
  then show ?thesis using list_at_same_on [OF l(1) on(1)] devices_frame [OF l(2) assms(2) on(2)] by (auto simp: listed_def)
qed

lemma scan_inv_frame:
  assumes "scan_inv cfg A0 h s A G ts" and "heap_inv s' A" and "same_off S (mem s) (mem s')" and "S \<inter> (A0 \<union> block h 4) = {}"
  shows "scan_inv cfg A0 h s' A G ts"
proof -
  have i: "listed cfg h ts (mem s)" "\<forall>(x, n, p) \<in> set ts. block p 36 \<subseteq> G" "list_area h (nodes_of ts) \<union> G \<subseteq> A0 \<union> block h 4"
    using assms(1) unfolding scan_inv_def by blast+
  have "same_on (list_area h (nodes_of ts) \<union> G) (mem s) (mem s')" by (rule same_off_on [OF assms(3)]) (use assms(4) i(3) in blast)
  from listed_frame [OF i(1,2) this] show ?thesis using assms(1,2) unfolding scan_inv_def by blast
qed

text \<open>One more node, and then its record filled.\<close>

lemma node_added:
  assumes inv: "scan_inv cfg A0 h s A G ts" and left: "2 \<le> pages_left s"
  shows "\<exists>p n s1 s2 A'. kmalloc 36 s = Inr (p, s1) \<and> list_insert h p s1 = Inr (n, s2) \<and> mem_only s s1 \<and> mem_only s s2
    \<and> mapped p \<and> unat p + 36 \<le> 2 ^ 32 \<and> block p 36 \<subseteq> A \<and> block p 36 \<inter> A' = {} \<and> heap_inv s2 A' \<and> A' \<subseteq> A
    \<and> pages_left s \<le> pages_left s2 + 2 \<and> same_off (A0 \<union> block h 4) (mem s) (mem s2)
    \<and> list_at (mem s2) h (inserted n (nodes_of ts)) \<and> list_area h (inserted n (nodes_of ts)) \<inter> (A' \<union> G \<union> block p 36) = {}
    \<and> list_area h (inserted n (nodes_of ts)) \<subseteq> A0 \<union> block h 4 \<and> node_data (mem s2) n = p
    \<and> (\<forall>(y, k, q) \<in> set ts. node_data (mem s2) k = q) \<and> (\<forall>(y, k, q) \<in> set ts. device_at cfg (mem s2) y q)"
proof -
  let ?L = "list_area h (nodes_of ts)" and ?L' = "\<lambda>n. list_area h (inserted n (nodes_of ts))"
  have i: "heap_inv s A" "A \<subseteq> A0" "G \<subseteq> A0" "G \<inter> A = {}" "?L \<inter> (A \<union> G) = {}" "?L \<subseteq> A0 \<union> block h 4" "listed cfg h ts (mem s)"
    "\<forall>(x, n, p) \<in> set ts. block p 36 \<subseteq> G" using inv unfolding scan_inv_def by blast+
  have lt: "unat (36 :: u32) < 1024" by simp
  obtain p s1 A1 where a: "kmalloc 36 s = Inr (p, s1)" "mapped p" "block p (Suc (unat (36 :: u32))) \<subseteq> A"
    "same_off A (mem s) (mem s1)" "heap_inv s1 A1" "A1 \<subseteq> A - block p (Suc (unat (36 :: u32)))"
    "pages_left s \<le> Suc (pages_left s1)" "unat p + Suc (unat (36 :: u32)) \<le> 2 ^ 32"
    using kmalloc_cases [OF i(1) lt] left by (elim disjE exE conjE) simp_all
  have "block p 36 \<subseteq> block p (Suc (unat (36 :: u32)))" by (rule block_mono) simp_all
  then have p: "block p 36 \<subseteq> A" "block p 36 \<inter> A1 = {}" "unat p + 36 \<le> 2 ^ 32" "A1 \<subseteq> A" using a(3,6,8) by auto
  have "same_on (?L \<union> G) (mem s) (mem s1)" by (rule same_off_on [OF a(4)]) (use i(4,5) in blast)
  from listed_frame [OF i(7,8) this] have l1: "listed cfg h ts (mem s1)" .
  have at1: "list_at (mem s1) h (nodes_of ts)" "?L \<inter> A1 = {}" "0 < pages_left s1" using l1 i(5) p(4) a(7) left by (auto simp: listed_def)
  obtain n s2 A2 where b: "list_insert h p s1 = Inr (n, s2)" "list_at (mem s2) h (inserted n (nodes_of ts))" "node_data (mem s2) n = p"
    "\<forall>y \<in> set (nodes_of ts). node_data (mem s2) y = node_data (mem s1) y" "heap_inv s2 A2" "?L' n \<inter> A2 = {}" "A2 \<subseteq> A1"
    "pages_left s1 \<le> Suc (pages_left s2)" "same_off (A1 \<union> ?L) (mem s1) (mem s2)" "block n 12 \<subseteq> A1"
    using list_insert_heap [OF a(5) at1(3,1,2), of p] by blast
  have L': "?L' n = ?L \<union> block n 12" by (auto simp: list_area_def)
  have "?L \<inter> (G \<union> block p 36) = {}" "block n 12 \<inter> (G \<union> block p 36) = {}" "block n 12 \<subseteq> A0" using i(2,4,5) p b(10) by blast+
  then have area: "?L' n \<inter> (A2 \<union> G \<union> block p 36) = {}" "?L' n \<subseteq> A0 \<union> block h 4" using b(6) i(6) unfolding L' by blast+
  have "same_on G (mem s1) (mem s2)" by (rule same_off_on [OF b(9)]) (use i(4,5) p(4) in blast)
  moreover have "\<forall>(y, k, q) \<in> set ts. device_at cfg (mem s1) y q" using l1 by (auto simp: listed_def)
  ultimately have dev: "\<forall>(y, k, q) \<in> set ts. device_at cfg (mem s2) y q" by (rule devices_frame [OF _ i(8), rotated])
  have nd: "\<forall>(y, k, q) \<in> set ts. node_data (mem s2) k = q" using b(4) l1 by (force simp: listed_def)
  have "same_off (A0 \<union> block h 4) (mem s) (mem s2)"
    by (rule same_off_trans [OF same_off_mono [OF a(4)] same_off_mono [OF b(9)]]) (use i(2,6) p(4) in blast)+
  moreover have "mem_only s s1" "mem_only s s2" using kmalloc_mem_only [OF a(1)] list_insert_mem_only [OF b(1)] by (auto intro: mem_only_trans)
  moreover have "pages_left s \<le> pages_left s2 + 2" "block p 36 \<inter> A2 = {}" "A2 \<subseteq> A" using a(7) b(7,8) p(2,4) by auto
  ultimately show ?thesis using a(1,2) b(1-3,5) p(1,3) area dev nd
    by (intro exI [of _ p] exI [of _ n] exI [of _ s1] exI [of _ s2] exI [of _ A2]) simp
qed

lemma record_added:
  assumes inv: "scan_inv cfg A0 h s A G ts" and left: "2 \<le> pages_left s"
  shows "\<exists>p n s1 s2 A'. kmalloc 36 s = Inr (p, s1) \<and> list_insert h p s1 = Inr (n, s2) \<and> mem_only s s1 \<and> mem_only s s2 \<and> mapped p
    \<and> pages_left s \<le> pages_left (s2\<lparr>mem := device_mem cfg x p (mem s2)\<rparr>) + 2
    \<and> same_off (A0 \<union> block h 4) (mem s) (device_mem cfg x p (mem s2))
    \<and> scan_inv cfg A0 h (s2\<lparr>mem := device_mem cfg x p (mem s2)\<rparr>) A' (G \<union> block p 36) (place (x, n, p) ts)"
proof -
  obtain p n s1 s2 A' where b: "kmalloc 36 s = Inr (p, s1)" "list_insert h p s1 = Inr (n, s2)" "mem_only s s1" "mem_only s s2"
    "mapped p" "unat p + 36 \<le> 2 ^ 32" "block p 36 \<subseteq> A" "block p 36 \<inter> A' = {}" "heap_inv s2 A'" "A' \<subseteq> A"
    "pages_left s \<le> pages_left s2 + 2" "same_off (A0 \<union> block h 4) (mem s) (mem s2)" "list_at (mem s2) h (inserted n (nodes_of ts))"
    "list_area h (inserted n (nodes_of ts)) \<inter> (A' \<union> G \<union> block p 36) = {}" "list_area h (inserted n (nodes_of ts)) \<subseteq> A0 \<union> block h 4"
    "node_data (mem s2) n = p" "\<forall>(y, k, q) \<in> set ts. node_data (mem s2) k = q" "\<forall>(y, k, q) \<in> set ts. device_at cfg (mem s2) y q"
    using node_added [OF inv left] by blast
  have i: "A \<subseteq> A0" "G \<subseteq> A0" "G \<inter> A = {}" "\<forall>(x, n, p) \<in> set ts. block p 36 \<subseteq> G" using inv unfolding scan_inv_def by blast+
  let ?m = "device_mem cfg x p (mem s2)" and ?ns = "inserted n (nodes_of ts)"
  note d = device_mem_at [OF b(5,6), where cfg = cfg and x = x and m = "mem s2"]
  have A2: "same_on A' (mem s2) ?m" by (rule same_off_on [OF d(2)]) (rule b(8))
  have onL: "same_on (list_area h ?ns) (mem s2) ?m" by (rule same_off_on [OF d(2)]) (use b(14) in blast)
  have onG: "same_on G (mem s2) ?m" by (rule same_off_on [OF d(2)]) (use b(7) i(3) in blast)
  have "node_data ?m k = node_data (mem s2) k" if "(y, k, q) \<in> set (place (x, n, p) ts)" for y k q
    using that by (intro node_data_same_on [OF b(13) onL]) force
  then have "\<forall>(y, k, q) \<in> set (place (x, n, p) ts). node_data ?m k = q" using b(16,17) by fastforce
  moreover have "\<forall>(y, k, q) \<in> set (place (x, n, p) ts). device_at cfg ?m y q" using devices_frame [OF b(18) i(4) onG] d(1) by auto
  ultimately have "listed cfg h (place (x, n, p) ts) ?m"
    using list_at_same_on [OF b(13) onL] by (auto simp: listed_def place_map place_inserted)
  moreover have "A' \<subseteq> A0" "G \<union> block p 36 \<subseteq> A0" "(G \<union> block p 36) \<inter> A' = {}" using i(1-3) b(7,8,10) by blast+
  moreover have "\<forall>(y, k, q) \<in> set (place (x, n, p) ts). block q 36 \<subseteq> G \<union> block p 36" using i(4) by auto
  moreover have "list_area h ?ns \<inter> (A' \<union> (G \<union> block p 36)) = {}" using b(14) by (simp add: Un_assoc)
  ultimately have "scan_inv cfg A0 h (s2\<lparr>mem := ?m\<rparr>) A' (G \<union> block p 36) (place (x, n, p) ts)"
    using heap_inv_frame [OF b(9) A2] b(15) unfolding scan_inv_def place_map place_inserted by simp
  moreover have "same_off (A0 \<union> block h 4) (mem s) ?m"
    by (rule same_off_trans [OF b(12) same_off_mono [OF d(2)]]) (use b(7) i(1) in blast)
  moreover have "pages_left (s2\<lparr>mem := ?m\<rparr>) = pages_left s2" by (rule pages_left_frame [OF b(9) A2])
  ultimately show ?thesis using b(1-5,11)
    by (intro exI [of _ p] exI [of _ n] exI [of _ s1] exI [of _ s2] exI [of _ A']) simp
qed

section \<open>The scan\<close>

text \<open>The scan changes nothing of the state but memory, the trace and the cursor.\<close>

definition pci_rest :: "'a tty_scheme \<Rightarrow> 'a tty_scheme" where
  "pci_rest s = s\<lparr>mem := (\<lambda>_. 0), io := [], tty_x := 0, tty_y := 0\<rparr>"

lemma pci_rest_mem_only: "mem_only s s' \<Longrightarrow> pci_rest s' = pci_rest s" for s s' :: "'a tty_scheme"
  by (auto simp: pci_rest_def elim!: mem_onlyE)

lemma pci_rest_tty:
  assumes "tty_step s s'"
  shows "pci_rest s' = pci_rest s"
proof -
  have "s' = s\<lparr>mem := mem s', io := io s', tty_x := tty_x s', tty_y := tty_y s'\<rparr>" using assms unfolding tty_step_def by blast
  from arg_cong [OF this, of pci_rest] show ?thesis by (simp add: pci_rest_def)
qed

lemma pci_rest_fields:
  assumes "pci_rest s' = pci_rest s"
  shows "pci_device_list s' = pci_device_list s" "tty_VRAM s' = tty_VRAM s"
  using arg_cong [OF assms, of pci_device_list] arg_cong [OF assms, of tty_VRAM] by (simp_all add: pci_rest_def)

text \<open>
  A round that goes from \<open>s\<close> to \<open>s'\<close> and the list \<open>ts'\<close>, using up at most \<open>k\<close> pages.
\<close>

definition scanned ::
  "(u32 \<Rightarrow> u32) \<Rightarrow> addr set \<Rightarrow> nat \<Rightarrow> 'a pci_sys_scheme \<Rightarrow> 'a pci_sys_scheme \<Rightarrow> entry list \<Rightarrow> bool" where
  "scanned cfg A0 k s s' ts' \<longleftrightarrow> (\<exists>A' G'. scan_inv cfg A0 (pci_device_list s) s' A' G' ts') \<and> tty_idle s' \<and> pci_rest s' = pci_rest s
     \<and> pages_left s \<le> pages_left s' + k \<and> same_off (A0 \<union> block (pci_device_list s) 4 \<union> screen (tty_VRAM s)) (mem s) (mem s')"

lemma scanned_trans:
  assumes "scanned cfg A0 j s s' ts" and "scanned cfg A0 k s' s'' ts'"
  shows "scanned cfg A0 (j + k) s s'' ts'"
proof -
  have "pci_device_list s' = pci_device_list s" "tty_VRAM s' = tty_VRAM s" using assms(1) pci_rest_fields by (auto simp: scanned_def)
  then show ?thesis using assms by (auto simp: scanned_def intro: same_off_trans)
qed

lemma scan_io:
  assumes "scan_inv cfg A0 (pci_device_list s) s A G ts" and "tty_idle s"
  shows "scanned cfg A0 0 s (s\<lparr>io := i\<rparr>) ts"
proof -
  have "scan_inv cfg A0 (pci_device_list s) (s\<lparr>io := i\<rparr>) A G ts" using assms(1) by (simp add: scan_inv_def)
  then show ?thesis using assms(2) by (auto simp: scanned_def pci_rest_def tty_idle_def tty_ok_def)
qed

lemma scan_print:
  assumes "scan_inv cfg A0 (pci_device_list s) s A G ts" and "tty_step s s'" and "tty_idle s'"
    and "screen (tty_VRAM s) \<inter> (A0 \<union> block (pci_device_list s) 4) = {}"
  shows "scanned cfg A0 0 s s' ts"
proof -
  have h: "heap_inv s A" "screen (tty_VRAM s) \<inter> A = {}" using assms(1,4) unfolding scan_inv_def by blast+
  have off: "same_off (screen (tty_VRAM s)) (mem s) (mem s')" using assms(2) by (simp add: tty_step_def)
  have "scan_inv cfg A0 (pci_device_list s) s' A G ts"
    by (rule scan_inv_frame [OF assms(1) tty_step_heap(1) [OF assms(2) h] off assms(4)])
  moreover have "same_off (A0 \<union> block (pci_device_list s) 4 \<union> screen (tty_VRAM s)) (mem s) (mem s')" by (rule same_off_mono [OF off]) blast
  ultimately show ?thesis using assms(3) pci_rest_tty [OF assms(2)] tty_step_heap(2) [OF assms(2) h] by (auto simp: scanned_def)
qed

lemma scan_record:
  assumes "scan_inv cfg A0 (pci_device_list s) s A G ts" and "tty_idle s" and "2 \<le> pages_left s"
  shows "\<exists>p n s1 s2. kmalloc 36 s = Inr (p, s1) \<and> list_insert (pci_device_list s1) p s1 = Inr (n, s2) \<and> mapped p
    \<and> (\<forall>i. scanned cfg A0 2 s (s2\<lparr>mem := device_mem cfg x p (mem s2), io := i\<rparr>) (place (x, n, p) ts))"
proof -
  let ?h = "pci_device_list s"
  obtain p n s1 s2 A' where r: "kmalloc 36 s = Inr (p, s1)" "list_insert ?h p s1 = Inr (n, s2)" "mem_only s s1" "mem_only s s2" "mapped p"
    "pages_left s \<le> pages_left (s2\<lparr>mem := device_mem cfg x p (mem s2)\<rparr>) + 2"
    "same_off (A0 \<union> block ?h 4) (mem s) (device_mem cfg x p (mem s2))"
    "scan_inv cfg A0 ?h (s2\<lparr>mem := device_mem cfg x p (mem s2)\<rparr>) A' (G \<union> block p 36) (place (x, n, p) ts)"
    using record_added [OF assms(1,3)] by blast
  obtain m1 m2 where m: "s1 = s\<lparr>mem := m1\<rparr>" "s2 = s\<lparr>mem := m2\<rparr>" using r(3,4) by (auto elim!: mem_onlyE)
  let ?t = "\<lambda>i. s2\<lparr>mem := device_mem cfg x p (mem s2), io := i\<rparr>"
  have "scan_inv cfg A0 ?h (?t i) A' (G \<union> block p 36) (place (x, n, p) ts)" for i using r(8) by (simp add: scan_inv_def)
  moreover have "same_off (A0 \<union> block ?h 4 \<union> screen (tty_VRAM s)) (mem s) (mem (?t i))" for i using r(7) by (auto intro: same_off_mono)
  moreover have "tty_idle (?t i)" "pci_rest (?t i) = pci_rest s" for i
    using assms(2) by (simp_all add: m tty_idle_def tty_ok_def pci_rest_def)
  moreover have "pages_left s \<le> pages_left (?t i) + 2" for i using r(6) by simp
  ultimately have "scanned cfg A0 2 s (?t i) (place (x, n, p) ts)" for i unfolding scanned_def by blast
  then show ?thesis using r(1,2,5) m by (intro exI [of _ p] exI [of _ n] exI [of _ s1] exI [of _ s2]) simp
qed

lemma classfy_device_ok:
  assumes "pci_config hw cfg" and "scan_inv cfg A0 (pci_device_list s) s A G ts" and "tty_idle s" and "2 \<le> pages_left s"
    and "screen (tty_VRAM s) \<inter> (A0 \<union> block (pci_device_list s) 4) = {}" and "class_known cfg (b, d, f)"
  shows "\<exists>s' n p. classfy_device hw (of_nat b) (of_nat d) (of_nat f) s = Inr s' \<and> scanned cfg A0 2 s s' (place ((b, d, f), n, p) ts)"
proof -
  let ?x = "(b, d, f)"
  obtain i1 where i1: "read_pci_data hw (of_nat b) (of_nat d) (of_nat f) 0 s = (slot_reg cfg ?x 0, s\<lparr>io := i1\<rparr>)"
    using read_pci_data_cfg [OF assms(1)] by (fastforce simp: slot_reg_def)
  obtain i2 where i2: "read_pci_data hw (of_nat b) (of_nat d) (of_nat f) 8 (s\<lparr>io := i1\<rparr>) = (slot_reg cfg ?x 8, s\<lparr>io := i2\<rparr>)"
    using read_pci_data_cfg [OF assms(1), of _ _ _ 8 "s\<lparr>io := i1\<rparr>"] by (fastforce simp: slot_reg_def)
  define t where "t = s\<lparr>io := i2\<rparr>"
  have ti: "scan_inv cfg A0 (pci_device_list t) t A G ts" "tty_idle t" "2 \<le> pages_left t" "pci_device_list t = pci_device_list s" "tty_VRAM t = tty_VRAM s"
    using assms(2-4) by (simp_all add: t_def scan_inv_def tty_idle_def tty_ok_def)
  have st: "scanned cfg A0 0 s t ts" unfolding t_def by (rule scan_io [OF assms(2,3)])
  obtain p n s1 s2 where r: "kmalloc 36 t = Inr (p, s1)" "list_insert (pci_device_list s1) p s1 = Inr (n, s2)" "mapped p"
    "\<And>i. scanned cfg A0 2 t (s2\<lparr>mem := device_mem cfg ?x p (mem s2), io := i\<rparr>) (place (?x, n, p) ts)"
    using scan_record [OF ti(1-3)] by blast
  obtain i where bars: "read_bars hw 6 0 p (of_nat b) (of_nat d) (of_nat f) (s2\<lparr>mem := ids_mem cfg ?x p (mem s2)\<rparr>)
      = s2\<lparr>mem := device_mem cfg ?x p (mem s2), io := i\<rparr>"
    using read_bars_cfg [OF assms(1), of 6 0 p b d f "s2\<lparr>mem := ids_mem cfg ?x p (mem s2)\<rparr>"] by (auto simp: device_mem_def)
  define u where "u = s2\<lparr>mem := device_mem cfg ?x p (mem s2), io := i\<rparr>"
  have su: "scanned cfg A0 2 s u (place (?x, n, p) ts)" using scanned_trans [OF st r(4) [of i]] unfolding u_def add_0 .
  then obtain Au Gu where u: "scan_inv cfg A0 (pci_device_list s) u Au Gu (place (?x, n, p) ts)" "tty_idle u" "pci_rest u = pci_rest s"
    by (auto simp: scanned_def)
  note uf = pci_rest_fields [OF u(3)]
  obtain v where v: "printk_lit hw ''%x2:%x2.%x1 %x4:%x4 [%x2%x2] ''
      [Num (ucast (of_nat b :: u8)), Num (ucast (of_nat d :: u8)), Num (ucast (of_nat f :: u8)), Num (ucast (load16 (mem u) (p + 4))),
       Num (ucast (load16 (mem u) (p + 6))), Num (ucast (slot_class cfg ?x)), Num (ucast (slot_subclass cfg ?x))] u = Inr v" "tty_idle v" "tty_step u v"
    using printk_prints [OF u(2) prints_ok_slot] by blast
  obtain w where w: "print_class hw (slot_class cfg ?x) (slot_subclass cfg ?x) (slot_progif cfg ?x) v = Inr w" "tty_idle w" "tty_step v w"
    using print_class_ok [OF v(2)] assms(6) unfolding class_known_def by blast
  have "scanned cfg A0 0 u w (place (?x, n, p) ts)"
    by (rule scan_print [OF u(1) [folded uf(1)] tty_step_trans [OF v(3) w(3)] w(2)]) (use assms(5) uf in simp)
  from scanned_trans [OF su this] have "scanned cfg A0 2 s w (place (?x, n, p) ts)" unfolding add_0_right .
  moreover have "classfy_device hw (of_nat b) (of_nat d) (of_nat f) s = Inr w"
    using i1 i2 r(1-3) bars v(1) w(1)
    by (simp add: classfy_device_def Let_def t_def [symmetric] slot_class_def slot_subclass_def slot_progif_def ids_mem_def u_def [symmetric])
  ultimately show ?thesis by blast
qed

lemma scan_slots_ok:
  assumes "pci_config hw cfg" and "\<forall>x \<in> set xs. slot_present cfg x \<longrightarrow> class_known cfg x"
    and "scan_inv cfg A0 (pci_device_list s) s A G ts" and "tty_idle s" and "2 * length (filter (slot_present cfg) xs) \<le> pages_left s"
    and "screen (tty_VRAM s) \<inter> (A0 \<union> block (pci_device_list s) 4) = {}" and "map fst ts = scan_order ys"
  shows "\<exists>s' ts'. scan_slots hw xs s = Inr s' \<and> scanned cfg A0 (2 * length (filter (slot_present cfg) xs)) s s' ts'
    \<and> map fst ts' = scan_order (ys @ filter (slot_present cfg) xs)"
  using assms(2-7)
proof (induction xs arbitrary: s A G ts ys)
  case Nil
  then show ?case by (intro exI [of _ s] exI [of _ ts]) (auto simp: scanned_def)
next
  case (Cons x xs)
  obtain b d f where x: "x = (b, d, f)" by (cases x)
  obtain i where i: "check_device hw (of_nat b) (of_nat d) (of_nat f) s = (slot_present cfg x, s\<lparr>io := i\<rparr>)"
    using check_device_cfg [OF assms(1)] x by blast
  define t where "t = s\<lparr>io := i\<rparr>"
  have st: "scanned cfg A0 0 s t ts" unfolding t_def by (rule scan_io [OF Cons.prems(2,3)])
  have t: "scan_inv cfg A0 (pci_device_list t) t A G ts" "tty_idle t" "pages_left t = pages_left s"
      "screen (tty_VRAM t) \<inter> (A0 \<union> block (pci_device_list t) 4) = {}"
    using Cons.prems by (simp_all add: t_def scan_inv_def tty_idle_def tty_ok_def)
  show ?case
  proof (cases "slot_present cfg x")
    case False
    then have "2 * length (filter (slot_present cfg) xs) \<le> pages_left t" using Cons.prems(4) t(3) by simp
    from Cons.IH [OF _ t(1,2) this t(4) Cons.prems(6)] obtain s' ts' where "scan_slots hw xs t = Inr s'"
      "scanned cfg A0 (2 * length (filter (slot_present cfg) xs)) t s' ts'" "map fst ts' = scan_order (ys @ filter (slot_present cfg) xs)"
      using Cons.prems(1) by auto
    then show ?thesis using False i scanned_trans [OF st] by (auto simp: x t_def)
  next
    case True
    then have "2 \<le> pages_left t" "class_known cfg (b, d, f)" using Cons.prems(1,4) t(3) x by simp_all
    from classfy_device_ok [OF assms(1) t(1,2) this(1) t(4) this(2)] obtain u n p
      where u: "classfy_device hw (of_nat b) (of_nat d) (of_nat f) t = Inr u" "scanned cfg A0 2 t u (place (x, n, p) ts)" unfolding x by blast
    have su: "scanned cfg A0 2 s u (place (x, n, p) ts)" using scanned_trans [OF st u(2)] unfolding add_0 .
    then have uf: "pci_device_list u = pci_device_list s" "tty_VRAM u = tty_VRAM s" using pci_rest_fields by (auto simp: scanned_def)
    obtain Au Gu where v: "scan_inv cfg A0 (pci_device_list u) u Au Gu (place (x, n, p) ts)" "tty_idle u" "pages_left s \<le> pages_left u + 2"
        "screen (tty_VRAM u) \<inter> (A0 \<union> block (pci_device_list u) 4) = {}"
      using Cons.prems(5) su unfolding scanned_def uf by blast
    have o: "map fst (place (x, n, p) ts) = scan_order (ys @ [x])" using Cons.prems(6) by (simp add: place_map place_scan_order)
    have left: "2 * length (filter (slot_present cfg) xs) \<le> pages_left u" using Cons.prems(4) True v(3) by simp
    have known: "\<forall>x \<in> set xs. slot_present cfg x \<longrightarrow> class_known cfg x" using Cons.prems(1) by simp
    obtain s' ts' where "scan_slots hw xs u = Inr s'" "scanned cfg A0 (2 * length (filter (slot_present cfg) xs)) u s' ts'"
        "map fst ts' = scan_order ((ys @ [x]) @ filter (slot_present cfg) xs)"
      using Cons.IH [OF known v(1,2) left v(4) o] by blast
    then show ?thesis using True i u(1) scanned_trans [OF su] by (fastforce simp: x t_def)
  qed
qed

text \<open>What the list of devices says about the bus, as a fact about memory.\<close>

definition pci_listed :: "(u32 \<Rightarrow> u32) \<Rightarrow> addr \<Rightarrow> memory \<Rightarrow> bool" where
  "pci_listed cfg h m \<longleftrightarrow> (\<exists>ts. map fst ts = scan_order (pci_found cfg) \<and> listed cfg h ts m)"

definition pci_ready :: "(u32 \<Rightarrow> u32) \<Rightarrow> 'a pci_sys_scheme \<Rightarrow> addr set \<Rightarrow> bool" where
  "pci_ready cfg s A \<longleftrightarrow> heap_inv s A \<and> tty_idle s \<and> 2 * length (pci_found cfg) \<le> pages_left s
     \<and> list_at (mem s) (pci_device_list s) [] \<and> block (pci_device_list s) 4 \<inter> A = {}
     \<and> screen (tty_VRAM s) \<inter> (A \<union> block (pci_device_list s) 4) = {}
     \<and> (\<forall>x \<in> set (pci_found cfg). class_known cfg x)"

lemma pci_init_scanned:
  assumes "pci_config hw cfg" and "pci_ready cfg s A"
  shows "\<exists>s' ts. pci_init hw s = Inr s' \<and> scanned cfg A (2 * length (pci_found cfg)) s s' ts \<and> map fst ts = scan_order (pci_found cfg)"
proof -
  let ?h = "pci_device_list s"
  have r: "tty_idle s" "2 * length (pci_found cfg) \<le> pages_left s" "screen (tty_VRAM s) \<inter> (A \<union> block ?h 4) = {}"
    "\<forall>x \<in> set (pci_found cfg). class_known cfg x" using assms(2) by (simp_all add: pci_ready_def)
  have i0: "scan_inv cfg A ?h s A {} []" using assms(2) by (auto simp: pci_ready_def scan_inv_def listed_def list_area_def)
  obtain i where c: "check_device hw 0 0 0 s = (slot_present cfg (0, 0, 0), s\<lparr>io := i\<rparr>)"
    using check_device_cfg [OF assms(1), of 0 0 0 s] by auto
  define t where "t = s\<lparr>io := i\<rparr>"
  have st: "scanned cfg A 0 s t []" unfolding t_def by (rule scan_io [OF i0 r(1)])
  have t: "scan_inv cfg A (pci_device_list t) t A {} []" "tty_idle t" "screen (tty_VRAM t) \<inter> (A \<union> block (pci_device_list t) 4) = {}"
    using i0 r(1,3) by (simp_all add: t_def scan_inv_def tty_idle_def tty_ok_def)
  show ?thesis
  proof (cases "slot_present cfg (0, 0, 0)")
    case False
    obtain u where u: "printk_lit hw (''no pci exist'' @ [CHR 0x0a]) [] t = Inr u" "tty_idle u" "tty_step t u"
      using printk_prints [OF t(2) prints_ok_plain [OF pci_messages(1)]] by blast
    from scanned_trans [OF st scan_print [OF t(1) u(3,2) t(3)]] show ?thesis
      using False c u(1) by (auto simp: pci_init_def t_def pci_found_def scan_order_def)
  next
    case True
    obtain u where u: "printk_lit hw (''scanning pci'' @ [CHR 0x0a]) [] t = Inr u" "tty_idle u" "tty_step t u"
      using printk_prints [OF t(2) prints_ok_plain [OF pci_messages(2)]] by blast
    have su: "scanned cfg A 0 s u []" using scanned_trans [OF st scan_print [OF t(1) u(3,2) t(3)]] unfolding add_0 .
    then have uf: "pci_device_list u = ?h" "tty_VRAM u = tty_VRAM s" using pci_rest_fields by (auto simp: scanned_def)
    obtain Au Gu where v: "scan_inv cfg A (pci_device_list u) u Au Gu []" "pages_left s \<le> pages_left u + 0"
      using su unfolding scanned_def uf by blast
    have f: "filter (slot_present cfg) pci_slots = pci_found cfg" using True by (simp add: pci_found_def)
    have known: "\<forall>x \<in> set pci_slots. slot_present cfg x \<longrightarrow> class_known cfg x" using r(4) unfolding f [symmetric] by auto
    have left: "2 * length (filter (slot_present cfg) pci_slots) \<le> pages_left u" using r(2) v(2) by (simp add: f)
    have scr: "screen (tty_VRAM u) \<inter> (A \<union> block (pci_device_list u) 4) = {}" using r(3) uf by simp
    obtain s' ts where "scan_slots hw pci_slots u = Inr s'" "scanned cfg A (2 * length (pci_found cfg)) u s' ts"
      "map fst ts = scan_order ([] @ pci_found cfg)"
      using scan_slots_ok [OF assms(1) known v(1) u(2) left scr, of "[]"] unfolding f by (auto simp: scan_order_def)
    then show ?thesis using True c u(1) scanned_trans [OF su] by (auto simp: pci_init_def t_def)
  qed
qed

lemma pci_init_ok:
  assumes "pci_config hw cfg" and "pci_ready cfg s A"
  shows "\<exists>s' A' F. pci_init hw s = Inr s' \<and> heap_inv s' A' \<and> A' \<subseteq> A \<and> pages_left s \<le> pages_left s' + 2 * length (pci_found cfg)
    \<and> tty_idle s' \<and> pci_rest s' = pci_rest s
    \<and> same_off (A \<union> block (pci_device_list s) 4 \<union> screen (tty_VRAM s)) (mem s) (mem s')
    \<and> F \<subseteq> A \<union> block (pci_device_list s) 4 \<and> F \<inter> A' = {} \<and> rests_on (pci_listed cfg (pci_device_list s)) F (mem s')"
proof -
  obtain s' ts A' G where r: "pci_init hw s = Inr s'" "scan_inv cfg A (pci_device_list s) s' A' G ts" "map fst ts = scan_order (pci_found cfg)"
    "tty_idle s'" "pci_rest s' = pci_rest s" "pages_left s \<le> pages_left s' + 2 * length (pci_found cfg)"
    "same_off (A \<union> block (pci_device_list s) 4 \<union> screen (tty_VRAM s)) (mem s) (mem s')"
    using pci_init_scanned [OF assms] unfolding scanned_def by blast
  let ?F = "list_area (pci_device_list s) (nodes_of ts) \<union> G"
  have i: "heap_inv s' A'" "A' \<subseteq> A" "G \<subseteq> A" "G \<inter> A' = {}" "list_area (pci_device_list s) (nodes_of ts) \<inter> (A' \<union> G) = {}"
    "list_area (pci_device_list s) (nodes_of ts) \<subseteq> A \<union> block (pci_device_list s) 4" "listed cfg (pci_device_list s) ts (mem s')"
    "\<forall>(x, n, p) \<in> set ts. block p 36 \<subseteq> G" using r(2) unfolding scan_inv_def by blast+
  have facts: "rests_on (pci_listed cfg (pci_device_list s)) ?F (mem s')"
    by (rule rests_onI) (use listed_frame [OF i(7,8)] r(3) in \<open>auto simp: pci_listed_def\<close>)
  have F: "?F \<subseteq> A \<union> block (pci_device_list s) 4" "?F \<inter> A' = {}" using i(3-6) by blast+
  show ?thesis by (intro exI [of _ s'] exI [of _ A'] exI [of _ ?F] conjI) (rule r i facts F)+
qed

end
