(* ===== verification/Drivers_Pci_Lookup.thy ===== *)
theory Drivers_Pci_Lookup
  imports Drivers_Pci_Scan
begin

text \<open>
  The device list after \<open>pci_init\<close> as its users see it: which functions of the bus it holds, and
  what a lookup by address finds.
\<close>

section \<open>Lookups after the scan\<close>

lemma pci_slots_product: "pci_slots = List.product [0..<256] (List.product [0..<32] [0..<8])"
  by (simp add: pci_slots_def product_concat_map map_concat comp_def)

lemma mem_pci_slots: "(b, d, f) \<in> set pci_slots \<longleftrightarrow> b < 256 \<and> d < 32 \<and> f < 8"
  by (simp add: pci_slots_product)

lemma set_scan_order [simp]: "set (scan_order xs) = set xs"
  by (cases xs) (simp_all add: scan_order_def)

lemma of_nat_u8: "a < 256 \<Longrightarrow> b < 256 \<Longrightarrow> (of_nat a :: u8) = of_nat b \<longleftrightarrow> a = b"
  by (simp add: word_of_nat_eq_iff take_bit_eq_mod)

lemma entry_matches:
  assumes "listed cfg h ts m" and "(x, n, p) \<in> set ts" and "x \<in> set pci_slots" and "b < 256" and "d < 32" and "f < 8"
  shows "id_matches m (of_nat b) (of_nat d) (of_nat f) n \<longleftrightarrow> x = (b, d, f)"
proof -
  obtain b' d' f' where x: "x = (b', d', f')" by (cases x)
  have "node_data m n = p" "device_at cfg m x p" using assms(1,2) by (auto simp: listed_def)
  moreover have "b' < 256" "d' < 32" "f' < 8" using assms(3) by (simp_all add: x mem_pci_slots)
  ultimately show ?thesis using assms(4-6) of_nat_u8 [of b' b] of_nat_u8 [of d' d] of_nat_u8 [of f' f]
    by (auto simp: id_matches_def device_at_def x)
qed

lemma lookup_listed:
  assumes l: "listed cfg h ts m" and o: "map fst ts = scan_order (pci_found cfg)" and "b < 256" and "d < 32" and "f < 8"
  shows "case List.find (id_matches m (of_nat b) (of_nat d) (of_nat f)) (nodes_of ts) of
      None \<Rightarrow> (b, d, f) \<notin> set (pci_found cfg)
    | Some n \<Rightarrow> (b, d, f) \<in> set (pci_found cfg) \<and> device_at cfg m (b, d, f) (node_data m n)"
proof -
  have fs: "fst ` set ts = set (pci_found cfg)" using arg_cong [OF o, of set] by simp
  have "set (pci_found cfg) \<subseteq> set pci_slots" by (auto simp: pci_found_def)
  then have m: "id_matches m (of_nat b) (of_nat d) (of_nat f) n \<longleftrightarrow> x = (b, d, f)" if "(x, n, p) \<in> set ts" for x n p
    using entry_matches [OF l that _ assms(3-5)] that fs by force
  show ?thesis
  proof (cases "List.find (id_matches m (of_nat b) (of_nat d) (of_nat f)) (nodes_of ts)")
    case None
    then have "\<forall>n \<in> set (nodes_of ts). \<not> id_matches m (of_nat b) (of_nat d) (of_nat f) n" by (simp add: find_None_iff)
    then have "(b, d, f) \<notin> fst ` set ts" using m by force
    then show ?thesis using None fs by simp
  next
    case (Some n)
    then have "id_matches m (of_nat b) (of_nat d) (of_nat f) n" "n \<in> set (nodes_of ts)" by (auto simp: find_Some_iff)
    then obtain p where "((b, d, f), n, p) \<in> set ts" using m by fastforce
    then show ?thesis using Some l fs by (force simp: listed_def)
  qed
qed

text \<open>
  C3: on a bus with a given configuration space \<open>pci_init\<close> scans all 65536 functions and builds a
  list with exactly one record for each function that answers (the first one found at the head,
  the others behind it, the latest first), holding its address, its identification, its class and
  its six base address registers; the allocator stays intact, and a lookup afterwards finds the
  record of every function that answers and a null pointer for all others. On a machine where
  nothing answers at the first address the list stays empty. The scan needs an intact allocator
  with two pages for each function and mass storage devices of a subclass that the table names.
\<close>

theorem pci_init_enumerates:
  assumes "pci_config hw cfg" and "pci_ready cfg s A"
  shows "\<exists>s' A' ts. pci_init hw s = Inr s' \<and> heap_inv s' A' \<and> tty_idle s'
    \<and> map fst ts = scan_order (pci_found cfg) \<and> listed cfg (pci_device_list s) ts (mem s')
    \<and> (\<forall>b < 256. \<forall>d < 32. \<forall>f < 8. \<exists>p t. get_device_by_id (of_nat b) (of_nat d) (of_nat f) s' = Inr (p, t)
         \<and> (if (b, d, f) \<in> set (pci_found cfg) then device_at cfg (mem s') (b, d, f) p else p = 0))"
proof -
  obtain s' A' F where r: "pci_init hw s = Inr s'" "heap_inv s' A'" "tty_idle s'" "pci_rest s' = pci_rest s"
    "rests_on (pci_listed cfg (pci_device_list s)) F (mem s')"
    using pci_init_ok [OF assms] by blast
  obtain ts where ts: "map fst ts = scan_order (pci_found cfg)" "listed cfg (pci_device_list s) ts (mem s')"
    using rests_on_now [OF r(5)] by (auto simp: pci_listed_def)
  have h: "pci_device_list s' = pci_device_list s" by (rule pci_rest_fields(1) [OF r(4)])
  have ok: "devices_ok s' (nodes_of ts)" using ts(2) by (auto simp: devices_ok_def listed_def h device_at_def)
  have "\<exists>p t. get_device_by_id (of_nat b) (of_nat d) (of_nat f) s' = Inr (p, t)
      \<and> (if (b, d, f) \<in> set (pci_found cfg) then device_at cfg (mem s') (b, d, f) p else p = 0)"
    if "b < 256" "d < 32" "f < 8" for b d f
    using get_device_by_id_found [OF ok, of "of_nat b" "of_nat d" "of_nat f"] lookup_listed [OF ts(2,1) that]
    by (auto split: option.splits)
  then show ?thesis using r(1-3) ts by blast
qed

text \<open>A bus with one host bridge, at the first address.\<close>

definition bridge_regs :: "u32 \<Rightarrow> u32" where
  "bridge_regs a = (if a = 0x80000000 then 0x12378086 else if a = 0x80000008 then 0x06000002 else 0xFFFFFFFF)"

definition bridge_hw :: hardware where
  "bridge_hw = zero_hw\<lparr>hw_in32 := (\<lambda>es port. case es of Out32 q a # _ \<Rightarrow> bridge_regs a | _ \<Rightarrow> 0xFFFFFFFF)\<rparr>"

lemma bridge_config: "pci_config bridge_hw bridge_regs"
  by (simp add: pci_config_def bridge_hw_def)

lemma pci_address_first:
  assumes "b < 256" and "d < 32" and "f < 8"
  shows "pci_address (of_nat b) (of_nat d) (of_nat f) 0 = 0x80000000 \<longleftrightarrow> b = 0 \<and> d = 0 \<and> f = 0"
    and "pci_address (of_nat b) (of_nat d) (of_nat f) 0 \<noteq> 0x80000008"
proof -
  have u: "unat (of_nat d :: u8) < 32" "unat (of_nat f :: u8) < 8" using assms by (simp_all add: unat_of_nat)
  note F = pci_address_fields [OF u, of "of_nat b" 0]
  have z: "of_nat k = (0 :: u8) \<longleftrightarrow> k = 0" if "k < 256" for k using of_nat_u8 [OF that, of 0] by simp
  have uc: "(ucast w :: u32) = 0 \<longleftrightarrow> w = 0" for w :: u8 by transfer (simp add: take_bit_eq_mod)
  show "pci_address (of_nat b) (of_nat d) (of_nat f) 0 = 0x80000000 \<longleftrightarrow> b = 0 \<and> d = 0 \<and> f = 0"
  proof
    assume "pci_address (of_nat b) (of_nat d) (of_nat f) 0 = 0x80000000"
    then have "(ucast (of_nat b :: u8) :: u32) = 0" "(ucast (of_nat d :: u8) :: u32) = 0" "(ucast (of_nat f :: u8) :: u32) = 0"
      using F(1-3) by simp_all
    then show "b = 0 \<and> d = 0 \<and> f = 0" using assms z uc by simp
  qed (simp add: pci_address_def)
  show "pci_address (of_nat b) (of_nat d) (of_nat f) 0 \<noteq> 0x80000008" using F(4) by auto
qed

lemma filter_single: "distinct xs \<Longrightarrow> a \<in> set xs \<Longrightarrow> (\<And>x. x \<in> set xs \<Longrightarrow> P x \<longleftrightarrow> x = a) \<Longrightarrow> filter P xs = [a]"
proof (induction xs)
  case (Cons x xs)
  then show ?case by (cases "x = a") (auto simp: filter_empty_conv)
qed simp

lemma pci_slots_distinct: "distinct pci_slots"
  by (simp add: pci_slots_product distinct_product)

lemma bridge_found: "pci_found bridge_regs = [(0, 0, 0)]"
proof -
  have "slot_present bridge_regs (b, d, f) \<longleftrightarrow> (b, d, f) = (0, 0, 0)" if "(b, d, f) \<in> set pci_slots" for b d f
    using pci_address_first [of b d f] that by (auto simp: mem_pci_slots slot_present_def slot_reg_def bridge_regs_def)
  then have "filter (slot_present bridge_regs) pci_slots = [(0, 0, 0)]"
    by (intro filter_single pci_slots_distinct) (auto simp: mem_pci_slots)
  then show ?thesis by (simp add: pci_found_def slot_present_def slot_reg_def pci_address_def bridge_regs_def)
qed

definition image_pci :: pci_sys where
  "image_pci = two_devices\<lparr>mem := image_mem, kmem_kmem := 0xc0106000, quick_alloc_table := replicate 12 0, pci_device_list := 0xc0106130\<rparr>"

lemma image_pci_ready:
  obtains s A where "pci_ready bridge_regs (s :: pci_sys) A"
proof -
  have f: "kmem_kmem image_pci = 0xc0106000" "tty_VRAM image_pci = 0xc00b8000" "pci_device_list image_pci = 0xc0106130" "mem image_pci = image_mem"
    "quick_alloc_table image_pci = replicate 12 0" "multiboot_config image_pci = 0xc0009500"
    by (simp_all add: image_pci_def two_devices_def cpu_sys.defs cpu_state_def acpi_sys.defs apic_state_def tty.defs fresh_tty_def)
  have "tty_idle image_pci" by (simp add: tty_idle_def tty_ok_def image_pci_def two_devices_def cpu_sys.defs cpu_state_def acpi_sys.defs
        apic_state_def tty.defs fresh_tty_def mapped_def)
  note i = image_machine [OF f(4,1,5,6,2) this]
  obtain s A where s: "heap_inv s A" "A \<subseteq> mm_area 0xc0120800 image_pci" "8320 \<le> pages_left s + 309" "tty_idle s" "boot_rest s = boot_rest image_pci"
    "same_off (screen (tty_VRAM image_pci) \<union> mm_area 0xc0120800 image_pci) image_mem (mem s)"
    using mm_init_ok [OF i(1), of zero_hw] i(2,3) f(4) by auto
  have r: "pci_device_list s = 0xc0106130" "tty_VRAM s = 0xc00b8000"
    using arg_cong [OF s(5), of pci_device_list] arg_cong [OF s(5), of tty_VRAM] f by (simp_all add: boot_rest_def mm_rest_def)
  have dis: "screen (tty_VRAM s) \<inter> (A \<union> block 0xc0106130 4) = {}" "block 0xc0106130 4 \<inter> A = {}"
    "block 0xc0106130 4 \<inter> (screen (tty_VRAM image_pci) \<union> mm_area 0xc0120800 image_pci) = {}"
    using s(2) by (auto simp: r f mm_area_def screen_def mem_block_iff)
  have "same_on (block 0xc0106130 4) image_mem (mem s)" by (rule same_off_on [OF s(6)]) (use dis(3) in blast)
  then have "load32 (mem s) 0xc0106130 = load32 image_mem 0xc0106130" by (rule load32_same_on) simp_all
  also have "\<dots> = 0"
    by (simp add: image_mem_def kmem_kmem_image_def Let_def load32_store32_apart apart_def) (simp add: load32_def)
  finally have "list_at (mem s) 0xc0106130 []" by (simp add: list_at_def dll_def nodes_ok_def mapped_def)
  moreover have "class_known bridge_regs (0, 0, 0)" by (simp add: class_known_def slot_class_def slot_reg_def pci_address_def bridge_regs_def)
  ultimately have "pci_ready bridge_regs s A" using s(1,3,4) dis by (simp add: pci_ready_def bridge_found r)
  then show thesis by (rule that)
qed

theorem pci_init_enumerates_witness:
  "\<exists>(s :: pci_sys) s' ts. pci_init bridge_hw s = Inr s' \<and> map fst ts = [(0, 0, 0)] \<and> listed bridge_regs (pci_device_list s) ts (mem s')
     \<and> (\<exists>p t. get_device_by_id 0 0 0 s' = Inr (p, t) \<and> device_at bridge_regs (mem s') (0, 0, 0) p)
     \<and> (\<exists>t. get_device_by_id 0 3 1 s' = Inr (0, t))"
proof -
  obtain s A where s: "pci_ready bridge_regs (s :: pci_sys) A" by (rule image_pci_ready)
  have o: "scan_order (pci_found bridge_regs) = [(0, 0, 0)]" by (simp add: bridge_found scan_order_def)
  obtain s' ts where r: "pci_init bridge_hw s = Inr s'" "map fst ts = [(0, 0, 0)]" "listed bridge_regs (pci_device_list s) ts (mem s')"
    and l: "\<forall>b < 256. \<forall>d < 32. \<forall>f < 8. \<exists>p t. get_device_by_id (of_nat b) (of_nat d) (of_nat f) s' = Inr (p, t)
         \<and> (if (b, d, f) \<in> set (pci_found bridge_regs) then device_at bridge_regs (mem s') (b, d, f) p else p = 0)"
    using pci_init_enumerates [OF bridge_config s] unfolding o by (elim exE conjE) (rule that)
  have "\<exists>p t. get_device_by_id 0 0 0 s' = Inr (p, t) \<and> device_at bridge_regs (mem s') (0, 0, 0) p"
    using l [rule_format, of 0 0 0] by (simp add: bridge_found)
  moreover have "\<exists>t. get_device_by_id 0 3 1 s' = Inr (0, t)" using l [rule_format, of 0 3 1] by (simp add: bridge_found)
  ultimately show ?thesis using r by (intro exI [of _ s] exI [of _ s'] exI [of _ ts]) simp
qed

text \<open>
  The last hypothesis is needed: a mass storage device that reports a subclass behind the table, as
  0x80 for other controllers, makes the scan read past the end of \<open>mass_storage\<close>.
\<close>

theorem mass_storage_index_unchecked: "print_class hw 1 0x80 progif s = Inl Out_Of_Bounds"
  by (simp add: print_class_def mass_storage_def pci_classes_def)

end
