(* ===== verification/Kernel_Sched_Start.thy ===== *)
theory Kernel_Sched_Start
  imports Kernel_Sched_Init
begin

text \<open>
  The timer and the scheduler as services of the boot sequence: \<open>pit_init\<close> installs the handler of
  the timer interrupt, \<open>sched_init\<close> creates the first task on pages of the kernel zone, and both
  leave the object allocator intact.
\<close>

section \<open>The timer\<close>

abbreviation pit_cells :: "'a sched_sys_scheme \<Rightarrow> addr set" where
  "pit_cells s \<equiv> block (gate_addr s (unat PIT_VECTOR)) 8"

definition pit_ready :: "'a sched_sys_scheme \<Rightarrow> addr set \<Rightarrow> bool" where
  "pit_ready s A \<longleftrightarrow> mapped (ioapic_addr s) \<and> mapped (ioapic_addr s + 0x10) \<and> unat (gate_addr s (unat PIT_VECTOR)) + 8 \<le> 2 ^ 32"

text \<open>The gate of the timer: its handler, in the kernel code segment, not to be called by users.\<close>

definition timer_gate :: "'a sched_sys_scheme \<Rightarrow> memory \<Rightarrow> bool" where
  "timer_gate s m \<longleftrightarrow> gate_at m (gate_addr s (unat PIT_VECTOR)) = (pit_int s, 8, 0xe, 0, True)"

lemma gate_at_rests:
  assumes "unat p + 8 \<le> 2 ^ 32"
  shows "rests_on (\<lambda>m'. gate_at m' p = gate_at m p) (block p 8) m"
proof (rule rests_onI)
  fix m' assume on: "same_on (block p 8) m m'"
  have "m' (p + of_nat i) = m (p + of_nat i)" if "i < 8" for i
    using assms that by (intro same_onD [OF on] block_add_of_nat) simp_all
  then show "gate_at m' p = gate_at m p" by (rule gate_at_cong)
qed

lemma pit_gate:
  assumes "pit_ready s A"
  shows "\<exists>m. set_int_gate PIT_VECTOR (pit_int s) s = s\<lparr>mem := m\<rparr> \<and> same_off (pit_cells s) (mem s) m \<and> timer_gate s m"
proof -
  let ?p = "gate_addr s (unat PIT_VECTOR)"
  have p: "cpu_idt s + 8 * ucast PIT_VECTOR = ?p" by (simp add: gate_addr_def)
  obtain m where m: "set_int_gate PIT_VECTOR (pit_int s) s = s\<lparr>mem := m\<rparr>"
    "\<forall>a. (\<forall>i < 8. a \<noteq> ?p + of_nat i) \<longrightarrow> m a = mem s a" "gate_at m ?p = (pit_int s, 8, 0xe, 0, True)"
    using register_gate_mem [of INTR_GATE PIT_VECTOR "pit_int s" "1 * 8" 0 s]
    unfolding set_int_gate_def register_intr_def p by auto
  have "?p + of_nat i \<in> block ?p 8" if "i < 8" for i :: nat
    using assms that by (intro block_add_of_nat) (simp_all add: pit_ready_def)
  then have "same_off (pit_cells s) (mem s) m" unfolding same_off_def using m(2) by metis
  then show ?thesis using m(1,3) by (auto simp: timer_gate_def)
qed

lemma pit_init_ok:
  assumes "pit_ready s A"
  shows "\<exists>m i. pit_init s = Inr (s\<lparr>mem := m, io := i\<rparr>) \<and> same_off (pit_cells s) (mem s) m \<and> timer_gate s m"
proof -
  obtain m where m: "set_int_gate PIT_VECTOR (pit_int s) s = s\<lparr>mem := m\<rparr>" "same_off (pit_cells s) (mem s) m" "timer_gate s m"
    using pit_gate [OF assms] by blast
  have "\<exists>i. pit_init s = Inr (s\<lparr>mem := m, io := i\<rparr>)"
    using assms unfolding pit_init_def m(1)
    by (simp add: pit_ready_def ioapic_enable_def ioapic_write_def Let_def io_defs mmio_write_def event_def) (intro exI, rule refl)
  then show ?thesis using m(2,3) by blast
qed

interpretation pit_service: service pit_init mem heap_inv pages_left pit_ready pit_cells 0 timer_gate
proof unfold_locales
  fix s :: "'a sched_sys_scheme" and A
  assume a: "heap_inv s A" "0 \<le> pages_left s" "pit_ready s A" "pit_cells s \<inter> A = {}"
  obtain m i where m: "pit_init s = Inr (s\<lparr>mem := m, io := i\<rparr>)" "same_off (pit_cells s) (mem s) m" "timer_gate s m"
    using pit_init_ok [OF a(3)] by blast
  have on: "same_on A (mem s) m" by (rule same_off_on [OF m(2) a(4)])
  have "rests_on (timer_gate s) (pit_cells s) m"
    using gate_at_rests [of "gate_addr s (unat PIT_VECTOR)" m] a(3) m(3) by (simp add: timer_gate_def [abs_def] pit_ready_def)
  moreover have "same_off (A \<union> pit_cells s) (mem s) m" by (rule same_off_mono [OF m(2)]) blast
  moreover have "heap_inv (s\<lparr>mem := m, io := i\<rparr>) A" "pages_left (s\<lparr>mem := m, io := i\<rparr>) = pages_left s"
    using heap_inv_frame [OF a(1) on] pages_left_frame [OF a(1) on] by simp_all
  ultimately show "\<exists>s' A' F. pit_init s = Inr s' \<and> heap_inv s' A' \<and> A' \<subseteq> A \<and> pages_left s \<le> pages_left s' + 0
      \<and> same_off (A \<union> pit_cells s) (mem s) (mem s') \<and> F \<subseteq> A \<union> pit_cells s \<and> F \<inter> A' = {} \<and> rests_on (timer_gate s) F (mem s')"
    using m(1) a(4) by (intro exI [of _ "s\<lparr>mem := m, io := i\<rparr>"] exI [of _ A] exI [of _ "pit_cells s"]) simp
qed

section \<open>The scheduler\<close>

lemma disjoint_sep:
  assumes "block p n \<inter> block q k = {}" and "unat p + n \<le> 2 ^ 32" and "unat q + k \<le> 2 ^ 32" and "0 < n" and "0 < k"
  shows "sep p n q k"
proof (rule ccontr)
  assume "\<not> sep p n q k"
  then have "(if unat p \<le> unat q then q else p) \<in> block p n \<inter> block q k" using assms(2-5) by (auto simp: sep_def mem_block_iff)
  then show False using assms(1) by simp
qed

abbreviation sched_cells :: "'a sched_sys_scheme \<Rightarrow> addr set" where
  "sched_cells s \<equiv> block (tss_list s) 18432"

definition sched_ready :: "'a sched_sys_scheme \<Rightarrow> addr set \<Rightarrow> bool" where
  "sched_ready s A \<longleftrightarrow> table_ok s \<and> used_index s = 0 \<and> next_pid s = 1 \<and> curr_index s = 0"

text \<open>The task table with the first task, new, starting at \<open>init\<close>.\<close>

definition first_task :: "'a sched_sys_scheme \<Rightarrow> memory \<Rightarrow> bool" where
  "first_task s m \<longleftrightarrow> sched_ok 1 (s\<lparr>mem := m\<rparr>) \<and> status_of (s\<lparr>mem := m\<rparr>) 0 = NEW \<and> load32 m (task s 0 + 8) = init_entry s"

lemma first_task_rests:
  assumes "first_task s m"
  shows "rests_on (first_task s) (sched_cells s) m"
proof (rule rests_onI)
  fix m' assume on: "same_on (sched_cells s) m m'"
  have t: "table_ok s" using assms by (simp add: first_task_def sched_ok_def table_ok_def)
  have f: "load32 m' (task s i + j) = load32 m (task s i + j)" if "i < 256" "unat j + 4 \<le> 72" for i j
  proof (rule load32_same_on [OF on])
    note a = task_addr0 [OF t that(1)]
    have u: "unat (task s i + j) = unat (task s i) + unat j" using a that t by (intro unat_add_word) (simp add: table_ok_def)
    show "block (task s i + j) 4 \<subseteq> sched_cells s" using a u that by (intro block_mono) simp_all
    show "unat (task s i + j) + 4 \<le> 2 ^ 32" using a u that t by (simp add: table_ok_def)
  qed
  have e: "task (s\<lparr>mem := m'\<rparr>) = task s" "task (s\<lparr>mem := m\<rparr>) = task s" "off_table (s\<lparr>mem := m'\<rparr>) = off_table (s\<lparr>mem := m\<rparr>)"
    "table_ok (s\<lparr>mem := m'\<rparr>) = table_ok (s\<lparr>mem := m\<rparr>)"
    by (simp_all add: task_def task_at_def off_table_def table_ok_def fun_eq_iff)
  have "pid_of (s\<lparr>mem := m'\<rparr>) i = pid_of (s\<lparr>mem := m\<rparr>) i" "status_of (s\<lparr>mem := m'\<rparr>) i = status_of (s\<lparr>mem := m\<rparr>) i"
    "stack_of (s\<lparr>mem := m'\<rparr>) i = stack_of (s\<lparr>mem := m\<rparr>) i" if "i < 256" for i
    using f [OF that, of 0] f [OF that, of 64] f [OF that, of 4] by (simp_all add: pid_of_def status_of_def stack_of_def e)
  then show "first_task s m'" using assms f [of 0 8] by (simp add: first_task_def sched_ok_def e)
qed

text \<open>The places disjoint from the allocator's memory are apart from its map and from its next page.\<close>

lemma heap_sched_boot:
  assumes "heap_ok s cs k" and "2 \<le> pages_left s" and "sched_ready s A" and "sched_cells s \<inter> owned s cs k = {}"
  shows "sched_boot k s"
proof -
  let ?N = "unat (kernel_mem_pages s)"
  have T: "unat (tss_list s) + 18432 \<le> 2 ^ 32" "table_ok s" using assms(3) by (simp_all add: sched_ready_def table_ok_def)
  have k: "0 < k" "k + 2 \<le> ?N" "?N \<le> 0x40000" and up: "used_prefix (mem s) (memmap_kernel s) ?N k"
    using assms(1) heap_ok_left [OF assms(1)] assms(2) by (auto simp: heap_ok_def)
  have "block (memmap_kernel s) ?N \<inter> sched_cells s = {}" using heap_map_owned [of s cs k] assms(4) by blast
  then have sp1: "sep (memmap_kernel s) ?N (tss_list s) 18432"
    using up T k by (intro disjoint_sep) (auto simp: used_prefix_def)
  let ?e = "tss_list s + 18431"
  have e: "unat ?e = unat (tss_list s) + 18431" using T by (simp add: unat_add_word)
  then have "?e \<in> sched_cells s" by (simp add: mem_block_iff)
  then have "?e \<notin> owned s cs k" using assms(4) by blast
  then have "unat (tss_list s) + 18432 \<le> heap_top k" using e by (simp add: owned_def)
  moreover have "unat (kernel_page (k - 1)) = heap_top k" using k by (simp add: unat_kernel_page heap_top_def)
  moreover have "heap_top k + 4096 \<le> 2 ^ 32" using k by (simp add: heap_top_def)
  ultimately have "sep (kernel_page (k - 1)) 4096 (tss_list s) 18432" using T by (simp add: sep_def)
  then show ?thesis using assms(3) k up sp1 T(2) by (simp add: sched_boot_def sched_ready_def)
qed

interpretation sched_service: service sched_init mem heap_inv pages_left sched_ready sched_cells 2 first_task
proof unfold_locales
  fix s :: "'a sched_sys_scheme" and A
  assume a: "heap_inv s A" "2 \<le> pages_left s" "sched_ready s A" "sched_cells s \<inter> A = {}"
  obtain cs k where h: "heap_ok s cs k" "classes_ok s cs" "A = owned s cs k" using a(1) by (auto simp: heap_inv_def)
  have b: "sched_boot k s" using heap_sched_boot [OF h(1) a(2,3)] a(4) h(3) by simp
  obtain s' where r: "sched_init s = Inr s'" "sched_ok 1 s'" "status_of s' 0 = NEW" "load32 (mem s') (task s 0 + 8) = init_entry s"
    "s' = s\<lparr>mem := mem s', next_pid := 2, used_index := 1, worker_stack_top := kernel_page k + 0xfff\<rparr>"
    "same_off (block (memmap_kernel s) (unat (kernel_mem_pages s)) \<union> sched_cells s) (mem s) (mem s')"
    "used_prefix (mem s') (memmap_kernel s) (unat (kernel_mem_pages s)) (k + 2)"
    using sched_init_ok [OF b] by blast
  define m where "m = mem s'"
  have s': "s' = s\<lparr>mem := m, next_pid := 2, used_index := 1, worker_stack_top := kernel_page k + 0xfff\<rparr>" using r(5) by (simp add: m_def)
  note adv = heap_ok_advance [OF h(1) r(7) _ r(6)]
  have ok: "heap_ok (s\<lparr>mem := m\<rparr>) cs (k + 2)" and sub: "owned (s\<lparr>mem := m\<rparr>) cs (k + 2) \<subseteq> A"
    using adv a(4) h(3) by (auto simp: m_def)
  have inv: "heap_inv s' (owned (s\<lparr>mem := m\<rparr>) cs (k + 2))"
    using ok h(2) unfolding s' by (auto simp: heap_unfold)
  have "pages_left s' = pages_left (s\<lparr>mem := m\<rparr>)" by (simp add: s' pages_left_def)
  then have left: "pages_left s \<le> pages_left s' + 2" using heap_ok_left [OF h(1)] heap_ok_left [OF ok] by simp
  have "first_task s m" using r(2-4) unfolding s'
    by (simp add: first_task_def sched_ok_def table_ok_def pid_of_def status_of_def stack_of_def off_table_def task_def task_at_def)
  then have "rests_on (first_task s) (sched_cells s) (mem s')" unfolding m_def by (rule first_task_rests)
  moreover have "same_off (A \<union> sched_cells s) (mem s) (mem s')"
    by (rule same_off_mono [OF r(6)]) (use heap_map_owned [of s cs k] h(3) in blast)
  ultimately show "\<exists>s' A' F. sched_init s = Inr s' \<and> heap_inv s' A' \<and> A' \<subseteq> A \<and> pages_left s \<le> pages_left s' + 2
      \<and> same_off (A \<union> sched_cells s) (mem s) (mem s') \<and> F \<subseteq> A \<union> sched_cells s \<and> F \<inter> A' = {} \<and> rests_on (first_task s) F (mem s')"
    using r(1) inv sub left a(4) by (intro exI [of _ s'] exI [of _ "owned (s\<lparr>mem := m\<rparr>) cs (k + 2)"] exI [of _ "sched_cells s"]) auto
qed

end
