(* ===== verification/Drivers_Char_Reg.thy ===== *)
theory Drivers_Char_Reg
  imports Drivers_Char Heap_Clients
begin

text \<open>
  What the character device registry promises: a registered driver is found under its major
  number with the entry points it was registered with, and what \<open>cread\<close> and \<open>cwrite\<close> do for the
  devices that \<open>char_init\<close> sets up.
\<close>

section \<open>Registration\<close>

text \<open>A driver record in memory, outside the heap and the tree.\<close>

definition cdev_at :: "memory \<Rightarrow> addr \<Rightarrow> addr \<Rightarrow> addr \<Rightarrow> addr \<Rightarrow> bool" where
  "cdev_at m p r w i \<longleftrightarrow> mapped p \<and> unat p + 16 \<le> 2 ^ 32
     \<and> cdev_read m p = r \<and> cdev_write m p = w \<and> cdev_ioctl m p = i"

lemma cdev_at_frame:
  assumes "cdev_at m p r w i" and "same_on (block p 16) m m'"
  shows "cdev_at m' p r w i"
proof -
  have "load32 m' (p + j) = load32 m (p + j)" if "unat j + 4 \<le> 16" for j
    using block_part [of p 16 4 j] assms(1) that by (intro load32_same_on [OF assms(2)]) (auto simp: cdev_at_def)
  from this [of 4] this [of 8] this [of 12] show ?thesis using assms(1) by (simp add: cdev_at_def)
qed

definition cdev_cells :: "addr \<Rightarrow> u16 \<Rightarrow> addr \<Rightarrow> addr \<Rightarrow> addr \<Rightarrow> memory \<Rightarrow> memory" where
  "cdev_cells p major r w i m = store32 (store32 (store32 (store16 m p major) (p + 4) r) (p + 8) w) (p + 12) i"

lemma cdev_cells_at:
  assumes "mapped p" and "unat p + 16 \<le> 2 ^ 32"
  shows "cdev_at (cdev_cells p major r w i m) p r w i" and "same_off (block p 16) m (cdev_cells p major r w i m)"
proof -
  show "cdev_at (cdev_cells p major r w i m) p r w i"
    using assms by (simp add: cdev_at_def cdev_cells_def load32_store32_apart)
  show "same_off (block p 16) m (cdev_cells p major r w i m)"
    unfolding cdev_cells_def
    using block_part [OF assms(2), of 2 0] block_part [OF assms(2), of 4 4] block_part [OF assms(2), of 4 8] block_part [OF assms(2), of 4 12]
    by (intro same_off_store32 same_off_store16 same_off_refl) simp_all
qed

lemma creat_cdev_ok:
  assumes inv: "bst_in (chardev_root s) s t A" and new: "find t (scast major) = None" and left: "2 \<le> pages_left s"
    and fits: "path_balanced (scast major) (tree_insert 0 (scast major) 0 t)" "length (nodes t) < 2 ^ 29"
  shows "\<exists>dev p s' A'. creat_cdev major r w i s = Inr s' \<and> mem_only s s'
    \<and> bst_in (chardev_root s) s' (tree_insert p (scast major) dev t) A' \<and> A' \<subseteq> A
    \<and> find (tree_insert p (scast major) dev t) = (find t)(scast major \<mapsto> dev)
    \<and> tree_area (tree_insert p (scast major) dev t) \<subseteq> tree_area t \<union> A
    \<and> cdev_at (mem s') dev r w i \<and> block dev 16 \<subseteq> A
    \<and> block dev 16 \<inter> (A' \<union> tree_area (tree_insert p (scast major) dev t) \<union> block (chardev_root s) 4) = {}
    \<and> pages_left s \<le> 2 + pages_left s' \<and> same_off (A \<union> block (chardev_root s) 4 \<union> tree_area t) (mem s) (mem s')"
proof -
  let ?c = "chardev_root s" and ?k = "scast major :: u32"
  have lt: "unat (16 :: u32) < 1024" by simp
  have h: "heap_inv s A" "root_cell (mem s) ?c t A" "tree_area t \<inter> A = {}" using inv by (simp_all add: bst_in_def)
  obtain dev s1 A1 where a: "kmalloc 16 s = Inr (dev, s1)" "mapped dev" "block dev (Suc (unat (16 :: u32))) \<subseteq> A"
    "same_off A (mem s) (mem s1)" "heap_inv s1 A1" "A1 \<subseteq> A - block dev (Suc (unat (16 :: u32)))"
    "pages_left s \<le> Suc (pages_left s1)" "unat dev + Suc (unat (16 :: u32)) \<le> 2 ^ 32"
    using kmalloc_cases [OF h(1) lt] left by (elim disjE exE conjE) simp_all
  have b: "block dev 16 \<subseteq> block dev (Suc (unat (16 :: u32)))" by (rule block_mono) simp_all
  obtain m1 where s1: "s1 = s\<lparr>mem := m1\<rparr>" using mem_onlyE [OF kmalloc_mem_only [OF a(1)]] .
  define s2 where "s2 = s1\<lparr>mem := cdev_cells dev major r w i (mem s1)\<rparr>"
  have d: "unat dev + 16 \<le> 2 ^ 32" using a(8) by simp
  note cells = cdev_cells_at [OF a(2) d, where major = major and r = r and w = w and i = i and m = "mem s1"]
  have out: "(block ?c 4 \<union> tree_area t) \<inter> A = {}" using h(2,3) by (auto simp: root_cell_def)
  have A1: "same_on A1 (mem s1) (mem s2)" unfolding s2_def using cells(2) a(6) b by (auto intro: same_off_on)
  have h2: "heap_inv s2 A1" unfolding s2_def using heap_inv_frame [OF a(5)] A1 by (simp add: s2_def)
  have off2: "same_off A (mem s) (mem s2)"
    by (rule same_off_trans [OF a(4)]) (use cells(2) a(3) b in \<open>auto simp: s2_def intro: same_off_mono\<close>)
  have in2: "bst_in ?c s2 t A1" using inv h2 a(6) same_off_on [OF off2] out by (intro bst_in_frame [OF inv]) auto
  have pl2: "pages_left s2 = pages_left s1" unfolding s2_def using pages_left_frame [OF a(5)] A1 by (simp add: s2_def)
  have "bst_fits s2 t ?k" using left a(7) pl2 fits by (simp add: bst_fits_def)
  then obtain p s' A' where r: "bst_add ?c dev ?k s2 = Inr s'" "mem_only s2 s'" "bst_in ?c s' (tree_insert p ?k dev t) A'" "A' \<subseteq> A1"
    "find (tree_insert p ?k dev t) = (find t)(?k \<mapsto> dev)" "tree_area (tree_insert p ?k dev t) \<subseteq> tree_area t \<union> A1"
    "pages_left s2 \<le> Suc (pages_left s')" "same_off (A1 \<union> block ?c 4 \<union> tree_area t) (mem s2) (mem s')"
    using bst_add_in [OF in2 new] by blast
  have dd: "block dev 16 \<inter> (A1 \<union> block ?c 4 \<union> tree_area t) = {}" using a(3,6) b out by blast
  have "creat_cdev major r w i s = Inr s'"
    using a(1,2) r(1) by (simp add: creat_cdev_def Let_def s2_def cdev_cells_def s1)
  moreover have "mem_only s s'" using r(2) by (simp add: s2_def s1)
  moreover have "cdev_at (mem s') dev r w i"
  proof (rule cdev_at_frame)
    show "cdev_at (mem s2) dev r w i" using cells(1) by (simp add: s2_def)
    show "same_on (block dev 16) (mem s2) (mem s')" by (rule same_off_on [OF r(8)]) (use dd in blast)
  qed
  moreover have "same_off (A \<union> block ?c 4 \<union> tree_area t) (mem s) (mem s')"
    by (rule same_off_trans [OF same_off_mono [OF off2] same_off_mono [OF r(8)]]) (use a(6) in auto)
  moreover have "block dev 16 \<inter> (A' \<union> tree_area (tree_insert p ?k dev t) \<union> block ?c 4) = {}" using dd r(4,6) by blast
  ultimately show ?thesis
    using r(3-7) a(3,6,7) b pl2 by (intro exI [of _ dev] exI [of _ p] exI [of _ s'] exI [of _ A']) auto
qed

text \<open>Sign extension of a major number keeps different numbers apart.\<close>

lemma scast_inj: "(scast (a :: u16) :: u32) = scast b \<longleftrightarrow> a = b"
proof -
  have "(ucast (scast x :: u32) :: u16) = x" for x :: u16 by (rule bit_word_eqI) (simp add: bit_simps)
  then show ?thesis by metis
qed

section \<open>The devices of \<open>char_init\<close>\<close>

text \<open>
  The state without what the setup of the serial lines changes, and without what \<open>char_init\<close>
  changes as a whole.
\<close>

definition serial_rest :: "'a char_sys_scheme \<Rightarrow> 'a char_sys_scheme" where
  "serial_rest s = s\<lparr>io := [], serial_ports := []\<rparr>"

definition char_rest :: "'a char_sys_scheme \<Rightarrow> 'a char_sys_scheme" where
  "char_rest s = s\<lparr>mem := (\<lambda>_. 0), io := [], ttys := [], fores := [], backs := [], curr_tty := 0, mem_ptr := 0, port_ptr := 0, serial_ports := []\<rparr>"

lemma serial_rest_fields:
  assumes "serial_rest s' = serial_rest s"
  shows "mem s' = mem s" "curr_tty s' = curr_tty s" "ttys s' = ttys s" "char_rest s' = char_rest s"
  using arg_cong [OF assms, of mem] arg_cong [OF assms, of curr_tty] arg_cong [OF assms, of ttys] arg_cong [OF assms, of char_rest]
  by (simp_all add: serial_rest_def char_rest_def)

lemma char_rest_mem_only: "mem_only s s' \<Longrightarrow> char_rest s' = char_rest s"
  by (auto simp: char_rest_def elim!: mem_onlyE)

lemma char_rest_fields:
  assumes "char_rest s' = char_rest s"
  shows "chardev_root s' = chardev_root s" "fn_devmem_read s' = fn_devmem_read s" "fn_devmem_write s' = fn_devmem_write s"
    "fn_tty_write s' = fn_tty_write s" "ioapic_addr s' = ioapic_addr s" "biosdata s' = biosdata s"
  using arg_cong [OF assms, of chardev_root] arg_cong [OF assms, of fn_devmem_read] arg_cong [OF assms, of fn_devmem_write]
    arg_cong [OF assms, of fn_tty_write] arg_cong [OF assms, of ioapic_addr] arg_cong [OF assms, of biosdata]
  by (simp_all add: char_rest_def)

lemma char_rest_heap:
  assumes "char_rest s' = char_rest s" and "mem s' = mem s"
  shows "heap_inv s' A = heap_inv s A" "pages_left s' = pages_left s"
  using assms(2) arg_cong [OF assms(1), of memmap_kernel] arg_cong [OF assms(1), of kernel_mem_pages] arg_cong [OF assms(1), of quick_alloc_table]
  by (simp_all add: char_rest_def heap_unfold pages_left_def)

lemma serial_rest_updates [simp]: "serial_rest (event e s) = serial_rest s" "serial_rest (s\<lparr>serial_ports := ps\<rparr>) = serial_rest s"
  by (simp_all add: serial_rest_def event_def)

lemma init_one_com_same: "serial_rest (snd (init_one_com hw port i s)) = serial_rest s"
  by (simp add: init_one_com_def Let_def outb_def inb_def split: prod.split)

lemma init_coms_same: "serial_rest (init_coms hw n i s) = serial_rest s"
  by (induction n arbitrary: i s) (simp_all add: init_one_com_same)

lemma enable_pins_same: "enable_pins n i s = Inr s' \<Longrightarrow> serial_rest s' = serial_rest s"
proof (induction n arbitrary: i s)
  case (Suc n)
  then obtain s1 where "ioapic_enable (of_nat (i mod 14)) (of_nat i) s = Inr s1" "enable_pins n (Suc i) s1 = Inr s'"
    by (auto simp: bindE_Inr_iff)
  moreover from this(1) have "serial_rest s1 = serial_rest s"
    by (auto simp: ioapic_enable_def ioapic_write_def Let_def io_defs mmio_write_def deref_def split: if_splits)
  ultimately show ?case using Suc.IH by fastforce
qed simp

lemma enable_pins_ok:
  "mapped (ioapic_addr s) \<Longrightarrow> mapped (ioapic_addr s + 0x10) \<Longrightarrow> \<exists>s'. enable_pins n i s = Inr s'"
proof (induction n arbitrary: i s)
  case (Suc n)
  obtain s1 where "ioapic_enable (of_nat (i mod 14)) (of_nat i) s = Inr s1" "ioapic_addr s1 = ioapic_addr s"
    using Suc.prems by (auto simp: ioapic_enable_def ioapic_write_def Let_def io_defs mmio_write_def event_def)
  then show ?case using Suc.IH Suc.prems by simp
qed simp

lemma serial_init_ok:
  assumes "mapped (biosdata s)" and "mapped (ioapic_addr s)" and "mapped (ioapic_addr s + 0x10)"
  shows "\<exists>s'. serial_init hw s = Inr s'"
proof -
  have "ioapic_addr (init_coms hw 4 0 s) = ioapic_addr s"
    by (rule char_rest_fields(5) [OF serial_rest_fields(4) [OF init_coms_same]])
  then show ?thesis using enable_pins_ok [of "init_coms hw 4 0 s" 24 0] assms by (simp add: serial_init_def)
qed

lemma serial_init_rest: "serial_init hw s = Inr s' \<Longrightarrow> serial_rest s' = serial_rest s"
  by (auto simp: serial_init_def deref_def init_coms_same dest!: enable_pins_same split: if_splits)

lemma creat_cdev_mem_only [mem_only_intros]: "creat_cdev major r w i s = Inr s' \<Longrightarrow> mem_only s s'"
  by (auto simp: creat_cdev_def Let_def deref_def bindE_Inr_iff dest!: kmalloc_mem_only bst_add_mem_only split: if_splits
      intro: mem_only_trans)

text \<open>\<open>char_init\<close> as a whole leaves the rest of the kernel's variables alone.\<close>

lemma char_init_rest:
  assumes "char_init hw s = Inr s'"
  shows "char_rest s' = char_rest s"
proof -
  obtain s1 s2 where i: "devmem_init s = Inr s1" "tty_init s1 = Inr s2" "serial_init hw s2 = Inr s'"
    using assms by (auto simp: char_init_def bindE_Inr_iff)
  obtain u where u: "mem_only s u" "s1 = u\<lparr>mem_ptr := MEM_DEV_LO, port_ptr := PORT_DEV_LO\<rparr>"
    using i(1) by (auto simp: devmem_init_def bindE_Inr_iff dest: creat_cdev_mem_only)
  have "char_rest s1 = char_rest s" using char_rest_mem_only [OF u(1)] by (simp add: u(2) char_rest_def)
  moreover obtain v where c: "creat_cdev MAJOR_TTY 0 (fn_tty_write s1) 0 s1 = Inr v"
    using i(2) by (auto simp: tty_init_def bindE_Inr_iff)
  obtain p w where w: "palloc ZONE_KERNEL 4096 (v\<lparr>curr_tty := 1\<rparr>) = (p, w)" by fastforce
  have s2: "s2 = w\<lparr>ttys := (ttys w)[1 := p], fores := replicate 255 0x07070707, backs := replicate 255 0\<rparr>"
    using i(2) c w by (simp add: tty_init_def)
  have "char_rest s2 = char_rest s1"
    using char_rest_mem_only [OF creat_cdev_mem_only [OF c]] char_rest_mem_only [OF palloc_mem_only [OF w]] by (simp add: s2 char_rest_def)
  ultimately show ?thesis using serial_rest_fields(4) [OF serial_init_rest [OF i(3)]] by simp
qed

text \<open>
  The state before \<open>char_init\<close>: an intact heap with five pages left, and an empty registry whose
  cell is apart from the heap.
\<close>

definition char_ready :: "'a char_sys_scheme \<Rightarrow> addr set \<Rightarrow> bool" where
  "char_ready s A \<longleftrightarrow> root_cell (mem s) (chardev_root s) Leaf A
     \<and> mapped (biosdata s) \<and> mapped (ioapic_addr s) \<and> mapped (ioapic_addr s + 0x10) \<and> 1 < length (ttys s)
     \<and> fn_devmem_read s \<noteq> 0 \<and> fn_devmem_write s \<noteq> 0 \<and> fn_tty_write s \<noteq> 0 \<and> fn_devmem_write s \<noteq> fn_tty_write s"

definition char_boot :: "'a char_sys_scheme \<Rightarrow> addr set \<Rightarrow> bool" where
  "char_boot s A \<longleftrightarrow> heap_inv s A \<and> 5 \<le> pages_left s \<and> char_ready s A"

abbreviation char_cells :: "'a char_sys_scheme \<Rightarrow> addr set" where
  "char_cells s \<equiv> block (chardev_root s) 4"

text \<open>The drivers that are registered, with their entry points.\<close>

definition drivers_at :: "'a char_sys_scheme \<Rightarrow> memory \<Rightarrow> bool" where
  "drivers_at s m \<longleftrightarrow> (\<exists>d1 d2. cdev_at m d1 (fn_devmem_read s) (fn_devmem_write s) 0
     \<and> cdev_at m d2 0 (fn_tty_write s) 0 \<and> finds_two (chardev_root s) d1 d2 m)"

lemma drivers_at_rests:
  assumes "cdev_at m d1 (fn_devmem_read s) (fn_devmem_write s) 0" and "cdev_at m d2 0 (fn_tty_write s) 0"
    and "rests_on (finds_two (chardev_root s) d1 d2) F m"
  shows "rests_on (drivers_at s) (block d1 16 \<union> block d2 16 \<union> F) m"
proof (rule rests_onI)
  fix m' assume on: "same_on (block d1 16 \<union> block d2 16 \<union> F) m m'"
  have "cdev_at m' d1 (fn_devmem_read s) (fn_devmem_write s) 0" "cdev_at m' d2 0 (fn_tty_write s) 0"
    by (rule cdev_at_frame [OF assms(1) same_on_mono [OF on]] cdev_at_frame [OF assms(2) same_on_mono [OF on]], blast)+
  moreover have "finds_two (chardev_root s) d1 d2 m'" by (rule rests_onD [OF assms(3) same_on_mono [OF on]]) blast
  ultimately show "drivers_at s m'" unfolding drivers_at_def by blast
qed

lemma bst_in_updates [simp]:
  "bst_in c (s\<lparr>mem_ptr := a, port_ptr := b\<rparr>) t A = bst_in c s t A" "bst_in c (s\<lparr>curr_tty := n\<rparr>) t A = bst_in c s t A"
  by (simp_all add: bst_in_def heap_unfold)

lemma pages_left_updates [simp]:
  "pages_left (s\<lparr>mem_ptr := a, port_ptr := b\<rparr>) = pages_left s" "pages_left (s\<lparr>curr_tty := n\<rparr>) = pages_left s"
  by (simp_all add: pages_left_def)

lemma drivers_created:
  assumes "char_boot s A"
  shows "\<exists>s1 s2 A' F. devmem_init s = Inr s1 \<and> creat_cdev MAJOR_TTY 0 (fn_tty_write s1) 0 s1 = Inr s2 \<and> char_rest s2 = char_rest s
    \<and> ttys s2 = ttys s \<and> heap_inv s2 A' \<and> A' \<subseteq> A \<and> pages_left s \<le> pages_left s2 + 4
    \<and> same_off (A \<union> char_cells s) (mem s) (mem s2) \<and> F \<subseteq> A \<union> char_cells s \<and> F \<inter> A' = {} \<and> rests_on (drivers_at s) F (mem s2)"
proof -
  let ?c = "chardev_root s"
  have left: "5 \<le> pages_left s" and in0: "bst_in ?c s Leaf A" using assms by (simp_all add: char_boot_def char_ready_def bst_in_def tnodes_ok_def)
  have k: "scast (1 :: u16) = (1 :: u32)" "scast (2 :: u16) = (2 :: u32)" by simp_all
  obtain d1 p1 s1 A1 where r1: "creat_cdev MAJOR_MEM (fn_devmem_read s) (fn_devmem_write s) 0 s = Inr s1" "mem_only s s1"
    "bst_in ?c s1 (Node p1 Leaf 1 d1 Leaf) A1" "A1 \<subseteq> A" "cdev_at (mem s1) d1 (fn_devmem_read s) (fn_devmem_write s) 0"
    "block d1 16 \<inter> (A1 \<union> tree_area (Node p1 Leaf 1 d1 Leaf) \<union> block ?c 4) = {}" "pages_left s \<le> 2 + pages_left s1"
    "block d1 16 \<subseteq> A" "block p1 24 \<subseteq> A" "same_off (A \<union> block ?c 4) (mem s) (mem s1)"
    using creat_cdev_ok [OF in0, of MAJOR_MEM "fn_devmem_read s" "fn_devmem_write s" 0] left by (auto simp: k)
  obtain m1 where m1: "s1 = s\<lparr>mem := m1\<rparr>" using mem_onlyE [OF r1(2)] .
  define t1 where "t1 = s1\<lparr>mem_ptr := MEM_DEV_LO, port_ptr := PORT_DEV_LO\<rparr>"
  have i1: "devmem_init s = Inr t1" using r1(1) by (simp add: devmem_init_def t1_def)
  have f1: "chardev_root t1 = ?c" "fn_tty_write t1 = fn_tty_write s" "mem t1 = m1" by (simp_all add: t1_def m1)
  have in1: "bst_in (chardev_root t1) t1 (Node p1 Leaf 1 d1 Leaf) A1" using r1(3) by (simp add: t1_def m1)
  have left1: "3 \<le> pages_left t1" "pages_left t1 = pages_left s1" using r1(7) left by (simp_all add: t1_def)
  obtain d2 p2 s2 A2 where r2: "creat_cdev MAJOR_TTY 0 (fn_tty_write t1) 0 t1 = Inr s2" "mem_only t1 s2"
    "bst_in ?c s2 (Node p1 Leaf 1 d1 (Node p2 Leaf 2 d2 Leaf)) A2" "A2 \<subseteq> A1" "cdev_at (mem s2) d2 0 (fn_tty_write s) 0"
    "block d2 16 \<inter> (A2 \<union> tree_area (Node p1 Leaf 1 d1 (Node p2 Leaf 2 d2 Leaf)) \<union> block ?c 4) = {}"
    "pages_left t1 \<le> 2 + pages_left s2" "same_off (A1 \<union> block ?c 4 \<union> tree_area (Node p1 Leaf 1 d1 Leaf)) m1 (mem s2)"
    "block d2 16 \<subseteq> A1" "tree_area (Node p1 Leaf 1 d1 (Node p2 Leaf 2 d2 Leaf)) \<subseteq> tree_area (Node p1 Leaf 1 d1 Leaf) \<union> A1"
    using creat_cdev_ok [OF in1, of MAJOR_TTY 0 "fn_tty_write t1" 0] left1(1) unfolding f1 by (auto simp: k)
  let ?t = "Node p1 Leaf 1 d1 (Node p2 Leaf 2 d2 Leaf)" and ?t1 = "Node p1 Leaf 1 d1 Leaf"
  let ?F = "block d1 16 \<union> block d2 16 \<union> (block ?c 4 \<union> tree_area ?t)"
  have m1': "mem s1 = m1" by (simp add: m1)
  have "same_on (block d1 16) m1 (mem s2)" by (rule same_off_on [OF r2(8)]) (use r1(6) in blast)
  then have "cdev_at (mem s2) d1 (fn_devmem_read s) (fn_devmem_write s) 0" by (rule cdev_at_frame [OF r1(5) [unfolded m1']])
  then have "rests_on (drivers_at s) ?F (mem s2)" by (rule drivers_at_rests [OF _ r2(5) bst_in_rests_two [OF r2(3)]])
  moreover have t1A: "tree_area ?t1 \<subseteq> A" using r1(9) by simp
  moreover have "same_off (A \<union> block ?c 4) (mem s) (mem s2)"
    by (rule same_off_trans [OF _ same_off_mono [OF r2(8)]]) (use r1(4,10) t1A m1 in auto)
  moreover have "?F \<subseteq> A \<union> block ?c 4" using r1(4,8) r2(9,10) t1A by blast
  moreover have "?F \<inter> A2 = {}" using r1(6) r2(3,4,6) unfolding bst_in_def root_cell_def by blast
  moreover have "char_rest s2 = char_rest s" "ttys s2 = ttys s"
    using char_rest_mem_only [OF r2(2)] r2(2) by (auto simp: t1_def m1 char_rest_def elim!: mem_onlyE)
  moreover have "heap_inv s2 A2" "A2 \<subseteq> A" "pages_left s \<le> pages_left s2 + 4" using r2(3,4,7) r1(4,7) left1(2) by (auto simp: bst_in_def)
  ultimately show ?thesis using i1 r2(1) by (intro exI [of _ t1] exI [of _ s2] exI [of _ A2] exI [of _ ?F]) simp
qed

lemma char_init_ok:
  assumes "char_boot s A"
  shows "\<exists>s' A' F. char_init hw s = Inr s' \<and> heap_inv s' A' \<and> A' \<subseteq> A \<and> pages_left s \<le> pages_left s' + 5
    \<and> same_off (A \<union> char_cells s) (mem s) (mem s') \<and> F \<subseteq> A \<union> char_cells s \<and> F \<inter> A' = {} \<and> rests_on (drivers_at s) F (mem s')
    \<and> curr_tty s' = 1 \<and> ttys s' ! 1 \<noteq> 0"
proof -
  obtain s1 s2 A2 F where d: "devmem_init s = Inr s1" "creat_cdev MAJOR_TTY 0 (fn_tty_write s1) 0 s1 = Inr s2" "char_rest s2 = char_rest s"
    "ttys s2 = ttys s" "heap_inv s2 A2" "A2 \<subseteq> A" "pages_left s \<le> pages_left s2 + 4" "same_off (A \<union> char_cells s) (mem s) (mem s2)"
    "F \<subseteq> A \<union> char_cells s" "F \<inter> A2 = {}" "rests_on (drivers_at s) F (mem s2)"
    using drivers_created [OF assms] by blast
  define t2 where "t2 = s2\<lparr>curr_tty := 1\<rparr>"
  have h2: "heap_inv t2 A2" "0 < pages_left t2" using d(5,7) assms by (simp_all add: t2_def heap_unfold char_boot_def)
  obtain q t3 A3 where p: "palloc ZONE_KERNEL 4096 t2 = (q, t3)" "mem_only t2 t3" "heap_inv t3 A3" "A3 \<subseteq> A2 - block q 4096"
      "mapped q" "same_off A2 (mem t2) (mem t3)" "pages_left t2 = Suc (pages_left t3)"
    using heap_inv_palloc [OF h2] by blast
  define t4 where "t4 = t3\<lparr>ttys := (ttys t3)[1 := q], fores := replicate 255 0x07070707, backs := replicate 255 0\<rparr>"
  have i2: "tty_init s1 = Inr t4" using d(2) p(1) by (simp add: tty_init_def t2_def [symmetric] t4_def)
  have t3: "char_rest t3 = char_rest s" "ttys t3 = ttys s" "curr_tty t3 = 1"
    using char_rest_mem_only [OF p(2)] p(2) d(3,4) by (auto simp: t2_def char_rest_def elim!: mem_onlyE)
  then have t4: "char_rest t4 = char_rest s" "curr_tty t4 = 1" "mem t4 = mem t3" "ttys t4 ! 1 = q"
    using assms by (simp_all add: t4_def char_rest_def char_boot_def char_ready_def)
  have b: "mapped (biosdata t4)" "mapped (ioapic_addr t4)" "mapped (ioapic_addr t4 + 0x10)"
    using assms char_rest_fields [OF t4(1)] by (simp_all add: char_boot_def char_ready_def)
  obtain s' where e: "serial_init hw t4 = Inr s'" using serial_init_ok [OF b] by blast
  note se = serial_rest_fields [OF serial_init_rest [OF e]]
  have m: "mem s' = mem t3" "mem t2 = mem s2" using se t4 by (simp_all add: t2_def)
  have "char_rest s' = char_rest t3" using se(4) t4(1) t3(1) by simp
  note hp = char_rest_heap [OF this m(1)]
  have "same_on F (mem s2) (mem t3)" by (rule same_off_on [OF p(6) [unfolded m(2)]]) (use d(10) in blast)
  then have "rests_on (drivers_at s) F (mem s')" unfolding m by (rule rests_on_frame [OF d(11)])
  moreover have "same_off (A \<union> char_cells s) (mem s) (mem s')"
    unfolding m by (rule same_off_trans [OF d(8) same_off_mono [OF p(6) [unfolded m(2)]]]) (use d(6) in blast)
  moreover have "char_init hw s = Inr s'" using d(1) i2 e by (simp add: char_init_def)
  moreover have "pages_left s \<le> pages_left s' + 5" using d(7) p(7) hp(2) by (simp add: t2_def)
  moreover have "q \<noteq> 0" using p(5) by auto
  ultimately show ?thesis using d(6,9,10) p(3,4) hp se t4
    by (intro exI [of _ s'] exI [of _ A3] exI [of _ F]) auto
qed

interpretation char_service: service "char_init hw" mem heap_inv pages_left char_ready char_cells 5 drivers_at for hw
proof unfold_locales
  fix s :: "'a char_sys_scheme" and A
  assume "heap_inv s A" "5 \<le> pages_left s" "char_ready s A" "char_cells s \<inter> A = {}"
  then have "char_boot s A" by (simp add: char_boot_def)
  then show "\<exists>s' A' F. char_init hw s = Inr s' \<and> heap_inv s' A' \<and> A' \<subseteq> A \<and> pages_left s \<le> pages_left s' + 5
      \<and> same_off (A \<union> char_cells s) (mem s) (mem s') \<and> F \<subseteq> A \<union> char_cells s \<and> F \<inter> A' = {} \<and> rests_on (drivers_at s) F (mem s')"
    using char_init_ok by blast
qed

text \<open>
  C11: \<open>char_init\<close> on a booted machine succeeds, and the character devices then behave as registered:
  major 1 reads and writes through the memory driver, major 2 writes to the console and cannot be
  read, every other major number, and every \<open>ioctl\<close>, is refused with \<open>-ENODEV\<close>, and console 1 has
  a page to save its screen in.
\<close>

theorem char_init_devices:
  assumes "char_boot s A"
  shows "\<exists>s'. char_init hw s = Inr s'
    \<and> cread hw MAJOR_MEM minor s' = devmem_read hw minor s'
    \<and> cwrite hw MAJOR_MEM minor data s' = bindE (devmem_write minor data s') (\<lambda>(r, s). Inr (Some r, s))
    \<and> cwrite hw MAJOR_TTY minor data s' = tty_write hw minor data s'
    \<and> cread hw MAJOR_TTY minor s' = Inr (- ENODEV, s')
    \<and> (\<forall>major. major \<noteq> MAJOR_MEM \<and> major \<noteq> MAJOR_TTY \<longrightarrow>
          cread hw major minor s' = Inr (- ENODEV, s') \<and> cwrite hw major minor data s' = Inr (Some (- ENODEV), s'))
    \<and> (\<forall>major. cioctl major minor cmd s' = Inr (- ENODEV, s'))
    \<and> curr_tty s' = 1 \<and> ttys s' ! 1 \<noteq> 0"
proof -
  obtain s' A' F where i: "char_init hw s = Inr s'" "rests_on (drivers_at s) F (mem s')" "curr_tty s' = 1" "ttys s' ! 1 \<noteq> 0"
    using char_init_ok [OF assms, of hw] by blast
  note r = char_rest_fields [OF char_init_rest [OF i(1)]]
  obtain d1 d2 where d: "cdev_at (mem s') d1 (fn_devmem_read s') (fn_devmem_write s') 0" "cdev_at (mem s') d2 0 (fn_tty_write s') 0"
      "bst_search (mem s') (load32 (mem s') (chardev_root s')) k = Inr (if k = 1 then d1 else if k = 2 then d2 else 0)" for k
    using rests_on_now [OF i(2)] r by (auto simp: drivers_at_def finds_two_def)
  have nz: "d1 \<noteq> 0" "d2 \<noteq> 0" "mapped d1" "mapped d2" using d(1,2) by (auto simp: cdev_at_def)
  have f: "fn_devmem_read s' \<noteq> 0" "fn_devmem_write s' \<noteq> 0" "fn_tty_write s' \<noteq> 0" "fn_devmem_write s' \<noteq> fn_tty_write s'"
    using assms r by (simp_all add: char_boot_def char_ready_def)
  have inj: "scast major = (1 :: u32) \<longleftrightarrow> major = 1" "scast major = (2 :: u32) \<longleftrightarrow> major = 2" for major :: u16
    using scast_inj [of major 1] scast_inj [of major 2] by simp_all
  have "cread hw MAJOR_MEM minor s' = devmem_read hw minor s'" "cwrite hw MAJOR_TTY minor data s' = tty_write hw minor data s'"
    "cwrite hw MAJOR_MEM minor data s' = bindE (devmem_write minor data s') (\<lambda>(r, s). Inr (Some r, s))"
    "cread hw MAJOR_TTY minor s' = Inr (- ENODEV, s')"
    using d(1,2) nz f by (simp_all add: cread_def cwrite_def d(3) cdev_at_def call_cdev_read_def call_cdev_write_def)
  moreover have "cread hw major minor s' = Inr (- ENODEV, s') \<and> cwrite hw major minor data s' = Inr (Some (- ENODEV), s')"
    if "major \<noteq> MAJOR_MEM \<and> major \<noteq> MAJOR_TTY" for major
    using that by (simp add: cread_def cwrite_def d(3) inj)
  moreover have "cioctl major minor cmd s' = Inr (- ENODEV, s')" for major
    using d(1,2) nz by (simp add: cioctl_def d(3) cdev_at_def)
  ultimately show ?thesis using i(1,3,4) by (intro exI [of _ s']) blast
qed

definition char_state :: char_sys where
  "char_state = sched_sys.extend (boot_sched\<lparr>ioapic_addr := 0xbec00000\<rparr>)
     \<lparr>chardev_root = 0xc0000800, mem_ptr = 0, port_ptr = 0, serial_ports = replicate 4 0, biosdata = 0xc0000400,
      fn_devmem_read = 0xc0101000, fn_devmem_write = 0xc0101100, fn_tty_write = 0xc0101200\<rparr>"

lemma char_state_boot:
  obtains s A where "char_boot (on_heap s char_state) A"
proof -
  obtain s :: slab_sys and A where s: "heap_inv s A" "16 \<le> pages_left s" "block 0xc0000000 0x1000 \<inter> A = {}" using boot_low by blast
  let ?m = "store32 (mem s) 0xc0000800 0"
  have sub: "block 0xc0000800 4 \<subseteq> block 0xc0000000 0x1000" by (rule block_mono) simp_all
  then have off: "same_off (block 0xc0000000 0x1000) (mem s) ?m" by (intro same_off_store32) simp_all
  have "root_cell ?m 0xc0000800 Leaf A" using s(3) sub by (auto simp: root_cell_def mapped_def)
  then have "char_boot (on_heap (s\<lparr>mem := ?m\<rparr>) char_state) A"
    using s(2) boot_low_mem [OF s(1,3) off] unfolding char_boot_def on_heap_inv
    by (simp_all add: char_ready_def on_heap_def char_state_def sched_sys.defs boot_sched_def pci_sys.defs
        two_devices_def cpu_sys.defs cpu_state_def acpi_sys.defs apic_state_def tty.defs fresh_tty_def mapped_def)
  then show thesis by (rule that)
qed

theorem char_init_devices_witness:
  "\<exists>(s :: char_sys) s'. char_init zero_hw s = Inr s' \<and> cwrite zero_hw MAJOR_TTY 1 0x41 s' = tty_write zero_hw 1 0x41 s'
    \<and> cread zero_hw MAJOR_MEM 1 s' = devmem_read zero_hw 1 s' \<and> cread zero_hw 7 1 s' = Inr (- ENODEV, s')"
proof -
  obtain s A where "char_boot (on_heap s char_state) A" by (rule char_state_boot)
  from char_init_devices [OF this, of zero_hw 1 "0x41" 0] show ?thesis by fastforce
qed

end
