(* ===== verification/Fs_Vfs_Mount.thy ===== *)
theory Fs_Vfs_Mount
  imports Fs_Vfs Drivers_Char_Reg
begin

text \<open>
  The mount table and the driver registry that \<open>fs_init\<close> builds, the mount point a path resolves
  to, and what the file system calls answer while no file is open.
\<close>

section \<open>Longest mount point\<close>

text \<open>A mount point applies to a path when its own path, of positive length, starts it.\<close>

definition mount_applies :: "memory \<Rightarrow> addr \<Rightarrow> addr \<Rightarrow> bool" where
  "mount_applies m path mp \<longleftrightarrow> 0 < sint (mount_path_len m mp)
     \<and> bytes_at m (mount_path m mp) (unat (mount_path_len m mp)) = bytes_at m path (unat (mount_path_len m mp))"

text \<open>The two variables of the search, carried over the mount points in turn.\<close>

primrec best_mount :: "memory \<Rightarrow> addr \<Rightarrow> addr list \<Rightarrow> int \<times> addr \<Rightarrow> int \<times> addr" where
  "best_mount m path [] b = b"
| "best_mount m path (mp # mps) b =
     best_mount m path mps (if mount_applies m path mp \<and> fst b < sint (mount_path_len m mp)
       then (sint (mount_path_len m mp), mp) else b)"

lemma bytes_at_4: "bytes_at m p 4 = [m p, m (p + 1), m (p + 2), m (p + 3)]"
  by (simp add: eval_nat_numeral add.assoc)

lemma iter_mounts:
  assumes "\<forall>x \<in> set xs. mapped x \<and> mapped (node_data (mem s) x)" and "0 \<le> most_long s"
  shows "iter_list get_fs_type_callback xs s
    = (let b = best_mount (mem s) (path_swap s) (map (node_data (mem s)) xs) (most_long s, mp_swap s)
       in Inr (s\<lparr>most_long := fst b, mp_swap := snd b\<rparr>))"
  using assms
proof (induction xs arbitrary: s)
  case (Cons x xs)
  let ?mp = "node_data (mem s) x" and ?len = "sint (mount_path_len (mem s) (node_data (mem s) x))"
  let ?s = "if mount_applies (mem s) (path_swap s) ?mp \<and> most_long s < ?len then s\<lparr>most_long := ?len, mp_swap := ?mp\<rparr> else s"
  have "get_fs_type_callback x s = Inr (0, ?s)"
    using Cons.prems by (auto simp: get_fs_type_callback_def Let_def memcmp_iff mount_applies_def)
  moreover have "iter_list get_fs_type_callback xs ?s
    = (let b = best_mount (mem ?s) (path_swap ?s) (map (node_data (mem ?s)) xs) (most_long ?s, mp_swap ?s)
       in Inr (?s\<lparr>most_long := fst b, mp_swap := snd b\<rparr>))"
    by (rule Cons.IH) (use Cons.prems in auto)
  ultimately show ?case by (auto simp: Let_def)
qed (simp add: Let_def)

lemma mount_search_run:
  assumes "list_at (mem s) (mount_point_head s) xs" and "\<forall>x \<in> set xs. mapped (node_data (mem s) x)"
    and "mp_swap s = 0" and "most_long s = 0"
  defines "b \<equiv> best_mount (mem s) (path_swap s) (map (node_data (mem s)) xs) (0, 0)"
  shows "list_iter (load32 (mem s) (mount_point_head s)) get_fs_type_callback s = Inr (s\<lparr>most_long := fst b, mp_swap := snd b\<rparr>)"
proof -
  have mp: "\<forall>x \<in> set xs. mapped x \<and> mapped (node_data (mem s) x)"
    using assms(1,2) by (auto simp: list_at_def dll_def nodes_ok_def)
  have keep: "get_fs_type_callback u t = Inr (0, t') \<Longrightarrow> mem t' = mem t" for u and t t' :: "'a vfs_sys_scheme"
    by (auto simp: get_fs_type_callback_def Let_def deref_def split: if_splits)
  have "list_iter (load32 (mem s) (mount_point_head s)) get_fs_type_callback s = iter_list get_fs_type_callback xs s"
    using assms(1) by (intro list_iter_spec) (auto simp: list_at_def dest!: keep)
  also have "\<dots> = Inr (s\<lparr>most_long := fst b, mp_swap := snd b\<rparr>)"
    using iter_mounts [OF mp] assms(3,4) by (simp add: Let_def b_def)
  finally show ?thesis .
qed

lemma best_mount_correct:
  assumes "0 \<le> fst b" and "snd b \<noteq> 0 \<longrightarrow> fst b = sint (mount_path_len m (snd b)) \<and> mount_applies m path (snd b)"
    and "snd b = 0 \<longrightarrow> fst b = 0" and "0 \<notin> set mps"
  shows "case best_mount m path mps b of (l, p) \<Rightarrow>
    (p = 0 \<longrightarrow> l = 0 \<and> snd b = 0 \<and> (\<forall>q \<in> set mps. \<not> mount_applies m path q))
    \<and> (p \<noteq> 0 \<longrightarrow> (p \<in> set mps \<or> p = snd b) \<and> mount_applies m path p \<and> l = sint (mount_path_len m p) \<and> fst b \<le> l
        \<and> (\<forall>q \<in> set mps. mount_applies m path q \<longrightarrow> sint (mount_path_len m q) \<le> l))"
  using assms
proof (induction mps arbitrary: b)
  case Nil
  then show ?case by (auto split: prod.split)
next
  case (Cons mp mps)
  let ?b = "if mount_applies m path mp \<and> fst b < sint (mount_path_len m mp) then (sint (mount_path_len m mp), mp) else b"
  have "case best_mount m path mps ?b of (l, p) \<Rightarrow>
    (p = 0 \<longrightarrow> l = 0 \<and> snd ?b = 0 \<and> (\<forall>q \<in> set mps. \<not> mount_applies m path q))
    \<and> (p \<noteq> 0 \<longrightarrow> (p \<in> set mps \<or> p = snd ?b) \<and> mount_applies m path p \<and> l = sint (mount_path_len m p) \<and> fst ?b \<le> l
        \<and> (\<forall>q \<in> set mps. mount_applies m path q \<longrightarrow> sint (mount_path_len m q) \<le> l))"
    by (rule Cons.IH) (use Cons.prems in auto)
  then show ?case using Cons.prems by (auto simp: mount_applies_def split: prod.splits if_splits)
qed

text \<open>
  C16: the search over a well-formed mount table ends and finds the longest mount point whose path
  starts the searched path, or none exactly when no mount point does; it changes no memory.
\<close>

theorem mount_search_longest:
  assumes "list_at (mem s) (mount_point_head s) xs" and "\<forall>x \<in> set xs. mapped (node_data (mem s) x)"
    and "mp_swap s = 0" and "most_long s = 0"
  shows "\<exists>s'. list_iter (load32 (mem s) (mount_point_head s)) get_fs_type_callback s = Inr s' \<and> mem s' = mem s
    \<and> (if \<exists>x \<in> set xs. mount_applies (mem s) (path_swap s) (node_data (mem s) x)
       then (\<exists>x \<in> set xs. mp_swap s' = node_data (mem s) x) \<and> mount_applies (mem s) (path_swap s) (mp_swap s')
         \<and> (\<forall>x \<in> set xs. mount_applies (mem s) (path_swap s) (node_data (mem s) x) \<longrightarrow>
             sint (mount_path_len (mem s) (node_data (mem s) x)) \<le> sint (mount_path_len (mem s) (mp_swap s')))
       else mp_swap s' = 0)"
proof -
  let ?b = "best_mount (mem s) (path_swap s) (map (node_data (mem s)) xs) (0, 0)"
  note r = mount_search_run [OF assms]
  have "0 \<notin> set (map (node_data (mem s)) xs)" using assms(2) by auto
  then show ?thesis
    using best_mount_correct [of "(0, 0)" "mem s" "path_swap s" "map (node_data (mem s)) xs"] r
    by (intro exI [of _ "s\<lparr>most_long := fst ?b, mp_swap := snd ?b\<rparr>"]) (auto split: prod.splits)
qed

text \<open>The two mount points of the kernel and the path \<open>/device\<close>, in the page below the heap.\<close>

definition mount_image :: "memory \<Rightarrow> memory" where
  "mount_image m =
     store32 (store32 (store32 (store32 (store32 (store32 (store32 (store32 (store32 (store32 (store32 (store32 (store32
       ((\<lambda>a. if 0xc0000c00 \<le> a \<and> a < 0xc0000e00 then 0 else m a)(0xc0000b00 := 0x2f, 0xc0000b10 := 0x2f, 0xc0000b11 := 0x64, 0xc0000b12 := 0x65, 0xc0000b13 := 0x76,
         0xc0000b20 := 0x2f, 0xc0000b21 := 0x64, 0xc0000b22 := 0x65, 0xc0000b23 := 0x76, 0xc0000b24 := 0x69,
         0xc0000b25 := 0x63, 0xc0000b26 := 0x65, 0xc0000b27 := 0))
       0xc0000800 0xc0000a00) 0xc0000a00 0xc0000a10) 0xc0000a04 0xc0000a10) 0xc0000a08 0xc0000a40)
       0xc0000a10 0xc0000a00) 0xc0000a14 0xc0000a00) 0xc0000a18 0xc0000a80)
       0xc0000a40 0xc0000b00) 0xc0000a44 1) 0xc0000a48 1) 0xc0000a80 0xc0000b10) 0xc0000a84 4) 0xc0000a88 2"

definition two_mounts :: vfs_sys where
  "two_mounts = char_sys.extend (char_state\<lparr>mem := mount_image (\<lambda>_. 0)\<rparr>)
     \<lparr>mount_point_head = 0xc0000800, fs_driver_head = 0xc0000804, fd_head = 0xc0000808, mount_point_root = 0xc0000a40,
      mount_point_dev = 0xc0000a80, minix_fs_drv = 0xc0000c00, devfs_fs_drv = 0xc0000d00, path_swap = 0xc0000b20,
      mp_swap = 0, most_long = 0\<rparr>"

lemma mount_image_simps [simp]:
  "load32 (mount_image m) 0xc0000800 = 0xc0000a00" "load32 (mount_image m) 0xc0000a08 = 0xc0000a40"
  "load32 (mount_image m) 0xc0000a18 = 0xc0000a80" "load32 (mount_image m) 0xc0000a00 = 0xc0000a10"
  "load32 (mount_image m) 0xc0000a04 = 0xc0000a10" "load32 (mount_image m) 0xc0000a10 = 0xc0000a00"
  "load32 (mount_image m) 0xc0000a14 = 0xc0000a00" "load32 (mount_image m) 0xc0000a40 = 0xc0000b00"
  "load32 (mount_image m) 0xc0000a44 = 1" "load32 (mount_image m) 0xc0000a80 = 0xc0000b10" "load32 (mount_image m) 0xc0000a84 = 4"
  "load32 (mount_image m) 0xc0000a48 = 1" "load32 (mount_image m) 0xc0000a88 = 2"
  by (simp_all add: mount_image_def load32_store32_apart apart_def)

lemma mount_image_drivers [simp]:
  "load32 (mount_image m) 0xc0000c1c = 0" "load32 (mount_image m) 0xc0000c34 = 0" "load32 (mount_image m) 0xc0000c3c = 0"
  "load32 (mount_image m) 0xc0000c44 = 0" "load32 (mount_image m) 0xc0000c54 = 0" "load32 (mount_image m) 0xc0000d1c = 0"
  "load32 (mount_image m) 0xc0000d34 = 0" "load32 (mount_image m) 0xc0000d3c = 0" "load32 (mount_image m) 0xc0000d44 = 0"
  "load32 (mount_image m) 0xc0000d54 = 0"
  by (simp_all add: mount_image_def load32_store32_apart apart_def, simp_all add: load32_def)

lemma mount_image_bytes [simp]:
  "mount_image m 0xc0000b00 = 0x2f" "mount_image m 0xc0000b10 = 0x2f" "mount_image m 0xc0000b11 = 0x64"
  "mount_image m 0xc0000b12 = 0x65" "mount_image m 0xc0000b13 = 0x76" "mount_image m 0xc0000b20 = 0x2f"
  "mount_image m 0xc0000b21 = 0x64" "mount_image m 0xc0000b22 = 0x65" "mount_image m 0xc0000b23 = 0x76"
  "mount_image m 0xc0000b24 = 0x69" "mount_image m 0xc0000b25 = 0x63" "mount_image m 0xc0000b26 = 0x65" "mount_image m 0xc0000b27 = 0"
  by (simp_all add: mount_image_def store32_other)

lemma mount_image_low: "same_off (block 0xc0000000 0x1000) m (mount_image m)"
  unfolding mount_image_def by (intro same_off_store32) (auto simp: same_off_def mem_block_iff word_le_nat_alt word_less_nat_alt)

lemma mount_image_list: "list_at (mount_image m) 0xc0000800 [0xc0000a00, 0xc0000a10]"
  by (simp add: list_at_def dll_def nodes_ok_def sep_def mapped_def)

lemma two_mounts_simps [simp]:
  "mem two_mounts = mount_image (\<lambda>_. 0)" "mount_point_head two_mounts = 0xc0000800" "path_swap two_mounts = 0xc0000b20"
  "mp_swap two_mounts = 0" "most_long two_mounts = 0"
  by (simp_all add: two_mounts_def char_sys.defs)

lemma two_mounts_ok: "list_at (mem two_mounts) (mount_point_head two_mounts) [0xc0000a00, 0xc0000a10]"
  by (simp add: mount_image_list)

theorem mount_search_longest_witness:
  "\<exists>s'. list_iter 0xc0000a00 get_fs_type_callback two_mounts = Inr s' \<and> mp_swap s' = 0xc0000a80"
proof -
  have a: "mount_applies (mount_image m) 0xc0000b20 0xc0000a40" "mount_applies (mount_image m) 0xc0000b20 0xc0000a80" for m
    by (simp_all add: mount_applies_def bytes_at_4)
  show ?thesis
    using mount_search_longest [OF two_mounts_ok] a by (fastforce simp: mapped_def)
qed

section \<open>Start of the file system\<close>

text \<open>
  The state before \<open>fs_init\<close>: an intact heap with four pages left, and the two cells that it fills
  null, apart from each other and from the heap.
\<close>

definition fs_ready :: "'a vfs_sys_scheme \<Rightarrow> addr set \<Rightarrow> bool" where
  "fs_ready s A \<longleftrightarrow> list_at (mem s) (mount_point_head s) [] \<and> root_cell (mem s) (fs_driver_head s) Leaf A
     \<and> block (mount_point_head s) 4 \<inter> block (fs_driver_head s) 4 = {}"

text \<open>What \<open>fs_init\<close> writes besides the heap.\<close>

definition fs_cells :: "'a vfs_sys_scheme \<Rightarrow> addr set" where
  "fs_cells s = block (mount_point_head s) 4 \<union> block (fs_driver_head s) 4"

definition fs_boot :: "'a vfs_sys_scheme \<Rightarrow> addr set \<Rightarrow> bool" where
  "fs_boot s A \<longleftrightarrow> heap_inv s A \<and> 4 \<le> pages_left s \<and> fs_ready s A \<and> fs_cells s \<inter> A = {}"

text \<open>The tables that \<open>fs_init\<close> builds: the two mount points in order, and the two drivers.\<close>

definition mounts_at :: "'a vfs_sys_scheme \<Rightarrow> addr \<Rightarrow> addr \<Rightarrow> memory \<Rightarrow> bool" where
  "mounts_at s a b m \<longleftrightarrow> list_at m (mount_point_head s) [a, b]
     \<and> node_data m a = mount_point_root s \<and> node_data m b = mount_point_dev s"

definition fs_tables :: "'a vfs_sys_scheme \<Rightarrow> memory \<Rightarrow> bool" where
  "fs_tables s m \<longleftrightarrow> (\<exists>a b. mounts_at s a b m) \<and> finds_two (fs_driver_head s) (minix_fs_drv s) (devfs_fs_drv s) m"

lemma mounts_at_rests:
  assumes "mounts_at s a b m"
  shows "rests_on (\<lambda>m. \<exists>a b. mounts_at s a b m) (list_area (mount_point_head s) [a, b]) m"
proof (rule rests_onI)
  fix m' assume on: "same_on (list_area (mount_point_head s) [a, b]) m m'"
  have l: "list_at m (mount_point_head s) [a, b]" using assms by (simp add: mounts_at_def)
  have "mounts_at s a b m'"
    using assms list_at_same_on [OF l on] node_data_same_on [OF l on] by (simp add: mounts_at_def)
  then show "\<exists>a b. mounts_at s a b m'" by blast
qed

lemma fs_mounts_inserted:
  assumes "fs_boot s A"
  shows "\<exists>a b p q m A'. list_insert (mount_point_head s) (mount_point_root s) s = Inr (a, p)
    \<and> list_insert (mount_point_head s) (mount_point_dev s) p = Inr (b, q) \<and> q = s\<lparr>mem := m\<rparr>
    \<and> mounts_at s a b m \<and> heap_inv q A' \<and> A' \<subseteq> A \<and> pages_left s \<le> pages_left q + 2 \<and> list_area (mount_point_head s) [a, b] \<inter> A' = {}
    \<and> list_area (mount_point_head s) [a, b] \<subseteq> A \<union> block (mount_point_head s) 4
    \<and> same_off (A \<union> block (mount_point_head s) 4) (mem s) m"
proof -
  let ?h = "mount_point_head s"
  have b: "heap_inv s A" "4 \<le> pages_left s" "list_at (mem s) ?h []" "list_area ?h [] \<inter> A = {}"
    using assms by (auto simp: fs_boot_def fs_ready_def fs_cells_def list_area_def)
  obtain a p A1 where r1: "list_insert ?h (mount_point_root s) s = Inr (a, p)" "list_at (mem p) ?h [a]"
    "node_data (mem p) a = mount_point_root s" "heap_inv p A1" "list_area ?h [a] \<inter> A1 = {}" "A1 \<subseteq> A"
    "pages_left s \<le> Suc (pages_left p)" "same_off (A \<union> list_area ?h []) (mem s) (mem p)" "block a 12 \<subseteq> A"
    using list_insert_heap [OF b(1) _ b(3,4), of "mount_point_root s"] b(2) by (auto simp: inserted_def)
  have st: "list_at (mem p) ?h [a]" "list_area ?h [a] \<inter> A1 = {}" by fact+
  obtain b q A2 where r2: "list_insert ?h (mount_point_dev s) p = Inr (b, q)" "list_at (mem q) ?h [a, b]"
    "node_data (mem q) b = mount_point_dev s" "heap_inv q A2" "list_area ?h [a, b] \<inter> A2 = {}" "A2 \<subseteq> A1"
    "pages_left p \<le> Suc (pages_left q)" "same_off (A1 \<union> list_area ?h [a]) (mem p) (mem q)" "block b 12 \<subseteq> A1"
    "node_data (mem q) a = node_data (mem p) a"
    using list_insert_heap [OF r1(4) _ st, of "mount_point_dev s"] r1(7) b(2) by (auto simp: inserted_def)
  have "mem_only s q" using r1(1) r2(1) by (blast intro: list_insert_mem_only mem_only_trans)
  then obtain m where m: "q = s\<lparr>mem := m\<rparr>" by (rule mem_onlyE)
  have area: "list_area ?h [a] \<subseteq> A \<union> block ?h 4" "list_area ?h [a, b] \<subseteq> A \<union> block ?h 4" "list_area ?h [] = block ?h 4"
    using r1(6,9) r2(9) by (auto simp: list_area_def)
  have "same_off (A \<union> block ?h 4) (mem s) (mem p)" using r1(8) area(3) by simp
  moreover have "same_off (A \<union> block ?h 4) (mem p) (mem q)" by (rule same_off_mono [OF r2(8)]) (use r1(6) area(1) in blast)
  ultimately have off: "same_off (A \<union> block ?h 4) (mem s) m" using same_off_trans m by simp
  have "A2 \<subseteq> A" "pages_left s \<le> pages_left q + 2" using r1(6,7) r2(6,7) by auto
  moreover have "mounts_at s a b m" using r2(2,3,10) r1(3) m by (simp add: mounts_at_def)
  ultimately show ?thesis using r1(1) r2(1,4,5) m area(2) off
    by (intro exI [of _ a] exI [of _ b] exI [of _ p] exI [of _ q] exI [of _ m] exI [of _ A2]) simp
qed

lemma fs_init_ok:
  assumes "fs_boot s A"
  shows "\<exists>m A' F. fs_init s = Inr (s\<lparr>mem := m\<rparr>) \<and> heap_inv (s\<lparr>mem := m\<rparr>) A' \<and> A' \<subseteq> A
    \<and> pages_left s \<le> pages_left (s\<lparr>mem := m\<rparr>) + 4 \<and> same_off (A \<union> fs_cells s) (mem s) m
    \<and> F \<subseteq> A \<union> fs_cells s \<and> F \<inter> A' = {} \<and> rests_on (fs_tables s) F m"
proof -
  let ?h = "mount_point_head s" and ?c = "fs_driver_head s"
  obtain a b p q m A1 where l: "list_insert ?h (mount_point_root s) s = Inr (a, p)"
    "list_insert ?h (mount_point_dev s) p = Inr (b, q)" "q = s\<lparr>mem := m\<rparr>" "mounts_at s a b m" "heap_inv q A1" "A1 \<subseteq> A"
    "pages_left s \<le> pages_left q + 2" "list_area ?h [a, b] \<inter> A1 = {}" "list_area ?h [a, b] \<subseteq> A \<union> block ?h 4"
    "same_off (A \<union> block ?h 4) (mem s) m"
    using fs_mounts_inserted [OF assms] by blast
  have p: "mount_point_head p = ?h" "mount_point_dev p = mount_point_dev s" using list_insert_mem_only [OF l(1)]
    by (auto elim!: mem_onlyE)
  have cell: "root_cell (mem s) ?c Leaf A" "block ?h 4 \<inter> block ?c 4 = {}" "block ?c 4 \<inter> A = {}" "2 \<le> pages_left q"
    using assms l(7) by (auto simp: fs_boot_def fs_ready_def root_cell_def)
  have "same_on (block ?c 4) (mem s) m" by (rule same_off_on [OF l(10)]) (use cell in blast)
  from root_cell_frame [OF cell(1) this l(6)] have in0: "bst_in ?c q Leaf A1" using l(3,5) by (simp add: bst_in_def tnodes_ok_def)
  obtain s1 s2 A2 F where r: "bst_add ?c (minix_fs_drv s) 1 q = Inr s1" "bst_add ?c (devfs_fs_drv s) 2 s1 = Inr s2" "mem_only q s1" "mem_only q s2"
    "heap_inv s2 A2" "A2 \<subseteq> A1" "pages_left q \<le> pages_left s2 + 2" "same_off (A1 \<union> block ?c 4) (mem q) (mem s2)"
    "F \<subseteq> A1 \<union> block ?c 4" "F \<inter> A2 = {}" "rests_on (finds_two ?c (minix_fs_drv s) (devfs_fs_drv s)) F (mem s2)"
    using bst_add_two [OF in0 cell(4), of "minix_fs_drv s" "devfs_fs_drv s"] by blast
  obtain m1 m2 where m: "s1 = s\<lparr>mem := m1\<rparr>" "s2 = s\<lparr>mem := m2\<rparr>" using r(3,4) l(3) by (auto elim!: mem_onlyE)
  have off2: "same_off (A1 \<union> block ?c 4) m m2" using r(8) m l(3) by simp
  let ?L = "list_area ?h [a, b]"
  have "same_on ?L m m2" by (rule same_off_on [OF off2]) (use l(8,9) cell in blast)
  then have "rests_on (\<lambda>m. \<exists>a b. mounts_at s a b m) ?L m2" by (rule rests_on_frame [OF mounts_at_rests [OF l(4)]])
  from rests_on_conj [OF this] have "rests_on (fs_tables s) (?L \<union> F) m2" using r(11) m by (simp add: fs_tables_def [abs_def])
  moreover have "fs_init s = Inr (s\<lparr>mem := m2\<rparr>)" using l(1-3) p r(1,2) m by (simp add: fs_init_def)
  moreover have "same_off (A \<union> fs_cells s) (mem s) m2"
    by (rule same_off_trans [OF same_off_mono [OF l(10)] same_off_mono [OF off2]]) (use l(6) in \<open>auto simp: fs_cells_def\<close>)
  moreover have "?L \<union> F \<subseteq> A \<union> fs_cells s" "(?L \<union> F) \<inter> A2 = {}" "A2 \<subseteq> A" using l(6,8,9) r(6,9,10) by (auto simp: fs_cells_def)
  moreover have "pages_left s \<le> pages_left s2 + 4" using l(7) r(7) by simp
  ultimately show ?thesis using r(5) m by (intro exI [of _ m2] exI [of _ A2] exI [of _ "?L \<union> F"]) simp
qed

interpretation fs_service: service fs_init mem heap_inv pages_left fs_ready fs_cells 4 fs_tables
proof unfold_locales
  fix s :: "'a vfs_sys_scheme" and A
  assume "heap_inv s A" "4 \<le> pages_left s" "fs_ready s A" "fs_cells s \<inter> A = {}"
  then have "fs_boot s A" by (simp add: fs_boot_def)
  from fs_init_ok [OF this] obtain m A' F where "fs_init s = Inr (s\<lparr>mem := m\<rparr>)" "heap_inv (s\<lparr>mem := m\<rparr>) A'" "A' \<subseteq> A"
    "pages_left s \<le> pages_left (s\<lparr>mem := m\<rparr>) + 4" "same_off (A \<union> fs_cells s) (mem s) m"
    "F \<subseteq> A \<union> fs_cells s" "F \<inter> A' = {}" "rests_on (fs_tables s) F m" by blast
  then show "\<exists>s' A' F. fs_init s = Inr s' \<and> heap_inv s' A' \<and> A' \<subseteq> A \<and> pages_left s \<le> pages_left s' + 4
      \<and> same_off (A \<union> fs_cells s) (mem s) (mem s') \<and> F \<subseteq> A \<union> fs_cells s \<and> F \<inter> A' = {} \<and> rests_on (fs_tables s) F (mem s')"
    by (intro exI [of _ "s\<lparr>mem := m\<rparr>"] exI [of _ A'] exI [of _ F]) simp
qed

section \<open>Resolution on the kernel's own tables\<close>

text \<open>
  The initialisers of the static mount points and drivers: \<open>/\<close> for the first driver, \<open>/dev\<close> for
  the second, and no functions in either.
\<close>

definition static_mount :: "memory \<Rightarrow> addr \<Rightarrow> u8 list \<Rightarrow> u32 \<Rightarrow> bool" where
  "static_mount m p path drv \<longleftrightarrow> mapped p \<and> unat p + 12 \<le> 2 ^ 32 \<and> unat (mount_path m p) + length path \<le> 2 ^ 32
     \<and> mount_path_len m p = of_nat (length path) \<and> mount_driver_id m p = drv \<and> bytes_at m (mount_path m p) (length path) = path"

definition static_driver :: "memory \<Rightarrow> addr \<Rightarrow> bool" where
  "static_driver m p \<longleftrightarrow> mapped p \<and> unat p + 88 \<le> 2 ^ 32 \<and> drv_close m p = 0 \<and> drv_mkdir m p = 0 \<and> drv_open m p = 0
     \<and> drv_read m p = 0 \<and> drv_write m p = 0"

abbreviation (input) slash_dev :: "u8 list" where "slash_dev \<equiv> [0x2f, 0x64, 0x65, 0x76]"

definition fs_statics :: "'a vfs_sys_scheme \<Rightarrow> bool" where
  "fs_statics s \<longleftrightarrow> static_mount (mem s) (mount_point_root s) [0x2f] MINIX_FS_DRV
     \<and> static_mount (mem s) (mount_point_dev s) slash_dev DEVFS_FS_DRV
     \<and> static_driver (mem s) (minix_fs_drv s) \<and> static_driver (mem s) (devfs_fs_drv s)"

definition fs_static_area :: "'a vfs_sys_scheme \<Rightarrow> addr set" where
  "fs_static_area s = block (mount_point_root s) 12 \<union> block (mount_point_dev s) 12
     \<union> block (mount_path (mem s) (mount_point_root s)) 1 \<union> block (mount_path (mem s) (mount_point_dev s)) (length slash_dev)
     \<union> block (minix_fs_drv s) 88 \<union> block (devfs_fs_drv s) 88"

lemma static_mount_frame:
  assumes "static_mount m p path drv" and "same_on (block p 12) m m'" and "same_on (block (mount_path m p) (length path)) m m'"
  shows "static_mount m' p path drv"
proof -
  have p: "unat p + 12 \<le> 2 ^ 32" using assms(1) by (simp add: static_mount_def)
  have f: "load32 m' (p + j) = load32 m (p + j)" if "unat j + 4 \<le> 12" for j
    by (rule load32_same_on [OF assms(2)]) (use p that in \<open>auto simp: mem_block_iff unat_add_word\<close>)
  have "bytes_at m' (mount_path m p) (length path) = bytes_at m (mount_path m p) (length path)"
    by (rule bytes_at_same_on [OF assms(3)]) (use assms(1) in \<open>simp add: static_mount_def\<close>)
  then show ?thesis using assms(1) f [of 0] f [of 4] f [of 8] by (simp add: static_mount_def)
qed

lemma static_driver_frame:
  assumes "static_driver m p" and "same_on (block p 88) m m'"
  shows "static_driver m' p"
proof -
  have p: "unat p + 88 \<le> 2 ^ 32" using assms(1) by (simp add: static_driver_def)
  have f: "load32 m' (p + j) = load32 m (p + j)" if "unat j + 4 \<le> 88" for j
    by (rule load32_same_on [OF assms(2)]) (use p that in \<open>auto simp: mem_block_iff unat_add_word\<close>)
  show ?thesis using assms(1) f [of 28] f [of 52] f [of 60] f [of 68] f [of 84] by (simp add: static_driver_def)
qed

lemma fs_statics_frame:
  assumes "fs_statics s" and "same_on (fs_static_area s) (mem s) m"
  shows "fs_statics (s\<lparr>mem := m\<rparr>)"
proof -
  have sub: "same_on B (mem s) m" if "B \<subseteq> fs_static_area s" for B using assms(2) that by (rule same_on_mono)
  have "static_mount m (mount_point_root s) [0x2f] MINIX_FS_DRV"
    by (rule static_mount_frame [of "mem s"]) (use assms(1) in \<open>auto simp: fs_statics_def fs_static_area_def intro!: sub\<close>)
  moreover have "static_mount m (mount_point_dev s) slash_dev DEVFS_FS_DRV"
    by (rule static_mount_frame [of "mem s"]) (use assms(1) in \<open>auto simp: fs_statics_def fs_static_area_def intro!: sub\<close>)
  moreover have "static_driver m (minix_fs_drv s)" "static_driver m (devfs_fs_drv s)"
    by (rule static_driver_frame [of "mem s"]; use assms(1) in \<open>auto simp: fs_statics_def fs_static_area_def intro!: sub\<close>)+
  ultimately show ?thesis by (simp add: fs_statics_def)
qed

lemma best_mount_statics:
  assumes "fs_statics s"
  shows "snd (best_mount (mem s) path [mount_point_root s, mount_point_dev s] (0, 0))
    = (if bytes_at (mem s) path 4 = slash_dev then mount_point_dev s else if mem s path = 0x2f then mount_point_root s else 0)"
proof -
  have "mount_applies (mem s) path (mount_point_root s) \<longleftrightarrow> mem s path = 0x2f"
    using assms by (auto simp: fs_statics_def static_mount_def mount_applies_def)
  moreover have d: "mount_path_len (mem s) (mount_point_dev s) = 4"
    "bytes_at (mem s) (mount_path (mem s) (mount_point_dev s)) 4 = slash_dev"
    using assms by (simp_all add: fs_statics_def static_mount_def bytes_at_4 add.commute)
  then have "mount_applies (mem s) path (mount_point_dev s) \<longleftrightarrow> bytes_at (mem s) path 4 = slash_dev"
    by (auto simp: mount_applies_def)
  ultimately show ?thesis using assms by (auto simp: fs_statics_def static_mount_def bytes_at_4)
qed

text \<open>
  C12: after \<open>fs_init\<close> on a booted machine with the kernel's static tables, every search of a path
  ends with the device mount point exactly for the paths that start with the four bytes \<open>/dev\<close>
  (\<open>/device\<close> included), with the root mount point for the other absolute paths and with none for
  the rest; the driver registry resolves the two driver numbers and no other, and since no driver
  has functions yet every call through it is refused with \<open>-EPERM\<close>.
\<close>

theorem fs_init_resolves:
  assumes "fs_boot s A" and "fs_statics s" and "fs_static_area s \<inter> (A \<union> fs_cells s) = {}"
  shows "\<exists>m. fs_init s = Inr (s\<lparr>mem := m\<rparr>)
    \<and> (\<forall>path. \<exists>l. list_iter (load32 m (mount_point_head s)) get_fs_type_callback
           (s\<lparr>mem := m, path_swap := path, mp_swap := 0, most_long := 0\<rparr>)
         = Inr (s\<lparr>mem := m, path_swap := path, most_long := l,
             mp_swap := if bytes_at m path 4 = slash_dev then mount_point_dev s
               else if m path = 0x2f then mount_point_root s else 0\<rparr>))
    \<and> (\<forall>k. bst_search m (load32 m (fs_driver_head s)) k
         = Inr (if k = MINIX_FS_DRV then minix_fs_drv s else if k = DEVFS_FS_DRV then devfs_fs_drv s else 0))
    \<and> (\<forall>k \<in> {MINIX_FS_DRV, DEVFS_FS_DRV}. \<forall>f \<in> {drv_close, drv_mkdir, drv_open, drv_read, drv_write}. \<forall>args.
         call_driver drv f k args (s\<lparr>mem := m\<rparr>) = Inr (- EPERM, s\<lparr>mem := m\<rparr>))"
proof -
  obtain m where f: "fs_init s = Inr (s\<lparr>mem := m\<rparr>)" "same_off (A \<union> fs_cells s) (mem s) m" "fs_tables s m"
    using fs_init_ok [OF assms(1)] rests_on_now by blast
  obtain a b where i: "list_at m (mount_point_head s) [a, b]" "node_data m a = mount_point_root s" "node_data m b = mount_point_dev s"
    "\<And>k. bst_search m (load32 m (fs_driver_head s)) k
          = Inr (if k = MINIX_FS_DRV then minix_fs_drv s else if k = DEVFS_FS_DRV then devfs_fs_drv s else 0)"
    using f(3) by (auto simp: fs_tables_def mounts_at_def finds_two_def)
  have "same_on (fs_static_area s) (mem s) m" by (rule same_off_on [OF f(2)]) (use assms(3) in blast)
  then have st: "fs_statics (s\<lparr>mem := m\<rparr>)" by (rule fs_statics_frame [OF assms(2)])
  have "\<exists>l. list_iter (load32 m (mount_point_head s)) get_fs_type_callback
           (s\<lparr>mem := m, path_swap := path, mp_swap := 0, most_long := 0\<rparr>)
         = Inr (s\<lparr>mem := m, path_swap := path, most_long := l,
             mp_swap := if bytes_at m path 4 = slash_dev then mount_point_dev s
               else if m path = 0x2f then mount_point_root s else 0\<rparr>)" for path
  proof -
    let ?t = "s\<lparr>mem := m, path_swap := path, mp_swap := 0, most_long := 0\<rparr>"
    have "mapped (mount_point_root s)" "mapped (mount_point_dev s)" using st by (auto simp: fs_statics_def static_mount_def)
    then have "list_iter (load32 (mem ?t) (mount_point_head ?t)) get_fs_type_callback ?t
      = Inr (?t\<lparr>most_long := fst (best_mount m path [mount_point_root s, mount_point_dev s] (0, 0)),
               mp_swap := snd (best_mount m path [mount_point_root s, mount_point_dev s] (0, 0))\<rparr>)"
      using mount_search_run [of ?t "[a, b]"] i(1-3) by simp
    then show ?thesis using best_mount_statics [OF st, of path] by auto
  qed
  moreover have "call_driver drv f k args (s\<lparr>mem := m\<rparr>) = Inr (- EPERM, s\<lparr>mem := m\<rparr>)"
    if "k \<in> {MINIX_FS_DRV, DEVFS_FS_DRV}" "f \<in> {drv_close, drv_mkdir, drv_open, drv_read, drv_write}" for f k args
    using that st by (auto simp: call_driver_def i(4) fs_statics_def static_driver_def)
  ultimately show ?thesis using f(1) i(4) by blast
qed

text \<open>A file system state over a booted heap, with its static data and the cells of its pointers in the page below.\<close>

lemma fs_boot_state:
  obtains s A where "fs_boot (on_heap s two_mounts) A" and "fs_statics (on_heap s two_mounts)"
    and "fs_static_area (on_heap s two_mounts) \<inter> (A \<union> fs_cells (on_heap s two_mounts)) = {}"
proof -
  obtain s :: slab_sys and A where s: "heap_inv s A" "16 \<le> pages_left s" "block 0xc0000000 0x1000 \<inter> A = {}" using boot_low by blast
  let ?m = "store32 (store32 (mount_image (mem s)) 0xc0000800 0) 0xc0000804 0"
  have low: "block a n \<subseteq> block 0xc0000000 0x1000" if "0xc0000000 \<le> unat a" "unat a + n \<le> 0xc0001000" for a n
    using that by (intro block_mono) simp_all
  have off: "same_off (block 0xc0000000 0x1000) (mem s) ?m"
    using mount_image_low low by (intro same_off_store32) simp_all
  have "root_cell ?m 0xc0000804 Leaf A" using s(3) low [of "0xc0000804" 4] by (auto simp: root_cell_def mapped_def)
  moreover have "list_at ?m 0xc0000800 []" by (simp add: list_at_def dll_def nodes_ok_def mapped_def load32_store32_apart apart_def)
  moreover have "block 0xc0000800 4 \<inter> (A \<union> block 0xc0000804 4) = {}"
    using s(3) low [of "0xc0000800" 4] block_disjI [of "0xc0000800" 4 "0xc0000804" 4] by auto
  ultimately have boot: "fs_boot (on_heap (s\<lparr>mem := ?m\<rparr>) two_mounts) A"
    using s(2) boot_low_mem [OF s(1,3) off] unfolding fs_boot_def on_heap_inv
    by (auto simp: on_heap_def two_mounts_def char_sys.defs fs_ready_def fs_cells_def root_cell_def)
  have st: "fs_statics (on_heap (s\<lparr>mem := ?m\<rparr>) two_mounts)"
    by (simp add: fs_statics_def static_mount_def static_driver_def on_heap_def two_mounts_def char_sys.defs mapped_def
        load32_store32_apart apart_def bytes_at_4 store32_other)
  have ar: "fs_static_area (on_heap (s\<lparr>mem := ?m\<rparr>) two_mounts) \<subseteq> block 0xc0000a00 0x600"
    "fs_cells (on_heap (s\<lparr>mem := ?m\<rparr>) two_mounts) \<subseteq> block 0xc0000800 8"
    by (auto simp: fs_static_area_def fs_cells_def on_heap_def two_mounts_def char_sys.defs mem_block_iff load32_store32_apart apart_def)
  have "block 0xc0000a00 0x600 \<inter> (A \<union> block 0xc0000800 8) = {}"
    using s(3) low [of "0xc0000a00" "0x600"] block_disjI [of "0xc0000800" 8 "0xc0000a00" "0x600"] by auto
  then have "fs_static_area (on_heap (s\<lparr>mem := ?m\<rparr>) two_mounts) \<inter> (A \<union> fs_cells (on_heap (s\<lparr>mem := ?m\<rparr>) two_mounts)) = {}"
    using ar by blast
  then show thesis by (rule that [OF boot st])
qed

theorem fs_init_resolves_witness:
  "\<exists>(s :: vfs_sys) m. fs_init s = Inr (s\<lparr>mem := m\<rparr>) \<and> bst_search m (load32 m (fs_driver_head s)) 2 = Inr (devfs_fs_drv s)
     \<and> call_driver (\<lambda>f args s. Inr (0, s)) drv_open 2 [] (s\<lparr>mem := m\<rparr>) = Inr (- EPERM, s\<lparr>mem := m\<rparr>)"
proof -
  obtain s A where "fs_boot (on_heap s two_mounts) A" "fs_statics (on_heap s two_mounts)"
    "fs_static_area (on_heap s two_mounts) \<inter> (A \<union> fs_cells (on_heap s two_mounts)) = {}" by (rule fs_boot_state)
  from fs_init_resolves [OF this, of "\<lambda>f args s. Inr (0, s)"] obtain m
    where m: "fs_init (on_heap s two_mounts) = Inr ((on_heap s two_mounts)\<lparr>mem := m\<rparr>)"
      "bst_search m (load32 m (fs_driver_head (on_heap s two_mounts))) 2 = Inr (devfs_fs_drv (on_heap s two_mounts))"
      "call_driver (\<lambda>f args s. Inr (0, s)) drv_open 2 [] ((on_heap s two_mounts)\<lparr>mem := m\<rparr>)
        = Inr (- EPERM, (on_heap s two_mounts)\<lparr>mem := m\<rparr>)" by auto
  then show ?thesis by blast
qed

end
