(* ===== verification/Kernel_Boot.thy ===== *)
theory Kernel_Boot
  imports Drivers_Pci_Lookup Kernel_Sched_Start Fs_Vfs_Mount
begin

text \<open>
  The boot sequence as a composition of services: \<open>mm_init\<close> sets up the allocator, and the file
  system, the character devices, the timer and the scheduler start on it one after the other,
  each without harm to what the earlier ones established.
\<close>

section \<open>What one service leaves to the next\<close>

text \<open>The variables that the timer and the scheduler start from.\<close>

definition sched_vars :: "'a sched_sys_scheme \<Rightarrow> addr \<times> addr \<times> addr \<times> addr \<times> u32 \<times> u32 \<times> u32 \<times> addr" where
  "sched_vars s = (cpu_idt s, pit_int s, ioapic_addr s, tss_list s, used_index s, next_pid s, curr_index s, init_entry s)"

lemma sched_vars_keep:
  assumes "sched_vars s' = sched_vars s"
  shows "pit_ready s' A' = pit_ready s A" "pit_cells s' = pit_cells s" "timer_gate s' = timer_gate s"
    "sched_ready s' A' = sched_ready s A" "sched_cells s' = sched_cells s" "first_task s' = first_task s"
  using assms
  by (simp_all add: sched_vars_def pit_ready_def gate_addr_def timer_gate_def sched_ready_def table_ok_def first_task_def
      sched_ok_def pid_of_def status_of_def stack_of_def off_table_def task_def task_at_def fun_eq_iff)

lemma pit_init_vars: "pit_init s = Inr s' \<Longrightarrow> sched_vars s' = sched_vars s"
  by (auto simp: pit_init_def bindE_Inr_iff ioapic_enable_def ioapic_write_def Let_def io_defs mmio_write_def event_def
      sched_vars_def set_int_gate_def register_intr_def register_gate_def deref_def split: if_splits)

lemma char_init_vars: "char_init hw s = Inr s' \<Longrightarrow> sched_vars s' = sched_vars s"
proof -
  assume "char_init hw s = Inr s'"
  from arg_cong [OF char_init_rest [OF this], of sched_vars] show ?thesis by (simp add: sched_vars_def char_rest_def)
qed

lemma fs_init_mem_only [mem_only_intros]: "fs_init s = Inr s' \<Longrightarrow> mem_only s s'"
  by (auto simp: fs_init_def bindE_Inr_iff dest!: list_insert_mem_only bst_add_mem_only intro: mem_only_trans split: prod.splits)

lemma fs_init_vars: "fs_init s = Inr s' \<Longrightarrow> sched_vars s' = sched_vars s"
  by (auto simp: sched_vars_def dest!: fs_init_mem_only elim!: mem_onlyE)

text \<open>The variables that the character devices start from.\<close>

definition char_vars :: "'a char_sys_scheme \<Rightarrow> addr \<times> addr \<times> addr \<times> nat \<times> addr \<times> addr \<times> addr" where
  "char_vars s = (chardev_root s, biosdata s, ioapic_addr s, length (ttys s), fn_devmem_read s, fn_devmem_write s, fn_tty_write s)"

lemma char_vars_keep:
  assumes "char_vars s' = char_vars s"
  shows "char_cells s' = char_cells s" "drivers_at s' = drivers_at s"
    "char_ready s A \<Longrightarrow> same_on (char_cells s) (mem s) (mem s') \<Longrightarrow> A' \<subseteq> A \<Longrightarrow> char_ready s' A'"
proof -
  show "char_cells s' = char_cells s" "drivers_at s' = drivers_at s" using assms by (simp_all add: char_vars_def drivers_at_def fun_eq_iff)
  assume r: "char_ready s A" and on: "same_on (char_cells s) (mem s) (mem s')" and A: "A' \<subseteq> A"
  have "root_cell (mem s') (chardev_root s) Leaf A'"
    by (rule root_cell_frame [OF _ on A]) (use r in \<open>simp add: char_ready_def\<close>)
  then show "char_ready s' A'" using assms r by (simp add: char_vars_def char_ready_def)
qed

lemma fs_init_char_vars: "fs_init s = Inr s' \<Longrightarrow> char_vars s' = char_vars s"
  by (auto simp: char_vars_def dest!: fs_init_mem_only elim!: mem_onlyE)

lemma pit_init_tty: "pit_init s = Inr s' \<Longrightarrow> tty_vars s' = tty_vars s"
  by (auto simp: pit_init_def bindE_Inr_iff ioapic_enable_def ioapic_write_def Let_def io_defs mmio_write_def event_def
      tty_vars_def set_int_gate_def register_intr_def register_gate_def deref_def split: if_splits)

lemma palloc_tty: "palloc z n s = (p, s') \<Longrightarrow> tty_vars s' = tty_vars s" for s s' :: "'a tty_scheme"
  by (auto simp: tty_vars_def dest!: palloc_mem_only elim!: mem_onlyE)

lemma new_tss_tty: "new_tss entry s = Inr (t, s') \<Longrightarrow> tty_vars s' = tty_vars s"
  by (auto simp: new_tss_def Let_def deref_def tty_vars_def dest!: palloc_mem_only elim!: mem_onlyE split: if_splits prod.splits)

lemma sched_init_tty:
  assumes "sched_init s = Inr s'"
  shows "tty_vars s' = tty_vars s"
proof -
  let ?s0 = "s\<lparr>mem := clear_tasks 256 (tss_list s) (mem s)\<rparr>"
  obtain t s1 where n: "new_tss (init_entry s) ?s0 = Inr (t, s1)" using assms by (auto simp: sched_init_def bindE_Inr_iff)
  obtain p s2 where p: "palloc ZONE_KERNEL 4096 s1 = (p, s2)" by fastforce
  have "s' = s2\<lparr>worker_stack_top := p + 0xfff\<rparr>" using assms n p by (simp add: sched_init_def)
  then show ?thesis using new_tss_tty [OF n] palloc_tty [OF p] by (simp add: tty_vars_def)
qed

section \<open>The services in the order of \<open>kmain\<close>\<close>

abbreviation (input) timer_start :: "'a sched_sys_scheme \<Rightarrow> 'a sched_sys_scheme result" where
  "timer_start s \<equiv> bindE (pit_init s) sched_init"

abbreviation (input) timer_ready :: "'a sched_sys_scheme \<Rightarrow> addr set \<Rightarrow> bool" where
  "timer_ready s A \<equiv> pit_ready s A \<and> sched_ready s A \<and> pit_cells s \<inter> sched_cells s = {}"

abbreviation (input) timer_cells :: "'a sched_sys_scheme \<Rightarrow> addr set" where
  "timer_cells s \<equiv> pit_cells s \<union> sched_cells s"

abbreviation (input) timer_facts :: "'a sched_sys_scheme \<Rightarrow> memory \<Rightarrow> bool" where
  "timer_facts s m \<equiv> timer_gate s m \<and> first_task s m"

lemma timer_keep:
  assumes "sched_vars s' = sched_vars s" and "timer_ready s A"
  shows "timer_ready s' A'" "timer_cells s' = timer_cells s" "(\<lambda>m. timer_facts s' m) = (\<lambda>m. timer_facts s m)"
  using sched_vars_keep(1,4) [OF assms(1), of A' A] sched_vars_keep(2,3,5,6) [OF assms(1)] assms(2) by (simp_all del: unat_numeral)

interpretation timed: service_pair pit_init mem heap_inv pages_left pit_ready pit_cells 0 timer_gate
    sched_init sched_ready sched_cells 2 first_task
proof unfold_locales
  fix s s' :: "'a sched_sys_scheme" and A A' :: "addr set"
  assume i: "pit_init s = Inr s'" and "sched_ready s A"
  then show "sched_ready s' A' \<and> sched_cells s' = sched_cells s \<and> first_task s' = first_task s"
    using sched_vars_keep(4) [OF pit_init_vars [OF i], of A' A] sched_vars_keep(5,6) [OF pit_init_vars [OF i]] by simp
qed

interpretation devices: service_pair "char_init hw" mem heap_inv pages_left char_ready char_cells 5 drivers_at
    "\<lambda>s. timer_start s" "\<lambda>s A. timer_ready s A" "\<lambda>s. timer_cells s" "0 + 2" "\<lambda>s m. timer_facts s m" for hw
proof unfold_locales
  fix s s' :: "'a char_sys_scheme" and A A' :: "addr set"
  assume i: "char_init hw s = Inr s'" and r: "timer_ready s A"
  note k = timer_keep [OF char_init_vars [OF i] r]
  show "timer_ready s' A' \<and> timer_cells s' = timer_cells s \<and> (\<lambda>m. timer_facts s' m) = (\<lambda>m. timer_facts s m)"
    by (intro conjI k(2,3)) (use k(1) in blast)+
qed

interpretation boots: service_pair fs_init mem heap_inv pages_left fs_ready fs_cells 4 fs_tables
    "\<lambda>s. bindE (char_init hw s) timer_start"
    "\<lambda>s A. char_ready s A \<and> timer_ready s A \<and> char_cells s \<inter> timer_cells s = {}"
    "\<lambda>s. char_cells s \<union> timer_cells s" "5 + (0 + 2)" "\<lambda>s m. drivers_at s m \<and> timer_facts s m" for hw
proof unfold_locales
  fix s s' :: "'a vfs_sys_scheme" and A A' :: "addr set"
  assume i: "fs_init s = Inr s'" and r: "char_ready s A \<and> timer_ready s A \<and> char_cells s \<inter> timer_cells s = {}"
    and on: "same_on (char_cells s \<union> timer_cells s) (mem s) (mem s')" and A: "A' \<subseteq> A"
  have t: "timer_ready s A" using r by blast
  note k = timer_keep [OF fs_init_vars [OF i] t]
  note cv = char_vars_keep [OF fs_init_char_vars [OF i]]
  have "char_ready s' A'" by (rule cv(3) [OF _ same_on_mono [OF on] A]) (use r in blast)+
  then have c: "char_ready s' A' \<and> char_cells s' = char_cells s \<and> drivers_at s' = drivers_at s" using cv(1,2) by blast
  have f: "(\<lambda>m. drivers_at s' m \<and> timer_facts s' m) = (\<lambda>m. drivers_at s m \<and> timer_facts s m)"
    using c fun_cong [OF k(3)] by (intro ext) metis
  show "(char_ready s' A' \<and> timer_ready s' A' \<and> char_cells s' \<inter> timer_cells s' = {})
      \<and> char_cells s' \<union> timer_cells s' = char_cells s \<union> timer_cells s
      \<and> (\<lambda>m. drivers_at s' m \<and> timer_facts s' m) = (\<lambda>m. drivers_at s m \<and> timer_facts s m)"
    using f c k(1) r unfolding k(2) by metis
qed

section \<open>The whole sequence\<close>

text \<open>The static cells of the services, what they must hold, and what they hold at the end.\<close>

definition boot_cells :: "'a vfs_sys_scheme \<Rightarrow> addr set" where
  "boot_cells s = fs_cells s \<union> (char_cells s \<union> timer_cells s)"

definition boot_ready :: "'a vfs_sys_scheme \<Rightarrow> addr set \<Rightarrow> bool" where
  "boot_ready s A \<longleftrightarrow> fs_ready s A \<and> char_ready s A \<and> timer_ready s A
     \<and> char_cells s \<inter> timer_cells s = {} \<and> fs_cells s \<inter> (char_cells s \<union> timer_cells s) = {}"

definition boot_facts :: "'a vfs_sys_scheme \<Rightarrow> memory \<Rightarrow> bool" where
  "boot_facts s m \<longleftrightarrow> fs_tables s m \<and> drivers_at s m \<and> timer_gate s m \<and> first_task s m"

lemma boot_rest_fields:
  assumes "boot_rest s' = boot_rest s"
  shows "sched_vars s' = sched_vars s" "char_vars s' = char_vars s" "tty_VRAM s' = tty_VRAM s" "fs_cells s' = fs_cells s"
    "fs_tables s' = fs_tables s" "mount_point_head s' = mount_point_head s" "fs_driver_head s' = fs_driver_head s"
  using arg_cong [OF assms, of sched_vars] arg_cong [OF assms, of char_vars] arg_cong [OF assms, of tty_VRAM]
    arg_cong [OF assms, of fs_cells] arg_cong [OF assms, of fs_tables] arg_cong [OF assms, of mount_point_head] arg_cong [OF assms, of fs_driver_head]
  by (simp_all add: boot_rest_def mm_rest_def sched_vars_def char_vars_def fs_cells_def fs_tables_def [abs_def] mounts_at_def)

lemma fs_ready_frame:
  assumes "boot_rest s' = boot_rest s" and "fs_ready s B" and "A \<subseteq> B" and "same_on (fs_cells s) (mem s) (mem s')"
  shows "fs_ready s' A"
proof -
  note f = boot_rest_fields(6,7) [OF assms(1)]
  have on: "same_on (block (mount_point_head s) 4) (mem s) (mem s')" "same_on (block (fs_driver_head s) 4) (mem s) (mem s')"
    using assms(4) by (auto simp: fs_cells_def intro: same_on_mono)
  have "list_at (mem s') (mount_point_head s) []"
    by (rule list_at_same_on) (use assms(2) on(1) in \<open>simp_all add: fs_ready_def list_area_def\<close>)
  moreover have "root_cell (mem s') (fs_driver_head s) Leaf A"
    by (rule root_cell_frame [OF _ on(2) assms(3)]) (use assms(2) in \<open>simp add: fs_ready_def\<close>)
  ultimately show ?thesis using assms(2) f by (simp add: fs_ready_def)
qed

lemma boot_rest_keep:
  assumes "boot_rest s' = boot_rest s" and "boot_ready s B" and "A \<subseteq> B" and "same_on (boot_cells s) (mem s) (mem s')"
  shows "boot_ready s' A" "boot_cells s' = boot_cells s" "boot_facts s' = boot_facts s"
proof -
  note f = boot_rest_fields [OF assms(1)]
  have t: "timer_ready s B" using assms(2) unfolding boot_ready_def by blast
  note k = timer_keep [OF f(1) t] and c = char_vars_keep [OF f(2)]
  show "boot_cells s' = boot_cells s" unfolding boot_cells_def k(2) c(1) f(4) ..
  show "boot_facts s' = boot_facts s" unfolding boot_facts_def fun_eq_iff c(2) f(5) using fun_cong [OF k(3)] by metis
  have on: "same_on (fs_cells s) (mem s) (mem s')" "same_on (char_cells s) (mem s) (mem s')"
    using assms(4) by (auto simp: boot_cells_def intro: same_on_mono)
  have "fs_ready s' A" by (rule fs_ready_frame [OF assms(1) _ assms(3) on(1)]) (use assms(2) in \<open>simp add: boot_ready_def\<close>)
  moreover have "char_ready s' A" by (rule c(3) [OF _ on(2) assms(3)]) (use assms(2) in \<open>simp add: boot_ready_def\<close>)
  ultimately show "boot_ready s' A" unfolding boot_ready_def k(2) c(1) f(4) using k(1) assms(2) unfolding boot_ready_def by blast
qed

text \<open>The services never touch the console's cursor and escape state.\<close>

lemma services_tty_vars:
  assumes "bindE (fs_init s) (\<lambda>s. bindE (char_init hw s) (\<lambda>s. bindE (pit_init s) sched_init)) = Inr s'"
  shows "tty_vars s' = tty_vars s"
proof -
  obtain s1 s2 s3 where r: "fs_init s = Inr s1" "char_init hw s1 = Inr s2" "pit_init s2 = Inr s3" "sched_init s3 = Inr s'"
    using assms by (auto simp: bindE_Inr_iff)
  have "tty_vars s1 = tty_vars s" using fs_init_mem_only [OF r(1)] by (auto simp: tty_vars_def elim!: mem_onlyE)
  moreover have "tty_vars s2 = tty_vars s1"
    using arg_cong [OF char_init_rest [OF r(2)], of tty_vars] by (simp add: char_rest_def tty_vars_def)
  moreover have "tty_vars s3 = tty_vars s2" by (rule pit_init_tty [OF r(3)])
  moreover have "tty_vars s' = tty_vars s3" by (rule sched_init_tty [OF r(4)])
  ultimately show ?thesis by simp
qed

lemma boots_started:
  assumes "heap_inv s A" and "11 \<le> pages_left s" and "boot_ready s A" and "boot_cells s \<inter> A = {}"
  shows "\<exists>s' A' F. bindE (fs_init s) (\<lambda>s. bindE (char_init hw s) (\<lambda>s. bindE (pit_init s) sched_init)) = Inr s' \<and> heap_inv s' A'
    \<and> A' \<subseteq> A \<and> pages_left s \<le> pages_left s' + 11 \<and> same_off (A \<union> boot_cells s) (mem s) (mem s')
    \<and> F \<subseteq> A \<union> boot_cells s \<and> rests_on (boot_facts s) F (mem s')"
proof -
  have f: "boot_facts s = (\<lambda>m. fs_tables s m \<and> drivers_at s m \<and> timer_facts s m)" by (simp add: fun_eq_iff boot_facts_def)
  have n: "4 + (5 + (0 + 2)) \<le> pages_left s" using assms(2) by simp
  have r: "fs_ready s A \<and> (char_ready s A \<and> timer_ready s A \<and> char_cells s \<inter> timer_cells s = {})
      \<and> fs_cells s \<inter> (char_cells s \<union> timer_cells s) = {}"
    using assms(3) unfolding boot_ready_def by blast
  have c: "(fs_cells s \<union> (char_cells s \<union> timer_cells s)) \<inter> A = {}" using assms(4) unfolding boot_cells_def .
  have e: "pages_left s' + (4 + (5 + (0 + 2))) = pages_left s' + 11" for s' :: "'a vfs_sys_scheme" by simp
  show ?thesis using boots.both.start_law [OF assms(1) n r c, of hw] unfolding f boot_cells_def e by blast
qed

lemma boot_rest_pci: "pci_rest s' = pci_rest s \<Longrightarrow> boot_rest s' = boot_rest s"
proof -
  assume "pci_rest s' = pci_rest s"
  from arg_cong [OF this, of boot_rest] show ?thesis by (simp add: boot_rest_def mm_rest_def pci_rest_def)
qed

text \<open>What the scan needs before \<open>mm_init\<close>: an empty list whose head is apart from everything else.\<close>

definition bus_ready :: "(u32 \<Rightarrow> u32) \<Rightarrow> addr \<Rightarrow> 'a vfs_sys_scheme \<Rightarrow> bool" where
  "bus_ready cfg ke s \<longleftrightarrow> list_at (mem s) (pci_device_list s) [] \<and> (\<forall>x \<in> set (pci_found cfg). class_known cfg x)
     \<and> block (pci_device_list s) 4 \<inter> (mm_area ke s \<union> screen (tty_VRAM s) \<union> boot_cells s) = {}"

lemma boot_messages: "plain (ascii (''hardware setup done'' @ [CHR 0x0a]))"
  by code_simp

lemma bus_ready_pci:
  assumes "kernel_image ke s" and "bus_ready cfg ke s" and "heap_inv s1 A" and "A \<subseteq> mm_area ke s" and "tty_idle s1" and "boot_rest s1 = boot_rest s"
    and "same_off (screen (tty_VRAM s) \<union> mm_area ke s) (mem s) (mem s1)" and "2 * length (pci_found cfg) \<le> pages_left s1"
  shows "pci_ready cfg s1 A" and "pci_device_list s1 = pci_device_list s" and "tty_VRAM s1 = tty_VRAM s"
proof -
  show h: "pci_device_list s1 = pci_device_list s" "tty_VRAM s1 = tty_VRAM s"
    using arg_cong [OF assms(6), of pci_device_list] arg_cong [OF assms(6), of tty_VRAM] by (simp_all add: boot_rest_def mm_rest_def)
  have b: "list_at (mem s) (pci_device_list s) []" "\<forall>x \<in> set (pci_found cfg). class_known cfg x"
    "block (pci_device_list s) 4 \<inter> (mm_area ke s \<union> screen (tty_VRAM s) \<union> boot_cells s) = {}"
    using assms(2) by (simp_all add: bus_ready_def)
  have "same_on (block (pci_device_list s) 4) (mem s) (mem s1)" by (rule same_off_on [OF assms(7)]) (use b(3) in blast)
  then have "list_at (mem s1) (pci_device_list s) []" using b(1) by (intro list_at_same_on [OF b(1)]) (simp add: list_area_def)
  moreover have "screen (tty_VRAM s) \<inter> mm_area ke s = {}" using assms(1) by (simp add: kernel_image_def)
  then have "screen (tty_VRAM s) \<inter> (A \<union> block (pci_device_list s) 4) = {}" "block (pci_device_list s) 4 \<inter> A = {}"
    using assms(4) b(3) by blast+
  ultimately show "pci_ready cfg s1 A" using assms(3,5,8) b(2) by (simp add: pci_ready_def h)
qed

lemma memory_and_bus:
  assumes "kernel_image ke s" and "image_pages ke s + 12 + 2 * length (pci_found cfg) \<le> zone_pages s"
    and "pci_config hw cfg" and "bus_ready cfg ke s"
  shows "\<exists>s1 s2 A F. mm_init hw ke s = Inr s1 \<and> pci_init hw s1 = Inr s2 \<and> heap_inv s2 A \<and> A \<subseteq> mm_area ke s
    \<and> zone_pages s \<le> pages_left s2 + (image_pages ke s + 12 + 2 * length (pci_found cfg)) \<and> tty_idle s2 \<and> boot_rest s2 = boot_rest s
    \<and> same_off (screen (tty_VRAM s) \<union> mm_area ke s \<union> block (pci_device_list s) 4) (mem s) (mem s2)
    \<and> F \<subseteq> mm_area ke s \<union> block (pci_device_list s) 4 \<and> F \<inter> A = {} \<and> rests_on (pci_listed cfg (pci_device_list s)) F (mem s2)"
proof -
  let ?h = "pci_device_list s" and ?n = "2 * length (pci_found cfg)" and ?scr = "screen (tty_VRAM s)"
  obtain s1 A1 where m: "mm_init hw ke s = Inr s1" "heap_inv s1 A1" "A1 \<subseteq> mm_area ke s"
    "zone_pages s \<le> pages_left s1 + (image_pages ke s + 12)" "tty_idle s1" "boot_rest s1 = boot_rest s"
    "same_off (?scr \<union> mm_area ke s) (mem s) (mem s1)"
    using mm_init_ok [OF assms(1)] by blast
  have left: "?n \<le> pages_left s1" using m(4) assms(2) by simp
  note b1 = bus_ready_pci [OF assms(1,4) m(2,3,5-7) left]
  obtain s2 A2 F where p: "pci_init hw s1 = Inr s2" "heap_inv s2 A2" "A2 \<subseteq> A1" "pages_left s1 \<le> pages_left s2 + ?n" "tty_idle s2"
    "pci_rest s2 = pci_rest s1" "same_off (A1 \<union> block ?h 4 \<union> ?scr) (mem s1) (mem s2)" "F \<subseteq> A1 \<union> block ?h 4" "F \<inter> A2 = {}"
    "rests_on (pci_listed cfg ?h) F (mem s2)"
    using pci_init_ok [OF assms(3) b1(1)] unfolding b1(2,3) by blast
  have "boot_rest s2 = boot_rest s" using boot_rest_pci [OF p(6)] m(6) by simp
  moreover have "same_off (?scr \<union> mm_area ke s \<union> block ?h 4) (mem s) (mem s2)"
    by (rule same_off_trans [OF same_off_mono [OF m(7)] same_off_mono [OF p(7)]]) (use m(3) in blast)+
  moreover have "A2 \<subseteq> mm_area ke s" "F \<subseteq> mm_area ke s \<union> block ?h 4" using m(3) p(3,8) by blast+
  moreover have "zone_pages s \<le> pages_left s2 + (image_pages ke s + 12 + ?n)" using m(4) p(4) by simp
  ultimately show ?thesis using m(1) p(1,2,5,9,10)
    by (intro exI [of _ s1] exI [of _ s2] exI [of _ A2] exI [of _ F] conjI)
qed

text \<open>
  C1: on a machine whose memory fits the kernel image and whose bus has a configuration space, with
  the static data of the services in place, the second half of \<open>kmain\<close> runs to its idle loop without
  a fault. The allocator it sets up is intact at the end and the pages it has used are counted; the
  list of the bus's devices, the mount table, the character devices, the gate of the timer and the
  task table with the first task are all there at once, none of them damaged by a service that
  started after it.
\<close>

theorem kmain_services_start:
  assumes "kernel_image ke s" and "image_pages ke s + 23 + 2 * length (pci_found cfg) \<le> zone_pages s"
    and "pci_config hw cfg" and "bus_ready cfg ke s"
    and "boot_ready s (mm_area ke s)" and "boot_cells s \<inter> (mm_area ke s \<union> screen (tty_VRAM s)) = {}"
  shows "\<exists>s' A. kmain_services hw ke s = Inr s' \<and> heap_inv s' A
    \<and> zone_pages s \<le> pages_left s' + (image_pages ke s + 23 + 2 * length (pci_found cfg)) \<and> tty_idle s'
    \<and> pci_listed cfg (pci_device_list s) (mem s') \<and> fs_tables s (mem s') \<and> drivers_at s (mem s')
    \<and> timer_gate s (mem s') \<and> first_task s (mem s')"
proof -
  let ?h = "pci_device_list s" and ?n = "2 * length (pci_found cfg)" and ?scr = "screen (tty_VRAM s)"
  have room: "image_pages ke s + 12 + ?n \<le> zone_pages s" using assms(2) by simp
  obtain s1 s2 A2 F2 where p: "mm_init hw ke s = Inr s1" "pci_init hw s1 = Inr s2" "heap_inv s2 A2" "A2 \<subseteq> mm_area ke s"
    "zone_pages s \<le> pages_left s2 + (image_pages ke s + 12 + ?n)" "tty_idle s2" "boot_rest s2 = boot_rest s"
    "same_off (?scr \<union> mm_area ke s \<union> block ?h 4) (mem s) (mem s2)" "F2 \<subseteq> mm_area ke s \<union> block ?h 4" "F2 \<inter> A2 = {}"
    "rests_on (pci_listed cfg ?h) F2 (mem s2)"
    using memory_and_bus [OF assms(1) room assms(3,4)] by blast
  have V: "tty_VRAM s2 = tty_VRAM s" by (rule boot_rest_fields(3) [OF p(7)])
  have sep: "?scr \<inter> mm_area ke s = {}" "block ?h 4 \<inter> (mm_area ke s \<union> ?scr \<union> boot_cells s) = {}"
    using assms(1,4) by (simp_all add: kernel_image_def bus_ready_def)
  have on2: "same_on (boot_cells s) (mem s) (mem s2)" by (rule same_off_on [OF p(8)]) (use assms(6) sep(2) in blast)
  note k = boot_rest_keep [OF p(7) assms(5) p(4) on2]
  have left2: "11 \<le> pages_left s2" and dis: "boot_cells s2 \<inter> A2 = {}" using p(4,5) assms(2,6) k(2) by auto
  obtain s3 A3 F where b: "bindE (fs_init s2) (\<lambda>s. bindE (char_init hw s) (\<lambda>s. bindE (pit_init s) sched_init)) = Inr s3" "heap_inv s3 A3"
    "A3 \<subseteq> A2" "pages_left s2 \<le> pages_left s3 + 11" "same_off (A2 \<union> boot_cells s) (mem s2) (mem s3)" "F \<subseteq> A2 \<union> boot_cells s"
    "rests_on (boot_facts s) F (mem s3)"
    using boots_started [OF p(3) left2 k(1) dis] unfolding k(2,3) by blast
  have "same_on F2 (mem s2) (mem s3)" by (rule same_off_on [OF b(5)]) (use p(9,10) sep(2) assms(6) in blast)
  then have f2: "rests_on (pci_listed cfg ?h) F2 (mem s3)" by (rule rests_on_frame [OF p(11)])
  have "tty_vars s3 = tty_vars s2" by (rule services_tty_vars [OF b(1)])
  then have i3: "tty_idle s3" "tty_VRAM s3 = tty_VRAM s" using tty_vars_idle [of s3 s2] p(6) V by (simp_all add: tty_vars_def)
  obtain s4 where q: "printk_lit hw (''hardware setup done'' @ [CHR 0x0a]) [] s3 = Inr s4" "tty_idle s4" "tty_step s3 s4"
    using printk_prints [OF i3(1) prints_ok_plain [OF boot_messages]] by blast
  have "?scr \<inter> A3 = {}" using sep(1) p(4) b(3) by blast
  note h4 = tty_step_heap [OF q(3) b(2), unfolded i3(2), OF this]
  have "same_off ?scr (mem s3) (mem s4)" using q(3) i3(2) by (simp add: tty_step_def)
  then have "same_on (F2 \<union> F) (mem s3) (mem s4)"
    by (rule same_off_on) (use p(4,9) b(6) sep assms(6) in blast)
  from rests_onD [OF rests_on_conj [OF f2 b(7)] this] have facts: "pci_listed cfg ?h (mem s4)" "boot_facts s (mem s4)" by simp_all
  have "kmain_services hw ke s = Inr (hlt (unlock_kernel s4))"
    using p(1,2) b(1) q(1) by (auto simp: kmain_services_def bindE_Inr_iff)
  moreover have "zone_pages s \<le> pages_left s4 + (image_pages ke s + 23 + ?n)" using p(5) b(4) h4(2) by simp
  ultimately show ?thesis using q(2) h4(1) facts
    by (intro exI [of _ "hlt (unlock_kernel s4)"] exI [of _ A3])
      (simp add: io_defs event_def boot_facts_def tty_idle_def tty_ok_def)
qed

text \<open>The same machine with the static data of every service inside the image.\<close>

definition image_kernel :: vfs_sys where
  "image_kernel = two_mounts\<lparr>mem := image_mem, kmem_kmem := 0xc0106000, quick_alloc_table := replicate 12 0,
     chardev_root := 0xc0106100, mount_point_head := 0xc0106110, fs_driver_head := 0xc0106120,
     pci_device_list := 0xc0106130\<rparr>"

lemmas image_kernel_defs = image_kernel_def two_mounts_def char_sys.defs char_state_def sched_sys.defs boot_sched_def pci_sys.defs
  two_devices_def cpu_sys.defs cpu_state_def acpi_sys.defs apic_state_def tty.defs fresh_tty_def

lemma image_kernel_simps [simp]:
  "mem image_kernel = image_mem" "kmem_kmem image_kernel = 0xc0106000" "quick_alloc_table image_kernel = replicate 12 0"
  "multiboot_config image_kernel = 0xc0009500" "tty_VRAM image_kernel = 0xc00b8000" "chardev_root image_kernel = 0xc0106100"
  "mount_point_head image_kernel = 0xc0106110" "fs_driver_head image_kernel = 0xc0106120" "cpu_idt image_kernel = 0xc0105000"
  "tss_list image_kernel = 0xc0110000" "ioapic_addr image_kernel = 0xbec00000" "biosdata image_kernel = 0xc0000400"
  "pci_device_list image_kernel = 0xc0106130"
  by (simp_all add: image_kernel_defs)

lemma image_kernel_idle: "tty_idle image_kernel"
  by (simp add: tty_idle_def tty_ok_def image_kernel_defs mapped_def)

lemma image_mem_cells: "load32 image_mem 0xc0106100 = 0" "load32 image_mem 0xc0106110 = 0" "load32 image_mem 0xc0106120 = 0"
  "load32 image_mem 0xc0106130 = 0"
  by (simp_all add: image_mem_def kmem_kmem_image_def Let_def load32_store32_apart apart_def) (simp_all add: load32_def)

lemma image_kernel_boots:
  "boot_ready image_kernel (mm_area 0xc0120800 image_kernel)"
  "boot_cells image_kernel \<inter> (mm_area 0xc0120800 image_kernel \<union> screen (tty_VRAM image_kernel)) = {}"
proof -
  have "fs_ready image_kernel (mm_area 0xc0120800 image_kernel)"
    by (auto simp: fs_ready_def list_at_def dll_def nodes_ok_def root_cell_def mapped_def image_mem_cells mm_area_def mem_block_iff)
  moreover have "char_ready image_kernel (mm_area 0xc0120800 image_kernel)"
    by (auto simp: char_ready_def root_cell_def mapped_def image_mem_cells mm_area_def mem_block_iff) (simp_all add: image_kernel_defs)
  moreover have "pit_ready image_kernel (mm_area 0xc0120800 image_kernel)" by (simp add: pit_ready_def mapped_def gate_addr_def)
  moreover have "sched_ready image_kernel (mm_area 0xc0120800 image_kernel)"
    by (simp add: sched_ready_def table_ok_def mapped_def) (simp add: image_kernel_defs)
  ultimately show "boot_ready image_kernel (mm_area 0xc0120800 image_kernel)"
    by (auto simp: boot_ready_def fs_cells_def gate_addr_def mem_block_iff)
  show "boot_cells image_kernel \<inter> (mm_area 0xc0120800 image_kernel \<union> screen (tty_VRAM image_kernel)) = {}"
    by (auto simp: boot_cells_def fs_cells_def gate_addr_def mem_block_iff mm_area_def screen_def)
qed

lemma image_kernel_bus: "bus_ready bridge_regs 0xc0120800 image_kernel"
proof -
  have "class_known bridge_regs (0, 0, 0)" by (simp add: class_known_def slot_class_def slot_reg_def pci_address_def bridge_regs_def)
  moreover have "list_at image_mem 0xc0106130 []" by (simp add: list_at_def dll_def nodes_ok_def mapped_def image_mem_cells)
  moreover have "block 0xc0106130 4 \<inter> (mm_area 0xc0120800 image_kernel \<union> screen 0xc00b8000 \<union> boot_cells image_kernel) = {}"
    by (auto simp: boot_cells_def fs_cells_def gate_addr_def mem_block_iff mm_area_def screen_def)
  ultimately show ?thesis by (simp add: bus_ready_def bridge_found)
qed

theorem kmain_services_start_witness:
  "\<exists>s' A. kmain_services bridge_hw 0xc0120800 image_kernel = Inr s' \<and> heap_inv s' A \<and> 7998 \<le> pages_left s'
     \<and> pci_listed bridge_regs 0xc0106130 (mem s') \<and> fs_tables image_kernel (mem s') \<and> drivers_at image_kernel (mem s') \<and> timer_gate image_kernel (mem s') \<and> first_task image_kernel (mem s')"
proof -
  note i = image_machine [OF _ _ _ _ _ image_kernel_idle]
  have k: "kernel_image 0xc0120800 image_kernel" "zone_pages image_kernel = 8320" "image_pages 0xc0120800 image_kernel = 297"
    by (rule i; simp)+
  have n: "image_pages 0xc0120800 image_kernel + 23 + 2 * length (pci_found bridge_regs) \<le> zone_pages image_kernel" using k by (simp add: bridge_found)
  show ?thesis using kmain_services_start [OF k(1) n bridge_config image_kernel_bus image_kernel_boots] k(2,3)
    by (fastforce simp: bridge_found)
qed

end
