(* ===== verification/Drivers_Char_Mem.thy ===== *)
theory Drivers_Char_Mem
  imports Drivers_Char_Reg
begin

text \<open>
  Reading the memory and port devices of \<open>drivers/char/devmem.c\<close> byte after byte.
\<close>

primrec devmem_reads :: "hardware \<Rightarrow> u16 \<Rightarrow> nat \<Rightarrow> 'a char_sys_scheme \<Rightarrow> (u32 list \<times> 'a char_sys_scheme) result" where
  "devmem_reads hw minor 0 s = Inr ([], s)"
| "devmem_reads hw minor (Suc n) s =
     bindE (devmem_read hw minor s) (\<lambda>(v, s). bindE (devmem_reads hw minor n s) (\<lambda>(vs, s). Inr (v # vs, s)))"

text \<open>The byte at an offset into the first mebibyte, with the offset cyclic.\<close>

definition mem_window :: "nat \<Rightarrow> addr" where
  "mem_window i = MEM_DEV_LO + of_nat (i mod 0x100000)"

lemma unat_mem_window: "unat (mem_window i) = 0xc0000000 + i mod 0x100000"
proof -
  have "i mod 0x100000 < 0x100000" by simp
  then show ?thesis using unat_add_of_nat [of MEM_DEV_LO "i mod 0x100000"] by (simp add: mem_window_def)
qed

lemma mem_window_mapped: "mapped (mem_window i)"
  by (simp add: mapped_def word_le_nat_alt unat_mem_window)

lemma mem_window_Suc: "(if mem_window i + 1 \<ge> MEM_DEV_HI then MEM_DEV_LO else mem_window i + 1) = mem_window (Suc i)"
proof -
  have lt: "i mod 0x100000 < 0x100000" by simp
  have u: "unat (mem_window i + 1) = 0xc0000000 + i mod 0x100000 + 1"
    using unat_add_word [of "mem_window i" 1] lt by (simp add: unat_mem_window)
  show ?thesis
  proof (cases "Suc (i mod 0x100000) = 0x100000")
    case True
    then have "Suc i mod 0x100000 = 0" by (simp add: mod_Suc)
    then show ?thesis using True u by (simp add: word_le_nat_alt mem_window_def)
  next
    case False
    then have m: "Suc i mod 0x100000 = Suc (i mod 0x100000)" by (simp add: mod_Suc)
    then have "\<not> mem_window i + 1 \<ge> MEM_DEV_HI" using False lt u by (simp add: word_le_nat_alt)
    moreover have "mem_window i + 1 = mem_window (Suc i)" using u unat_mem_window [of "Suc i"] m by (simp add: word_unat_eq_iff)
    ultimately show ?thesis by simp
  qed
qed

lemma devmem_read_window:
  "mem_ptr s = mem_window i \<Longrightarrow>
     devmem_read hw MINOR_DEVMEM_MEM s = Inr (scast (mem s (mem_window i)), s\<lparr>mem_ptr := mem_window (Suc i)\<rparr>)"
  using mem_window_Suc [of i] by (simp add: devmem_read_def mem_window_mapped Let_def)

text \<open>
  C31: successive reads of the memory device never fault and return, sign-extended, the bytes of the
  first mebibyte of kernel memory in order, starting again at its beginning after its end; the
  read position stays inside that window.
\<close>

theorem devmem_reads_window:
  assumes "mem_ptr s = mem_window i"
  shows "devmem_reads hw MINOR_DEVMEM_MEM n s
    = Inr (map (\<lambda>j. scast (mem s (mem_window (i + j)))) [0..<n], s\<lparr>mem_ptr := mem_window (i + n)\<rparr>)
    \<and> MEM_DEV_LO \<le> mem_window (i + n) \<and> mem_window (i + n) < MEM_DEV_HI"
proof
  have lt: "(i + n) mod 0x100000 < 0x100000" by simp
  show "MEM_DEV_LO \<le> mem_window (i + n) \<and> mem_window (i + n) < MEM_DEV_HI"
    using lt by (simp add: word_le_nat_alt word_less_nat_alt unat_mem_window)
  show "devmem_reads hw MINOR_DEVMEM_MEM n s
    = Inr (map (\<lambda>j. scast (mem s (mem_window (i + j)))) [0..<n], s\<lparr>mem_ptr := mem_window (i + n)\<rparr>)"
    using assms
  proof (induction n arbitrary: s i)
    case 0
    then show ?case by simp
  next
    case (Suc n)
    let ?t = "s\<lparr>mem_ptr := mem_window (Suc i)\<rparr>"
    have "map (\<lambda>j. scast (mem s (mem_window (i + j)))) [0..<Suc n]
        = scast (mem s (mem_window i)) # map (\<lambda>j. scast (mem s (mem_window (Suc i + j))) :: u32) [0..<n]"
      by (subst map_upt_Suc) simp
    then show ?case
      using Suc.IH [of ?t "Suc i"] devmem_read_window [OF Suc.prems, of hw] by (simp del: upt_Suc)
  qed
qed

theorem devmem_reads_window_witness:
  "devmem_reads zero_hw MINOR_DEVMEM_MEM 2 (char_state\<lparr>mem_ptr := 0xc00fffff\<rparr>)
    = Inr ([scast (mem char_state 0xc00fffff), scast (mem char_state 0xc0000000)], char_state\<lparr>mem_ptr := 0xc0000001\<rparr>)"
proof -
  have w: "mem_window 0xfffff = 0xc00fffff" "mem_window 0x100000 = 0xc0000000" "mem_window 0x100001 = 0xc0000001"
    by (simp_all add: mem_window_def)
  have "mem_ptr (char_state\<lparr>mem_ptr := 0xc00fffff\<rparr>) = mem_window 0xfffff" using w(1) by simp
  from devmem_reads_window [OF this, of zero_hw 2] show ?thesis by (simp add: w upt_rec)
qed

text \<open>
  The port device never starts again at its upper limit: the position is a signed short, which
  cannot reach \<open>PORT_DEV_HI\<close>, so it runs through all 65536 ports and wraps.
\<close>

theorem devmem_port_limit_dead:
  "devmem_read hw MINOR_DEVMEM_PORT s = Inr (r, s') \<Longrightarrow> port_ptr s' = port_ptr s + 1"
proof -
  have "sint (p :: u16) < PORT_DEV_HI" for p using sint_lt [of p] by simp
  then have "\<not> PORT_DEV_HI \<le> sint (p :: u16)" for p by (simp add: not_le)
  then show "devmem_read hw MINOR_DEVMEM_PORT s = Inr (r, s') \<Longrightarrow> port_ptr s' = port_ptr s + 1"
    by (auto simp: devmem_read_def inb_def Let_def event_def)
qed

end
