(* ===== verification/Drivers_Char_Serial.thy ===== *)
theory Drivers_Char_Serial
  imports Drivers_Char_Reg
begin

text \<open>
  What the setup of the serial lines does to the interrupt routing, and what a read of a line
  returns.
\<close>

lemma enable_pins_routes:
  "\<lbrakk>mapped (ioapic_addr s); mapped (ioapic_addr s + 16); i + n \<le> 24; q < 24\<rbrakk> \<Longrightarrow>
     \<exists>s'. enable_pins n i s = Inr s' \<and> redirection (ioapic_addr s) (io s') q
       = (if i \<le> q \<and> q < i + n then (Some (of_nat (q mod 14)), Some 0) else redirection (ioapic_addr s) (io s) q)"
proof (induction n arbitrary: i s)
  case (Suc n)
  have u: "(ucast (of_nat (i mod 14) :: u8) :: u32) = of_nat (i mod 14)"
    by (simp add: word_unat_eq_iff unat_ucast_u8 unat_of_nat)
  obtain s1 where s1: "ioapic_enable (of_nat (i mod 14)) (of_nat i) s = Inr s1" "ioapic_addr s1 = ioapic_addr s"
    "redirection (ioapic_addr s) (io s1) q = (if q = i then (Some (of_nat (i mod 14)), Some 0) else redirection (ioapic_addr s) (io s) q)"
    using ioapic_enable_redirects [of s i q "of_nat (i mod 14)"] Suc.prems unfolding u by auto
  obtain s' where "enable_pins n (Suc i) s1 = Inr s'" "redirection (ioapic_addr s) (io s') q
      = (if Suc i \<le> q \<and> q < Suc i + n then (Some (of_nat (q mod 14)), Some 0) else redirection (ioapic_addr s) (io s1) q)"
    using Suc.IH [of s1 "Suc i"] Suc.prems s1(2) by auto
  then show ?case using s1(1,3) by auto
qed auto

text \<open>
  \<open>serial_init\<close> routes every one of the 24 pins of the interrupt controller, unmasked, to a vector
  below 14: the vectors of the processor's exceptions. Whatever device a pin belongs to, its
  interrupt enters the handler of an exception, and all of these end in \<open>panic\<close>.
\<close>

theorem serial_init_routes_exceptions:
  assumes "mapped (biosdata s)" and "mapped (ioapic_addr s)" and "mapped (ioapic_addr s + 16)"
  shows "\<exists>s'. serial_init hw s = Inr s' \<and> (\<forall>q < 24. redirection (ioapic_addr s) (io s') q = (Some (of_nat (q mod 14)), Some 0))"
proof -
  let ?t = "init_coms hw 4 0 s"
  have b: "ioapic_addr ?t = ioapic_addr s" by (rule char_rest_fields(5) [OF serial_rest_fields(4) [OF init_coms_same]])
  obtain s' where s': "enable_pins 24 0 ?t = Inr s'" using enable_pins_ok [of ?t 24 0] assms b by auto
  have "redirection (ioapic_addr s) (io s') q = (Some (of_nat (q mod 14)), Some 0)" if "q < 24" for q
    using enable_pins_routes [of ?t 0 24 q] assms that s' by (simp add: b)
  then show ?thesis using s' assms(1) by (auto simp: serial_init_def)
qed

theorem serial_init_routes_exceptions_witness:
  "\<exists>s'. serial_init zero_hw char_state = Inr s' \<and> redirection (ioapic_addr char_state) (io s') 16 = (Some 2, Some 0)"
proof -
  have "mapped (biosdata char_state)" "mapped (ioapic_addr char_state)" "mapped (ioapic_addr char_state + 16)"
    by (simp_all add: char_state_def sched_sys.defs boot_sched_def pci_sys.defs two_devices_def cpu_sys.defs mapped_def)
  from serial_init_routes_exceptions [OF this, of zero_hw] obtain s' where "serial_init zero_hw char_state = Inr s'"
    "\<forall>q < 24. redirection (ioapic_addr char_state) (io s') q = (Some (of_nat (q mod 14)), Some 0)" by blast
  then show ?thesis by (intro exI [of _ s']) simp
qed

text \<open>
  \<open>serial_read\<close> answers only for a line that is absent: for one that is there the function ends
  without a value, and for every minor number outside 1 to 4 it reads past its table.
\<close>

theorem serial_read_no_value:
  "serial_read minor s = (if 1 \<le> sint minor \<and> sint minor \<le> 4
     then Inr (if serial_ports s ! nat (sint minor - 1) = 0 then Some (- ENODEV) else None) else Inl Out_Of_Bounds)"
  by (auto simp: serial_read_def Let_def)

end
