(* ===== verification/Drivers_Block_Probe.thy ===== *)
theory Drivers_Block_Probe
  imports Drivers_Block
begin

text \<open>
  The polling loop of \<open>identify_ata\<close> in \<open>drivers/block/ata.c\<close> has no timeout.
\<close>

lemma ata_poll_busy:
  assumes "\<And>t. hw_in8 hw t (port + 7) AND 0x81 = 0x80"
  shows "ata_poll hw port s = None"
proof -
  have err: "hw_in8 hw t (port + 7) AND 1 = 0" for t
  proof -
    have "hw_in8 hw t (port + 7) AND 1 = (hw_in8 hw t (port + 7) AND 0x81) AND 1" by (simp add: and.assoc)
    then show ?thesis by (simp add: assms)
  qed
  have bsy: "hw_in8 hw t (port + 7) AND 0x80 \<noteq> 0" for t
  proof -
    have "hw_in8 hw t (port + 7) AND 0x80 = (hw_in8 hw t (port + 7) AND 0x81) AND 0x80" by (simp add: and.assoc)
    then show ?thesis by (simp add: assms)
  qed
  have "False" if "ata_poll hw port s = Some r" for r
    by (rule ata_poll.raw_induct [where P = "\<lambda>h p s r. h = hw \<and> p = port \<longrightarrow> False", OF _ that, simplified])
      (auto simp: inb_def Let_def err bsy split: if_splits)
  then show ?thesis by (cases "ata_poll hw port s") auto
qed

text \<open>
  The probe of a drive that stays busy without ever reporting an error does not return.
\<close>

theorem identify_ata_busy_hangs:
  assumes "\<And>t. hw_in8 hw t (port + 7) AND 0x81 = 0x80"
  shows "identify_ata hw port dev target s = Inl Diverges"
proof -
  have "hw_in8 hw t (port + 7) \<noteq> 0" for t using assms [of t] by auto
  then show ?thesis
    by (simp add: identify_ata_def Let_def inb_def ata_poll_busy [OF assms])
qed

definition busy_hw :: hardware where
  "busy_hw = zero_hw\<lparr>hw_in8 := (\<lambda>_ _. 0x80)\<rparr>"

theorem identify_ata_busy_hangs_witness: "\<forall>s :: block_sys. identify_ata busy_hw PRIM_CHNN_BASE 0xa0 0xc0001000 s = Inl Diverges"
  by (intro allI identify_ata_busy_hangs) (simp add: busy_hw_def)

end
