(* ===== verification/Fs_Vfs_Open.thy ===== *)
theory Fs_Vfs_Open
  imports Fs_Vfs_Mount Mm_Slab_Free
begin

text \<open>
  Opening a file on the heap as it is after boot: path resolution copies the path into a buffer of
  its own and frees it, which meets the defect of \<open>kfree\<close> on the first object of a new slab.
\<close>

section \<open>The first object of a slab\<close>

lemma first_object_faults:
  assumes "heap_ok s (xs @ c # ys) k" and "c_cur c = None" and "k < unat (kernel_mem_pages s)"
  shows "\<exists>p m. alloc_from_kmem (c_addr c) s = Inr (p, s\<lparr>mem := m\<rparr>) \<and> mapped p \<and> unat p + c_size c \<le> 2 ^ 32
    \<and> block p (c_size c) \<subseteq> owned s (xs @ c # ys) k \<and> same_off (owned s (xs @ c # ys) k) (mem s) m
    \<and> (\<forall>t :: 'a slab_sys_scheme. same_off (block p (c_size c)) m (mem t) \<longrightarrow> kfree p t = Inl (Page_Fault 0))"
proof -
  let ?S = "kernel_page (k - 1)" and ?A = "owned s (xs @ c # ys) k"
  let ?m1 = "set_status 1 (memmap_kernel s + of_nat k) MEM_USED (mem s)" and ?p = "slab_obj ?S (c_count c) (c_size c) 0"
  note pg = heap_page [OF assms(1,3)]
  obtain m where m: "alloc_from_kmem (c_addr c) s = Inr (?p, s\<lparr>mem := m\<rparr>)"
    "cache_mem m (c\<lparr>c_cur := Some (?S, 1)\<rparr>)" "cache_geo (c\<lparr>c_cur := Some (?S, 1)\<rparr>)"
    "same_off (block (c_addr c) 28 \<union> block ?S (20 + 8 * c_count c)) ?m1 m"
    using heap_alloc_new [OF assms] by blast
  have geo: "20 + 8 * c_count c + c_size c * c_count c \<le> 4096" "2 \<le> c_count c" "1 \<le> c_size c"
    using m(3) by (auto simp: cache_geo_def)
  have "c_size c * 2 \<le> c_size c * c_count c" using geo(2) by (intro mult_le_mono2)
  then have sz: "20 + 8 * c_count c + c_size c < 4096" using geo by linarith
  have u: "unat ?p = heap_top k + (20 + 8 * c_count c)" using unat_slab_obj [OF pg(3), of "c_count c" "c_size c" 0] pg(2) sz by simp
  have top: "heap_top k + 4096 \<le> 2 ^ 32" using page_aligned_bound [OF pg(3)] pg(2) by simp
  have out: "block ?p (c_size c) \<inter> (\<Union>r \<in> set (cache_regions (c\<lparr>c_cur := Some (?S, 1)\<rparr>)). rset r) = {}"
  proof -
    have "unat (c_addr c) + 28 \<le> heap_top k"
      using assms(1) unfolding heap_ok_def heap_regions_def by (auto simp: cache_regions_def)
    then show ?thesis using u pg(2) by (auto simp: cache_regions_def rset_def mem_block_iff)
  qed
  have "kfree ?p t = Inl (Page_Fault 0)" if "same_off (block ?p (c_size c)) m (mem t)" for t :: "'a slab_sys_scheme"
  proof -
    have "cache_mem (mem t) (c\<lparr>c_cur := Some (?S, 1)\<rparr>)"
      by (rule cache_mem_frame [OF m(2,3)]) (rule same_off_on [OF that out])
    then show ?thesis using kfree_first_faults [of t "c\<lparr>c_cur := Some (?S, 1)\<rparr>" ?S] m(3) pg(2) by (simp add: heap_top_def)
  qed
  moreover have "mapped ?p" using u by (simp add: mapped_def word_le_nat_alt heap_top_def)
  moreover have "block ?p (c_size c) \<subseteq> ?A" using u by (auto simp: owned_def mem_block_iff)
  moreover have "same_off ?A (mem s) m"
  proof (rule same_off_trans [OF same_off_mono [OF pg(7)] same_off_mono [OF m(4)]])
    show "rset (map_region s) \<subseteq> ?A" by (auto simp: owned_def heap_regions_def)
    show "block (c_addr c) 28 \<union> block ?S (20 + 8 * c_count c) \<subseteq> ?A"
      using pg(2) by (auto simp: owned_def heap_regions_def cache_regions_def block_rset rset_def)
  qed
  ultimately show ?thesis using m(1) u sz top by (intro exI [of _ ?p] exI [of _ m]) simp
qed

section \<open>Path resolution\<close>

lemma best_mount_in: "snd (best_mount m path mps b) \<in> insert (snd b) (set mps)"
  by (induction mps arbitrary: b) (auto, metis insert_iff snd_conv)+

text \<open>An absolute path outside the memory that the heap owns.\<close>

definition abs_path :: "'a vfs_sys_scheme \<Rightarrow> addr \<Rightarrow> u8 list \<Rightarrow> addr set \<Rightarrow> bool" where
  "abs_path s path w A \<longleftrightarrow> cstr (mem s) path w \<and> mem s path = 0x2f \<and> mapped path \<and> unat path + Suc (length w) \<le> 2 ^ 32
     \<and> block path (Suc (length w)) \<inter> A = {}"

text \<open>A mount table outside of it, whose prefixes end inside the mapped memory when they are cut off the path.\<close>

definition mount_table :: "'a vfs_sys_scheme \<Rightarrow> addr \<Rightarrow> addr list \<Rightarrow> addr set \<Rightarrow> bool" where
  "mount_table s path xs A \<longleftrightarrow> list_at (mem s) (mount_point_head s) xs \<and> list_area (mount_point_head s) xs \<inter> A = {}
     \<and> (\<forall>x \<in> set xs. mapped (node_data (mem s) x) \<and> unat (node_data (mem s) x) + 12 \<le> 2 ^ 32
          \<and> block (node_data (mem s) x) 12 \<inter> A = {} \<and> mapped (path + mount_path_len (mem s) (node_data (mem s) x)))"

lemma mount_table_frame:
  assumes "mount_table s path xs A" and "same_off A (mem s) (mem t)" and "mount_point_head t = mount_point_head s"
  shows "list_at (mem t) (mount_point_head t) xs"
    and "x \<in> set xs \<Longrightarrow> node_data (mem t) x = node_data (mem s) x"
    and "x \<in> set xs \<Longrightarrow> mount_path_len (mem t) (node_data (mem s) x) = mount_path_len (mem s) (node_data (mem s) x)"
proof -
  have on: "same_on (list_area (mount_point_head s) xs) (mem s) (mem t)"
    by (rule same_off_on [OF assms(2)]) (use assms(1) in \<open>auto simp: mount_table_def\<close>)
  then show at: "list_at (mem t) (mount_point_head t) xs"
    using assms(1,3) list_at_same_on by (auto simp: mount_table_def)
  show "node_data (mem t) x = node_data (mem s) x" if "x \<in> set xs"
    using node_data_same_on [OF _ on that] assms(1) by (simp add: mount_table_def)
  show "mount_path_len (mem t) (node_data (mem s) x) = mount_path_len (mem s) (node_data (mem s) x)" if "x \<in> set xs"
  proof (rule load32_same_off [OF assms(2)])
    have b: "unat (node_data (mem s) x) + 12 \<le> 2 ^ 32" "block (node_data (mem s) x) 12 \<inter> A = {}"
      using assms(1) that by (auto simp: mount_table_def)
    have "block (node_data (mem s) x + 4) 4 \<subseteq> block (node_data (mem s) x) 12"
      using b(1) by (auto simp: mem_block_iff unat_add_word)
    then show "block (node_data (mem s) x + 4) 4 \<inter> A = {}" using b(2) by blast
    show "unat (node_data (mem s) x + 4) + 4 \<le> 2 ^ 32" using b(1) by (simp add: unat_add_word)
  qed
qed

text \<open>The search leaves a mount point of the table, or none, and never faults.\<close>

lemma mount_table_search:
  assumes "mount_table s path xs A" and "same_off A (mem s) (mem t)" and "mount_point_head t = mount_point_head s"
    and "mp_swap t = 0" and "most_long t = 0"
  shows "\<exists>l mp. list_iter (load32 (mem t) (mount_point_head t)) get_fs_type_callback t = Inr (t\<lparr>most_long := l, mp_swap := mp\<rparr>)
    \<and> (mp = 0 \<or> mapped mp \<and> mapped (path + mount_path_len (mem t) mp))"
proof -
  note fr = mount_table_frame [OF assms(1-3)]
  let ?b = "best_mount (mem t) (path_swap t) (map (node_data (mem t)) xs) (0, 0)"
  have mp: "\<forall>x \<in> set xs. mapped (node_data (mem t) x)"
    using fr(2) assms(1) by (auto simp: mount_table_def)
  note r = mount_search_run [OF fr(1) mp assms(4,5)]
  have "snd ?b = 0 \<or> (\<exists>x \<in> set xs. snd ?b = node_data (mem t) x)"
    using best_mount_in [of "mem t" "path_swap t" "map (node_data (mem t)) xs" "(0, 0)"] by auto
  then have "snd ?b = 0 \<or> mapped (snd ?b) \<and> mapped (path + mount_path_len (mem t) (snd ?b))"
    using assms(1) fr(2,3) by (auto simp: mount_table_def)
  then show ?thesis using r by blast
qed

text \<open>A request that a size class without a current slab serves.\<close>

definition fresh_class :: "'a slab_sys_scheme \<Rightarrow> u32 \<Rightarrow> cache list \<Rightarrow> cache \<Rightarrow> cache list \<Rightarrow> nat \<Rightarrow> bool" where
  "fresh_class s sz cs c ds k \<longleftrightarrow> heap_ok s (cs @ c # ds) k \<and> c_cur c = None \<and> k < unat (kernel_mem_pages s)
     \<and> unat sz \<le> c_size c
     \<and> (case size_class 12 0 sz of None \<Rightarrow> False
        | Some i \<Rightarrow> i < length (quick_alloc_table s) \<and> quick_alloc_table s ! i = c_addr c)"

lemma fresh_class_kmalloc:
  assumes "fresh_class s sz cs c ds k"
  shows "kmalloc sz s = alloc_from_kmem (c_addr c) s"
proof -
  have "cache_geo c" using assms by (simp add: fresh_class_def heap_ok_def)
  then have g: "20 + 8 * c_count c + c_size c * c_count c \<le> 4096" "2 \<le> c_count c" by (auto simp: cache_geo_def)
  have "c_size c * 2 \<le> c_size c * c_count c" using g(2) by (intro mult_le_mono2)
  then have "c_size c \<le> 2048" using g(1) by linarith
  then have "\<not> 2048 < sz" using assms by (simp add: fresh_class_def word_less_nat_alt)
  then show ?thesis using assms by (auto simp: fresh_class_def kmalloc_def kmalloc_flags_def split: option.splits)
qed

lemma get_fs_type_faults:
  assumes "fresh_class s (of_nat (Suc (length w))) cs c ds k" and "A = owned s (cs @ c # ds) k"
    and "abs_path s path w A" and "mount_table s path xs A"
  shows "get_fs_type path s = Inl (Page_Fault 0)"
proof -
  let ?s = "s\<lparr>mp_swap := 0, most_long := 0\<rparr>" and ?n = "Suc (length w)"
  have fc: "fresh_class ?s (of_nat ?n) cs c ds k" and A: "A = owned ?s (cs @ c # ds) k"
    using assms(1,2) by (simp_all add: fresh_class_def heap_ok_def owned_def heap_regions_def map_region_def split: option.splits)
  have P: "cstr (mem s) path w" "mem s path = 0x2f" "mapped path" "unat path + ?n \<le> 2 ^ 32" "block path ?n \<inter> A = {}"
    using assms(3) by (auto simp: abs_path_def)
  obtain p m where p: "kmalloc (of_nat ?n) ?s = Inr (p, ?s\<lparr>mem := m\<rparr>)" "mapped p" "unat p + c_size c \<le> 2 ^ 32"
    "block p (c_size c) \<subseteq> A" "same_off A (mem s) m"
    "\<And>t :: 'a vfs_sys_scheme. same_off (block p (c_size c)) m (mem t) \<Longrightarrow> kfree p t = Inl (Page_Fault 0)"
    using first_object_faults [of ?s cs c ds k] fresh_class_kmalloc [OF fc] fc A by (auto simp: fresh_class_def)
  have lo: "0x80000000 \<le> unat path" using P(3) by (simp add: mapped_def word_le_nat_alt)
  then have n: "?n \<le> c_size c" using fc P(4) by (simp add: fresh_class_def unat_of_nat del: of_nat_Suc)
  then have sub: "block p ?n \<subseteq> block p (c_size c)" by (intro block_mono) simp_all
  have "same_on (block path ?n) (mem s) m" by (rule same_off_on [OF p(5)]) (use P(5) in blast)
  then have cs: "cstr m path w" using cstr_same_on P(1,4) by blast
  have "sep p ?n path ?n" using p(3,4) P(4,5) n sub by (intro sep_disjoint) auto
  then obtain m2 where m2: "strcpy m p path = Some (p, m2)" "same_off (block p ?n) m m2"
    using strcpy_cstr [OF cs] by blast
  define t where "t = ?s\<lparr>mem := m2, path_swap := p\<rparr>"
  have off: "same_off (block p (c_size c)) m m2" using m2(2) sub by (rule same_off_mono)
  have offA: "same_off A (mem s) (mem t)"
    using same_off_trans [OF p(5) same_off_mono [OF off p(4)]] by (simp add: t_def)
  obtain l mp where it: "list_iter (load32 (mem t) (mount_point_head t)) get_fs_type_callback t = Inr (t\<lparr>most_long := l, mp_swap := mp\<rparr>)"
    "mp = 0 \<or> mapped mp \<and> mapped (path + mount_path_len (mem t) mp)"
    using mount_table_search [OF assms(4) offA] by (auto simp: t_def)
  have len: "strlen (mem s) path + 1 = of_nat ?n" using strlen_cstr [OF P(1)] P(4) lo by simp
  have ab: "absolute_path path ?s = Inr (p, ?s\<lparr>mem := m2\<rparr>)"
    using P(2) p(1,2) m2(1) len by (simp add: absolute_path_def ends_def add.commute)
  have kf: "kfree p (t\<lparr>most_long := l, mp_swap := mp\<rparr>) = Inl (Page_Fault 0)" using off by (intro p(6)) (simp add: t_def)
  show ?thesis
  proof (cases "mp = 0")
    case True
    then show ?thesis using P(3) ab it kf by (simp add: get_fs_type_def Let_def t_def)
  next
    case False
    then show ?thesis using P(3) ab it kf by (simp add: get_fs_type_def Let_def t_def)
  qed
qed

text \<open>
  C38: opening a file or creating a directory under an absolute path page-faults at address 0 when
  the size class that the copy of the path is allocated from has no current slab, whatever is
  mounted: the copy is the first object of a new slab, and \<open>kfree\<close> cannot free it.
\<close>

theorem fs_open_fresh_class_faults:
  assumes "fresh_class s (of_nat (Suc (length w))) cs c ds k" and "A = owned s (cs @ c # ds) k"
    and "abs_path s path w A" and "mount_table s path xs A"
  shows "fs_open drv path oflag s = Inl (Page_Fault 0) \<and> fs_mkdir drv path mode s = Inl (Page_Fault 0)"
  using get_fs_type_faults [OF assms] by (simp add: fs_open_def fs_mkdir_def)

definition open_state :: vfs_sys where
  "open_state = on_heap (boot_slab\<lparr>mem := mount_image (mem boot_slab), quick_alloc_table := replicate 12 0xc0001000\<rparr>) two_mounts"

theorem fs_open_fresh_class_faults_witness:
  "fs_open (\<lambda>f args s. Inr (0, s)) 0xc0000b20 0 open_state = Inl (Page_Fault 0)"
proof -
  let ?c = "\<lparr>c_addr = kmem_kmem boot_slab, c_count = 113, c_size = 28, c_cur = None\<rparr>"
  let ?w = "[0x2f, 0x64, 0x65, 0x76, 0x69, 0x63, 0x65] :: u8 list"
  let ?A = "boot_area boot_slab 4"
  have low: "block 0xc0000000 0x1000 \<inter> ?A = {}" by (auto simp: boot_area_def boot_slab_def mem_block_iff heap_top_def)
  have own: "owned boot_slab [?c] 4 = ?A" by (rule slab_boot_inv(2) [OF boot_slab_boot])
  have "heap_ok boot_slab [?c] 4" using slab_boot_inv(1) [OF boot_slab_boot] by (simp add: init_inv_def)
  then have "heap_ok (boot_slab\<lparr>mem := mount_image (mem boot_slab)\<rparr>) [?c] 4"
    by (rule heap_ok_frame) (use same_off_on [OF mount_image_low low] own in simp)
  then have ok: "heap_ok open_state ([] @ ?c # []) 4" and own': "?A = owned open_state ([] @ ?c # []) 4"
    using own by (simp_all add: open_state_def on_heap_def heap_ok_def owned_def heap_regions_def map_region_def)
  have m: "mem open_state = mount_image (mem boot_slab)" "mount_point_head open_state = 0xc0000800"
    by (simp_all add: open_state_def on_heap_def two_mounts_def char_sys.defs)
  have "size_class 12 0 (8 :: u32) = Some 4" by code_simp
  then have fc: "fresh_class open_state (of_nat (Suc (length ?w))) [] ?c [] 4"
    using ok by (simp add: fresh_class_def open_state_def on_heap_def boot_slab_def)
  have sub: "block a n \<inter> ?A = {}" if "unat a \<ge> 0xc0000000" "unat a + n \<le> 0xc0001000" for a n
    using low that by (auto simp: mem_block_iff disjoint_iff)
  have path: "abs_path open_state 0xc0000b20 ?w ?A"
    using sub [of "0xc0000b20" "Suc (length ?w)"] by (simp add: abs_path_def m mapped_def)
  have mt: "mount_table open_state 0xc0000b20 [0xc0000a00, 0xc0000a10] ?A"
    using sub [of "0xc0000800" 4] sub [of "0xc0000a00" 12] sub [of "0xc0000a10" 12] sub [of "0xc0000a40" 12] sub [of "0xc0000a80" 12]
    by (simp add: mount_table_def m mount_image_list mapped_def list_area_def Int_Un_distrib2)
  show ?thesis using fs_open_fresh_class_faults [OF fc own' path mt] by simp
qed

end
