(* ===== verification/Spec2Isabelle.thy ===== *)
theory Spec2Isabelle
  imports Mm_Slab_Free Lib_Fifo_Alloc Lib_List Lib_Bst Char_Tty_Escape Kernel_Boot Drivers_Char_Mem Drivers_Char_Serial
    Drivers_Block_Probe Fs_Vfs_Open
begin

text \<open>
  A model of a small 32-bit x86 kernel and its correctness theorems. Every C function of the
  sources is a function of the same name on an explicit machine state.

  \<^bold>\<open>The machine.\<close> \<open>Prelude\<close> has the flat byte memory (a function from 32-bit addresses to bytes)
  with little-endian loads and stores, address ranges (\<open>block\<close>) and frames (\<open>same_on\<close>, \<open>same_off\<close>),
  and the faults a C function can end in: a page fault, a division by zero, an index outside an
  array, \<open>panic\<close>, undefined behaviour, a loop that never ends. These faults are how the model ends
  where C leaves the behaviour of the code open: the source has no check there, and a theorem about
  such a fault states a defect (as for the parameter buffer of the console). A page fault names the
  pointer that was followed, without the offset of the field. C structs live in the memory at
  their offsets; static variables are fields of records that extend each other in the order of
  the components (\<open>machine\<close>, \<open>buddy\<close>, \<open>slab_sys\<close>, \<open>tty\<close>, \<open>acpi_sys\<close>, \<open>cpu_sys\<close>, \<open>pci_sys\<close>,
  \<open>sched_sys\<close>, \<open>char_sys\<close>, \<open>vfs_sys\<close>, \<open>block_sys\<close>). \<open>Ring0\<close> is \<open>include/asm/ring0.h\<close>: each port or register access
  is an event of a trace, and what a device answers is a function \<open>hw\<close> of that trace and the port,
  an argument of every definition that reads a device.

  \<^bold>\<open>Library code.\<close> \<open>Lib_String\<close> (\<open>lib/string.c\<close>), \<open>Lib_Fifo\<close> and \<open>Lib_Fifo_Alloc\<close> (\<open>lib/fifo.c\<close>: a ring
  refines a bounded queue, the interface \<open>Queue\<close>), \<open>Lib_List\<close> (\<open>lib/list.c\<close>: insertion keeps the
  ring, iteration visits it once in order), \<open>Lib_Bst\<close> (\<open>lib/bst.c\<close>: search is total and correct on
  ordered trees, insertion without rotation refines a map update, the interface \<open>Registry\<close>; a
  rotation loses nodes). \<open>Heap_Clients\<close> lets lists and trees of several components share one heap.

  \<^bold>\<open>Memory.\<close> \<open>Mm_Linear\<close> and \<open>Mm_Mmap\<close> (\<open>mm/mmap.c\<close>: address translation, page table entries, mapping),
  \<open>Mm_Buddy\<close> (\<open>mm/buddy.c\<close>: page maps, what a sequence of allocations returns, release by physical
  and by linear address), \<open>Mm_Slab\<close> with
  \<open>Mm_Slab_Inv\<close>, \<open>Mm_Slab_Alloc\<close>, \<open>Mm_Slab_Free\<close> (\<open>mm/slab.c\<close>: the heap invariant, that \<open>slab_init\<close>
  establishes it and \<open>kmalloc\<close> keeps it, the interface \<open>Allocator\<close> with its client theorem, and the
  defects of \<open>kfree\<close>).

  \<^bold>\<open>Console and output.\<close> \<open>Char_Tty\<close> (\<open>drivers/char/tty.c\<close>), \<open>Char_Tty_Term\<close> (text refines an abstract
  scrolling terminal), \<open>Char_Tty_Escape\<close> (escape sequences, console switching), \<open>Kernel_Printk\<close> and
  \<open>Kernel_Printk_Lit\<close> (\<open>kernel/printk.c\<close>: termination and the exact output for every format string that
  specifies an output).

  \<^bold>\<open>Processor and buses.\<close> \<open>Kernel_Acpi\<close>, \<open>Kernel_Apic\<close>, \<open>Kernel_Cpu\<close> (\<open>kernel/acpi.c\<close>, \<open>apic.c\<close>, \<open>cpu.c\<close>:
  table search, interrupt routing, the interrupt table, the feature check, the device mapping),
  \<open>Drivers_Pci\<close> (\<open>drivers/pci.c\<close>) with \<open>Drivers_Pci_Scan\<close> (the scan on a bus with a given
  configuration space) and \<open>Drivers_Pci_Lookup\<close> (the device list it leaves behind and the lookups on it).

  \<^bold>\<open>Scheduler.\<close> \<open>Kernel_Sched\<close> (\<open>kernel/sched.c\<close>, \<open>kernel/time.c\<close>), \<open>Kernel_Sched_Inv\<close> (the invariant of
  the task table, what a tick saves and loads), \<open>Kernel_Sched_Run\<close> (timer ticks as a step relation,
  runs, records along a run), \<open>Kernel_Sched_Init\<close> (start, dispatch of every task, transparency of a tick,
  the overwritten frame), \<open>Kernel_Sched_Start\<close>
  (timer and scheduler as services of the boot sequence).

  \<^bold>\<open>Devices and files.\<close> \<open>Drivers_Char\<close> (\<open>drivers/char/chardev.c\<close>, \<open>devmem.c\<close>, \<open>serial.c\<close>) with
  \<open>Drivers_Char_Reg\<close> (what \<open>char_init\<close> registers), \<open>Drivers_Char_Mem\<close> (the memory device) and \<open>Drivers_Char_Serial\<close> (the
  routing of the interrupt pins),
  \<open>Drivers_Block\<close> (\<open>drivers/block/blkdev.c\<close>, \<open>ata.c\<close>) with \<open>Drivers_Block_Probe\<close>, \<open>Fs_Vfs\<close>
  (\<open>fs/vfs.c\<close>) with \<open>Fs_Vfs_Mount\<close> (the mount table, path resolution after \<open>fs_init\<close>) and
  \<open>Fs_Vfs_Open\<close> (opening a file on the real heap).

  \<^bold>\<open>Boot.\<close> \<open>Kernel_Main\<close> composes the components (\<open>mm/init.c\<close>, \<open>kernel/panic.c\<close>, \<open>interrupt.c\<close>, \<open>main.c\<close>).
  \<open>Service\<close> states what the boot sequence expects of a part that it starts: success on an intact
  allocator with enough pages left, writes to the allocator's memory and the part's own cells only,
  and facts about memory that the allocator never hands out again. The file system, the character
  devices, the timer and the scheduler are interpretations of it in their own theories, two services
  in a row are one service again, and \<open>Kernel_Boot\<close> chains the four behind \<open>mm_init\<close> (\<open>Kernel_Mm_Init\<close>)
  in the order of \<open>kmain\<close>. Right behind \<open>mm_init\<close> the PCI scan runs, on a bus
  whose configuration space is a parameter (\<open>pci_config\<close>); it needs at most two pages for each
  function that answers.

  \<^bold>\<open>Loops.\<close> A bounded loop is a primitive recursion on the rounds left or a function with a measure.
  A loop that may not end is a \<open>partial_function\<close> whose \<open>None\<close> means that it never returns; the
  theorems about those state that they return. No fuel is used. A C \<open>int\<close> whose overflow matters
  is an \<open>int\<close> checked by \<open>c_int\<close>, unsigned and fixed-width values are words.

  \<^bold>\<open>Interplay.\<close> The lists, trees, ring buffers, drivers and tasks all allocate from the one heap;
  \<open>char_init_devices\<close>, \<open>fs_init_resolves\<close>, \<open>sched_init_establishes\<close> and \<open>fs_open_fresh_class_faults\<close>
  are proved on the heap invariant that \<open>slab_init_establishes\<close> provides, and their witnesses run on
  the heap that \<open>slab_init\<close> builds from a small boot configuration; \<open>kmain_services_start\<close> puts the
  starts together from the boot loader's memory size on.

  \<^bold>\<open>Not modelled.\<close> The assembler files \<open>kernel/head.s\<close> and \<open>kernel/isr.s\<close> (entry, register save and
  restore around the C handlers; the cell \<open>esp_swap\<close> they share with the scheduler is a field of the
  state); the structures of \<open>include/multiboot.h\<close> that the kernel does not read; the empty
  \<open>test()\<close> of \<open>ata.c\<close>; headers that only declare constants no source file uses. Memory is mapped from
  0x80000000 on, as \<open>head.s\<close> and \<open>arch_init\<close> leave it, and no interrupt arrives in the middle of a
  modelled function: the kernel runs its handlers with interrupts disabled.
\<close>

end
